(* ===== verification/Prelude.thy ===== *)
theory Prelude
  imports "HOL-Library.Word"
begin

text \<open>
  Shared vocabulary of the development: the ways a C++ operation can fail, results as sums,
  the conversions between \<open>int32_t\<close> and \<open>size_t\<close>, and the list and arithmetic lemmas that the
  component theories use.

  \<^item> An \<open>int32_t\<close> (or \<open>int\<close>) is an \<open>int\<close> in the range \<open>i32\<close>; arithmetic that leaves the range
    is undefined behaviour in C++ and so the failure \<open>Undefined\<close>.
  \<^item> A \<open>size_t\<close> is a \<open>nat\<close>; an \<open>int32_t\<close> that meets a \<open>size_t\<close> in a comparison or a
    subtraction is converted modulo \<open>2 ^ 64\<close> first, and the subtraction wraps.
  \<^item> A byte is an \<open>8 word\<close>; a value of \<open>k\<close> bytes is an \<open>8 k\<close>-bit word, read as signed with
    \<open>sint\<close> or as unsigned with \<open>uint\<close>.
\<close>

unbundle bit_operations_syntax

named_theorems result_simps \<open>unfolding of the result monad\<close>
named_theorems conv_simps \<open>integer conversions on values in range\<close>

section \<open>Failures and results\<close>

text \<open>
  \<open>OutOfRange\<close> and \<open>LengthError\<close> are the exceptions of \<open>std::string\<close>; \<open>Undefined\<close> is undefined
  behaviour; \<open>AssertFailed\<close> is a failed \<open>assert\<close>; \<open>Terminate\<close> is a call of
  \<open>std::terminate\<close> (an exception that leaves a \<open>noexcept\<close> function, or the loss of a joinable
  thread).
\<close>

datatype failure = OutOfRange | LengthError | Undefined | AssertFailed | Terminate

type_synonym 'a result = "failure + 'a"
type_synonym byte = "8 word"
type_synonym bytes = "8 word list"

definition r_bind :: "'a result \<Rightarrow> ('a \<Rightarrow> 'b result) \<Rightarrow> 'b result" where
  "r_bind m f = (case m of Inl e \<Rightarrow> Inl e | Inr x \<Rightarrow> f x)"

definition r_assert :: "bool \<Rightarrow> 'a result \<Rightarrow> 'a result" where
  "r_assert p m = (if p then m else Inl AssertFailed)"

fun r_fold :: "('a \<Rightarrow> 's \<Rightarrow> 's result) \<Rightarrow> 'a list \<Rightarrow> 's \<Rightarrow> 's result" where
  "r_fold f [] s = Inr s"
| "r_fold f (x # xs) s = r_bind (f x s) (r_fold f xs)"

lemma r_bind_simps [simp, result_simps]:
  "r_bind (Inl e) f = Inl e"
  "r_bind (Inr x) f = f x"
  by (simp_all add: r_bind_def)

lemma r_bind_cong [fundef_cong]:
  "m = m' \<Longrightarrow> (\<And>x. m' = Inr x \<Longrightarrow> f x = g x) \<Longrightarrow> r_bind m f = r_bind m' g"
  by (cases m') simp_all

lemma r_bind_eq_Inr:
  "r_bind m f = Inr y \<longleftrightarrow> (\<exists>x. m = Inr x \<and> f x = Inr y)"
  by (cases m) auto

lemma r_bind_assoc: "r_bind (r_bind m f) g = r_bind m (\<lambda>x. r_bind (f x) g)"
  by (cases m) auto

lemma r_assert_simps [simp, result_simps]:
  "r_assert True m = m"
  "r_assert False m = Inl AssertFailed"
  by (simp_all add: r_assert_def)

lemma r_assert_eq_Inr [simp]: "r_assert p m = Inr y \<longleftrightarrow> p \<and> m = Inr y"
  by (simp add: r_assert_def)

lemma r_fold_fun: "r_fold f (x # xs) = (\<lambda>s. r_bind (f x s) (r_fold f xs))" "r_fold f [] = Inr"
  by (simp_all add: fun_eq_iff)

lemma r_bind_Inr: "r_bind m Inr = m"
  by (cases m) simp_all

lemma r_fold_append: "r_fold f (xs @ ys) s = r_bind (r_fold f xs s) (r_fold f ys)"
  by (induction xs arbitrary: s) (auto simp: r_bind_def split: sum.splits)

text \<open>The image of a result under a view of the state, and how it commutes with the operations above: a
  larger state refines a smaller one when \<open>r_map view (f x) = g (view x)\<close>.\<close>

definition r_map :: "('a \<Rightarrow> 'b) \<Rightarrow> 'a result \<Rightarrow> 'b result" where
  "r_map h m = r_bind m (\<lambda>x. Inr (h x))"

lemma r_map_simps [simp]:
  "r_map h (Inr x) = Inr (h x)" "r_map h (Inl e) = Inl e"
  "r_map h (if p then m else m') = (if p then r_map h m else r_map h m')"
  by (simp_all add: r_map_def)

lemma r_map_bind: "r_map h (r_bind m f) = r_bind m (\<lambda>x. r_map h (f x))"
  by (cases m) simp_all

lemma r_bind_map: "r_bind (r_map h m) f = r_bind m (\<lambda>x. f (h x))"
  by (cases m) simp_all

lemma r_map_fold:
  assumes "\<And>x l. r_map h (f x l) = g x (h l)"
  shows "r_map h (r_fold f xs l) = r_fold g xs (h l)"
proof (induction xs arbitrary: l)
  case (Cons x xs)
  then show ?case by (simp add: r_map_bind assms [symmetric] r_bind_map)
qed simp

lemma r_map_eq_Inr: "r_map h m = Inr y \<longleftrightarrow> (\<exists>x. m = Inr x \<and> h x = y)"
  by (cases m) auto

section \<open>Machine integers\<close>

definition i32 :: "int \<Rightarrow> bool" where
  "i32 i \<longleftrightarrow> - (2 ^ 31) \<le> i \<and> i < 2 ^ 31"

definition size_mod :: int where "size_mod = 2 ^ 64"

definition npos :: nat where "npos = 2 ^ 64 - 1"

text \<open>\<open>static_cast<size_t>(i)\<close>, the conversion done implicitly when an \<open>int32_t\<close> meets a
  \<open>size_t\<close>.\<close>

definition size_of_i32 :: "int \<Rightarrow> nat" where
  "size_of_i32 i = nat (i mod size_mod)"

text \<open>\<open>(int32_t)n\<close>: the conversion of a \<open>size_t\<close> keeps the low 32 bits.\<close>

definition i32_of_size :: "nat \<Rightarrow> int" where
  "i32_of_size n = signed_take_bit 31 (int n)"

text \<open>\<open>a - b\<close> and \<open>a + b\<close> on \<open>size_t\<close>.\<close>

definition size_sub :: "nat \<Rightarrow> nat \<Rightarrow> nat" where
  "size_sub a b = nat ((int a - int b) mod size_mod)"

definition size_add :: "nat \<Rightarrow> nat \<Rightarrow> nat" where
  "size_add a b = nat ((int a + int b) mod size_mod)"

text \<open>\<open>a + b\<close> and \<open>a - b\<close> on \<open>int\<close>: signed overflow is undefined.\<close>

definition i32_add :: "int \<Rightarrow> int \<Rightarrow> int result" where
  "i32_add a b = (if i32 (a + b) then Inr (a + b) else Inl Undefined)"

definition i32_sub :: "int \<Rightarrow> int \<Rightarrow> int result" where
  "i32_sub a b = (if i32 (a - b) then Inr (a - b) else Inl Undefined)"

lemma i32I: "0 \<le> i \<Longrightarrow> i < 2 ^ 31 \<Longrightarrow> i32 i"
  by (simp add: i32_def)

lemma size_of_i32_nonneg [conv_simps]: "0 \<le> i \<Longrightarrow> i < 2 ^ 31 \<Longrightarrow> size_of_i32 i = nat i"
  by (simp add: size_of_i32_def size_mod_def)

lemma size_of_i32_neg: "i < 0 \<Longrightarrow> i32 i \<Longrightarrow> 2 ^ 63 \<le> size_of_i32 i"
proof -
  assume "i < 0" and r: "i32 i"
  then have "i mod size_mod = (i + size_mod) mod size_mod" by simp
  also have "\<dots> = i + size_mod"
    using \<open>i < 0\<close> r by (intro mod_pos_pos_trivial) (auto simp: i32_def size_mod_def)
  finally show ?thesis
    using r by (simp add: size_of_i32_def size_mod_def i32_def nat_le_iff le_nat_iff)
qed

lemma size_sub_le [conv_simps]: "b \<le> a \<Longrightarrow> a < 2 ^ 64 \<Longrightarrow> size_sub a b = a - b"
  by (simp add: size_sub_def size_mod_def nat_diff_distrib')

lemma size_sub_gt: "a < b \<Longrightarrow> b < 2 ^ 64 \<Longrightarrow> size_sub a b = 2 ^ 64 + a - b"
proof -
  assume lt: "a < b" and "b < 2 ^ 64"
  then have b: "int b < 2 ^ 64" by simp
  have "(int a - int b) mod size_mod = (int a - int b + size_mod) mod size_mod" by simp
  also have "\<dots> = int a - int b + size_mod"
    using lt b by (intro mod_pos_pos_trivial) (auto simp: size_mod_def)
  finally show ?thesis using lt b by (simp add: size_sub_def size_mod_def nat_eq_iff)
qed

lemma size_add_less [conv_simps]: "a + b < 2 ^ 64 \<Longrightarrow> size_add a b = a + b"
  by (simp add: size_add_def size_mod_def nat_eq_iff)

lemma size_add_npos [simp]: "size_add npos 1 = 0"
  by (simp add: size_add_def npos_def size_mod_def)

lemma i32_of_size_small [conv_simps]: "n < 2 ^ 31 \<Longrightarrow> i32_of_size n = int n"
  by (simp add: i32_of_size_def signed_take_bit_int_eq_self_iff)

lemma i32_add_ok [conv_simps]: "i32 (a + b) \<Longrightarrow> i32_add a b = Inr (a + b)"
  by (simp add: i32_add_def)

lemma i32_sub_ok [conv_simps]: "i32 (a - b) \<Longrightarrow> i32_sub a b = Inr (a - b)"
  by (simp add: i32_sub_def)

end
