(* ===== verification/Contracts.thy ===== *)
theory Contracts
  imports Prelude
begin

text \<open>
  Interfaces that several components keep, each a locale with the lemmas its clients need:

  \<^item> \<open>guarded_ops\<close>: operations of one object, each of which may fail, that keep an invariant
    whenever their arguments are admissible. Every successful run then keeps it.
  \<^item> \<open>byte_channel\<close>: a bounded first-in first-out channel of bytes.
  \<^item> \<open>fixed_codec\<close>: an encoder and a decoder of a fixed width.
  \<^item> \<open>fifo_queue\<close>: a queue with an abstract list of its elements.

  The theories of the components interpret them on the definitions of the model.
\<close>

section \<open>Operations that keep an invariant\<close>

text \<open>A run of operations is \<open>r_fold step\<close>: it stops at the first failure.\<close>

locale guarded_ops =
  fixes step :: "'op \<Rightarrow> 's \<Rightarrow> 's result"
    and ok :: "'op \<Rightarrow> bool"
    and inv :: "'s \<Rightarrow> bool"
  assumes step_inv: "inv s \<Longrightarrow> ok x \<Longrightarrow> step x s = Inr s' \<Longrightarrow> inv s'"
begin

lemma run_inv:
  "inv s \<Longrightarrow> \<forall>x \<in> set xs. ok x \<Longrightarrow> r_fold step xs s = Inr s' \<Longrightarrow> inv s'"
proof (induction xs arbitrary: s)
  case (Cons x xs)
  then obtain t where "step x s = Inr t" "r_fold step xs t = Inr s'"
    by (auto simp: r_bind_eq_Inr)
  with Cons show ?case by (auto intro: step_inv)
qed simp

end

text \<open>With progress as well: an operation fails on no state of the invariant.\<close>

locale total_ops = guarded_ops +
  assumes step_total: "inv s \<Longrightarrow> ok x \<Longrightarrow> \<exists>s'. step x s = Inr s'"
begin

lemma run_total:
  "inv s \<Longrightarrow> \<forall>x \<in> set xs. ok x \<Longrightarrow> \<exists>s'. r_fold step xs s = Inr s' \<and> inv s'"
proof (induction xs arbitrary: s)
  case (Cons x xs)
  then obtain t where "step x s = Inr t" using step_total [of s x] by auto
  moreover from this Cons have "inv t" by (auto intro: step_inv)
  ultimately show ?case using Cons by auto
qed simp

end

section \<open>Byte channels\<close>

locale byte_channel =
  fixes ok :: "'c \<Rightarrow> bool"
    and content :: "'c \<Rightarrow> bytes"
    and used :: "'c \<Rightarrow> nat"
    and limit :: nat
    and put :: "bytes \<Rightarrow> 'c \<Rightarrow> 'c result"
    and get :: "nat \<Rightarrow> 'c \<Rightarrow> bytes result \<times> 'c"
  assumes put_law: "ok c \<Longrightarrow> used c + length b < limit \<Longrightarrow>
      \<exists>c'. put b c = Inr c' \<and> ok c' \<and> content c' = content c @ b \<and> used c' = used c + length b"
    and get_law: "ok c \<Longrightarrow> n \<le> length (content c) \<Longrightarrow>
      \<exists>c'. get n c = (Inr (take n (content c)), c') \<and> ok c' \<and> content c' = drop n (content c)
         \<and> used c' = used c"
begin

lemma put_many:
  "ok c \<Longrightarrow> used c + length (concat bs) < limit \<Longrightarrow>
   \<exists>c'. r_fold put bs c = Inr c' \<and> ok c' \<and> content c' = content c @ concat bs
      \<and> used c' = used c + length (concat bs)"
proof (induction bs arbitrary: c)
  case (Cons b bs)
  from Cons.prems put_law [of c b] obtain d where d: "put b c = Inr d" "ok d"
    "content d = content c @ b" "used d = used c + length b" by auto
  with Cons.IH [of d] Cons.prems show ?case by (auto simp: add.assoc)
qed simp

text \<open>What was put in pieces is got back as their concatenation, and nothing is left.\<close>

lemma put_many_get:
  assumes "ok c" "content c = []" "used c + length (concat bs) < limit"
  shows "\<exists>c' c''. r_fold put bs c = Inr c' \<and> get (length (concat bs)) c' = (Inr (concat bs), c'')
      \<and> ok c'' \<and> content c'' = []"
proof -
  from put_many [OF assms(1,3)] assms(2) obtain c' where
    "r_fold put bs c = Inr c'" "ok c'" "content c' = concat bs" by auto
  moreover from this get_law [of c' "length (concat bs)"] obtain c'' where
    "get (length (concat bs)) c' = (Inr (concat bs), c'')" "ok c''" "content c'' = []" by auto
  ultimately show ?thesis by blast
qed

end

section \<open>Codecs of a fixed width\<close>

fun decode_all :: "(nat \<Rightarrow> bytes \<Rightarrow> 'v result) \<Rightarrow> nat \<Rightarrow> nat \<Rightarrow> nat \<Rightarrow> bytes \<Rightarrow> 'v list result" where
  "decode_all dec w 0 i s = Inr []"
| "decode_all dec w (Suc n) i s =
     r_bind (dec i s) (\<lambda>v. r_bind (decode_all dec w n (i + w) s) (\<lambda>vs. Inr (v # vs)))"

locale fixed_codec =
  fixes width :: nat
    and enc :: "'v \<Rightarrow> bytes"
    and dec :: "nat \<Rightarrow> bytes \<Rightarrow> 'v result"
  assumes enc_width: "length (enc v) = width"
    and dec_enc: "length (pre @ enc v @ post) < 2 ^ 31 \<Longrightarrow>
      dec (length pre) (pre @ enc v @ post) = Inr v"
begin

lemma decode_encode_all:
  "length (pre @ concat (map enc vs) @ post) < 2 ^ 31 \<Longrightarrow>
   decode_all dec width (length vs) (length pre) (pre @ concat (map enc vs) @ post) = Inr vs"
proof (induction vs arbitrary: pre)
  case (Cons v vs)
  have "dec (length pre) (pre @ enc v @ concat (map enc vs) @ post) = Inr v"
    using Cons.prems by (intro dec_enc) simp
  moreover have "decode_all dec width (length vs) (length (pre @ enc v))
      ((pre @ enc v) @ concat (map enc vs) @ post) = Inr vs"
    using Cons.prems by (intro Cons.IH) simp
  ultimately show ?case by (simp add: enc_width)
qed simp

end

section \<open>First-in first-out queues\<close>

locale fifo_queue =
  fixes empty :: 'q
    and enq :: "'a \<Rightarrow> 'q \<Rightarrow> 'q"
    and deq :: "'q \<Rightarrow> ('a option \<times> 'q)"
    and elems :: "'q \<Rightarrow> 'a list"
  assumes elems_empty: "elems empty = []"
    and elems_enq: "elems (enq x q) = elems q @ [x]"
    and deq_nil: "elems q = [] \<Longrightarrow> deq q = (None, q)"
    and deq_cons: "elems q = x # xs \<Longrightarrow> \<exists>q'. deq q = (Some x, q') \<and> elems q' = xs"
begin

lemma elems_fold_enq: "elems (fold enq xs q) = elems q @ xs"
  by (induction xs arbitrary: q) (simp_all add: elems_enq)

lemma deq_cases:
  "(elems q = [] \<and> deq q = (None, q)) \<or>
   (\<exists>x q'. deq q = (Some x, q') \<and> elems q = x # elems q')"
proof (cases "elems q")
  case (Cons x xs)
  with deq_cons [OF Cons] show ?thesis by auto
qed (simp add: deq_nil)

lemma deq_Some: "deq q = (Some x, q') \<Longrightarrow> elems q = x # elems q'"
  using deq_cases [of q] by auto

lemma deq_None: "deq q = (None, q') \<Longrightarrow> elems q = [] \<and> q' = q"
  using deq_cases [of q] by auto

end

end
