(* ===== verification/MacroDef.thy ===== *)
theory MacroDef
  imports Contracts
begin

text \<open>
  The macros of \<open>gwcpp/base/MacroDef.h\<close> that do something: releasing a resource once and resetting
  the variable that held it, and the singleton. (The move and reset functions that a macro of the same
  file declares are in \<open>Fd\<close>, the only class that uses them.)

  A pointer is an \<open>option\<close>; each macro gives what it releases, in order, and the new value of its
  argument.
\<close>

section \<open>Releasing\<close>

definition CHECK_DELETE_RESET_OBJ :: "'p option \<Rightarrow> 'p list \<times> 'p option" where
  "CHECK_DELETE_RESET_OBJ obj = (case obj of Some p \<Rightarrow> ([p], None) | None \<Rightarrow> ([], None))"

definition CHECK_DELETE_OBJ :: "'p option \<Rightarrow> 'p list \<times> 'p option" where
  "CHECK_DELETE_OBJ obj = (case obj of Some p \<Rightarrow> ([p], obj) | None \<Rightarrow> ([], obj))"

definition CHECK_DELETE_RESET_ARRAY :: "'p option \<Rightarrow> 'p list \<times> 'p option" where
  "CHECK_DELETE_RESET_ARRAY arr = (case arr of Some p \<Rightarrow> ([p], None) | None \<Rightarrow> ([], None))"

definition CHECK_DELETE_ARRAY :: "'p option \<Rightarrow> 'p list \<times> 'p option" where
  "CHECK_DELETE_ARRAY arr = (case arr of Some p \<Rightarrow> ([p], arr) | None \<Rightarrow> ([], arr))"

definition CHECK_FREE_RESET_PTR :: "'p option \<Rightarrow> 'p list \<times> 'p option" where
  "CHECK_FREE_RESET_PTR ptr = (case ptr of Some p \<Rightarrow> ([p], None) | None \<Rightarrow> ([], None))"

definition CHECK_FREE_PTR :: "'p option \<Rightarrow> 'p list \<times> 'p option" where
  "CHECK_FREE_PTR ptr = (case ptr of Some p \<Rightarrow> ([p], ptr) | None \<Rightarrow> ([], ptr))"

definition CHECK_CLOSE_RESET_FD :: "int \<Rightarrow> int list \<times> int" where
  "CHECK_CLOSE_RESET_FD fd = (if fd \<noteq> - 1 then ([fd], - 1) else ([], fd))"

definition CHECK_CLOSE_FD :: "int \<Rightarrow> int list \<times> int" where
  "CHECK_CLOSE_FD fd = (if fd \<noteq> - 1 then ([fd], fd) else ([], fd))"

text \<open>A macro applied \<open>n\<close> times to the same variable.\<close>

fun repeated :: "('v \<Rightarrow> 'r list \<times> 'v) \<Rightarrow> nat \<Rightarrow> 'v \<Rightarrow> 'r list \<times> 'v" where
  "repeated m 0 v = ([], v)"
| "repeated m (Suc n) v = (let (r, v1) = m v; (rs, v2) = repeated m n v1 in (r @ rs, v2))"

text \<open>The forms that reset release at most once, however often they are used; the others release
  every time.\<close>

lemma repeated_reset:
  assumes "\<And>v r v'. m v = (r, v') \<Longrightarrow> m v' = ([], v')"
  shows "repeated m (Suc n) v = m v"
proof (induction n arbitrary: v)
  case (Suc n)
  obtain r v' where m: "m v = (r, v')" by (cases "m v")
  with assms [OF m] Suc [of v'] show ?case by (simp add: Let_def split: prod.splits)
qed (simp split: prod.splits)

lemma reset_forms_release_once:
  "repeated CHECK_CLOSE_RESET_FD (Suc n) fd = CHECK_CLOSE_RESET_FD fd"
  "repeated CHECK_DELETE_RESET_OBJ (Suc n) p = CHECK_DELETE_RESET_OBJ p"
  "repeated CHECK_DELETE_RESET_ARRAY (Suc n) p = CHECK_DELETE_RESET_ARRAY p"
  "repeated CHECK_FREE_RESET_PTR (Suc n) p = CHECK_FREE_RESET_PTR p"
  by (rule repeated_reset;
      auto simp: CHECK_CLOSE_RESET_FD_def CHECK_DELETE_RESET_OBJ_def CHECK_DELETE_RESET_ARRAY_def
        CHECK_FREE_RESET_PTR_def split: option.splits if_splits)+

lemma plain_forms_release_again:
  "fst (repeated CHECK_CLOSE_FD n fd) = (if fd = - 1 then [] else replicate n fd)"
  "fst (repeated CHECK_DELETE_OBJ n (Some p)) = replicate n p"
  "fst (repeated CHECK_DELETE_ARRAY n (Some p)) = replicate n p"
  "fst (repeated CHECK_FREE_PTR n (Some p)) = replicate n p"
  by (induction n)
    (auto simp: CHECK_CLOSE_FD_def CHECK_DELETE_OBJ_def CHECK_DELETE_ARRAY_def CHECK_FREE_PTR_def split: prod.splits)

section \<open>The singleton\<close>

text \<open>The statics of \<open>Instance\<close>: the pointer, and the flag of \<open>call_once\<close>. \<open>made\<close> counts the
  constructions and \<open>shut\<close> the calls of \<open>Shutdown\<close>. \<open>alloc\<close> is what \<open>new (std::nothrow)\<close> gives.\<close>

record singleton =
  instance_ptr :: "nat option"
  once_done :: bool
  made :: nat
  shut :: nat

definition singleton_new :: singleton where
  "singleton_new = \<lparr>instance_ptr = None, once_done = False, made = 0, shut = 0\<rparr>"

definition Instance :: "bool \<Rightarrow> nat option \<Rightarrow> singleton \<Rightarrow> nat option \<times> singleton" where
  "Instance create_if_needed alloc s =
     (let s' = (if instance_ptr s = None \<and> create_if_needed then
                  if once_done s then s
                  else s\<lparr>instance_ptr := alloc, once_done := True, made := made s + (if alloc = None then 0 else 1)\<rparr>
                else s)
      in (instance_ptr s', s'))"

text \<open>Whether the class has a member \<open>Shutdown\<close> is decided by a type trait.\<close>

definition CallShutdown :: "bool \<Rightarrow> singleton \<Rightarrow> singleton" where
  "CallShutdown hasShutdown s = (if hasShutdown then s\<lparr>shut := shut s + 1\<rparr> else s)"

definition CleanUp :: "bool \<Rightarrow> singleton \<Rightarrow> singleton" where
  "CleanUp hasShutdown s =
     (let (inst, s') = Instance False None s
      in if inst \<noteq> None then CallShutdown hasShutdown s' else s')"

datatype singleton_op = Get bool "nat option" | Clean bool

fun singleton_step :: "singleton_op \<Rightarrow> singleton \<Rightarrow> singleton" where
  "singleton_step (Get c alloc) s = snd (Instance c alloc s)"
| "singleton_step (Clean h) s = CleanUp h s"

definition singleton_inv :: "singleton \<Rightarrow> bool" where
  "singleton_inv s \<longleftrightarrow> made s = (if instance_ptr s = None then 0 else 1) \<and> (instance_ptr s \<noteq> None \<longrightarrow> once_done s)"

lemma singleton_step_inv: "singleton_inv s \<Longrightarrow> singleton_inv (singleton_step x s)"
  by (cases x) (auto simp: singleton_inv_def Instance_def CleanUp_def CallShutdown_def Let_def)

lemma singleton_run_inv: "singleton_inv s \<Longrightarrow> singleton_inv (fold singleton_step xs s)"
  by (induction xs arbitrary: s) (simp_all add: singleton_step_inv)

lemma singleton_step_keeps: "instance_ptr s = Some p \<Longrightarrow> instance_ptr (singleton_step x s) = Some p"
  by (cases x) (auto simp: Instance_def CleanUp_def CallShutdown_def Let_def)

lemma singleton_run_keeps: "instance_ptr s = Some p \<Longrightarrow> instance_ptr (fold singleton_step xs s) = Some p"
  by (induction xs arbitrary: s) (simp_all add: singleton_step_keeps)

lemma singleton_run_once: "once_done s \<Longrightarrow> once_done (fold singleton_step xs s)"
proof (induction xs arbitrary: s)
  case (Cons x xs)
  have "once_done (singleton_step x s)"
    using Cons.prems by (cases x) (auto simp: Instance_def CleanUp_def CallShutdown_def Let_def)
  with Cons.IH show ?case by simp
qed simp

lemma singleton_run_failed:
  "once_done s \<Longrightarrow> instance_ptr s = None \<Longrightarrow> instance_ptr (fold singleton_step xs s) = None"
proof (induction xs arbitrary: s)
  case (Cons x xs)
  have "once_done (singleton_step x s) \<and> instance_ptr (singleton_step x s) = None"
    using Cons.prems by (cases x) (auto simp: Instance_def CleanUp_def CallShutdown_def Let_def)
  with Cons.IH show ?case by simp
qed simp

text \<open>At most one object is constructed, whatever the calls, and once \<open>Instance\<close> gave it, every later
  call gives the same pointer, also after \<open>CleanUp\<close>, which neither deletes nor forgets it. When the
  one allocation fails, \<open>Instance\<close> is null for ever.\<close>
theorem singleton_unique:
  assumes "s = fold singleton_step xs singleton_new" "Instance c alloc s = (r, s')"
  shows "made s' \<le> 1 \<and>
    (r \<noteq> None \<longrightarrow> (\<forall>ys c' a. fst (Instance c' a (fold singleton_step ys s')) = r)) \<and>
    (r = None \<and> c \<longrightarrow> (\<forall>ys c' a. fst (Instance c' a (fold singleton_step ys s')) = None))"
proof -
  have s': "s' = singleton_step (Get c alloc) s" "r = instance_ptr s'"
    using assms(2) by (auto simp: Instance_def Let_def)
  have "singleton_inv singleton_new" by (simp add: singleton_inv_def singleton_new_def)
  then have "singleton_inv s'" unfolding s'(1) assms(1) by (intro singleton_step_inv singleton_run_inv)
  then have "made s' \<le> 1" by (simp add: singleton_inv_def)
  moreover have "fst (Instance c' a t) = instance_ptr t" if "instance_ptr t \<noteq> None \<or> once_done t" for c' a t
    using that by (auto simp: Instance_def Let_def)
  moreover have "once_done s'" if "r = None" "c" using that s' by (auto simp: Instance_def Let_def split: if_splits)
  ultimately show ?thesis using s'(2) singleton_run_keeps singleton_run_failed singleton_run_once by auto
qed

theorem singleton_unique_witness:
  "\<exists>s'. Instance True (Some 5) singleton_new = (Some 5, s') \<and> fst (Instance True (Some 6) (CleanUp True s')) = Some 5"
proof -
  obtain s' where s': "Instance True (Some 5) singleton_new = (Some 5, s')"
    by (simp add: Instance_def singleton_new_def)
  from singleton_unique [of singleton_new "[]", OF _ s'] have
    "\<forall>ys c' a. fst (Instance c' a (fold singleton_step ys s')) = Some 5" by simp
  from this [THEN spec, of "[Clean True]"] s' show ?thesis by auto
qed

end
