(* ===== verification/Poller.thy ===== *)
theory Poller
  imports Contracts MacroDef
begin

text \<open>
  The classes \<open>EpollFdEvent\<close> (\<open>gwcpp/event/EpollFdEvent.h\<close>, \<open>.cpp\<close>) and \<open>Poller\<close>
  (\<open>gwcpp/event/Poller.h\<close>, \<open>.cpp\<close>) with the part of \<open>Loop\<close> between them (\<open>updateEvent\<close>,
  \<open>removeEvent\<close>, \<open>hasEvent\<close>). One loop and its poller are one state, \<open>poller\<close>; an
  \<open>EpollFdEvent *\<close> is the index of the object in \<open>objs\<close>. All events of a loop are made by its
  \<open>CreatFdEvent\<close>, so the asserted \<open>getLoop() == this\<close> holds and is not modelled.

  \<open>ctl_log\<close> is the sequence of the \<open>epoll_ctl\<close> calls. What they return changes nothing but a log
  line. A failed \<open>assert\<close> is \<open>AssertFailed\<close>; a build with \<open>NDEBUG\<close> would go on.
\<close>

section \<open>State\<close>

datatype ev_mode = KPersist | KOneshot

record fd_event =
  ev_fd :: int
  ev_added :: bool              \<comment> \<open>\<open>addedToLoop_\<close>\<close>
  ev_oneshot :: bool            \<comment> \<open>\<open>isStopAfterTrigger_\<close>\<close>
  ev_revents :: "32 word"
  ev_index :: int
  ev_events :: "16 word"
  ev_locked :: bool             \<comment> \<open>\<open>lockEvent_\<close>\<close>
  ev_reader :: bool             \<comment> \<open>whether \<open>readCallback_\<close> is set, and so on\<close>
  ev_writer :: bool
  ev_closer :: bool
  ev_catcher :: bool

datatype ctl_op = CtlAdd | CtlMod | CtlDel

type_synonym ctl = "ctl_op \<times> int \<times> 16 word \<times> nat"

record poller =
  objs :: "fd_event list"
  fdEventMaps :: "int \<Rightarrow> nat option"
  buf_size :: nat               \<comment> \<open>\<open>events_.size()\<close>\<close>
  ctl_log :: "ctl list"
  activeEvents :: "nat list"

definition kNoneEvent :: "16 word" where "kNoneEvent = 0"
definition kReadEvent :: "16 word" where "kReadEvent = 0x001 OR 0x002"
definition kWriteEvent :: "16 word" where "kWriteEvent = 0x004"

definition kNew :: int where "kNew = - 1"
definition kAdded :: int where "kAdded = 1"
definition kDeleted :: int where "kDeleted = 2"

definition Poller_new :: poller where
  "Poller_new = \<lparr>objs = [], fdEventMaps = (\<lambda>_. None), buf_size = 256, ctl_log = [], activeEvents = []\<rparr>"

text \<open>The descriptor \<open>epollFd_\<close> is a constant of the poller and kept beside the state, in \<open>poll_fd\<close> of the
  loop: the destructor closes it and sets it to \<open>-1\<close>.\<close>

definition Poller_destroy :: "int \<Rightarrow> int list \<times> int" where
  "Poller_destroy epollFd = CHECK_CLOSE_RESET_FD epollFd"

section \<open>\<open>Poller\<close>\<close>

definition ev_at :: "nat \<Rightarrow> 'a poller_scheme \<Rightarrow> fd_event" where
  "ev_at e p = objs p ! e"

definition upd_ev :: "nat \<Rightarrow> (fd_event \<Rightarrow> fd_event) \<Rightarrow> 'a poller_scheme \<Rightarrow> 'a poller_scheme" where
  "upd_ev e f p = p\<lparr>objs := (objs p)[e := f (objs p ! e)]\<rparr>"

definition isNoneEvent :: "fd_event \<Rightarrow> bool" where
  "isNoneEvent ev \<longleftrightarrow> ev_events ev = kNoneEvent"

definition Poller_update :: "ctl_op \<Rightarrow> nat \<Rightarrow> 'a poller_scheme \<Rightarrow> 'a poller_scheme" where
  "Poller_update operation e p =
     p\<lparr>ctl_log := ctl_log p @ [(operation, ev_fd (ev_at e p), ev_events (ev_at e p), e)]\<rparr>"

definition setIndex_ev :: "nat \<Rightarrow> int \<Rightarrow> 'a poller_scheme \<Rightarrow> 'a poller_scheme" where
  "setIndex_ev e idx p = upd_ev e (\<lambda>ev. ev\<lparr>ev_index := idx\<rparr>) p"

definition Poller_updateEvent :: "nat \<Rightarrow> 'a poller_scheme \<Rightarrow> 'a poller_scheme result" where
  "Poller_updateEvent e p =
     (let index = ev_index (ev_at e p); f = ev_fd (ev_at e p)
      in if index = kNew \<or> index = kDeleted then
           r_bind (if index = kNew
                   then r_assert (fdEventMaps p f = None) (Inr (p\<lparr>fdEventMaps := (fdEventMaps p)(f \<mapsto> e)\<rparr>))
                   else r_assert (fdEventMaps p f \<noteq> None) (r_assert (fdEventMaps p f = Some e) (Inr p)))
             (\<lambda>p'. Inr (Poller_update CtlAdd e (setIndex_ev e kAdded p')))
         else
           r_assert (fdEventMaps p f \<noteq> None) (r_assert (fdEventMaps p f = Some e)
           (r_assert (index = kAdded)
           (if isNoneEvent (ev_at e p)
            then Inr (setIndex_ev e kDeleted (Poller_update CtlDel e p))
            else Inr (Poller_update CtlMod e p)))))"

definition Poller_removeEvent :: "nat \<Rightarrow> 'a poller_scheme \<Rightarrow> 'a poller_scheme result" where
  "Poller_removeEvent e p =
     (let index = ev_index (ev_at e p); f = ev_fd (ev_at e p)
      in r_assert (fdEventMaps p f \<noteq> None) (r_assert (fdEventMaps p f = Some e)
         (r_assert (isNoneEvent (ev_at e p)) (r_assert (index = kAdded \<or> index = kDeleted)
         (let p' = p\<lparr>fdEventMaps := (fdEventMaps p)(f := None)\<rparr>
          in Inr (setIndex_ev e kNew (if index = kAdded then Poller_update CtlDel e p' else p')))))))"

definition Poller_hasEvent :: "nat \<Rightarrow> 'a poller_scheme \<Rightarrow> bool" where
  "Poller_hasEvent e p \<longleftrightarrow> fdEventMaps p (ev_fd (ev_at e p)) = Some e"

text \<open>\<open>ready\<close> is what \<open>epoll_wait\<close> stored: for each ready descriptor the pointer given to
  \<open>epoll_ctl\<close> and the events.\<close>

definition fillActiveEvents :: "(nat \<times> 32 word) list \<Rightarrow> 'a poller_scheme \<Rightarrow> 'a poller_scheme result" where
  "fillActiveEvents ready p =
     r_assert (length ready \<le> buf_size p)
       (Inr (fold (\<lambda>(e, re) p. let p' = upd_ev e (\<lambda>ev. ev\<lparr>ev_revents := re\<rparr>) p
                              in p'\<lparr>activeEvents := activeEvents p' @ [e]\<rparr>) ready p))"

text \<open>\<open>poll\<close>, where \<open>None\<close> is an \<open>epoll_wait\<close> that returned an error; the value returned is always 1.\<close>

definition Poller_poll :: "(nat \<times> 32 word) list option \<Rightarrow> 'a poller_scheme \<Rightarrow> 'a poller_scheme result" where
  "Poller_poll wait p =
     (case wait of
        Some ready \<Rightarrow>
          if ready \<noteq> [] then
            r_bind (fillActiveEvents ready p) (\<lambda>p'.
            Inr (if length ready = buf_size p' then p'\<lparr>buf_size := buf_size p' * 2\<rparr> else p'))
          else Inr p
      | None \<Rightarrow> Inr p)"

section \<open>\<open>EpollFdEvent\<close>\<close>

text \<open>\<open>fd_\<close> is not initialised by the constructor: its value is an argument.\<close>

definition EpollFdEvent_new :: "int \<Rightarrow> 'a poller_scheme \<Rightarrow> 'a poller_scheme" where
  "EpollFdEvent_new uninit p =
     p\<lparr>objs := objs p @ [\<lparr>ev_fd = uninit, ev_added = False, ev_oneshot = False, ev_revents = 0,
        ev_index = - 1, ev_events = 0, ev_locked = False, ev_reader = False, ev_writer = False,
        ev_closer = False, ev_catcher = False\<rparr>]\<rparr>"

definition EpollFdEvent_init :: "nat \<Rightarrow> int \<Rightarrow> ev_mode \<Rightarrow> 'a poller_scheme \<Rightarrow> 'a poller_scheme" where
  "EpollFdEvent_init e f mode p =
     upd_ev e (\<lambda>ev. (if mode = KOneshot then ev\<lparr>ev_fd := f, ev_oneshot := True\<rparr> else ev\<lparr>ev_fd := f\<rparr>)) p"

definition EpollFdEvent_update :: "nat \<Rightarrow> 'a poller_scheme \<Rightarrow> 'a poller_scheme result" where
  "EpollFdEvent_update e p = Poller_updateEvent e (upd_ev e (\<lambda>ev. ev\<lparr>ev_added := True\<rparr>) p)"

definition with_events :: "nat \<Rightarrow> (16 word \<Rightarrow> 16 word) \<Rightarrow> 'a poller_scheme \<Rightarrow> 'a poller_scheme" where
  "with_events e f p = upd_ev e (\<lambda>ev. ev\<lparr>ev_events := f (ev_events ev)\<rparr>) p"

definition enableReading :: "nat \<Rightarrow> 'a poller_scheme \<Rightarrow> 'a poller_scheme result" where
  "enableReading e p = EpollFdEvent_update e (with_events e (\<lambda>w. w OR kReadEvent) p)"

definition enableWriting :: "nat \<Rightarrow> 'a poller_scheme \<Rightarrow> 'a poller_scheme result" where
  "enableWriting e p = EpollFdEvent_update e (with_events e (\<lambda>w. w OR kWriteEvent) p)"

definition disableReading :: "nat \<Rightarrow> 'a poller_scheme \<Rightarrow> 'a poller_scheme result" where
  "disableReading e p = EpollFdEvent_update e (with_events e (\<lambda>w. w AND NOT kReadEvent) p)"

definition disableWriting :: "nat \<Rightarrow> 'a poller_scheme \<Rightarrow> 'a poller_scheme result" where
  "disableWriting e p = EpollFdEvent_update e (with_events e (\<lambda>w. w AND NOT kWriteEvent) p)"

definition disableAll :: "nat \<Rightarrow> 'a poller_scheme \<Rightarrow> 'a poller_scheme result" where
  "disableAll e p = EpollFdEvent_update e (with_events e (\<lambda>w. kNoneEvent) p)"

definition isWriting :: "fd_event \<Rightarrow> bool" where
  "isWriting ev \<longleftrightarrow> ev_events ev AND kWriteEvent \<noteq> 0"

definition isReading :: "fd_event \<Rightarrow> bool" where
  "isReading ev \<longleftrightarrow> ev_events ev AND kReadEvent \<noteq> 0"

definition EpollFdEvent_remove :: "nat \<Rightarrow> 'a poller_scheme \<Rightarrow> 'a poller_scheme result" where
  "EpollFdEvent_remove e p =
     r_assert (isNoneEvent (ev_at e p))
       (Poller_removeEvent e (upd_ev e (\<lambda>ev. ev\<lparr>ev_added := False\<rparr>) p))"

section \<open>Dispatch\<close>

datatype cb = CbClose | CbError | CbRead | CbWrite

definition EPOLLIN :: "32 word" where "EPOLLIN = 0x001"
definition EPOLLPRI :: "32 word" where "EPOLLPRI = 0x002"
definition EPOLLOUT :: "32 word" where "EPOLLOUT = 0x004"
definition EPOLLERR :: "32 word" where "EPOLLERR = 0x008"
definition EPOLLHUP :: "32 word" where "EPOLLHUP = 0x010"
definition EPOLLRDHUP :: "32 word" where "EPOLLRDHUP = 0x2000"

text \<open>The test in front of each callback; the event is read again after every call, since a
  callback may change it.\<close>

definition cb_due :: "cb \<Rightarrow> fd_event \<Rightarrow> bool" where
  "cb_due c ev \<longleftrightarrow> (case c of
     CbClose \<Rightarrow> ev_revents ev AND EPOLLHUP \<noteq> 0 \<and> ev_revents ev AND EPOLLIN = 0 \<and> ev_closer ev
   | CbError \<Rightarrow> ev_revents ev AND (EPOLLERR OR EPOLLERR) \<noteq> 0 \<and> ev_catcher ev
   | CbRead \<Rightarrow> ev_revents ev AND (EPOLLIN OR EPOLLPRI OR EPOLLRDHUP) \<noteq> 0 \<and> ev_reader ev
   | CbWrite \<Rightarrow> ev_revents ev AND EPOLLOUT \<noteq> 0 \<and> ev_writer ev)"

text \<open>\<open>run c e\<close> is the effect of the callback \<open>c\<close> of the event \<open>e\<close>.\<close>

definition handleLockEvent :: "(cb \<Rightarrow> nat \<Rightarrow> 'a poller_scheme \<Rightarrow> 'a poller_scheme result) \<Rightarrow> nat \<Rightarrow> 'a poller_scheme \<Rightarrow> 'a poller_scheme result" where
  "handleLockEvent run e p =
     r_bind (r_fold (\<lambda>c p. if cb_due c (ev_at e p) then run c e p else Inr p)
               [CbClose, CbError, CbRead, CbWrite] p) (\<lambda>p'.
     if ev_oneshot (ev_at e p')
     then disableAll e (upd_ev e (\<lambda>ev. ev\<lparr>ev_locked := True\<rparr>) p')
     else Inr p')"

definition handleEvent :: "(cb \<Rightarrow> nat \<Rightarrow> 'a poller_scheme \<Rightarrow> 'a poller_scheme result) \<Rightarrow> nat \<Rightarrow> 'a poller_scheme \<Rightarrow> 'a poller_scheme result" where
  "handleEvent run e p = (if ev_locked (ev_at e p) = False then handleLockEvent run e p else Inr p)"

end
