(* ===== verification/PollerSafe.thy ===== *)
theory PollerSafe
  imports Poller
begin

text \<open>
  The bookkeeping of the poller: the map from descriptors to events, the index of every event and
  the sequence of \<open>epoll_ctl\<close> calls agree (\<open>poller_ops\<close>), and the order in which an event calls
  its callbacks.
\<close>

section \<open>The calls of \<open>epoll_ctl\<close>\<close>

text \<open>The descriptors in the interest list after a sequence of calls, and whether every call is one
  that \<open>epoll_ctl(2)\<close> allows: no \<open>EEXIST\<close>, no \<open>ENOENT\<close>.\<close>

fun ctl_effect :: "ctl \<Rightarrow> int set \<Rightarrow> int set" where
  "ctl_effect (CtlAdd, f, _) S = insert f S"
| "ctl_effect (CtlMod, f, _) S = S"
| "ctl_effect (CtlDel, f, _) S = S - {f}"

fun ctl_allowed :: "ctl \<Rightarrow> int set \<Rightarrow> bool" where
  "ctl_allowed (CtlAdd, f, _) S \<longleftrightarrow> f \<notin> S"
| "ctl_allowed (CtlMod, f, _) S \<longleftrightarrow> f \<in> S"
| "ctl_allowed (CtlDel, f, _) S \<longleftrightarrow> f \<in> S"

fun ctl_legal :: "ctl list \<Rightarrow> int set \<Rightarrow> bool" where
  "ctl_legal [] S \<longleftrightarrow> True"
| "ctl_legal (c # cs) S \<longleftrightarrow> ctl_allowed c S \<and> ctl_legal cs (ctl_effect c S)"

definition interest :: "ctl list \<Rightarrow> int set" where
  "interest cs = fold ctl_effect cs {}"

lemma ctl_legal_snoc: "ctl_legal (cs @ [c]) S \<longleftrightarrow> ctl_legal cs S \<and> ctl_allowed c (fold ctl_effect cs S)"
  by (induction cs arbitrary: S) auto

lemma interest_snoc [simp]: "interest (cs @ [c]) = ctl_effect c (interest cs)"
  by (simp add: interest_def)

section \<open>The invariant\<close>

definition poller_inv :: "'a poller_scheme \<Rightarrow> bool" where
  "poller_inv p \<longleftrightarrow>
     (\<forall>f e. fdEventMaps p f = Some e \<longrightarrow>
        e < length (objs p) \<and> ev_fd (ev_at e p) = f \<and> ev_index (ev_at e p) \<noteq> kNew) \<and>
     (\<forall>e < length (objs p). ev_index (ev_at e p) \<in> {kNew, kAdded, kDeleted} \<and>
        (ev_index (ev_at e p) \<noteq> kNew \<longrightarrow> fdEventMaps p (ev_fd (ev_at e p)) = Some e)) \<and>
     (\<forall>f. f \<in> interest (ctl_log p) \<longleftrightarrow>
        (\<exists>e. fdEventMaps p f = Some e \<and> ev_index (ev_at e p) = kAdded)) \<and>
     ctl_legal (ctl_log p) {}"

lemma kinds [simp]: "kNew \<noteq> kAdded" "kNew \<noteq> kDeleted" "kAdded \<noteq> kDeleted"
    "kAdded \<noteq> kNew" "kDeleted \<noteq> kNew" "kDeleted \<noteq> kAdded"
  by (simp_all add: kNew_def kAdded_def kDeleted_def)

lemma upd_simps [simp]:
  "length (objs (upd_ev e f p)) = length (objs p)"
  "fdEventMaps (upd_ev e f p) = fdEventMaps p" "ctl_log (upd_ev e f p) = ctl_log p"
  "e < length (objs p) \<Longrightarrow> ev_at d (upd_ev e f p) = (if d = e then f (ev_at e p) else ev_at d p)"
  by (auto simp: upd_ev_def ev_at_def)

lemma update_simps [simp]:
  "objs (Poller_update c e p) = objs p" "ev_at d (Poller_update c e p) = ev_at d p"
  "fdEventMaps (Poller_update c e p) = fdEventMaps p"
  "ctl_log (Poller_update c e p) = ctl_log p @ [(c, ev_fd (ev_at e p), ev_events (ev_at e p), e)]"
  "ev_at d (p\<lparr>fdEventMaps := m\<rparr>) = ev_at d p"
  by (simp_all add: Poller_update_def ev_at_def)

lemma with_events_simps [simp]:
  "length (objs (with_events e f p)) = length (objs p)"
  "fdEventMaps (with_events e f p) = fdEventMaps p" "ctl_log (with_events e f p) = ctl_log p"
  "e < length (objs p) \<Longrightarrow>
     ev_at d (with_events e f p) = (if d = e then (ev_at e p)\<lparr>ev_events := f (ev_events (ev_at e p))\<rparr> else ev_at d p)"
  by (simp_all add: with_events_def)

text \<open>The invariant sees only the descriptor and the index of an event.\<close>

lemma poller_inv_cong:
  assumes "poller_inv p" "length (objs q) = length (objs p)" "fdEventMaps q = fdEventMaps p"
    "ctl_log q = ctl_log p"
    "\<And>e. e < length (objs p) \<Longrightarrow> ev_fd (ev_at e q) = ev_fd (ev_at e p) \<and> ev_index (ev_at e q) = ev_index (ev_at e p)"
  shows "poller_inv q"
proof -
  have "ev_index (ev_at e q) = ev_index (ev_at e p) \<and> ev_fd (ev_at e q) = ev_fd (ev_at e p)"
    if "fdEventMaps p f = Some e" for e f
    using that assms(1,5) by (auto simp: poller_inv_def)
  with assms show ?thesis by (auto simp: poller_inv_def)
qed

lemma poller_inv_upd:
  assumes "poller_inv p" "e < length (objs p)"
    "\<And>ev. ev_fd (f ev) = ev_fd ev" "\<And>ev. ev_index (f ev) = ev_index ev"
  shows "poller_inv (upd_ev e f p)"
  by (rule poller_inv_cong [OF assms(1)]) (use assms in auto)

lemma with_events_inv: "poller_inv p \<Longrightarrow> e < length (objs p) \<Longrightarrow> poller_inv (with_events e f p)"
  unfolding with_events_def by (rule poller_inv_upd) auto

lemma poller_invD:
  assumes "poller_inv p"
  shows "fdEventMaps p f = Some e \<Longrightarrow> e < length (objs p) \<and> ev_fd (ev_at e p) = f \<and> ev_index (ev_at e p) \<noteq> kNew"
    and "e < length (objs p) \<Longrightarrow> ev_index (ev_at e p) \<in> {kNew, kAdded, kDeleted}"
    and "e < length (objs p) \<Longrightarrow> ev_index (ev_at e p) \<noteq> kNew \<Longrightarrow> fdEventMaps p (ev_fd (ev_at e p)) = Some e"
    and "f \<in> interest (ctl_log p) \<longleftrightarrow> (\<exists>e. fdEventMaps p f = Some e \<and> ev_index (ev_at e p) = kAdded)"
    and "ctl_legal (ctl_log p) {}"
  using assms by (auto simp: poller_inv_def)

lemma ctl_step:
  assumes "poller_inv p"
  shows "ctl_legal (ctl_log p @ [c]) {} \<longleftrightarrow> ctl_allowed c (interest (ctl_log p))"
  using poller_invD(5) [OF assms] by (simp add: ctl_legal_snoc interest_def)

text \<open>What \<open>updateEvent\<close> does when no assertion fails.\<close>

lemma updateEvent_cases:
  assumes "poller_inv p" "e < length (objs p)" "Poller_updateEvent e p = Inr q"
  obtains
    (new) "ev_index (ev_at e p) = kNew" "fdEventMaps p (ev_fd (ev_at e p)) = None"
      "q = Poller_update CtlAdd e (setIndex_ev e kAdded (p\<lparr>fdEventMaps := (fdEventMaps p)(ev_fd (ev_at e p) \<mapsto> e)\<rparr>))"
  | (again) "ev_index (ev_at e p) = kDeleted" "q = Poller_update CtlAdd e (setIndex_ev e kAdded p)"
  | (delete) "ev_index (ev_at e p) = kAdded" "isNoneEvent (ev_at e p)"
      "q = setIndex_ev e kDeleted (Poller_update CtlDel e p)"
  | (modify) "ev_index (ev_at e p) = kAdded" "q = Poller_update CtlMod e p"
  using assms poller_invD(2) [OF assms(1,2)]
  by (fastforce simp: Poller_updateEvent_def Let_def r_bind_eq_Inr split: if_splits)

lemma updateEvent_inv:
  assumes inv: "poller_inv p" and e: "e < length (objs p)" and "Poller_updateEvent e p = Inr q"
  shows "poller_inv q"
  using assms
proof (cases rule: updateEvent_cases)
  case new
  let ?f = "ev_fd (ev_at e p)"
  have at: "ev_at d q = (if d = e then (ev_at e p)\<lparr>ev_index := kAdded\<rparr> else ev_at d p)" for d
    using new(3) e by (simp add: setIndex_ev_def)
  have q: "fdEventMaps q = (fdEventMaps p)(?f \<mapsto> e)" "length (objs q) = length (objs p)"
    "ctl_log q = ctl_log p @ [(CtlAdd, ?f, ev_events (ev_at e p), e)]"
    using new(3) e by (simp_all add: setIndex_ev_def)
  have fresh: "?f \<notin> interest (ctl_log p)" using poller_invD(4) [OF inv] new(2) by simp
  have not_e: "fdEventMaps p f \<noteq> Some e" for f using poller_invD(1) [OF inv] new(1) by blast
  have "f \<in> interest (ctl_log q) \<longleftrightarrow> (\<exists>d. fdEventMaps q f = Some d \<and> ev_index (ev_at d q) = kAdded)" for f
    using poller_invD(4) [OF inv, of f] not_e [of f] by (auto simp: q at)
  moreover have "ctl_legal (ctl_log q) {}" using ctl_step [OF inv] fresh by (simp add: q)
  moreover have "fdEventMaps q g = Some d \<Longrightarrow> d < length (objs q) \<and> ev_fd (ev_at d q) = g \<and> ev_index (ev_at d q) \<noteq> kNew"
    for g d using poller_invD(1) [OF inv, of g d] e not_e [of g] by (auto simp: q at split: if_splits)
  moreover have "d < length (objs q) \<Longrightarrow> ev_index (ev_at d q) \<in> {kNew, kAdded, kDeleted} \<and>
      (ev_index (ev_at d q) \<noteq> kNew \<longrightarrow> fdEventMaps q (ev_fd (ev_at d q)) = Some d)" for d
    using poller_invD(2,3) [OF inv, of d] new(2) by (auto simp: q at)
  ultimately show ?thesis unfolding poller_inv_def by blast
next
  case again
  let ?f = "ev_fd (ev_at e p)"
  have at: "ev_at d q = (if d = e then (ev_at e p)\<lparr>ev_index := kAdded\<rparr> else ev_at d p)" for d
    using again(2) e by (simp add: setIndex_ev_def)
  have q: "fdEventMaps q = fdEventMaps p" "length (objs q) = length (objs p)"
    "ctl_log q = ctl_log p @ [(CtlAdd, ?f, ev_events (ev_at e p), e)]"
    using again(2) e by (simp_all add: setIndex_ev_def)
  have f: "fdEventMaps p ?f = Some e" using poller_invD(3) [OF inv e] again(1) by simp
  then have fresh: "?f \<notin> interest (ctl_log p)" using poller_invD(4) [OF inv] again(1) by simp
  have "g \<in> interest (ctl_log q) \<longleftrightarrow> (\<exists>d. fdEventMaps q g = Some d \<and> ev_index (ev_at d q) = kAdded)" for g
    using poller_invD(1,4) [OF inv, of g] f by (auto simp: q at)
  moreover have "ctl_legal (ctl_log q) {}" using ctl_step [OF inv] fresh by (simp add: q)
  ultimately show ?thesis
    using inv again(1) unfolding poller_inv_def by (auto simp: q at)
next
  case delete
  let ?f = "ev_fd (ev_at e p)"
  have at: "ev_at d q = (if d = e then (ev_at e p)\<lparr>ev_index := kDeleted\<rparr> else ev_at d p)" for d
    using delete(3) e by (simp add: setIndex_ev_def)
  have q: "fdEventMaps q = fdEventMaps p" "length (objs q) = length (objs p)"
    "ctl_log q = ctl_log p @ [(CtlDel, ?f, ev_events (ev_at e p), e)]"
    using delete(3) e by (simp_all add: setIndex_ev_def)
  have f: "fdEventMaps p ?f = Some e" using poller_invD(3) [OF inv e] delete(1) by simp
  then have old: "?f \<in> interest (ctl_log p)" using poller_invD(4) [OF inv] delete(1) by simp
  have "g \<in> interest (ctl_log q) \<longleftrightarrow> (\<exists>d. fdEventMaps q g = Some d \<and> ev_index (ev_at d q) = kAdded)" for g
    using poller_invD(1,4) [OF inv, of g] f by (auto simp: q at)
  moreover have "ctl_legal (ctl_log q) {}" using ctl_step [OF inv] old by (simp add: q)
  ultimately show ?thesis
    using inv delete(1) unfolding poller_inv_def by (auto simp: q at)
next
  case modify
  let ?f = "ev_fd (ev_at e p)"
  have q: "fdEventMaps q = fdEventMaps p" "length (objs q) = length (objs p)" "ev_at d q = ev_at d p"
    "ctl_log q = ctl_log p @ [(CtlMod, ?f, ev_events (ev_at e p), e)]" for d
    using modify(2) by simp_all
  have "?f \<in> interest (ctl_log p)"
    using poller_invD(3) [OF inv e] poller_invD(4) [OF inv] modify(1) by simp
  then have "ctl_legal (ctl_log q) {}" using ctl_step [OF inv] by (simp add: q)
  then show ?thesis using inv unfolding poller_inv_def by (simp add: q)
qed

lemma removeEvent_inv:
  assumes inv: "poller_inv p" and e: "e < length (objs p)" and r: "Poller_removeEvent e p = Inr q"
  shows "poller_inv q"
proof -
  let ?f = "ev_fd (ev_at e p)" and ?added = "ev_index (ev_at e p) = kAdded"
  from r have f: "fdEventMaps p ?f = Some e"
    and q0: "q = setIndex_ev e kNew
      (if ?added then Poller_update CtlDel e (p\<lparr>fdEventMaps := (fdEventMaps p)(?f := None)\<rparr>)
       else p\<lparr>fdEventMaps := (fdEventMaps p)(?f := None)\<rparr>)"
    by (auto simp: Poller_removeEvent_def Let_def)
  have at: "ev_at d q = (if d = e then (ev_at e p)\<lparr>ev_index := kNew\<rparr> else ev_at d p)" for d
    using q0 e by (simp add: setIndex_ev_def)
  have q: "fdEventMaps q = (fdEventMaps p)(?f := None)" "length (objs q) = length (objs p)"
    "ctl_log q = ctl_log p @ (if ?added then [(CtlDel, ?f, ev_events (ev_at e p), e)] else [])"
    using q0 e by (simp_all add: setIndex_ev_def)
  have old: "?f \<in> interest (ctl_log p) \<longleftrightarrow> ?added" using poller_invD(4) [OF inv] f by simp
  have only_f: "fdEventMaps p g = Some e \<Longrightarrow> g = ?f" for g using poller_invD(1) [OF inv] by blast
  have "g \<in> interest (ctl_log q) \<longleftrightarrow> (\<exists>d. fdEventMaps q g = Some d \<and> ev_index (ev_at d q) = kAdded)" for g
  proof (cases "g = ?f")
    case True
    with old show ?thesis by (auto simp: q)
  next
    case False
    with poller_invD(4) [OF inv, of g] only_f [of g] show ?thesis
      by (cases "fdEventMaps p g") (auto simp: q at)
  qed
  moreover have "ctl_legal (ctl_log q) {}" using ctl_step [OF inv] old poller_invD(5) [OF inv] by (simp add: q)
  moreover have "d < length (objs q) \<and> ev_fd (ev_at d q) = g \<and> ev_index (ev_at d q) \<noteq> kNew"
    if "fdEventMaps q g = Some d" for g d
  proof -
    from that have g: "g \<noteq> ?f" "fdEventMaps p g = Some d" by (simp_all add: q split: if_splits)
    then have "d \<noteq> e" using only_f by blast
    with poller_invD(1) [OF inv g(2)] show ?thesis by (simp add: q at)
  qed
  moreover have "ev_index (ev_at d q) \<in> {kNew, kAdded, kDeleted} \<and>
      (ev_index (ev_at d q) \<noteq> kNew \<longrightarrow> fdEventMaps q (ev_fd (ev_at d q)) = Some d)" if "d < length (objs q)" for d
  proof (cases "d = e")
    case False
    then have "fdEventMaps p (ev_fd (ev_at d p)) = Some d \<Longrightarrow> ev_fd (ev_at d p) \<noteq> ?f" using f by auto
    with False poller_invD(2,3) [OF inv, of d] that show ?thesis by (auto simp: q at)
  qed (simp add: at)
  ultimately show ?thesis unfolding poller_inv_def by blast
qed

section \<open>Programs\<close>

text \<open>\<open>OpNew\<close> is \<open>CreatFdEvent\<close> followed by \<open>init\<close>, as every user of the class has it.\<close>

datatype poll_op =
    OpNew int ev_mode | OpEnableReading nat | OpEnableWriting nat | OpDisableReading nat
  | OpDisableWriting nat | OpDisableAll nat | OpRemove nat | OpPoll "(nat \<times> 32 word) list option"

definition on_event :: "nat \<Rightarrow> ('a poller_scheme \<Rightarrow> 'a poller_scheme result) \<Rightarrow> 'a poller_scheme \<Rightarrow> 'a poller_scheme result" where
  "on_event e f p = (if e < length (objs p) then f p else Inl Undefined)"

fun poll_step :: "poll_op \<Rightarrow> 'a poller_scheme \<Rightarrow> 'a poller_scheme result" where
  "poll_step (OpNew f mode) p = Inr (EpollFdEvent_init (length (objs p)) f mode (EpollFdEvent_new 0 p))"
| "poll_step (OpEnableReading e) p = on_event e (enableReading e) p"
| "poll_step (OpEnableWriting e) p = on_event e (enableWriting e) p"
| "poll_step (OpDisableReading e) p = on_event e (disableReading e) p"
| "poll_step (OpDisableWriting e) p = on_event e (disableWriting e) p"
| "poll_step (OpDisableAll e) p = on_event e (disableAll e) p"
| "poll_step (OpRemove e) p = on_event e (EpollFdEvent_remove e) p"
| "poll_step (OpPoll w) p =
     (if \<forall>r. w = Some r \<longrightarrow> (\<forall>(e, _) \<in> set r. e < length (objs p)) then Poller_poll w p else Inl Undefined)"

lemma new_inv: "poller_inv p \<Longrightarrow> poller_inv (EpollFdEvent_init (length (objs p)) f mode (EpollFdEvent_new u p))"
proof -
  assume inv: "poller_inv p"
  let ?q = "EpollFdEvent_init (length (objs p)) f mode (EpollFdEvent_new u p)"
  have at: "e < length (objs p) \<Longrightarrow> ev_at e ?q = ev_at e p" "ev_index (ev_at (length (objs p)) ?q) = kNew" for e
    by (auto simp: EpollFdEvent_init_def EpollFdEvent_new_def upd_ev_def ev_at_def nth_append kNew_def)
  have q: "fdEventMaps ?q = fdEventMaps p" "ctl_log ?q = ctl_log p" "length (objs ?q) = Suc (length (objs p))"
    by (simp_all add: EpollFdEvent_init_def EpollFdEvent_new_def)
  have "ev_at e ?q = ev_at e p" if "fdEventMaps p g = Some e" for g e
    using that inv at(1) by (simp add: poller_inv_def)
  with inv show ?thesis unfolding poller_inv_def q by (auto simp: less_Suc_eq at)
qed

lemma fill_inv:
  assumes "poller_inv p" "\<forall>(e, _) \<in> set r. e < length (objs p)"
  shows "poller_inv (fold (\<lambda>(e, re) p. let p' = upd_ev e (\<lambda>ev. ev\<lparr>ev_revents := re\<rparr>) p
      in p'\<lparr>activeEvents := activeEvents p' @ [e]\<rparr>) r p)"
  using assms
proof (induction r arbitrary: p)
  case (Cons x r)
  obtain e re where x: "x = (e, re)" by (cases x)
  let ?p = "upd_ev e (\<lambda>ev. ev\<lparr>ev_revents := re\<rparr>) p"
  have "poller_inv (?p\<lparr>activeEvents := activeEvents ?p @ [e]\<rparr>)"
    by (rule poller_inv_cong [OF poller_inv_upd [of p e "\<lambda>ev. ev\<lparr>ev_revents := re\<rparr>"]])
      (use Cons.prems x in \<open>auto simp: ev_at_def\<close>)
  with Cons x show ?case by (simp add: Let_def)
qed simp

lemma poll_inv:
  assumes "poller_inv p" "\<forall>r. w = Some r \<longrightarrow> (\<forall>(e, _) \<in> set r. e < length (objs p))" "Poller_poll w p = Inr q"
  shows "poller_inv q"
proof (cases w)
  case (Some r)
  let ?q = "fold (\<lambda>(e, re) p. let p' = upd_ev e (\<lambda>ev. ev\<lparr>ev_revents := re\<rparr>) p
      in p'\<lparr>activeEvents := activeEvents p' @ [e]\<rparr>) r p"
  have "poller_inv ?q" using fill_inv [OF assms(1), of r] assms(2) Some by simp
  moreover have "q = p \<or> q = ?q \<or> q = ?q\<lparr>buf_size := buf_size ?q * 2\<rparr>"
    using assms(3) Some by (auto simp: Poller_poll_def fillActiveEvents_def r_bind_eq_Inr split: if_splits)
  moreover have "poller_inv (?q\<lparr>buf_size := b\<rparr>) = poller_inv ?q" for b
    by (simp add: poller_inv_def ev_at_def)
  ultimately show ?thesis using assms(1) by auto
qed (use assms in \<open>simp add: Poller_poll_def\<close>)

lemma event_update_inv:
  assumes "poller_inv p" "e < length (objs p)" "EpollFdEvent_update e (with_events e f p) = Inr q"
  shows "poller_inv q"
proof -
  let ?p = "upd_ev e (\<lambda>ev. ev\<lparr>ev_added := True\<rparr>) (with_events e f p)"
  have "poller_inv ?p"
    by (rule poller_inv_upd) (use assms in \<open>simp_all add: with_events_inv\<close>)
  moreover have "e < length (objs ?p)" using assms(2) by (simp add: with_events_def)
  ultimately show ?thesis using assms(3) unfolding EpollFdEvent_update_def by (rule updateEvent_inv)
qed

text \<open>No assertion of \<open>updateEvent\<close> fails for an event that is registered, or that is new and whose
  descriptor is free; and nothing but the event, the map and the log changes.\<close>

lemma event_update_ok:
  assumes inv: "poller_inv p" and e: "e < length (objs p)"
    and reg: "ev_index (ev_at e p) \<noteq> kNew \<or> fdEventMaps p (ev_fd (ev_at e p)) = None"
  shows "\<exists>q. EpollFdEvent_update e (with_events e f p) = Inr q \<and> poller_inv q \<and>
     length (objs q) = length (objs p) \<and> ev_index (ev_at e q) \<noteq> kNew \<and>
     ev_events (ev_at e q) = f (ev_events (ev_at e p)) \<and> ev_fd (ev_at e q) = ev_fd (ev_at e p) \<and>
     (\<forall>d. d \<noteq> e \<longrightarrow> ev_at d q = ev_at d p) \<and> poller.more q = poller.more p"
proof -
  let ?p = "upd_ev e (\<lambda>ev. ev\<lparr>ev_added := True\<rparr>) (with_events e f p)"
  have at: "ev_at d ?p = (if d = e then (ev_at e p)\<lparr>ev_events := f (ev_events (ev_at e p)), ev_added := True\<rparr> else ev_at d p)" for d
    using e by (simp add: with_events_def)
  have p: "length (objs ?p) = length (objs p)" "fdEventMaps ?p = fdEventMaps p" "poller.more ?p = poller.more p"
    by (simp_all add: with_events_def upd_ev_def)
  have "ev_index (ev_at e p) \<noteq> kNew \<longrightarrow> fdEventMaps p (ev_fd (ev_at e p)) = Some e"
    "ev_index (ev_at e p) \<in> {kNew, kAdded, kDeleted}"
    using poller_invD(2,3) [OF inv e] by auto
  then have "\<exists>q. Poller_updateEvent e ?p = Inr q \<and>
    (q = Poller_update CtlAdd e (setIndex_ev e kAdded ?p) \<or>
     q = Poller_update CtlAdd e (setIndex_ev e kAdded (?p\<lparr>fdEventMaps := (fdEventMaps p)(ev_fd (ev_at e p) \<mapsto> e)\<rparr>)) \<or>
     q = setIndex_ev e kDeleted (Poller_update CtlDel e ?p) \<or> q = Poller_update CtlMod e ?p \<and> ev_index (ev_at e p) = kAdded)"
    using reg by (cases "isNoneEvent (ev_at e ?p)") (auto simp: Poller_updateEvent_def Let_def at p)
  then obtain q where q: "Poller_updateEvent e ?p = Inr q"
    "q = Poller_update CtlAdd e (setIndex_ev e kAdded ?p) \<or>
     q = Poller_update CtlAdd e (setIndex_ev e kAdded (?p\<lparr>fdEventMaps := (fdEventMaps p)(ev_fd (ev_at e p) \<mapsto> e)\<rparr>)) \<or>
     q = setIndex_ev e kDeleted (Poller_update CtlDel e ?p) \<or> q = Poller_update CtlMod e ?p \<and> ev_index (ev_at e p) = kAdded"
    by (elim exE conjE)
  have "poller_inv q" using event_update_inv [OF inv e, of f q] q(1) by (simp add: EpollFdEvent_update_def)
  moreover have "length (objs q) = length (objs p) \<and> ev_index (ev_at e q) \<noteq> kNew \<and>
     ev_events (ev_at e q) = f (ev_events (ev_at e p)) \<and> ev_fd (ev_at e q) = ev_fd (ev_at e p) \<and>
     (\<forall>d. d \<noteq> e \<longrightarrow> ev_at d q = ev_at d p)"
    using q(2) e by (elim disjE conjE) (simp_all add: setIndex_ev_def at p)
  moreover have "poller.more q = poller.more p"
    using q(2) by (elim disjE conjE) (simp_all add: setIndex_ev_def Poller_update_def upd_ev_def with_events_def)
  ultimately show ?thesis using q(1) by (auto simp: EpollFdEvent_update_def)
qed

lemma event_remove_inv:
  assumes "poller_inv p" "e < length (objs p)" "EpollFdEvent_remove e p = Inr q"
  shows "poller_inv q"
proof -
  let ?p = "upd_ev e (\<lambda>ev. ev\<lparr>ev_added := False\<rparr>) p"
  have "poller_inv ?p" by (rule poller_inv_upd) (use assms in simp_all)
  moreover have "e < length (objs ?p)" using assms(2) by simp
  moreover have "Poller_removeEvent e ?p = Inr q" using assms(3) by (simp add: EpollFdEvent_remove_def)
  ultimately show ?thesis by (rule removeEvent_inv)
qed

text \<open>The removal of a registered event without interest.\<close>

lemma event_remove_ok:
  assumes inv: "poller_inv p" and e: "e < length (objs p)" and reg: "ev_index (ev_at e p) \<noteq> kNew"
    and none: "ev_events (ev_at e p) = kNoneEvent"
  shows "\<exists>q. EpollFdEvent_remove e p = Inr q \<and> poller_inv q \<and> length (objs q) = length (objs p) \<and>
     fdEventMaps q = (fdEventMaps p)(ev_fd (ev_at e p) := None) \<and> ev_fd (ev_at e q) = ev_fd (ev_at e p) \<and>
     ev_events (ev_at e q) = kNoneEvent \<and> ev_index (ev_at e q) = kNew \<and> (\<forall>d. d \<noteq> e \<longrightarrow> ev_at d q = ev_at d p) \<and>
     poller.more q = poller.more p"
proof -
  let ?p = "upd_ev e (\<lambda>ev. ev\<lparr>ev_added := False\<rparr>) p" and ?f = "ev_fd (ev_at e p)"
  have map: "fdEventMaps p ?f = Some e" and idx: "ev_index (ev_at e p) \<in> {kAdded, kDeleted}"
    using poller_invD(2,3) [OF inv e] reg by auto
  have at: "ev_at e ?p = (ev_at e p)\<lparr>ev_added := False\<rparr>" using e by simp
  let ?q = "setIndex_ev e kNew (if ev_index (ev_at e p) = kAdded
      then Poller_update CtlDel e (?p\<lparr>fdEventMaps := (fdEventMaps p)(?f := None)\<rparr>)
      else ?p\<lparr>fdEventMaps := (fdEventMaps p)(?f := None)\<rparr>)"
  have q: "EpollFdEvent_remove e p = Inr ?q"
    using map idx none e by (auto simp: EpollFdEvent_remove_def Poller_removeEvent_def isNoneEvent_def Let_def)
  moreover have "poller_inv ?q" using event_remove_inv [OF inv e q] .
  moreover have "poller.more ?q = poller.more p"
    by (simp add: setIndex_ev_def upd_ev_def Poller_update_def)
  ultimately show ?thesis using e none by (intro exI [of _ ?q]) (simp add: setIndex_ev_def)
qed

text \<open>The index after an update, and what no operation on an event changes: the callbacks, the mode,
  the lock and the reported events.\<close>

definition ev_flags :: "fd_event \<Rightarrow> int \<times> bool \<times> bool \<times> 32 word \<times> bool \<times> bool \<times> bool \<times> bool" where
  "ev_flags ev = (ev_fd ev, ev_oneshot ev, ev_locked ev, ev_revents ev, ev_reader ev, ev_writer ev, ev_closer ev, ev_catcher ev)"

lemma event_update_index:
  assumes inv: "poller_inv p" and e: "e < length (objs p)"
    and q: "EpollFdEvent_update e (with_events e f p) = Inr q"
  shows "ev_index (ev_at e q) =
      (if ev_index (ev_at e p) = kAdded \<and> f (ev_events (ev_at e p)) = kNoneEvent then kDeleted else kAdded)"
    and "ev_flags (ev_at e q) = ev_flags (ev_at e p)"
  using q e poller_invD(2) [OF inv e]
  by (auto simp: EpollFdEvent_update_def with_events_def Poller_updateEvent_def Let_def r_bind_eq_Inr
      r_assert_eq_Inr setIndex_ev_def ev_flags_def isNoneEvent_def split: if_splits)

lemma event_remove_flags:
  assumes e: "e < length (objs p)" and q: "EpollFdEvent_remove e p = Inr q"
  shows "ev_flags (ev_at e q) = ev_flags (ev_at e p)"
  using q e by (auto simp: EpollFdEvent_remove_def Poller_removeEvent_def Let_def r_assert_eq_Inr setIndex_ev_def
      ev_flags_def)

lemma event_buf_size:
  "EpollFdEvent_update e (with_events e f p) = Inr q \<Longrightarrow> buf_size q = buf_size p"
  "EpollFdEvent_remove e p = Inr q \<Longrightarrow> buf_size q = buf_size p"
  by (auto simp: EpollFdEvent_update_def EpollFdEvent_remove_def Poller_removeEvent_def with_events_def
      Poller_updateEvent_def Let_def r_bind_eq_Inr setIndex_ev_def Poller_update_def upd_ev_def split: if_splits)

lemma event_update_active:
  "EpollFdEvent_update e (with_events e f p) = Inr q \<Longrightarrow> activeEvents q = activeEvents p"
  by (auto simp: EpollFdEvent_update_def with_events_def Poller_updateEvent_def Let_def r_bind_eq_Inr
      setIndex_ev_def Poller_update_def upd_ev_def split: if_splits)

text \<open>What \<open>fillActiveEvents\<close> leaves for distinct events of the loop.\<close>

lemma fill_result:
  assumes "\<forall>(e, re) \<in> set r. e < length (objs p)" "distinct (map fst r)"
  shows "\<exists>q. fold (\<lambda>(e, re) p. let p' = upd_ev e (\<lambda>ev. ev\<lparr>ev_revents := re\<rparr>) p
        in p'\<lparr>activeEvents := activeEvents p' @ [e]\<rparr>) r p = q \<and>
     length (objs q) = length (objs p) \<and> activeEvents q = activeEvents p @ map fst r \<and> fdEventMaps q = fdEventMaps p \<and>
     ctl_log q = ctl_log p \<and> buf_size q = buf_size p \<and> poller.more q = poller.more p \<and>
     (\<forall>e re. (e, re) \<in> set r \<longrightarrow> ev_at e q = (ev_at e p)\<lparr>ev_revents := re\<rparr>) \<and>
     (\<forall>e. e \<notin> fst ` set r \<longrightarrow> ev_at e q = ev_at e p)"
  using assms
proof (induction r arbitrary: p)
  case (Cons x r)
  obtain e re where x: "x = (e, re)" by (cases x)
  let ?u = "upd_ev e (\<lambda>ev. ev\<lparr>ev_revents := re\<rparr>) p"
  let ?p = "?u\<lparr>activeEvents := activeEvents ?u @ [e]\<rparr>"
  have e: "e < length (objs p)" "e \<notin> fst ` set r" using Cons.prems x by auto
  have p: "length (objs ?p) = length (objs p)" "activeEvents ?p = activeEvents p @ [e]" "fdEventMaps ?p = fdEventMaps p"
    "ctl_log ?p = ctl_log p" "buf_size ?p = buf_size p" "poller.more ?p = poller.more p"
    by (simp_all add: upd_ev_def)
  have at: "ev_at d ?p = (if d = e then (ev_at e p)\<lparr>ev_revents := re\<rparr> else ev_at d p)" for d
    using e(1) by (auto simp: ev_at_def upd_ev_def)
  have "\<forall>(e, re) \<in> set r. e < length (objs ?p)" "distinct (map fst r)" using Cons.prems p(1) by auto
  from Cons.IH [OF this] obtain q where q: "fold (\<lambda>(e, re) p. let p' = upd_ev e (\<lambda>ev. ev\<lparr>ev_revents := re\<rparr>) p
        in p'\<lparr>activeEvents := activeEvents p' @ [e]\<rparr>) r ?p = q" "length (objs q) = length (objs ?p)"
      "activeEvents q = activeEvents ?p @ map fst r" "fdEventMaps q = fdEventMaps ?p" "ctl_log q = ctl_log ?p"
      "buf_size q = buf_size ?p" "poller.more q = poller.more ?p"
      "\<forall>e re. (e, re) \<in> set r \<longrightarrow> ev_at e q = (ev_at e ?p)\<lparr>ev_revents := re\<rparr>"
      "\<forall>e. e \<notin> fst ` set r \<longrightarrow> ev_at e q = ev_at e ?p" by blast
  have "(d, rd) \<in> set (x # r) \<Longrightarrow> ev_at d q = (ev_at d p)\<lparr>ev_revents := rd\<rparr>" for d rd
    using q(8,9) e(2) x at by (cases "d = e") force+
  moreover have "d \<notin> fst ` set (x # r) \<Longrightarrow> ev_at d q = ev_at d p" for d
    using q(9) x at by auto
  ultimately show ?case using q(1-7) p x by (simp add: Let_def)
qed simp

text \<open>\<open>poll\<close> with a report that the poller can hold.\<close>

lemma poll_result:
  fixes p :: "'a poller_scheme" and w :: "(nat \<times> 32 word) list option"
  defines "r \<equiv> (case w of None \<Rightarrow> [] | Some r \<Rightarrow> r)"
  assumes r: "\<forall>(e, re) \<in> set r. e < length (objs p)" "distinct (map fst r)" "length r \<le> buf_size p" and size: "0 < buf_size p"
  shows "\<exists>q. Poller_poll w p = Inr q \<and> length (objs q) = length (objs p) \<and> activeEvents q = activeEvents p @ map fst r \<and>
     fdEventMaps q = fdEventMaps p \<and> ctl_log q = ctl_log p \<and> 0 < buf_size q \<and> poller.more q = poller.more p \<and>
     (\<forall>e re. (e, re) \<in> set r \<longrightarrow> ev_at e q = (ev_at e p)\<lparr>ev_revents := re\<rparr>) \<and>
     (\<forall>e. e \<notin> fst ` set r \<longrightarrow> ev_at e q = ev_at e p)"
proof -
  from fill_result [OF r(1,2)] obtain q where q: "fold (\<lambda>(e, re) p. let p' = upd_ev e (\<lambda>ev. ev\<lparr>ev_revents := re\<rparr>) p
        in p'\<lparr>activeEvents := activeEvents p' @ [e]\<rparr>) r p = q" "length (objs q) = length (objs p)"
    "activeEvents q = activeEvents p @ map fst r" "fdEventMaps q = fdEventMaps p" "ctl_log q = ctl_log p"
    "buf_size q = buf_size p" "poller.more q = poller.more p"
    "\<forall>e re. (e, re) \<in> set r \<longrightarrow> ev_at e q = (ev_at e p)\<lparr>ev_revents := re\<rparr>"
    "\<forall>e. e \<notin> fst ` set r \<longrightarrow> ev_at e q = ev_at e p" by blast
  define s where "s = (if r \<noteq> [] \<and> length r = buf_size q then q\<lparr>buf_size := buf_size q * 2\<rparr> else q)"
  have "Poller_poll w p = Inr s"
    using q(1,6) r(3) by (cases w) (auto simp: Poller_poll_def fillActiveEvents_def s_def r_def)
  moreover have "length (objs s) = length (objs p)" "activeEvents s = activeEvents p @ map fst r" "fdEventMaps s = fdEventMaps p"
    "ctl_log s = ctl_log p" "0 < buf_size s" "poller.more s = poller.more p" "\<And>e. ev_at e s = ev_at e q"
    using q(2-7) size by (simp_all add: s_def ev_at_def)
  ultimately show ?thesis using q(8,9) by (intro exI [of _ s]) simp
qed

text \<open>Registration of a new event object on a free descriptor: it is made, its callbacks are set
  (\<open>g\<close>), and interest is declared.\<close>

lemma event_update_maps:
  assumes inv: "poller_inv p" and e: "e < length (objs p)"
    and q: "EpollFdEvent_update e (with_events e f p) = Inr q"
  shows "fdEventMaps q = (fdEventMaps p)(ev_fd (ev_at e p) \<mapsto> e)"
proof -
  have "ev_index (ev_at e p) \<noteq> kNew \<longrightarrow> fdEventMaps p (ev_fd (ev_at e p)) = Some e"
    using poller_invD(3) [OF inv e] by simp
  with q e show ?thesis
    by (auto simp: EpollFdEvent_update_def with_events_def Poller_updateEvent_def Let_def r_bind_eq_Inr
        r_assert_eq_Inr setIndex_ev_def Poller_update_def split: if_splits)
qed

lemma event_register_ok:
  assumes inv: "poller_inv p" and free: "fdEventMaps p fd = None"
    and g: "\<And>ev. ev_fd (g ev) = ev_fd ev \<and> ev_index (g ev) = ev_index ev"
  shows "\<exists>q. EpollFdEvent_update (length (objs p)) (with_events (length (objs p)) f
       (upd_ev (length (objs p)) g (EpollFdEvent_init (length (objs p)) fd mode (EpollFdEvent_new u p)))) = Inr q \<and>
     poller_inv q \<and> fdEventMaps q = (fdEventMaps p)(fd \<mapsto> length (objs p)) \<and>
     length (objs q) = Suc (length (objs p)) \<and> ev_fd (ev_at (length (objs p)) q) = fd \<and>
     ev_index (ev_at (length (objs p)) q) \<noteq> kNew \<and> poller.more q = poller.more p"
proof -
  let ?e = "length (objs p)" and ?p = "EpollFdEvent_init (length (objs p)) fd mode (EpollFdEvent_new u p)"
  have p1: "poller_inv ?p" "length (objs ?p) = Suc ?e" "ev_fd (ev_at ?e ?p) = fd" "fdEventMaps ?p = fdEventMaps p"
    "poller.more ?p = poller.more p"
    using new_inv [OF inv]
    by (simp_all add: EpollFdEvent_init_def EpollFdEvent_new_def upd_ev_def ev_at_def)
  have p2: "poller_inv (upd_ev ?e g ?p)" using p1(1,2) g by (intro poller_inv_upd) simp_all
  have "?e < length (objs (upd_ev ?e g ?p))" "ev_fd (ev_at ?e (upd_ev ?e g ?p)) = fd"
    using p1(2,3) g by simp_all
  with event_update_ok [OF p2, of ?e f] free p1 obtain q where
    q: "EpollFdEvent_update ?e (with_events ?e f (upd_ev ?e g ?p)) = Inr q" "poller_inv q"
      "length (objs q) = Suc ?e" "ev_index (ev_at ?e q) \<noteq> kNew" "ev_fd (ev_at ?e q) = fd"
      "poller.more q = poller.more p" by (auto simp: upd_ev_def)
  with event_update_maps [OF p2 _ q(1)] p1(2-4) g show ?thesis by (intro exI [of _ q]) simp
qed

lemma poll_step_inv: "poller_inv p \<Longrightarrow> poll_step x p = Inr q \<Longrightarrow> poller_inv q"
  by (cases x)
    (auto simp: on_event_def enableReading_def enableWriting_def disableReading_def disableWriting_def
      disableAll_def split: if_splits intro: new_inv poll_inv event_update_inv event_remove_inv)

interpretation poller_ops: guarded_ops poll_step "\<lambda>_. True" poller_inv
  by unfold_locales (rule poll_step_inv)

lemma poller_inv_new: "poller_inv Poller_new"
  by (simp add: poller_inv_def Poller_new_def interest_def)

section \<open>Properties\<close>

text \<open>C3: In every program of event objects and polls in which no assertion fails, every
  \<open>epoll_ctl\<close> call of \<open>Poller\<close> is legal: a descriptor is added only when it is not in the interest
  list and modified or deleted only when it is. And what \<open>Poller\<close> records agrees with it: a descriptor is
  in the interest list exactly when the event registered for it has the index \<open>kAdded\<close>, and \<open>hasEvent\<close> is
  true of exactly the events whose index is not \<open>kNew\<close>.\<close>
theorem poller_calls_legal:
  assumes "r_fold poll_step ops Poller_new = Inr p"
  shows "ctl_legal (ctl_log p) {} \<and>
    (\<forall>f. f \<in> interest (ctl_log p) \<longleftrightarrow> (\<exists>e. fdEventMaps p f = Some e \<and> ev_index (ev_at e p) = kAdded)) \<and>
    (\<forall>e < length (objs p). Poller_hasEvent e p \<longleftrightarrow> ev_index (ev_at e p) \<noteq> kNew)"
proof -
  have inv: "poller_inv p" using poller_ops.run_inv [OF poller_inv_new _ assms] by simp
  have "Poller_hasEvent e p \<longleftrightarrow> ev_index (ev_at e p) \<noteq> kNew" if "e < length (objs p)" for e
    using poller_invD(1,3) [OF inv] that by (auto simp: Poller_hasEvent_def)
  with inv show ?thesis unfolding poller_inv_def by blast
qed

lemmas poll_run = Poller_new_def EpollFdEvent_init_def EpollFdEvent_new_def upd_ev_def on_event_def
  enableReading_def enableWriting_def disableReading_def disableWriting_def disableAll_def
  EpollFdEvent_update_def with_events_def Poller_updateEvent_def EpollFdEvent_remove_def
  Poller_removeEvent_def Poller_update_def setIndex_ev_def ev_at_def isNoneEvent_def Let_def
  kNew_def kAdded_def kDeleted_def kNoneEvent_def kReadEvent_def kWriteEvent_def

theorem poller_calls_legal_witness:
  "\<exists>p. r_fold poll_step [OpNew 7 KPersist, OpEnableReading 0, OpDisableAll 0, OpEnableWriting 0] Poller_new = Inr p \<and>
     map fst (ctl_log p) = [CtlAdd, CtlDel, CtlAdd] \<and> ctl_legal (ctl_log p) {}"
proof -
  let ?ops = "[OpNew 7 KPersist, OpEnableReading 0, OpDisableAll 0, OpEnableWriting 0]"
  have "\<exists>p. r_fold poll_step ?ops Poller_new = Inr p \<and> map fst (ctl_log p) = [CtlAdd, CtlDel, CtlAdd]"
    by (simp add: poll_run)
  then obtain p where p: "r_fold poll_step ?ops Poller_new = Inr p" "map fst (ctl_log p) = [CtlAdd, CtlDel, CtlAdd]"
    by (elim exE conjE)
  from poller_calls_legal [OF p(1)] have "ctl_legal (ctl_log p) {}" by (rule conjunct1)
  with p show ?thesis by (intro exI [of _ p] conjI)
qed

text \<open>\<open>handleEvent\<close> of a persistent, unlocked event whose callbacks do not change the event runs
  exactly the callbacks that are set and whose condition is reported, in the order close, error,
  read, write, each at most once; a hang-up with data left to read is not a close.\<close>
theorem dispatch_order:
  assumes "\<not> ev_locked (ev_at e p)" "\<not> ev_oneshot (ev_at e p)"
    "\<And>c q. ev_at e q = ev_at e p \<Longrightarrow> \<exists>q'. run c e q = Inr q' \<and> ev_at e q' = ev_at e p \<and> fired q' = fired q @ [c]"
  shows "\<exists>q. handleEvent run e p = Inr q \<and> ev_at e q = ev_at e p \<and>
     fired q = fired p @ filter (\<lambda>c. cb_due c (ev_at e p)) [CbClose, CbError, CbRead, CbWrite]"
proof -
  let ?f = "\<lambda>c p. if cb_due c (ev_at e p) then run c e p else Inr p"
  have fold: "\<exists>q. r_fold ?f cs t = Inr q \<and> ev_at e q = ev_at e p \<and>
      fired q = fired t @ filter (\<lambda>c. cb_due c (ev_at e p)) cs" if "ev_at e t = ev_at e p" for cs t
    using that
  proof (induction cs arbitrary: t)
    case (Cons c cs)
    show ?case
    proof (cases "cb_due c (ev_at e p)")
      case True
      with assms(3) [OF Cons.prems, of c] obtain u where u: "run c e t = Inr u" "ev_at e u = ev_at e p"
        "fired u = fired t @ [c]" by blast
      with Cons.IH [OF u(2)] True Cons.prems show ?thesis by auto
    qed (use Cons in auto)
  qed simp
  from fold [OF refl, of "[CbClose, CbError, CbRead, CbWrite]"] assms(1,2) show ?thesis
    by (auto simp: handleEvent_def handleLockEvent_def simp del: r_fold.simps)
qed

definition sample_event :: "bool \<Rightarrow> fd_event" where
  "sample_event oneshot = \<lparr>ev_fd = 7, ev_added = True, ev_oneshot = oneshot, ev_revents = EPOLLIN OR EPOLLOUT,
     ev_index = kAdded, ev_events = kReadEvent, ev_locked = False, ev_reader = True, ev_writer = True,
     ev_closer = True, ev_catcher = False\<rparr>"

definition sample_poller :: "bool \<Rightarrow> cb list poller_scheme" where
  "sample_poller oneshot = \<lparr>objs = [sample_event oneshot], fdEventMaps = [7 \<mapsto> 0], buf_size = 256,
     ctl_log = [], activeEvents = [], \<dots> = []\<rparr>"

theorem dispatch_order_witness:
  "\<exists>q. handleEvent (\<lambda>c e q. Inr (poller.more_update (\<lambda>m. m @ [c]) q)) 0 (sample_poller False) = Inr q \<and>
     poller.more q = [CbRead, CbWrite]"
proof -
  let ?run = "\<lambda>c e q. Inr (poller.more_update (\<lambda>m. m @ [c]) q) :: cb list poller_scheme result"
  have "\<exists>q. handleEvent ?run 0 (sample_poller False) = Inr q \<and> ev_at 0 q = ev_at 0 (sample_poller False) \<and>
      poller.more q = poller.more (sample_poller False) @
        filter (\<lambda>c. cb_due c (ev_at 0 (sample_poller False))) [CbClose, CbError, CbRead, CbWrite]"
    by (rule dispatch_order) (simp_all add: sample_poller_def sample_event_def ev_at_def)
  then show ?thesis
    by (auto simp: sample_poller_def sample_event_def ev_at_def cb_due_def EPOLLIN_def EPOLLOUT_def
        EPOLLERR_def EPOLLHUP_def EPOLLPRI_def EPOLLRDHUP_def)
qed

text \<open>A one-shot event is dispatched once: \<open>handleEvent\<close> locks it and withdraws its interest, and
  since nothing resets the lock, not even \<open>init\<close>, a later report runs no callback.\<close>
theorem oneshot_stays_locked:
  assumes "ev_oneshot (ev_at e p)" "e < length (objs p)" "\<not> ev_locked (ev_at e p)"
    "\<And>c q. ev_at e q = ev_at e p \<Longrightarrow> run c e q = Inr q" "disableAll e (upd_ev e (\<lambda>ev. ev\<lparr>ev_locked := True\<rparr>) p) = Inr p'"
  shows "handleEvent run e p = Inr p' \<and> ev_events (ev_at e p') = kNoneEvent \<and>
     (\<forall>f m run'. handleEvent run' e (EpollFdEvent_init e f m p') = Inr (EpollFdEvent_init e f m p'))"
proof -
  have "r_fold (\<lambda>c p. if cb_due c (ev_at e p) then run c e p else Inr p) cs p = Inr p" for cs
    by (induction cs) (simp_all add: assms(4))
  then have "handleEvent run e p = Inr p'"
    using assms by (simp add: handleEvent_def handleLockEvent_def del: r_fold.simps)
  moreover have p': "ev_locked (ev_at e p')" "ev_events (ev_at e p') = kNoneEvent" "e < length (objs p')"
    using assms(5,2)
    by (auto simp: disableAll_def EpollFdEvent_update_def with_events_def Poller_updateEvent_def Let_def
        r_bind_eq_Inr setIndex_ev_def split: if_splits)
  moreover have "ev_locked (ev_at e (EpollFdEvent_init e f m p'))" for f m
    using p' by (simp add: EpollFdEvent_init_def)
  ultimately show ?thesis by (simp add: handleEvent_def)
qed

theorem oneshot_stays_locked_witness:
  "\<exists>p'. handleEvent (\<lambda>c e q. Inr q) 0 (sample_poller True) = Inr p' \<and>
     handleEvent (\<lambda>c e q. Inl Undefined) 0 (EpollFdEvent_init 0 8 KPersist p') = Inr (EpollFdEvent_init 0 8 KPersist p')"
proof -
  have "\<exists>p'. disableAll 0 (upd_ev 0 (\<lambda>ev. ev\<lparr>ev_locked := True\<rparr>) (sample_poller True)) = Inr p'"
    by (simp add: sample_poller_def sample_event_def poll_run)
  then obtain p' where p': "disableAll 0 (upd_ev 0 (\<lambda>ev. ev\<lparr>ev_locked := True\<rparr>) (sample_poller True)) = Inr p'" ..
  have "ev_oneshot (ev_at 0 (sample_poller True))" "0 < length (objs (sample_poller True))"
    "\<not> ev_locked (ev_at 0 (sample_poller True))"
    by (simp_all add: sample_poller_def sample_event_def ev_at_def)
  from oneshot_stays_locked [where run = "\<lambda>c e q. Inr q", OF this refl p'] show ?thesis by blast
qed

end
