(* ===== verification/SafeQueue.thy ===== *)
theory SafeQueue
  imports Contracts
begin

text \<open>
  The class template \<open>SafeQueue<T>\<close> of \<open>gwcpp/base/SafeQueue.h\<close>. Every member function holds the
  mutex for its whole body, so each is one atomic operation on the contents of \<open>m_queue\<close>, front
  first. \<open>dequeue(t)\<close> leaves \<open>t\<close> alone when it returns false: that is the result \<open>None\<close>.
\<close>

type_synonym 'a safe_queue = "'a list"

definition SafeQueue_new :: "'a safe_queue" where "SafeQueue_new = []"

text \<open>The copy constructor copies nothing.\<close>

definition SafeQueue_copy :: "'a safe_queue \<Rightarrow> 'a safe_queue" where
  "SafeQueue_copy other = SafeQueue_new"

definition SafeQueue_empty :: "'a safe_queue \<Rightarrow> bool" where
  "SafeQueue_empty q \<longleftrightarrow> q = []"

definition SafeQueue_size :: "'a safe_queue \<Rightarrow> int" where
  "SafeQueue_size q = i32_of_size (length q)"

definition enqueue :: "'a \<Rightarrow> 'a safe_queue \<Rightarrow> 'a safe_queue" where
  "enqueue t q = q @ [t]"

definition dequeue :: "'a safe_queue \<Rightarrow> 'a option \<times> 'a safe_queue" where
  "dequeue q = (if SafeQueue_empty q then (None, q) else (Some (hd q), tl q))"

interpretation sq: fifo_queue SafeQueue_new enqueue dequeue "\<lambda>q. q"
  by unfold_locales (auto simp: SafeQueue_new_def enqueue_def dequeue_def SafeQueue_empty_def)

end
