(* ===== verification/ThreadPool.thy ===== *)
theory ThreadPool
  imports SafeQueue "HOL-Library.Multiset"
begin

text \<open>
  The class \<open>ThreadPool\<close> of \<open>gwcpp/event/ThreadPool.h\<close> as a transition system. Every worker
  has a program counter in \<open>ThreadWorker::operator()\<close>; a step of the system is one atomic action
  of a worker, of a caller of \<open>submit\<close>, or of the caller of \<open>shutdown\<close>, and the actions
  interleave freely. The mutex of the condition variable is the index of its owner; \<open>wait\<close>
  gives it up and falls asleep in one action, and a sleeping worker wakes up on a notification or
  spuriously. \<open>m_shutdown\<close> is a plain \<open>bool\<close>; the model lets every thread see its last value.

  \<open>submitted\<close>, \<open>taken\<close>, \<open>started\<close> and \<open>finished\<close> record the history of the tasks: when they were put
  into the queue, taken out of it, when \<open>func()\<close> was entered and when it returned.
\<close>

section \<open>State\<close>

datatype 'a pc =
    AtLoop        \<comment> \<open>\<open>while ((!m_pool->m_shutdown))\<close>\<close>
  | AtLock        \<comment> \<open>\<open>unique_lock lock(m_conditional_mutex)\<close>\<close>
  | AtTest        \<comment> \<open>\<open>if (m_pool->m_queue.empty())\<close>, the mutex held\<close>
  | AtWait        \<comment> \<open>\<open>m_conditional_lock.wait(lock)\<close>, the queue seen empty, the mutex still held\<close>
  | Asleep        \<comment> \<open>in \<open>wait(lock)\<close>\<close>
  | Woken         \<comment> \<open>in \<open>wait(lock)\<close>, about to take the mutex again\<close>
  | AtTake        \<comment> \<open>\<open>dequeued = m_pool->m_queue.dequeue(func)\<close>, the mutex held\<close>
  | Taken "'a option"  \<comment> \<open>the end of the block, which releases the mutex; what \<open>dequeue\<close> found\<close>
  | AtCall 'a     \<comment> \<open>\<open>if (dequeued)\<close>, about to call \<open>func()\<close>, the mutex released\<close>
  | Running 'a    \<comment> \<open>in \<open>func()\<close>\<close>
  | Exited

text \<open>Where the caller of \<open>shutdown\<close> is: before \<open>notify_all\<close>, or joining thread number \<open>i\<close>.\<close>

datatype closer = NotClosing | MustNotifyAll | Joining nat

text \<open>A thread object without a thread is \<open>None\<close>. \<open>notify_ones\<close> counts the callers of \<open>submit\<close>
  between \<open>enqueue\<close> and \<open>notify_one\<close>.\<close>

record 'a pool =
  m_shutdown :: bool
  m_queue :: "'a safe_queue"
  m_threads :: "'a pc option list"
  m_conditional_mutex :: "nat option"
  notify_ones :: nat
  closer_at :: closer
  submitted :: "'a list"
  taken :: "'a list"
  started :: "'a list"
  finished :: "'a list"

text \<open>A negative number of threads is, as a \<open>size_t\<close>, longer than any vector.\<close>

definition ThreadPool_new :: "int \<Rightarrow> 'a pool result" where
  "ThreadPool_new n_threads =
     (if n_threads < 0 then Inl LengthError
      else Inr \<lparr>m_shutdown = False, m_queue = SafeQueue_new,
         m_threads = replicate (nat n_threads) None, m_conditional_mutex = None,
         notify_ones = 0, closer_at = NotClosing, submitted = [], taken = [], started = [], finished = []\<rparr>)"

text \<open>\<open>init\<close> assigns a new thread to each element: the assignment to one that has a thread calls
  \<open>std::terminate\<close>. So does the destruction of a pool with a thread that was not joined.\<close>

definition ThreadPool_init :: "'a pool \<Rightarrow> 'a pool result" where
  "ThreadPool_init p =
     (if \<exists>t \<in> set (m_threads p). t \<noteq> None then Inl Terminate
      else Inr (p\<lparr>m_threads := map (\<lambda>t. Some AtLoop) (m_threads p)\<rparr>))"

definition ThreadPool_destroy :: "'a pool \<Rightarrow> unit result" where
  "ThreadPool_destroy p =
     (if \<exists>t \<in> set (m_threads p). t \<noteq> None then Inl Terminate else Inr ())"

section \<open>Steps\<close>

definition set_pc :: "nat \<Rightarrow> 'a pc \<Rightarrow> 'a pool \<Rightarrow> 'a pool" where
  "set_pc i c p = p\<lparr>m_threads := (m_threads p)[i := Some c]\<rparr>"

definition pc_of :: "'a pool \<Rightarrow> nat \<Rightarrow> 'a pc option" where
  "pc_of p i = (if i < length (m_threads p) then m_threads p ! i else None)"

text \<open>One action of worker \<open>i\<close> at program counter \<open>c\<close>; \<open>None\<close> means that it is blocked.\<close>

fun worker_step :: "nat \<Rightarrow> 'a pc \<Rightarrow> 'a pool \<Rightarrow> 'a pool option" where
  "worker_step i AtLoop p = Some (set_pc i (if m_shutdown p then Exited else AtLock) p)"
| "worker_step i AtLock p =
     (if m_conditional_mutex p = None
      then Some (set_pc i AtTest (p\<lparr>m_conditional_mutex := Some i\<rparr>)) else None)"
| "worker_step i AtTest p =
     (if SafeQueue_empty (m_queue p)
      then Some (set_pc i AtWait p) else Some (set_pc i AtTake p))"
| "worker_step i AtWait p = Some (set_pc i Asleep (p\<lparr>m_conditional_mutex := None\<rparr>))"
| "worker_step i Asleep p = None"
| "worker_step i Woken p =
     (if m_conditional_mutex p = None
      then Some (set_pc i AtTake (p\<lparr>m_conditional_mutex := Some i\<rparr>)) else None)"
| "worker_step i AtTake p =
     (case dequeue (m_queue p) of
        (None, q) \<Rightarrow> Some (set_pc i (Taken None) (p\<lparr>m_queue := q\<rparr>))
      | (Some func, q) \<Rightarrow> Some (set_pc i (Taken (Some func)) (p\<lparr>m_queue := q, taken := taken p @ [func]\<rparr>)))"
| "worker_step i (Taken f) p =
     Some (set_pc i (case f of None \<Rightarrow> AtLoop | Some func \<Rightarrow> AtCall func) (p\<lparr>m_conditional_mutex := None\<rparr>))"
| "worker_step i (AtCall func) p = Some (set_pc i (Running func) (p\<lparr>started := started p @ [func]\<rparr>))"
| "worker_step i (Running func) p = Some (set_pc i AtLoop (p\<lparr>finished := finished p @ [func]\<rparr>))"
| "worker_step i Exited p = None"

datatype 'a act =
    Work nat                   \<comment> \<open>the next action of a worker\<close>
  | Spurious nat               \<comment> \<open>a spurious wake-up\<close>
  | Submit 'a                  \<comment> \<open>\<open>submit\<close>: \<open>m_queue.enqueue(wrapper_func)\<close>\<close>
  | NotifyOne "nat option"     \<comment> \<open>\<open>submit\<close>: \<open>notify_one()\<close>, with the worker it wakes\<close>
  | Shutdown                   \<comment> \<open>\<open>shutdown\<close>: \<open>m_shutdown = true\<close>\<close>
  | NotifyAll                  \<comment> \<open>\<open>shutdown\<close>: \<open>notify_all()\<close>\<close>
  | Join                       \<comment> \<open>\<open>shutdown\<close>: one turn of its loop, or its return\<close>

definition wake :: "'a pc option \<Rightarrow> 'a pc option" where
  "wake t = (if t = Some Asleep then Some Woken else t)"

fun pool_act :: "'a act \<Rightarrow> 'a pool \<Rightarrow> 'a pool option" where
  "pool_act (Work i) p = (case pc_of p i of None \<Rightarrow> None | Some c \<Rightarrow> worker_step i c p)"
| "pool_act (Spurious i) p = (if pc_of p i = Some Asleep then Some (set_pc i Woken p) else None)"
| "pool_act (Submit f) p =
     Some (p\<lparr>m_queue := enqueue f (m_queue p), notify_ones := Suc (notify_ones p),
             submitted := submitted p @ [f]\<rparr>)"
| "pool_act (NotifyOne (Some i)) p =
     (if 0 < notify_ones p \<and> pc_of p i = Some Asleep
      then Some (set_pc i Woken (p\<lparr>notify_ones := notify_ones p - 1\<rparr>)) else None)"
| "pool_act (NotifyOne None) p =
     (if 0 < notify_ones p \<and> Some Asleep \<notin> set (m_threads p)
      then Some (p\<lparr>notify_ones := notify_ones p - 1\<rparr>) else None)"
| "pool_act Shutdown p =
     (if closer_at p = NotClosing then Some (p\<lparr>m_shutdown := True, closer_at := MustNotifyAll\<rparr>) else None)"
| "pool_act NotifyAll p =
     (if closer_at p = MustNotifyAll
      then Some (p\<lparr>m_threads := map wake (m_threads p), closer_at := Joining 0\<rparr>) else None)"
| "pool_act Join p =
     (case closer_at p of
        Joining i \<Rightarrow>
          if length (m_threads p) \<le> i then Some (p\<lparr>closer_at := NotClosing\<rparr>)
          else (case m_threads p ! i of
                  None \<Rightarrow> Some (p\<lparr>closer_at := Joining (Suc i)\<rparr>)
                | Some Exited \<Rightarrow>
                    Some (p\<lparr>m_threads := (m_threads p)[i := None], closer_at := Joining (Suc i)\<rparr>)
                | Some c \<Rightarrow> None)
      | _ \<Rightarrow> None)"

fun pool_acts :: "'a act list \<Rightarrow> 'a pool \<Rightarrow> 'a pool option" where
  "pool_acts [] p = Some p"
| "pool_acts (a # as) p = (case pool_act a p of None \<Rightarrow> None | Some q \<Rightarrow> pool_acts as q)"

text \<open>The states a pool of \<open>n\<close> threads reaches after its construction and \<open>init\<close>.\<close>

inductive reachable :: "nat \<Rightarrow> 'a pool \<Rightarrow> bool" for n where
  start: "r_bind (ThreadPool_new (int n)) ThreadPool_init = Inr p \<Longrightarrow> reachable n p"
| step: "reachable n p \<Longrightarrow> pool_act a p = Some q \<Longrightarrow> reachable n q"

lemma reachable_acts: "pool_acts as p = Some q \<Longrightarrow> reachable n p \<Longrightarrow> reachable n q"
  by (induction as arbitrary: p) (auto split: option.splits intro: reachable.step)

end
