(* ===== verification/ThreadPoolSafe.thy ===== *)
theory ThreadPoolSafe
  imports ThreadPool
begin

text \<open>
  What holds in every reachable state of the thread pool: tasks are taken from the queue in the order
  of their submission, each starts at most once, and none is lost; one worker starts them in that order,
  two need not; at most one worker is in the critical section;
  \<open>shutdown\<close> returns with every thread joined. And the two ways in which a pool stops working:
  a task or the shutdown flag that arrives between a worker's test of the queue and its \<open>wait\<close>
  wakes nobody.
\<close>

section \<open>The invariant\<close>

definition task_of :: "'a pc option \<Rightarrow> 'a list" where
  "task_of t = (case t of Some (Running f) \<Rightarrow> [f] | _ \<Rightarrow> [])"

definition running :: "'a pool \<Rightarrow> 'a list" where
  "running p = concat (map task_of (m_threads p))"

definition held_of :: "'a pc option \<Rightarrow> 'a list" where
  "held_of t = (case t of Some (Taken (Some f)) \<Rightarrow> [f] | Some (AtCall f) \<Rightarrow> [f] | _ \<Rightarrow> [])"

text \<open>The tasks that a worker has taken and not yet started.\<close>

definition held :: "'a pool \<Rightarrow> 'a list" where
  "held p = concat (map held_of (m_threads p))"

definition critical :: "'a pc option \<Rightarrow> bool" where
  "critical t \<longleftrightarrow> (case t of Some AtTest \<Rightarrow> True | Some AtWait \<Rightarrow> True | Some AtTake \<Rightarrow> True | Some (Taken f) \<Rightarrow> True
     | _ \<Rightarrow> False)"

definition pool_inv :: "nat \<Rightarrow> 'a pool \<Rightarrow> bool" where
  "pool_inv n p \<longleftrightarrow> length (m_threads p) = n \<and>
     taken p @ m_queue p = submitted p \<and>
     mset (started p) + mset (held p) = mset (taken p) \<and>
     mset (finished p) + mset (running p) = mset (started p) \<and>
     (n = 1 \<longrightarrow> taken p = started p @ held p) \<and>
     (\<forall>i. m_conditional_mutex p = Some i \<longleftrightarrow> critical (pc_of p i)) \<and>
     (\<forall>i. closer_at p = Joining i \<longrightarrow> (\<forall>j < i. pc_of p j = None))"

lemma task_of_simps [simp]:
  "task_of None = []" "task_of (Some AtLoop) = []" "task_of (Some AtLock) = []" "task_of (Some AtTest) = []"
  "task_of (Some AtWait) = []" "task_of (Some Asleep) = []" "task_of (Some Woken) = []" "task_of (Some AtTake) = []"
  "task_of (Some (Taken r)) = []" "task_of (Some (AtCall f)) = []" "task_of (Some (Running f)) = [f]" "task_of (Some Exited) = []"
  by (simp_all add: task_of_def)

lemma held_of_simps [simp]:
  "held_of None = []" "held_of (Some AtLoop) = []" "held_of (Some AtLock) = []" "held_of (Some AtTest) = []"
  "held_of (Some AtWait) = []" "held_of (Some Asleep) = []" "held_of (Some Woken) = []" "held_of (Some AtTake) = []"
  "held_of (Some (Taken None)) = []" "held_of (Some (Taken (Some f))) = [f]" "held_of (Some (AtCall f)) = [f]"
  "held_of (Some (Running f)) = []" "held_of (Some Exited) = []"
  by (simp_all add: held_of_def)

lemma critical_simps [simp]:
  "\<not> critical None" "\<not> critical (Some AtLoop)" "\<not> critical (Some AtLock)" "critical (Some AtTest)"
  "critical (Some AtWait)" "\<not> critical (Some Asleep)" "\<not> critical (Some Woken)" "critical (Some AtTake)"
  "critical (Some (Taken r))" "\<not> critical (Some (AtCall f))" "\<not> critical (Some (Running f))" "\<not> critical (Some Exited)"
  by (simp_all add: critical_def)

lemma mset_concat_update:
  "i < length ts \<Longrightarrow>
   mset (concat (map f (ts[i := t]))) + mset (f (ts ! i)) = mset (concat (map f ts)) + mset (f t)"
  by (induction ts arbitrary: i) (auto split: nat.splits simp: ac_simps nth_Cons)

lemma task_of_wake [simp]: "task_of (wake t) = task_of t" "held_of (wake t) = held_of t" "critical (wake t) = critical t"
  by (simp_all add: wake_def)

lemma pc_of_update:
  "pc_of (p\<lparr>m_threads := (m_threads p)[i := t]\<rparr>) j =
     (if i = j \<and> j < length (m_threads p) then t else pc_of p j)"
  by (auto simp: pc_of_def)

lemma pc_of_wake: "pc_of (p\<lparr>m_threads := map wake (m_threads p), closer_at := c\<rparr>) j = wake (pc_of p j)"
  by (auto simp: pc_of_def wake_def)

lemma pc_of_cong: "m_threads p = m_threads q \<Longrightarrow> pc_of p i = pc_of q i"
  by (simp add: pc_of_def)

text \<open>The effect of a change of one program counter on the invariant.\<close>

lemma pool_inv_set_pc:
  assumes inv: "pool_inv n p" and c: "pc_of p i = Some c"
    and q: "taken q @ m_queue q = submitted q"
      "mset (started q) + mset (held p) + mset (held_of (Some d)) = mset (taken q) + mset (held_of (Some c))"
      "mset (finished q) + mset (running p) + mset (task_of (Some d)) = mset (started q) + mset (task_of (Some c))"
      "held p = held_of (Some c) \<Longrightarrow> taken p = started p @ held_of (Some c) \<Longrightarrow> taken q = started q @ held_of (Some d)"
      "m_threads q = m_threads p" "closer_at q = closer_at p"
      "\<forall>j. m_conditional_mutex q = Some j \<longleftrightarrow> (if j = i then critical (Some d) else critical (pc_of p j))"
  shows "pool_inv n (set_pc i d q)"
proof -
  have i: "i < length (m_threads p)" "m_threads p ! i = Some c"
    using c by (auto simp: pc_of_def split: if_splits)
  note upd = mset_concat_update [OF i(1), of _ "Some d", unfolded i(2)]
  have "mset (running (set_pc i d q)) + mset (task_of (Some c)) = mset (running p) + mset (task_of (Some d))"
    "mset (held (set_pc i d q)) + mset (held_of (Some c)) = mset (held p) + mset (held_of (Some d))"
    using upd [of task_of] upd [of held_of] q(5) by (simp_all add: running_def held_def set_pc_def)
  then have "mset (finished q) + mset (running (set_pc i d q)) = mset (started q)"
    "mset (started q) + mset (held (set_pc i d q)) = mset (taken q)"
    using q(2,3) by (metis add.assoc add_right_imp_eq)+
  moreover have "taken q = started q @ held (set_pc i d q)" if "n = 1"
  proof -
    from that inv have "length (m_threads p) = 1" "taken p = started p @ held p" by (simp_all add: pool_inv_def)
    moreover from this(1) i have "i = 0" "m_threads p = [Some c]" by (auto simp: length_Suc_conv)
    ultimately show ?thesis using q(4,5) by (simp add: held_def set_pc_def)
  qed
  moreover have "pc_of (set_pc i d q) j = (if i = j then Some d else pc_of p j)" for j
    using i(1) q(5) by (auto simp: set_pc_def pc_of_def)
  ultimately show ?thesis using inv c q by (auto simp: pool_inv_def set_pc_def)
qed

lemma pool_inv_other:
  assumes "pool_inv n p" "m_threads q = m_threads p" "m_conditional_mutex q = m_conditional_mutex p"
    "closer_at q = closer_at p \<or> (\<forall>i. closer_at q \<noteq> Joining i)"
    "taken q = taken p" "started q = started p" "finished q = finished p" "taken q @ m_queue q = submitted q"
  shows "pool_inv n q"
  using assms pc_of_cong [OF assms(2)] by (auto simp: pool_inv_def running_def held_def)

lemma worker_step_inv:
  assumes "pool_inv n p" "pc_of p i = Some c" "worker_step i c p = Some q"
  shows "pool_inv n q"
proof -
  have mutex: "m_conditional_mutex p = Some j \<longleftrightarrow> critical (pc_of p j)" for j
    using assms(1) by (simp add: pool_inv_def)
  have only: "critical (pc_of p j) \<longleftrightarrow> j = i" if "critical (Some c)" for j
    using mutex [of j] mutex [of i] assms(2) that by auto
  have hist: "taken p @ m_queue p = submitted p" "mset (started p) + mset (held p) = mset (taken p)"
    "mset (finished p) + mset (running p) = mset (started p)"
    using assms(1) by (simp_all add: pool_inv_def)
  note set_pc = pool_inv_set_pc [OF assms(1,2)]
  show ?thesis
  proof (cases c)
    case AtLoop
    have "pool_inv n (set_pc i (if m_shutdown p then Exited else AtLock) p)"
      using assms(2) AtLoop hist mutex by (intro set_pc) auto
    with assms(3) AtLoop show ?thesis by simp
  next
    case AtLock
    with assms(3) have free: "m_conditional_mutex p = None" by (auto split: if_splits)
    have "pool_inv n (set_pc i AtTest (p\<lparr>m_conditional_mutex := Some i\<rparr>))"
      using assms(2) AtLock hist mutex free by (intro set_pc) auto
    with assms(3) AtLock free show ?thesis by simp
  next
    case AtTest
    have "pool_inv n (set_pc i AtWait p)"
      using assms(2) AtTest hist mutex by (intro set_pc) auto
    moreover have "pool_inv n (set_pc i AtTake p)"
      using assms(2) AtTest hist mutex by (intro set_pc) auto
    ultimately show ?thesis using assms(3) AtTest by (auto split: if_splits)
  next
    case AtWait
    have "pool_inv n (set_pc i Asleep (p\<lparr>m_conditional_mutex := None\<rparr>))"
      using assms(2) AtWait hist only by (intro set_pc) simp_all
    with assms(3) AtWait show ?thesis by simp
  next
    case Woken
    with assms(3) have free: "m_conditional_mutex p = None" by (auto split: if_splits)
    have "pool_inv n (set_pc i AtTake (p\<lparr>m_conditional_mutex := Some i\<rparr>))"
      using assms(2) Woken hist mutex free by (intro set_pc) auto
    with assms(3) Woken free show ?thesis by simp
  next
    case AtTake
    obtain r u where d: "dequeue (m_queue p) = (r, u)" by (cases "dequeue (m_queue p)")
    show ?thesis
    proof (cases r)
      case None
      with d have u: "u = m_queue p" using sq.deq_None [of "m_queue p" u] by simp
      have "pool_inv n (set_pc i (Taken None) (p\<lparr>m_queue := u\<rparr>))"
        using assms(2) AtTake hist mutex u by (intro set_pc) auto
      with assms(3) AtTake d None show ?thesis by simp
    next
      case (Some f)
      with d have u: "m_queue p = f # u" using sq.deq_Some [of "m_queue p" f u] by simp
      have "pool_inv n (set_pc i (Taken (Some f)) (p\<lparr>m_queue := u, taken := taken p @ [f]\<rparr>))"
        using assms(2) AtTake hist mutex u by (intro set_pc) auto
      with assms(3) AtTake d Some show ?thesis by simp
    qed
  next
    case (Taken r)
    have "pool_inv n (set_pc i (case r of None \<Rightarrow> AtLoop | Some f \<Rightarrow> AtCall f) (p\<lparr>m_conditional_mutex := None\<rparr>))"
      using assms(2) Taken hist only by (intro set_pc) (cases r; auto)+
    with assms(3) Taken show ?thesis by simp
  next
    case (AtCall f)
    have "pool_inv n (set_pc i (Running f) (p\<lparr>started := started p @ [f]\<rparr>))"
      using assms(2) AtCall hist mutex by (intro set_pc) auto
    with assms(3) AtCall show ?thesis by simp
  next
    case (Running f)
    have "pool_inv n (set_pc i AtLoop (p\<lparr>finished := finished p @ [f]\<rparr>))"
      using assms(2) Running hist mutex by (intro set_pc) auto
    with assms(3) Running show ?thesis by simp
  qed (use assms(3) in simp_all)
qed

lemma pool_act_inv:
  assumes "pool_inv n p" "pool_act a p = Some q"
  shows "pool_inv n q"
proof -
  have mutex: "m_conditional_mutex p = Some j \<longleftrightarrow> critical (pc_of p j)" for j
    using assms(1) by (simp add: pool_inv_def)
  have wakes: "pool_inv n (set_pc i Woken (p\<lparr>notify_ones := k\<rparr>))" if "pc_of p i = Some Asleep" for i k
    using that mutex assms(1) by (intro pool_inv_set_pc [OF assms(1) that]) (auto simp: pool_inv_def)
  show ?thesis
  proof (cases a)
    case (Work i)
    with assms worker_step_inv [of n p i] show ?thesis by (auto split: option.splits)
  next
    case (Spurious i)
    with assms wakes [of i "notify_ones p"] show ?thesis by (auto split: if_splits)
  next
    case (Submit f)
    with assms have q: "q = p\<lparr>m_queue := m_queue p @ [f], notify_ones := Suc (notify_ones p),
        submitted := submitted p @ [f]\<rparr>" by (simp add: enqueue_def)
    show ?thesis using assms(1) by (intro pool_inv_other [OF assms(1)]) (auto simp: q pool_inv_def)
  next
    case (NotifyOne w)
    show ?thesis
    proof (cases w)
      case None
      with NotifyOne assms(2) have q: "q = p\<lparr>notify_ones := notify_ones p - 1\<rparr>" by (auto split: if_splits)
      show ?thesis using assms(1) by (intro pool_inv_other [OF assms(1)]) (auto simp: q pool_inv_def)
    next
      case (Some i)
      with NotifyOne assms(2) wakes show ?thesis by (auto split: if_splits)
    qed
  next
    case Shutdown
    with assms(2) have q: "q = p\<lparr>m_shutdown := True, closer_at := MustNotifyAll\<rparr>" by (auto split: if_splits)
    show ?thesis using assms(1) by (intro pool_inv_other [OF assms(1)]) (auto simp: q pool_inv_def)
  next
    case NotifyAll
    with assms show ?thesis
      by (auto simp: pool_inv_def pc_of_wake running_def held_def comp_def split: if_splits)
  next
    case Join
    with assms(2) obtain i where i: "closer_at p = Joining i" by (auto split: closer.splits)
    show ?thesis
    proof (cases "length (m_threads p) \<le> i")
      case True
      with Join i assms(2) have q: "q = p\<lparr>closer_at := NotClosing\<rparr>" by simp
      show ?thesis using assms(1) by (intro pool_inv_other [OF assms(1)]) (auto simp: q pool_inv_def)
    next
      case False
      then have at_i: "m_threads p ! i = pc_of p i" by (simp add: pc_of_def)
      show ?thesis
      proof (cases "pc_of p i")
        case None
        with Join i False at_i assms show ?thesis
          by (auto simp: pool_inv_def running_def held_def less_Suc_eq pc_of_cong [of "p\<lparr>closer_at := _\<rparr>" p])
      next
        case (Some c)
        with Join i False at_i assms(2) have ex: "c = Exited"
          and q: "q = p\<lparr>m_threads := (m_threads p)[i := None], closer_at := Joining (Suc i)\<rparr>"
          by (auto split: pc.splits)
        have "mset (running q) = mset (running p)" "mset (held q) = mset (held p)"
          using mset_concat_update [of i "m_threads p" task_of None] mset_concat_update [of i "m_threads p" held_of None]
            False at_i Some ex q by (simp_all add: running_def held_def)
        moreover have "held q = held p" if "n = 1"
        proof -
          from that assms(1) have "length (m_threads p) = 1" by (simp add: pool_inv_def)
          moreover from this False have "i = 0" by simp
          ultimately have "i = 0" "m_threads p = [Some Exited]" using at_i Some ex by (auto simp: length_Suc_conv)
          with q show ?thesis by (simp add: held_def)
        qed
        moreover have "pc_of q j = (if i = j then None else pc_of p j)" for j
          using q False by (auto simp: pc_of_def)
        ultimately show ?thesis
          using assms(1) q i Some ex by (auto simp: pool_inv_def less_Suc_eq)
      qed
    qed
  qed
qed

lemma reachable_inv: "reachable n p \<Longrightarrow> pool_inv n p"
proof (induction rule: reachable.induct)
  case (start p)
  have "running p = []" "held p = []"
    using start by (auto simp: ThreadPool_new_def ThreadPool_init_def running_def held_def split: if_splits)
  with start show ?case
    by (auto simp: ThreadPool_new_def ThreadPool_init_def pool_inv_def SafeQueue_new_def pc_of_def
        split: if_splits)
qed (rule pool_act_inv)

section \<open>Properties\<close>

text \<open>C13: In every reachable state the tasks that workers took, in the order in which they took them, and
  then the queue are exactly the submitted tasks in the order of their submission. Of the tasks taken,
  each is held by one worker that is about to call it, or was started exactly once; and each started
  one has finished or runs on one thread: no task is lost and none runs twice. A pool of one thread
  starts them in the order of their submission; of two threads the one that took the later task may
  start it first (\<open>starts_can_overtake\<close>).\<close>
theorem tasks_in_order:
  assumes "reachable n p"
  shows "taken p @ m_queue p = submitted p \<and> mset (taken p) = mset (started p) + mset (held p) \<and>
    mset (started p) = mset (finished p) + mset (running p) \<and>
    (n = 1 \<longrightarrow> submitted p = started p @ held p @ m_queue p)"
  using reachable_inv [OF assms] by (auto simp: pool_inv_def)

definition pool_of :: "nat \<Rightarrow> 'a pool" where
  "pool_of n = \<lparr>m_shutdown = False, m_queue = [], m_threads = replicate n (Some AtLoop),
     m_conditional_mutex = None, notify_ones = 0, closer_at = NotClosing,
     submitted = [], taken = [], started = [], finished = []\<rparr>"

lemma reachable_start: "reachable n (pool_of n)"
  by (rule reachable.start) (simp add: ThreadPool_new_def ThreadPool_init_def pool_of_def SafeQueue_new_def)

lemmas run_simps = pool_of_def pc_of_def set_pc_def SafeQueue_empty_def enqueue_def dequeue_def wake_def

theorem tasks_in_order_witness:
  "\<exists>p. pool_acts [Submit ''a'', Submit ''b'', Work 0, Work 0, Work 0, Work 0, Work 0, Work 0] (pool_of 1) = Some p \<and>
     started p = [''a''] \<and> taken p @ m_queue p = [''a'', ''b''] \<and> started p @ held p @ m_queue p = [''a'', ''b'']"
proof -
  have "\<exists>p. pool_acts [Submit ''a'', Submit ''b'', Work 0, Work 0, Work 0, Work 0, Work 0, Work 0] (pool_of 1) = Some p \<and>
     started p = [''a''] \<and> submitted p = [''a'', ''b'']"
    by (simp add: run_simps)
  then obtain p where p: "pool_acts [Submit ''a'', Submit ''b'', Work 0, Work 0, Work 0, Work 0, Work 0, Work 0] (pool_of 1) = Some p"
    "started p = [''a'']" "submitted p = [''a'', ''b'']" by blast
  with tasks_in_order [OF reachable_acts [OF p(1) reachable_start]] show ?thesis by auto
qed

text \<open>Two workers: the first takes the earlier task, the second takes the later one and starts it first.\<close>
theorem starts_can_overtake:
  "\<exists>p. reachable 2 p \<and> submitted p = [f, g] \<and> taken p = [f, g] \<and> started p = [g, f]"
proof -
  let ?as = "[Submit f, Submit g, Work 0, Work 0, Work 0, Work 0, Work 0, Work 1, Work 1, Work 1, Work 1, Work 1, Work 1, Work 0]"
  have "\<exists>p. pool_acts ?as (pool_of 2) = Some p \<and> submitted p = [f, g] \<and> taken p = [f, g] \<and> started p = [g, f]"
    by (simp add: run_simps numeral_2_eq_2)
  then show ?thesis using reachable_acts [OF _ reachable_start] by blast
qed

text \<open>C14: At most one worker at a time is between its lock of the condition mutex and its release.\<close>
theorem one_worker_in_critical_section:
  assumes "reachable n p" "critical (pc_of p i)" "critical (pc_of p j)"
  shows "i = j \<and> m_conditional_mutex p = Some i"
proof -
  from assms(2,3) have "m_conditional_mutex p = Some i" "m_conditional_mutex p = Some j"
    using reachable_inv [OF assms(1)] by (simp_all add: pool_inv_def)
  then show ?thesis by simp
qed

theorem one_worker_in_critical_section_witness:
  "\<exists>p :: string pool. pool_acts [Work 1, Work 1] (pool_of 2) = Some p \<and> m_conditional_mutex p = Some 1"
proof -
  have "\<exists>p :: string pool. pool_acts [Work 1, Work 1] (pool_of 2) = Some p \<and> pc_of p 1 = Some AtTest"
    by (simp add: run_simps numeral_2_eq_2)
  then obtain p :: "string pool" where
    p: "pool_acts [Work 1, Work 1] (pool_of 2) = Some p" "pc_of p 1 = Some AtTest" by blast
  with one_worker_in_critical_section [OF reachable_acts [OF p(1) reachable_start], of 1 1] show ?thesis by auto
qed

text \<open>C33: When the loop of \<open>shutdown\<close> ends, every thread of the pool has been joined, so its
  destructor does not terminate the program; the tasks still queued are never started by this pool.\<close>
theorem shutdown_joins_all:
  assumes "reachable n p" "closer_at p = Joining i" "n \<le> i"
  shows "(\<forall>j. pc_of p j = None) \<and> ThreadPool_destroy p = Inr () \<and> (\<forall>j. pool_act (Work j) p = None)"
proof -
  have inv: "length (m_threads p) = n" "\<forall>j < i. pc_of p j = None"
    using reachable_inv [OF assms(1)] assms(2) by (auto simp: pool_inv_def)
  then have none: "pc_of p j = None" for j using assms(3) by (cases "j < i") (auto simp: pc_of_def)
  moreover have "t = None" if "t \<in> set (m_threads p)" for t
    using that none by (metis in_set_conv_nth pc_of_def)
  ultimately show ?thesis by (simp add: ThreadPool_destroy_def)
qed

theorem shutdown_joins_all_witness:
  "\<exists>p. pool_acts [Submit ''a'', Shutdown, Work 0, NotifyAll, Join] (pool_of 1) = Some p \<and>
     m_queue p = [''a''] \<and> ThreadPool_destroy p = Inr ()"
proof -
  have "\<exists>p. pool_acts [Submit ''a'', Shutdown, Work 0, NotifyAll, Join] (pool_of 1) = Some p \<and>
     m_queue p = [''a''] \<and> closer_at p = Joining 1"
    by (simp add: run_simps)
  then obtain p where p: "pool_acts [Submit ''a'', Shutdown, Work 0, NotifyAll, Join] (pool_of 1) = Some p"
    "m_queue p = [''a'']" "closer_at p = Joining 1" by blast
  with shutdown_joins_all [OF reachable_acts [OF p(1) reachable_start] p(3)] show ?thesis by auto
qed

text \<open>A state is stuck when only a caller of \<open>submit\<close>, a new \<open>shutdown\<close> or a spurious wake-up can
  change it.\<close>

definition stuck :: "'a pool \<Rightarrow> bool" where
  "stuck p \<longleftrightarrow> (\<forall>i. pool_act (Work i) p = None) \<and> (\<forall>w. pool_act (NotifyOne w) p = None) \<and>
     pool_act NotifyAll p = None \<and> pool_act Join p = None"

lemma stuck_single:
  "m_threads p = [Some Asleep] \<Longrightarrow> notify_ones p = 0 \<Longrightarrow> closer_at p = NotClosing \<or> closer_at p = Joining 0 \<Longrightarrow>
   stuck p"
proof -
  assume p: "m_threads p = [Some Asleep]" "notify_ones p = 0" "closer_at p = NotClosing \<or> closer_at p = Joining 0"
  have "pool_act (Work i) p = None" for i using p(1) by (simp add: pc_of_def)
  moreover have "pool_act (NotifyOne w) p = None" for w using p(2) by (cases w) simp_all
  ultimately show "stuck p" using p by (auto simp: stuck_def)
qed

text \<open>C38: The wake-up of a \<open>submit\<close> can be lost: a task that is queued, and its \<open>notify_one\<close> issued,
  between a worker's test of the queue and its \<open>wait\<close> stays in the queue while the worker sleeps and
  nothing is left to wake it, because \<open>submit\<close> does not hold the condition mutex.\<close>
theorem submit_wakeup_can_be_lost:
  "\<exists>p. reachable 1 p \<and> submitted p = [f] \<and> m_queue p = [f] \<and> \<not> m_shutdown p \<and> stuck p"
proof -
  let ?as = "[Work 0, Work 0, Work 0, Submit f, NotifyOne None, Work 0]"
  have "\<exists>p. pool_acts ?as (pool_of 1) = Some p \<and> m_threads p = [Some Asleep] \<and> notify_ones p = 0 \<and>
      closer_at p = NotClosing \<and> submitted p = [f] \<and> m_queue p = [f] \<and> \<not> m_shutdown p"
    by (simp add: run_simps)
  then obtain p where p: "pool_acts ?as (pool_of 1) = Some p" "m_threads p = [Some Asleep]"
    "notify_ones p = 0" "closer_at p = NotClosing" "submitted p = [f]" "m_queue p = [f]" "\<not> m_shutdown p"
    by blast
  with reachable_acts [OF p(1) reachable_start] stuck_single [of p] show ?thesis by blast
qed

text \<open>The wake-up of \<open>shutdown\<close> can be lost in the same way: its \<open>join\<close> then waits for a worker
  that sleeps and that nobody is left to wake.\<close>
theorem shutdown_can_hang:
  "\<exists>p. reachable 1 (p :: 'a pool) \<and> m_shutdown p \<and> closer_at p = Joining 0 \<and> stuck p"
proof -
  let ?as = "[Work 0, Work 0, Work 0, Shutdown, NotifyAll, Work 0] :: 'a act list"
  have "\<exists>p. pool_acts ?as (pool_of 1) = Some p \<and> m_threads p = [Some Asleep] \<and> notify_ones p = 0 \<and>
      closer_at p = Joining 0 \<and> m_shutdown p"
    by (simp add: run_simps)
  then obtain p :: "'a pool" where p: "pool_acts ?as (pool_of 1) = Some p" "m_threads p = [Some Asleep]"
    "notify_ones p = 0" "closer_at p = Joining 0" "m_shutdown p" by blast
  with reachable_acts [OF p(1) reachable_start] stuck_single [of p] show ?thesis by blast
qed

end
