(* ===== verification/Loop.thy ===== *)
theory Loop
  imports PollerSafe ThreadPoolSafe
begin

text \<open>
  The class \<open>Loop\<close> of \<open>gwcpp/event/Loop.h\<close> and \<open>Loop.cpp\<close>: the task queue and the turn of the
  event loop, over the state of the poller. In turn \<open>n\<close> the effect of a task is \<open>run n\<close>, that of a
  callback \<open>cb n\<close>, and what \<open>epoll_wait\<close> reports is \<open>wait n\<close>. The loop may run forever, so \<open>runLoop\<close>
  is a \<open>partial_function (option)\<close>: \<open>None\<close> is a call that does not return. An event is one of the
  loop's when it is in \<open>objs\<close>: that is the assertion \<open>event->getLoop() == this\<close>.
\<close>

section \<open>State\<close>

datatype loop_mode = KOnce | KForever

record 't loop = poller +
  keepRunning :: bool
  eventHandling :: bool
  callingPendingFunctors :: bool
  threadId :: nat
  currentActiveEvent :: "nat option"
  taskQueue :: "'t list"
  threadPool :: "'t pool"
  poll_fd :: int                \<comment> \<open>\<open>poller_->epollFd()\<close>\<close>
  ran :: "'t list"              \<comment> \<open>history: the tasks of the queue that were run\<close>

definition MAX_THREAD_NUM :: int where "MAX_THREAD_NUM = 5"

text \<open>\<open>fd\<close> is what \<open>epoll_create1\<close> returned, \<open>me\<close> the thread that constructs the loop.\<close>

definition Loop_new :: "nat \<Rightarrow> int \<Rightarrow> 't loop result" where
  "Loop_new me fd =
     r_bind (ThreadPool_new MAX_THREAD_NUM) (\<lambda>pool.
     Inr \<lparr>objs = objs Poller_new, fdEventMaps = fdEventMaps Poller_new, buf_size = buf_size Poller_new,
        ctl_log = ctl_log Poller_new, activeEvents = activeEvents Poller_new, keepRunning = True,
        eventHandling = False, callingPendingFunctors = False, threadId = me, currentActiveEvent = None, taskQueue = [], threadPool = pool, poll_fd = fd, ran = []\<rparr>)"

definition isRunning :: "('t, 'a) loop_scheme \<Rightarrow> bool" where
  "isRunning l = keepRunning l"

definition epollFd :: "('t, 'a) loop_scheme \<Rightarrow> int" where
  "epollFd l = poll_fd l"

definition exitLoop :: "('t, 'a) loop_scheme \<Rightarrow> ('t, 'a) loop_scheme" where
  "exitLoop l = l\<lparr>keepRunning := False\<rparr>"

definition isInLoopThread :: "nat \<Rightarrow> ('t, 'a) loop_scheme \<Rightarrow> bool" where
  "isInLoopThread me l \<longleftrightarrow> threadId l = me"

text \<open>\<open>CreatLoop\<close> calls the constructor. The destructor closes the descriptor when it is negative; then
  the members go, the thread pool before the poller, whose destructor closes a descriptor that is not
  \<open>-1\<close>. The result is the list of the descriptors that are closed.\<close>

definition CreatLoop :: "nat \<Rightarrow> int \<Rightarrow> 't loop result" where
  "CreatLoop me fd = Loop_new me fd"

definition Loop_destroy :: "('t, 'a) loop_scheme \<Rightarrow> int list result" where
  "Loop_destroy l =
     (let closed = (if epollFd l < 0 then [epollFd l] else [])
      in r_bind (ThreadPool_destroy (threadPool l)) (\<lambda>_.
         Inr (closed @ fst (Poller_destroy (poll_fd l)))))"

section \<open>Events\<close>

definition Loop_updateEvent :: "nat \<Rightarrow> ('t, 'a) loop_scheme \<Rightarrow> ('t, 'a) loop_scheme result" where
  "Loop_updateEvent e l = r_assert (e < length (objs l)) (Poller_updateEvent e l)"

definition Loop_removeEvent :: "nat \<Rightarrow> ('t, 'a) loop_scheme \<Rightarrow> ('t, 'a) loop_scheme result" where
  "Loop_removeEvent e l =
     r_assert (e < length (objs l))
       (r_assert (eventHandling l \<longrightarrow> currentActiveEvent l = Some e \<or> e \<notin> set (activeEvents l))
          (Poller_removeEvent e l))"

definition Loop_hasEvent :: "nat \<Rightarrow> ('t, 'a) loop_scheme \<Rightarrow> bool result" where
  "Loop_hasEvent e l = r_assert (e < length (objs l)) (Inr (Poller_hasEvent e l))"

text \<open>The new event and the state with it; \<open>uninit\<close> is the value of its descriptor until \<open>init\<close>.\<close>

definition CreatFdEvent :: "int \<Rightarrow> ('t, 'a) loop_scheme \<Rightarrow> nat \<times> ('t, 'a) loop_scheme" where
  "CreatFdEvent uninit l = (length (objs l), EpollFdEvent_new uninit l)"

section \<open>Tasks\<close>

text \<open>\<open>runTask\<close>: a task for the pool is submitted to it, another one goes to the end of the queue.\<close>

definition runTask :: "'t \<Rightarrow> bool \<Rightarrow> ('t, 'a) loop_scheme \<Rightarrow> ('t, 'a) loop_scheme" where
  "runTask fun runInThreadPool l =
     (if runInThreadPool
      then (case pool_act (Submit fun) (threadPool l) of Some p \<Rightarrow> l\<lparr>threadPool := p\<rparr> | None \<Rightarrow> l)
      else l\<lparr>taskQueue := taskQueue l @ [fun]\<rparr>)"

text \<open>One task is run while it is still the front of the queue, then the front is removed.\<close>

definition handleTaskFun ::
    "('t \<Rightarrow> ('t, 'a) loop_scheme \<Rightarrow> ('t, 'a) loop_scheme result) \<Rightarrow> ('t, 'a) loop_scheme \<Rightarrow> ('t, 'a) loop_scheme result" where
  "handleTaskFun run l =
     (if length (taskQueue l) > 0 then
        r_bind (run (hd (taskQueue l)) (l\<lparr>ran := ran l @ [hd (taskQueue l)]\<rparr>)) (\<lambda>l'.
        if taskQueue l' = [] then Inl Undefined else Inr (l'\<lparr>taskQueue := tl (taskQueue l')\<rparr>))
      else Inr l)"

section \<open>The loop\<close>

definition loop_turn ::
    "(cb \<Rightarrow> nat \<Rightarrow> ('t, 'a) loop_scheme \<Rightarrow> ('t, 'a) loop_scheme result) \<Rightarrow>
     ('t \<Rightarrow> ('t, 'a) loop_scheme \<Rightarrow> ('t, 'a) loop_scheme result) \<Rightarrow>
     (nat \<times> 32 word) list option \<Rightarrow> ('t, 'a) loop_scheme \<Rightarrow> ('t, 'a) loop_scheme result" where
  "loop_turn cb run wait l =
     r_bind (Poller_poll wait (l\<lparr>activeEvents := []\<rparr>)) (\<lambda>l1.
     r_bind (handleTaskFun run l1) (\<lambda>l2.
     r_fold (\<lambda>e l. handleEvent cb e (l\<lparr>currentActiveEvent := Some e\<rparr>)) (activeEvents l2) l2))"

partial_function (option) loop_while ::
    "(nat \<Rightarrow> cb \<Rightarrow> nat \<Rightarrow> ('t, 'a) loop_scheme \<Rightarrow> ('t, 'a) loop_scheme result) \<Rightarrow>
     (nat \<Rightarrow> 't \<Rightarrow> ('t, 'a) loop_scheme \<Rightarrow> ('t, 'a) loop_scheme result) \<Rightarrow>
     (nat \<Rightarrow> (nat \<times> 32 word) list option) \<Rightarrow> nat \<Rightarrow> ('t, 'a) loop_scheme \<Rightarrow>
     ('t, 'a) loop_scheme result option" where
  "loop_while cb run wait n l =
     (case loop_turn (cb n) (run n) (wait n) l of
        Inl e \<Rightarrow> Some (Inl e)
      | Inr l' \<Rightarrow> if keepRunning l' then loop_while cb run wait (Suc n) l' else Some (Inr l'))"

definition runLoop ::
    "(nat \<Rightarrow> cb \<Rightarrow> nat \<Rightarrow> ('t, 'a) loop_scheme \<Rightarrow> ('t, 'a) loop_scheme result) \<Rightarrow>
     (nat \<Rightarrow> 't \<Rightarrow> ('t, 'a) loop_scheme \<Rightarrow> ('t, 'a) loop_scheme result) \<Rightarrow>
     (nat \<Rightarrow> (nat \<times> 32 word) list option) \<Rightarrow> loop_mode \<Rightarrow> ('t, 'a) loop_scheme \<Rightarrow>
     ('t, 'a) loop_scheme result option" where
  "runLoop cb run wait mode l =
     (if epollFd l < 0 then Some (Inr l)
      else case ThreadPool_init (threadPool l) of
             Inl e \<Rightarrow> Some (Inl e)
           | Inr pool \<Rightarrow>
               map_option (\<lambda>r. r_bind r (\<lambda>l'. Inr (l'\<lparr>keepRunning := False\<rparr>)))
                 (loop_while cb run wait 0 (l\<lparr>keepRunning := (mode = KForever), threadPool := pool\<rparr>)))"

section \<open>The order of the tasks\<close>

text \<open>A task that only adds tasks: it leaves the poller, the mode and the history alone and appends
  \<open>new t\<close> to the queue.\<close>

definition task_adds :: "('t \<Rightarrow> 't list) \<Rightarrow> ('t \<Rightarrow> 't loop \<Rightarrow> 't loop result) \<Rightarrow> bool" where
  "task_adds new run \<longleftrightarrow> (\<forall>t l. run t l = Inr (l\<lparr>taskQueue := taskQueue l @ new t\<rparr>))"

fun turns ::
    "(cb \<Rightarrow> nat \<Rightarrow> 't loop \<Rightarrow> 't loop result) \<Rightarrow> ('t \<Rightarrow> 't loop \<Rightarrow> 't loop result) \<Rightarrow> nat \<Rightarrow> 't loop \<Rightarrow> 't loop result" where
  "turns cb run 0 l = Inr l"
| "turns cb run (Suc n) l = r_bind (loop_turn cb run (Some []) l) (turns cb run n)"

lemma idle_turn:
  assumes "task_adds new run"
  shows "loop_turn cb run (Some []) l = Inr (l\<lparr>activeEvents := [],
     taskQueue := (case taskQueue l of [] \<Rightarrow> [] | t # q \<Rightarrow> q @ new t),
     ran := ran l @ take 1 (taskQueue l)\<rparr>)"
proof (cases "taskQueue l")
  case Nil
  then show ?thesis by (simp add: loop_turn_def Poller_poll_def handleTaskFun_def)
next
  case (Cons t q)
  then show ?thesis
    using assms by (simp add: loop_turn_def Poller_poll_def handleTaskFun_def task_adds_def)
qed

text \<open>C32: The loop runs the queued tasks first in, first out, one per turn, and a task that a running
  task adds goes behind those already queued: after \<open>n\<close> idle turns the tasks that were run, in
  order, followed by the queue are the initial queue followed by all tasks that were added, in the
  order of their addition.\<close>
theorem tasks_first_in_first_out:
  assumes "task_adds new run" "ran l = []"
  shows "\<exists>l'. turns cb run n l = Inr l' \<and> ran l' @ taskQueue l' = taskQueue l @ concat (map new (ran l')) \<and>
     (n \<le> length (taskQueue l) \<longrightarrow> length (ran l') = n)"
proof -
  have "\<exists>l'. turns cb run n l = Inr l' \<and>
      (\<exists>r. ran l' = ran l @ r \<and> r @ taskQueue l' = taskQueue l @ concat (map new r) \<and>
         (n \<le> length (taskQueue l) \<longrightarrow> length r = n))" for l
  proof (induction n arbitrary: l)
    case (Suc n)
    show ?case
    proof (cases "taskQueue l")
      case Nil
      have "loop_turn cb run (Some []) l = Inr (l\<lparr>activeEvents := []\<rparr>)"
        using idle_turn [OF assms(1), of cb l] Nil by simp
      with Suc.IH [of "l\<lparr>activeEvents := []\<rparr>"] Nil show ?thesis by auto
    next
      case (Cons t q)
      let ?k = "l\<lparr>activeEvents := [], taskQueue := q @ new t, ran := ran l @ [t]\<rparr>"
      have turn: "loop_turn cb run (Some []) l = Inr ?k"
        using idle_turn [OF assms(1), of cb l] Cons by simp
      from Suc.IH [of ?k] obtain l' r where "turns cb run n ?k = Inr l'" "ran l' = ran l @ t # r"
        "r @ taskQueue l' = q @ new t @ concat (map new r)" "n \<le> length (q @ new t) \<longrightarrow> length r = n"
        by auto
      with turn Cons show ?thesis by (intro exI [of _ l'] conjI exI [of _ "t # r"]) auto
    qed
  qed simp
  from this [of l] assms(2) show ?thesis by auto
qed

text \<open>\<open>runLoop(kOnce)\<close> makes exactly one turn and returns, if tasks and callbacks leave
  \<open>keepRunning_\<close> alone: the result is that of the turn, with the threads of the pool started.\<close>
theorem runLoop_once:
  assumes "0 \<le> epollFd l" "ThreadPool_init (threadPool l) = Inr pool"
    "\<And>k k'. loop_turn (cb 0) (run 0) (wait 0) k = Inr k' \<Longrightarrow> keepRunning k' = keepRunning k"
  shows "runLoop cb run wait KOnce l =
     Some (r_bind (loop_turn (cb 0) (run 0) (wait 0) (l\<lparr>keepRunning := False, threadPool := pool\<rparr>))
        (\<lambda>k. Inr (k\<lparr>keepRunning := False\<rparr>)))"
proof (cases "loop_turn (cb 0) (run 0) (wait 0) (l\<lparr>keepRunning := False, threadPool := pool\<rparr>)")
  case (Inl e)
  with assms show ?thesis by (simp add: runLoop_def loop_while.simps)
next
  case (Inr k)
  with assms(3) [OF Inr] assms(1,2) show ?thesis by (simp add: runLoop_def loop_while.simps)
qed

text \<open>A loop can be run only once: \<open>runLoop\<close> starts the threads of the pool each time, and since
  nothing stops them, the second call terminates the program.\<close>
theorem second_runLoop_terminates:
  assumes "\<exists>t \<in> set (m_threads (threadPool l)). t \<noteq> None" "0 \<le> epollFd l"
  shows "runLoop cb run wait mode l = Some (Inl Terminate)"
  using assms by (simp add: runLoop_def ThreadPool_init_def)

text \<open>A loop that was never run closes its \<open>epoll\<close> descriptor exactly once when it is destroyed. One that
  was run cannot be destroyed: nothing ever joins the threads of its pool, and the destruction of a
  joinable thread terminates the program.\<close>
theorem loop_destroyed_only_if_never_run:
  assumes "CreatLoop me fd = Inr (l :: 't loop)" "0 \<le> fd"
  shows "Loop_destroy l = Inr [fd] \<and>
    (\<forall>k :: 't loop. \<forall>pool. ThreadPool_init (threadPool l) = Inr pool \<and> threadPool k = pool \<longrightarrow> Loop_destroy k = Inl Terminate)"
proof -
  have l: "threadPool l = \<lparr>m_shutdown = False, m_queue = SafeQueue_new, m_threads = replicate 5 None,
      m_conditional_mutex = None, notify_ones = 0, closer_at = NotClosing, submitted = [], taken = [], started = [], finished = []\<rparr>"
    "poll_fd l = fd"
    using assms(1) by (auto simp: CreatLoop_def Loop_new_def ThreadPool_new_def MAX_THREAD_NUM_def)
  have "Loop_destroy l = Inr [fd]"
    using assms(2) by (simp add: Loop_destroy_def l ThreadPool_destroy_def epollFd_def Poller_destroy_def CHECK_CLOSE_RESET_FD_def)
  moreover have "Loop_destroy k = Inl Terminate"
    if "ThreadPool_init (threadPool l) = Inr pool" "threadPool k = pool" for k :: "'t loop" and pool
  proof -
    have "m_threads (threadPool k) = replicate 5 (Some AtLoop)"
      using that by (auto simp: ThreadPool_init_def l map_replicate)
    then show ?thesis by (simp add: Loop_destroy_def ThreadPool_destroy_def)
  qed
  ultimately show ?thesis by blast
qed

text \<open>The flag \<open>eventHandling_\<close> is never set (both assignments in \<open>runLoop\<close> are commented out), so the
  check of \<open>removeEvent\<close> that an event about to be dispatched is not removed never happens: the
  removal goes through although the event is still in \<open>activeEvents_\<close>.\<close>
theorem active_event_removed_unchecked:
  assumes "Loop_removeEvent e l = Inr l'" "\<not> eventHandling l" "e \<in> set (activeEvents l)"
  shows "e \<in> set (activeEvents l') \<and> \<not> Poller_hasEvent e l' \<and>
    Loop_removeEvent e (l\<lparr>eventHandling := True, currentActiveEvent := None\<rparr>) = Inl AssertFailed"
  using assms
  by (auto simp: Loop_removeEvent_def Poller_removeEvent_def Poller_hasEvent_def Let_def r_assert_def setIndex_ev_def
      upd_ev_def Poller_update_def ev_at_def split: if_splits)

definition sample_loop :: "nat loop result" where
  "sample_loop = r_bind (Loop_new 0 3) (\<lambda>l. Inr (runTask 5 False (runTask 4 False l)))"

theorem tasks_first_in_first_out_witness:
  "\<exists>l l'. sample_loop = Inr l \<and> turns (\<lambda>c e. Inr) (\<lambda>t l. Inr (l\<lparr>taskQueue := taskQueue l @ (if t = 4 then [7] else [])\<rparr>)) 2 l = Inr l' \<and>
     ran l' = [4, 5] \<and> taskQueue l' = [7]"
proof -
  let ?run = "\<lambda>t (l :: nat loop). Inr (l\<lparr>taskQueue := taskQueue l @ (if t = 4 then [7] else [])\<rparr>) :: nat loop result"
  have adds: "task_adds (\<lambda>t. if t = 4 then [7] else []) ?run" by (simp add: task_adds_def)
  obtain l where l: "sample_loop = Inr l" "taskQueue l = [4, 5]" "ran l = []"
    by (simp add: sample_loop_def Loop_new_def ThreadPool_new_def MAX_THREAD_NUM_def runTask_def)
  from tasks_first_in_first_out [OF adds l(3), of "\<lambda>c e. Inr" 2] l(2) obtain l' where
    l': "turns (\<lambda>c e. Inr) ?run 2 l = Inr l'"
    "ran l' @ taskQueue l' = [4, 5] @ concat (map (\<lambda>t. if t = 4 then [7] else []) (ran l'))" "length (ran l') = 2"
    by auto
  from arg_cong [OF l'(2), of "take 2"] l'(3) have r: "ran l' = [4, 5]" by simp
  with l'(2) have "taskQueue l' = [7]" by simp
  with r l(1) l'(1) show ?thesis by (intro exI [of _ l] exI [of _ l'] conjI)
qed

theorem runLoop_once_witness:
  "\<exists>l k. Loop_new 0 3 = Inr (l :: nat loop) \<and> runLoop (\<lambda>n c e. Inr) (\<lambda>n t. Inr) (\<lambda>n. Some []) KOnce l = Some (Inr k) \<and>
     \<not> keepRunning k"
proof -
  obtain l :: "nat loop" and pool where l: "Loop_new 0 3 = Inr l" "epollFd l = 3" "ThreadPool_init (threadPool l) = Inr pool"
    by (simp add: Loop_new_def ThreadPool_new_def MAX_THREAD_NUM_def epollFd_def ThreadPool_init_def)
  have turn: "loop_turn (\<lambda>c e. Inr) (\<lambda>t. Inr) (Some []) k = Inr (k\<lparr>activeEvents := [],
      taskQueue := tl (taskQueue k), ran := ran k @ take 1 (taskQueue k)\<rparr>)" for k :: "nat loop"
    by (cases "taskQueue k") (simp_all add: loop_turn_def Poller_poll_def handleTaskFun_def)
  have "runLoop (\<lambda>n c e. Inr) (\<lambda>n t. Inr) (\<lambda>n. Some []) KOnce l =
      Some (r_bind (loop_turn (\<lambda>c e. Inr) (\<lambda>t. Inr) (Some []) (l\<lparr>keepRunning := False, threadPool := pool\<rparr>))
        (\<lambda>k. Inr (k\<lparr>keepRunning := False\<rparr>)))"
    by (rule runLoop_once [OF _ l(3)]) (auto simp: l turn)
  with l(1) show ?thesis by (simp add: turn)
qed

theorem loop_destroyed_only_if_never_run_witness:
  "\<exists>l. CreatLoop 0 3 = Inr (l :: nat loop) \<and> Loop_destroy l = Inr [3]"
proof -
  obtain l :: "nat loop" where l: "CreatLoop 0 3 = Inr l"
    by (simp add: CreatLoop_def Loop_new_def ThreadPool_new_def MAX_THREAD_NUM_def)
  from loop_destroyed_only_if_never_run [OF l] l show ?thesis by auto
qed

theorem active_event_removed_unchecked_witness:
  "\<exists>l l' :: nat loop. r_bind (Loop_new 0 3) (\<lambda>l. r_bind (enableReading 0 (EpollFdEvent_init 0 7 KPersist (snd (CreatFdEvent 0 l))))
       (\<lambda>l. r_bind (Poller_poll (Some [(0, EPOLLIN)]) l) (disableAll 0))) = Inr l \<and>
     Loop_removeEvent 0 l = Inr l' \<and> 0 \<in> set (activeEvents l') \<and> \<not> Poller_hasEvent 0 l'"
proof -
  have "\<exists>l l' :: nat loop. r_bind (Loop_new 0 3) (\<lambda>l. r_bind (enableReading 0 (EpollFdEvent_init 0 7 KPersist (snd (CreatFdEvent 0 l))))
       (\<lambda>l. r_bind (Poller_poll (Some [(0, EPOLLIN)]) l) (disableAll 0))) = Inr l \<and>
     Loop_removeEvent 0 l = Inr l' \<and> \<not> eventHandling l \<and> 0 \<in> set (activeEvents l)"
    by (simp add: Loop_new_def ThreadPool_new_def MAX_THREAD_NUM_def CreatFdEvent_def poll_run Poller_poll_def
        fillActiveEvents_def Loop_removeEvent_def)
  then obtain l l' :: "nat loop" where l: "r_bind (Loop_new 0 3) (\<lambda>l. r_bind (enableReading 0 (EpollFdEvent_init 0 7 KPersist (snd (CreatFdEvent 0 l))))
       (\<lambda>l. r_bind (Poller_poll (Some [(0, EPOLLIN)]) l) (disableAll 0))) = Inr l"
     "Loop_removeEvent 0 l = Inr l'" "\<not> eventHandling l" "0 \<in> set (activeEvents l)" by blast
  from active_event_removed_unchecked [OF l(2-4)] l(1,2) show ?thesis by blast
qed

theorem second_runLoop_terminates_witness:
  "\<exists>l. Loop_new 0 3 = Inr (l :: nat loop) \<and>
     runLoop (\<lambda>n c e. Inr) (\<lambda>n t. Inr) (\<lambda>n. Some []) KOnce
       (l\<lparr>threadPool := (threadPool l)\<lparr>m_threads := [Some AtLoop]\<rparr>\<rparr>) = Some (Inl Terminate)"
proof -
  obtain l :: "nat loop" where l: "Loop_new 0 3 = Inr l" "epollFd l = 3"
    by (simp add: Loop_new_def ThreadPool_new_def MAX_THREAD_NUM_def epollFd_def)
  then show ?thesis
    by (intro exI [of _ l] conjI second_runLoop_terminates) (simp_all add: epollFd_def)
qed

end
