(* ===== verification/Fd.thy ===== *)
theory Fd
  imports Contracts
begin

text \<open>
  The class \<open>Fd\<close> of \<open>gwcpp/event/Fd.h\<close> and \<open>Fd.cpp\<close>: reference-counted file descriptors. An
  explicit store holds the \<open>Fd\<close> objects of a program and the \<open>Detail\<close> records they share: an
  object is its index in \<open>handles\<close>, an address the index in \<open>details\<close>; an entry that is \<open>None\<close> was
  destroyed, and using it is \<open>Undefined\<close>. The store also records, for the properties, the descriptor
  each \<open>Detail\<close> was made with (\<open>made\<close>) and every call that closes one (\<open>closes\<close>: the address, the
  descriptor, and whether it is the user's \<open>close_func\<close>).

  What the kernel answers to a system call is an argument.
\<close>

section \<open>State\<close>

record fd_detail =
  fd :: int
  ref_count :: int
  close_func :: bool

record fd_store =
  details :: "fd_detail option list"
  handles :: "nat option option list"
  made :: "int list"
  closes :: "(nat \<times> int \<times> bool) list"

definition fd_store_init :: fd_store where
  "fd_store_init = \<lparr>details = [], handles = [], made = [], closes = []\<rparr>"

text \<open>\<open>detail_\<close> of an object, and the record behind it.\<close>

definition detail_of :: "nat \<Rightarrow> fd_store \<Rightarrow> nat option result" where
  "detail_of h s =
     (if h < length (handles s)
      then case handles s ! h of Some p \<Rightarrow> Inr p | None \<Rightarrow> Inl Undefined else Inl Undefined)"

definition deref :: "nat \<Rightarrow> fd_store \<Rightarrow> fd_detail result" where
  "deref a s =
     (if a < length (details s)
      then case details s ! a of Some d \<Rightarrow> Inr d | None \<Rightarrow> Inl Undefined else Inl Undefined)"

definition set_detail :: "nat \<Rightarrow> fd_detail option \<Rightarrow> fd_store \<Rightarrow> fd_store" where
  "set_detail a d s = s\<lparr>details := (details s)[a := d]\<rparr>"

definition set_handle :: "nat \<Rightarrow> nat option option \<Rightarrow> fd_store \<Rightarrow> fd_store" where
  "set_handle h p s = s\<lparr>handles := (handles s)[h := p]\<rparr>"

definition add_handle :: "nat option \<Rightarrow> fd_store \<Rightarrow> fd_store" where
  "add_handle p s = s\<lparr>handles := handles s @ [Some p]\<rparr>"

section \<open>Construction and destruction\<close>

definition Fd_null :: "fd_store \<Rightarrow> fd_store" where
  "Fd_null s = add_handle None s"

definition new_Detail :: "int \<Rightarrow> bool \<Rightarrow> fd_store \<Rightarrow> fd_store" where
  "new_Detail f cf s =
     add_handle (Some (length (details s)))
       (s\<lparr>details := details s @ [Some \<lparr>fd = f, ref_count = 1, close_func = cf\<rparr>], made := made s @ [f]\<rparr>)"

definition Fd_of :: "int \<Rightarrow> fd_store \<Rightarrow> fd_store" where
  "Fd_of f s = new_Detail f False s"

definition Fd_with :: "int \<Rightarrow> fd_store \<Rightarrow> fd_store" where
  "Fd_with f s = new_Detail f True s"

definition do_close :: "nat \<Rightarrow> fd_detail \<Rightarrow> fd_store \<Rightarrow> fd_store" where
  "do_close a d s = s\<lparr>closes := closes s @ [(a, fd d, close_func d)]\<rparr>"

definition Fd_destroy :: "nat \<Rightarrow> fd_store \<Rightarrow> fd_store result" where
  "Fd_destroy h s =
     r_bind (detail_of h s) (\<lambda>p.
     case p of
       None \<Rightarrow> Inr (set_handle h None s)
     | Some a \<Rightarrow>
         r_bind (deref a s) (\<lambda>d.
         let d' = (if ref_count d > 0 then d\<lparr>ref_count := ref_count d - 1\<rparr> else d)
         in if ref_count d' = 0
            then let s' = (if fd d' \<ge> 0 then do_close a d' s else s)
                 in Inr (set_handle h None (set_detail a None s'))
            else Inr (set_handle h None (set_detail a (Some d') s))))"

text \<open>\<open>++other.detail_->ref_count\<close>.\<close>

definition share :: "nat \<Rightarrow> fd_store \<Rightarrow> fd_store result" where
  "share a s =
     r_bind (deref a s) (\<lambda>d.
     r_bind (i32_add (ref_count d) 1) (\<lambda>n.
     Inr (set_detail a (Some (d\<lparr>ref_count := n\<rparr>)) s)))"

definition Fd_copy :: "nat \<Rightarrow> fd_store \<Rightarrow> fd_store result" where
  "Fd_copy other s =
     r_bind (detail_of other s) (\<lambda>p.
     case p of
       None \<Rightarrow> Inr (add_handle None s)
     | Some a \<Rightarrow> r_bind (share a s) (\<lambda>s'. Inr (add_handle (Some a) s')))"

text \<open>Copy assignment replaces \<open>detail_\<close> without giving up the old one.\<close>

definition Fd_assign :: "nat \<Rightarrow> nat \<Rightarrow> fd_store \<Rightarrow> fd_store result" where
  "Fd_assign this other s =
     r_bind (detail_of this s) (\<lambda>_.
     r_bind (detail_of other s) (\<lambda>p.
     if this = other then Inr s
     else case p of
            None \<Rightarrow> Inr s
          | Some a \<Rightarrow> r_bind (share a s) (\<lambda>s'. Inr (set_handle this (Some (Some a)) s'))))"

definition Fd_swap :: "nat \<Rightarrow> nat \<Rightarrow> fd_store \<Rightarrow> fd_store result" where
  "Fd_swap this other s =
     r_bind (detail_of this s) (\<lambda>p.
     r_bind (detail_of other s) (\<lambda>q.
     Inr (set_handle other (Some p) (set_handle this (Some q) s))))"

text \<open>The macro \<open>IMP_MOVE_RESET_FUNC_BASE_ON_SWAP\<close>.\<close>

definition Fd_reset :: "nat \<Rightarrow> fd_store \<Rightarrow> fd_store result" where
  "Fd_reset this s =
     (let tmp = length (handles s)
      in r_bind (Fd_swap this tmp (Fd_null s)) (Fd_destroy tmp))"

definition Fd_move :: "nat \<Rightarrow> fd_store \<Rightarrow> fd_store result" where
  "Fd_move other s = Fd_swap (length (handles s)) other (Fd_null s)"

definition Fd_move_assign :: "nat \<Rightarrow> nat \<Rightarrow> fd_store \<Rightarrow> fd_store result" where
  "Fd_move_assign this other s =
     (if this \<noteq> other then r_bind (Fd_reset this s) (Fd_swap this other) else Inr s)"

definition Fd_close :: "nat \<Rightarrow> fd_store \<Rightarrow> fd_store result" where
  "Fd_close this s =
     r_bind (detail_of this s) (\<lambda>p.
     case p of
       None \<Rightarrow> Inr s
     | Some a \<Rightarrow>
         r_bind (deref a s) (\<lambda>d.
         if fd d \<ge> 0
         then Inr (set_detail a (Some (d\<lparr>fd := - 1, close_func := False\<rparr>)) (do_close a d s))
         else Inr s))"

text \<open>\<open>Open\<close>: \<open>ret\<close> is what \<open>::open\<close> returned.\<close>

definition Fd_Open :: "int \<Rightarrow> fd_store \<Rightarrow> fd_store" where
  "Fd_Open ret s = (if ret < 0 then Fd_null s else Fd_of ret s)"

section \<open>Access\<close>

definition Fd_get :: "nat \<Rightarrow> fd_store \<Rightarrow> int result" where
  "Fd_get this s =
     r_bind (detail_of this s) (\<lambda>p.
     case p of None \<Rightarrow> Inr (- 1) | Some a \<Rightarrow> r_bind (deref a s) (\<lambda>d. Inr (fd d)))"

definition Fd_isNull :: "nat \<Rightarrow> fd_store \<Rightarrow> bool result" where
  "Fd_isNull this s =
     r_bind (detail_of this s) (\<lambda>p.
     case p of None \<Rightarrow> Inr True | Some a \<Rightarrow> r_bind (deref a s) (\<lambda>d. Inr (fd d = - 1)))"

text \<open>\<open>read\<close>, and with their own system calls \<open>readv\<close>, \<open>write\<close> and \<open>writev\<close>: \<open>sys\<close> is the result of the
  call on a descriptor with the other arguments.\<close>

definition Fd_io :: "(int \<Rightarrow> int) \<Rightarrow> nat \<Rightarrow> fd_store \<Rightarrow> int result" where
  "Fd_io sys this s =
     r_bind (detail_of this s) (\<lambda>p.
     case p of None \<Rightarrow> Inr (- 1) | Some a \<Rightarrow> r_bind (deref a s) (\<lambda>d. Inr (sys (fd d))))"

definition Fd_readv :: "(int \<Rightarrow> 'v \<Rightarrow> int) \<Rightarrow> 'v \<Rightarrow> nat \<Rightarrow> fd_store \<Rightarrow> int result" where
  "Fd_readv readv iov = Fd_io (\<lambda>f. readv f iov)"

definition Fd_write :: "(int \<Rightarrow> bytes \<Rightarrow> int) \<Rightarrow> bytes \<Rightarrow> nat \<Rightarrow> fd_store \<Rightarrow> int result" where
  "Fd_write write b = Fd_io (\<lambda>f. write f b)"

definition Fd_writev :: "(int \<Rightarrow> bytes list \<Rightarrow> int) \<Rightarrow> bytes list \<Rightarrow> nat \<Rightarrow> fd_store \<Rightarrow> int result" where
  "Fd_writev writev iov = Fd_io (\<lambda>f. writev f iov)"

text \<open>The calls of \<open>fcntl\<close> that set flags; what the flags are before is the argument \<open>flags\<close>.\<close>

datatype fcntl = F_SETFL int "32 word" | F_SETFD int "32 word"

definition O_NONBLOCK :: "32 word" where "O_NONBLOCK = 0x800"
definition FD_CLOEXEC :: "32 word" where "FD_CLOEXEC = 1"

definition Fd_setNonBlock :: "32 word \<Rightarrow> bool \<Rightarrow> nat \<Rightarrow> fd_store \<Rightarrow> fcntl list result" where
  "Fd_setNonBlock old_flags enable this s =
     r_bind (detail_of this s) (\<lambda>p.
     case p of None \<Rightarrow> Inr []
     | Some a \<Rightarrow>
         r_bind (deref a s) (\<lambda>d.
         let new_flags = (if enable then old_flags OR O_NONBLOCK else old_flags AND NOT O_NONBLOCK)
         in Inr (if new_flags \<noteq> old_flags then [F_SETFL (fd d) new_flags] else [])))"

definition Fd_isNonBlock :: "32 word \<Rightarrow> nat \<Rightarrow> fd_store \<Rightarrow> bool result" where
  "Fd_isNonBlock flags this s =
     r_bind (detail_of this s) (\<lambda>p.
     case p of None \<Rightarrow> Inr False
     | Some a \<Rightarrow> r_bind (deref a s) (\<lambda>d. Inr (flags AND O_NONBLOCK \<noteq> 0)))"

definition Fd_setCloseOnExec :: "32 word \<Rightarrow> nat \<Rightarrow> fd_store \<Rightarrow> fcntl list result" where
  "Fd_setCloseOnExec old_flags this s =
     r_bind (detail_of this s) (\<lambda>p.
     case p of None \<Rightarrow> Inr []
     | Some a \<Rightarrow>
         r_bind (deref a s) (\<lambda>d.
         let new_flags = old_flags OR FD_CLOEXEC
         in Inr (if new_flags \<noteq> old_flags then [F_SETFL (fd d) new_flags] else [])))"

section \<open>Programs\<close>

datatype fd_op =
    FNull | FOf int | FWith int | FOpen int | FDestroy nat | FCopy nat | FAssign nat nat
  | FMove nat | FMoveAssign nat nat | FReset nat | FSwap nat nat | FClose nat

fun fd_step :: "fd_op \<Rightarrow> fd_store \<Rightarrow> fd_store result" where
  "fd_step FNull s = Inr (Fd_null s)"
| "fd_step (FOf f) s = Inr (Fd_of f s)"
| "fd_step (FWith f) s = Inr (Fd_with f s)"
| "fd_step (FOpen r) s = Inr (Fd_Open r s)"
| "fd_step (FDestroy h) s = Fd_destroy h s"
| "fd_step (FCopy h) s = Fd_copy h s"
| "fd_step (FAssign h g) s = Fd_assign h g s"
| "fd_step (FMove h) s = Fd_move h s"
| "fd_step (FMoveAssign h g) s = Fd_move_assign h g s"
| "fd_step (FReset h) s = Fd_reset h s"
| "fd_step (FSwap h g) s = Fd_swap h g s"
| "fd_step (FClose h) s = Fd_close h s"

end
