(* ===== verification/FdSafe.thy ===== *)
theory FdSafe
  imports Fd "HOL-Library.Multiset"
begin

text \<open>
  The reference counts of \<open>Fd\<close>. In every program the count of a live \<open>Detail\<close> is at least the number
  of objects that share it, so nothing is used after it was freed and no descriptor is closed twice
  (\<open>fd_safe_ops\<close>). Without copy assignments the count is exact, so the last object to go closes the
  descriptor (\<open>fd_exact_ops\<close>). Copy assignment over a descriptor leaks it.
\<close>

definition refs :: "fd_store \<Rightarrow> nat \<Rightarrow> nat" where
  "refs s a = count_list (handles s) (Some (Some a))"

definition close_count :: "fd_store \<Rightarrow> nat \<Rightarrow> nat" where
  "close_count s a = count_list (map fst (closes s)) a"

fun entry_ok :: "bool \<Rightarrow> fd_detail option \<Rightarrow> int \<Rightarrow> nat \<Rightarrow> nat \<Rightarrow> bool" where
  "entry_ok exact None f r k \<longleftrightarrow> r = 0 \<and> k = (if 0 \<le> f then 1 else 0)"
| "entry_ok exact (Some d) f r k \<longleftrightarrow>
     0 < ref_count d \<and> (if exact then ref_count d = int r else int r \<le> ref_count d) \<and>
     (fd d = f \<and> k = 0 \<or> fd d = - 1 \<and> 0 \<le> f \<and> k = 1)"

definition fd_inv :: "bool \<Rightarrow> fd_store \<Rightarrow> bool" where
  "fd_inv exact s \<longleftrightarrow> length (made s) = length (details s) \<and>
     (\<forall>a. Some (Some a) \<in> set (handles s) \<longrightarrow> a < length (details s)) \<and>
     (\<forall>c \<in> set (closes s). fst c < length (details s) \<and> fst (snd c) = made s ! fst c) \<and>
     (\<forall>a < length (details s). entry_ok exact (details s ! a) (made s ! a) (refs s a) (close_count s a))"

section \<open>Counting\<close>

lemma count_list_update:
  "i < length xs \<Longrightarrow>
   count_list (xs[i := y]) z + (if xs ! i = z then 1 else 0) = count_list xs z + (if y = z then 1 else 0)"
proof (induction xs arbitrary: i)
  case (Cons x xs)
  show ?case
  proof (cases i)
    case (Suc j)
    with Cons.IH [of j] Cons.prems show ?thesis by auto
  qed auto
qed simp

lemma refs_set_handle:
  "h < length (handles s) \<Longrightarrow>
   refs (set_handle h p s) a + (if handles s ! h = Some (Some a) then 1 else 0) =
   refs s a + (if p = Some (Some a) then 1 else 0)"
  by (simp add: refs_def set_handle_def count_list_update)

lemma refs_simps [simp]:
  "refs (add_handle p s) a = refs s a + (if p = Some a then 1 else 0)"
  "refs (set_detail b d s) a = refs s a"
  "refs (do_close b e s) a = refs s a"
  by (simp_all add: refs_def add_handle_def set_detail_def do_close_def)

lemma close_count_simps [simp]:
  "close_count (add_handle p s) a = close_count s a"
  "close_count (set_detail b d s) a = close_count s a"
  "close_count (set_handle h q s) a = close_count s a"
  "close_count (do_close b e s) a = close_count s a + (if a = b then 1 else 0)"
  by (simp_all add: close_count_def add_handle_def set_detail_def do_close_def set_handle_def)

lemma store_simps [simp]:
  "details (add_handle p s) = details s" "details (set_handle h q s) = details s"
  "details (do_close b e s) = details s" "details (set_detail b d s) = (details s)[b := d]"
  "made (add_handle p s) = made s" "made (set_handle h q s) = made s"
  "made (do_close b e s) = made s" "made (set_detail b d s) = made s"
  "handles (set_detail b d s) = handles s" "handles (do_close b e s) = handles s"
  "handles (add_handle p s) = handles s @ [Some p]" "handles (set_handle h q s) = (handles s)[h := q]"
  "closes (add_handle p s) = closes s" "closes (set_handle h q s) = closes s"
  "closes (set_detail b d s) = closes s" "closes (do_close b e s) = closes s @ [(b, fd e, close_func e)]"
  by (simp_all add: add_handle_def set_detail_def do_close_def set_handle_def)

lemma refs_pos: "h < length (handles s) \<Longrightarrow> handles s ! h = Some (Some a) \<Longrightarrow> 0 < refs s a"
  using count_list_0_iff [of "handles s" "Some (Some a)"] nth_mem [of h "handles s"] by (auto simp: refs_def)

lemma detail_of_eq: "detail_of h s = Inr p \<longleftrightarrow> h < length (handles s) \<and> handles s ! h = Some p"
  by (auto simp: detail_of_def split: option.splits)

lemma deref_eq: "deref a s = Inr d \<longleftrightarrow> a < length (details s) \<and> details s ! a = Some d"
  by (auto simp: deref_def split: option.splits)

section \<open>The operations\<close>

lemma fd_inv_entry:
  "fd_inv exact s \<Longrightarrow> a < length (details s) \<Longrightarrow>
   entry_ok exact (details s ! a) (made s ! a) (refs s a) (close_count s a)"
  by (simp add: fd_inv_def)

lemma fd_inv_null: "fd_inv exact s \<Longrightarrow> fd_inv exact (add_handle None s)"
  by (auto simp: fd_inv_def)

lemma fd_inv_new:
  assumes "fd_inv exact s"
  shows "fd_inv exact (new_Detail f cf s)"
proof -
  let ?a = "length (details s)"
  have "Some (Some ?a) \<notin> set (handles s)" using assms by (auto simp: fd_inv_def)
  then have "refs s ?a = 0" by (simp add: refs_def)
  moreover have "?a \<notin> fst ` set (closes s)" using assms by (auto simp: fd_inv_def)
  then have "close_count s ?a = 0" by (simp add: close_count_def)
  moreover have "refs (new_Detail f cf s) b = refs s b + (if b = ?a then 1 else 0)"
    "close_count (new_Detail f cf s) b = close_count s b" for b
    by (auto simp: new_Detail_def refs_def close_count_def)
  ultimately show ?thesis
    using assms by (auto simp: fd_inv_def new_Detail_def nth_append less_Suc_eq)
qed

lemma fd_inv_share:
  assumes "fd_inv exact s" "share a s = Inr s'"
  shows "\<exists>d. details s ! a = Some d \<and> a < length (details s) \<and>
    s' = set_detail a (Some (d\<lparr>ref_count := ref_count d + 1\<rparr>)) s"
  using assms by (auto simp: share_def r_bind_eq_Inr deref_eq i32_add_def split: if_splits)

lemma fd_inv_copy:
  assumes "fd_inv exact s" "Fd_copy h s = Inr s'"
  shows "fd_inv exact s'"
proof -
  from assms(2) obtain p where p: "detail_of h s = Inr p" by (auto simp: Fd_copy_def r_bind_eq_Inr)
  show ?thesis
  proof (cases p)
    case None
    with p assms show ?thesis by (auto simp: Fd_copy_def fd_inv_null)
  next
    case (Some a)
    with p assms obtain t where "share a s = Inr t" "s' = add_handle (Some a) t"
      by (auto simp: Fd_copy_def r_bind_eq_Inr)
    with fd_inv_share [OF assms(1)] obtain d where d: "details s ! a = Some d" "a < length (details s)"
      "s' = add_handle (Some a) (set_detail a (Some (d\<lparr>ref_count := ref_count d + 1\<rparr>)) s)" by blast
    show ?thesis
      using assms(1) fd_inv_entry [OF assms(1) d(2)] d
      by (auto simp: fd_inv_def nth_list_update)
  qed
qed

lemma fd_inv_swap:
  assumes "fd_inv exact s" "Fd_swap g h s = Inr s'"
  shows "fd_inv exact s'"
proof -
  from assms(2) obtain p q where pq: "detail_of g s = Inr p" "detail_of h s = Inr q"
    "s' = set_handle h (Some p) (set_handle g (Some q) s)"
    by (auto simp: Fd_swap_def r_bind_eq_Inr)
  have "handles s' = (handles s)[g := handles s ! h, h := handles s ! g]"
    using pq by (auto simp: detail_of_eq)
  then have "mset (handles s') = mset (handles s)"
    using mset_swap [of h "handles s" g] pq(1,2) by (simp only: detail_of_eq)
  then have "refs s' a = refs s a" "set (handles s') = set (handles s)" for a
    by (metis refs_def count_mset, metis mset_eq_setD)
  moreover have "details s' = details s" "made s' = made s" "closes s' = closes s" "close_count s' a = close_count s a" for a
    by (simp_all add: pq(3))
  ultimately show ?thesis using assms(1) by (simp add: fd_inv_def)
qed

lemma fd_inv_close:
  assumes "fd_inv exact s" "Fd_close h s = Inr s'"
  shows "fd_inv exact s'"
proof -
  from assms(2) obtain p where p: "detail_of h s = Inr p" by (auto simp: Fd_close_def r_bind_eq_Inr)
  show ?thesis
  proof (cases p)
    case None
    with p assms show ?thesis by (simp add: Fd_close_def)
  next
    case (Some a)
    with p assms(2) obtain d where d: "a < length (details s)" "details s ! a = Some d"
      and s': "s' = (if 0 \<le> fd d then set_detail a (Some (d\<lparr>fd := - 1, close_func := False\<rparr>)) (do_close a d s)
                     else s)"
      by (auto simp: Fd_close_def r_bind_eq_Inr deref_eq split: if_splits)
    with assms(1) fd_inv_entry [OF assms(1) d(1)] show ?thesis
      by (auto simp: fd_inv_def nth_list_update)
  qed
qed

lemma fd_inv_destroy:
  assumes "fd_inv exact s" "Fd_destroy h s = Inr s'"
  shows "fd_inv exact s'"
proof -
  from assms(2) obtain p where p: "h < length (handles s)" "handles s ! h = Some p"
    by (auto simp: Fd_destroy_def r_bind_eq_Inr detail_of_eq)
  have others: "refs (set_handle h None t) b = refs s b - (if p = Some b then 1 else 0)"
    if "handles t = handles s" for b t
    using refs_set_handle [of h t None b] p that by (auto simp: refs_def)
  show ?thesis
  proof (cases p)
    case None
    with p assms have "s' = set_handle h None s" by (simp add: Fd_destroy_def detail_of_def)
    with assms(1) others [of s] None show ?thesis
      by (auto simp: fd_inv_def dest!: set_update_subset_insert [THEN subsetD])
  next
    case (Some a)
    have "refs s a > 0" using p Some by (auto intro: refs_pos)
    with p Some assms(2) obtain d where d: "a < length (details s)" "details s ! a = Some d"
      by (auto simp: Fd_destroy_def r_bind_eq_Inr deref_eq detail_of_def)
    note entry = fd_inv_entry [OF assms(1) d(1), unfolded d(2)]
    let ?d = "d\<lparr>ref_count := ref_count d - 1\<rparr>"
    have s': "s' = (if ref_count d = 1
        then set_handle h None (set_detail a None (if 0 \<le> fd d then do_close a ?d s else s))
        else set_handle h None (set_detail a (Some ?d) s))"
      using assms(2) entry Some p d
      by (auto simp: Fd_destroy_def detail_of_def deref_def Let_def split: if_splits)
    have sub: "Some (Some b) \<in> set ((handles s)[h := None]) \<Longrightarrow> Some (Some b) \<in> set (handles s)" for b
      by (auto dest!: set_update_subset_insert [THEN subsetD])
    show ?thesis
      using assms(1) entry d s' others sub Some \<open>refs s a > 0\<close>
      by (auto simp: fd_inv_def nth_list_update split: if_splits)
  qed
qed

text \<open>Copy assignment keeps only the weaker bound: the count of the replaced record stays.\<close>

lemma fd_inv_assign:
  assumes "fd_inv False s" "Fd_assign h g s = Inr s'"
  shows "fd_inv False s'"
proof -
  from assms(2) obtain p q where h: "h < length (handles s)" "handles s ! h = Some p"
    and q: "detail_of g s = Inr q"
    by (auto simp: Fd_assign_def r_bind_eq_Inr detail_of_eq)
  show ?thesis
  proof (cases "h = g \<or> q = None")
    case True
    with q assms show ?thesis by (auto simp: Fd_assign_def r_bind_eq_Inr split: if_splits)
  next
    case False
    then obtain a where a: "q = Some a" by auto
    with False q assms(2) h obtain t where "share a s = Inr t" "s' = set_handle h (Some (Some a)) t"
      by (auto simp: Fd_assign_def r_bind_eq_Inr)
    with fd_inv_share [OF assms(1)] obtain d where d: "details s ! a = Some d" "a < length (details s)"
      and s': "s' = set_handle h (Some (Some a)) (set_detail a (Some (d\<lparr>ref_count := ref_count d + 1\<rparr>)) s)"
      by blast
    have "refs s' b \<le> refs s b + (if a = b then 1 else 0)" "b \<noteq> a \<Longrightarrow> refs s b = 0 \<Longrightarrow> refs s' b = 0" for b
      using refs_set_handle [of h s "Some (Some a)" b] h s'
      by (auto simp: refs_def split: if_splits)
    then have le: "refs s' b \<le> refs s b + (if a = b then 1 else 0)" for b by blast
    have "Some (Some b) \<in> set (handles s') \<Longrightarrow> b = a \<or> Some (Some b) \<in> set (handles s)" for b
      using s' by (auto dest!: set_update_subset_insert [THEN subsetD])
    moreover have "entry_ok False (details s' ! b) (made s ! b) (refs s' b) (close_count s b)"
      if "b < length (details s)" for b
      using fd_inv_entry [OF assms(1) that] le [of b] d s' that
      by (cases "details s ! b") (auto simp: nth_list_update)
    ultimately show ?thesis
      using assms(1) d s' by (auto simp: fd_inv_def)
  qed
qed

lemma fd_inv_reset: "fd_inv e s \<Longrightarrow> Fd_reset h s = Inr s' \<Longrightarrow> fd_inv e s'"
  unfolding Fd_reset_def Fd_null_def Let_def r_bind_eq_Inr
  by (elim exE conjE) (rule fd_inv_destroy [OF fd_inv_swap [OF fd_inv_null]])

definition no_copy_assign :: "fd_op \<Rightarrow> bool" where
  "no_copy_assign x \<longleftrightarrow> (case x of FAssign _ _ \<Rightarrow> False | _ \<Rightarrow> True)"

lemma fd_step_inv:
  assumes "fd_inv e s" "fd_step x s = Inr s'" "no_copy_assign x \<or> \<not> e"
  shows "fd_inv e s'"
proof (cases x)
  case (FOpen r)
  with assms show ?thesis by (auto simp: Fd_Open_def Fd_null_def Fd_of_def intro: fd_inv_null fd_inv_new)
next
  case (FMove h)
  with assms show ?thesis by (auto simp: Fd_move_def Fd_null_def intro: fd_inv_swap fd_inv_null)
next
  case (FMoveAssign h g)
  with assms show ?thesis
    by (auto simp: Fd_move_assign_def r_bind_eq_Inr intro: fd_inv_swap fd_inv_reset split: if_splits)
next
  case (FAssign h g)
  with assms show ?thesis by (auto simp: no_copy_assign_def intro: fd_inv_assign)
qed (use assms in \<open>auto simp: Fd_null_def Fd_of_def Fd_with_def
    intro: fd_inv_null fd_inv_new fd_inv_destroy fd_inv_copy fd_inv_reset fd_inv_swap fd_inv_close\<close>)

interpretation fd_safe_ops: guarded_ops fd_step "\<lambda>x. True" "fd_inv False"
  by unfold_locales (erule (1) fd_step_inv, simp)

interpretation fd_exact_ops: guarded_ops fd_step no_copy_assign "fd_inv True"
  by unfold_locales (erule (1) fd_step_inv, simp)

lemma fd_inv_init: "fd_inv e fd_store_init"
  by (simp add: fd_inv_def fd_store_init_def)

section \<open>What was wrapped and what was closed\<close>

text \<open>The descriptors that an operation wraps, and the arguments of all calls that closed one, in order.\<close>

fun wrapped :: "fd_op \<Rightarrow> int list" where
  "wrapped (FOf f) = [f]"
| "wrapped (FWith f) = [f]"
| "wrapped (FOpen r) = (if r < 0 then [] else [r])"
| "wrapped _ = []"

definition closed_fds :: "fd_store \<Rightarrow> int list" where
  "closed_fds s = map (\<lambda>(a, f, c). f) (closes s)"

lemma swap_made: "Fd_swap h g s = Inr s' \<Longrightarrow> made s' = made s"
  by (auto simp: Fd_swap_def r_bind_eq_Inr)

lemma destroy_made: "Fd_destroy h s = Inr s' \<Longrightarrow> made s' = made s"
  by (cases "detail_of h s", simp_all add: Fd_destroy_def split: option.splits)
    (auto simp: r_bind_eq_Inr Let_def simp del: One_nat_def split: if_split_asm)

lemma share_made: "share a s = Inr s' \<Longrightarrow> made s' = made s"
  by (auto simp: share_def r_bind_eq_Inr)

lemma reset_made: "Fd_reset h s = Inr s' \<Longrightarrow> made s' = made s"
  by (auto simp: Fd_reset_def Fd_null_def Let_def r_bind_eq_Inr dest!: swap_made destroy_made)

lemma new_made [simp]: "made (new_Detail f cf s) = made s @ [f]"
  by (simp add: new_Detail_def)

lemma fd_step_made:
  assumes "fd_step x s = Inr s'"
  shows "made s' = made s @ wrapped x"
proof (cases x)
  case (FMoveAssign h g)
  with assms show ?thesis
    by (auto simp: Fd_move_assign_def r_bind_eq_Inr dest!: swap_made reset_made split: if_splits)
next
  case (FClose h)
  with assms show ?thesis by (auto simp: Fd_close_def r_bind_eq_Inr split: option.splits if_splits)
qed (use assms in \<open>auto simp: Fd_null_def Fd_of_def Fd_with_def Fd_Open_def Fd_copy_def Fd_assign_def Fd_move_def
    r_bind_eq_Inr split: option.splits if_splits dest!: swap_made reset_made destroy_made share_made\<close>)

lemma fd_run_made: "r_fold fd_step ops s = Inr s' \<Longrightarrow> made s' = made s @ concat (map wrapped ops)"
  by (induction ops arbitrary: s) (auto simp: r_bind_eq_Inr dest: fd_step_made)

text \<open>When each record was closed once if it had a descriptor, what was closed is what was wrapped.\<close>

lemma closed_made:
  assumes inv: "fd_inv exact s" and once: "\<And>a. a < length (made s) \<Longrightarrow> close_count s a = (if 0 \<le> made s ! a then 1 else 0)"
  shows "mset (closed_fds s) = mset (filter (\<lambda>f. 0 \<le> f) (made s))"
proof -
  have len: "length (made s) = length (details s)" and fds: "\<forall>c \<in> set (closes s). fst c < length (details s) \<and> fst (snd c) = made s ! fst c"
    using inv by (simp_all add: fd_inv_def)
  let ?as = "filter (\<lambda>a. 0 \<le> made s ! a) [0..<length (made s)]"
  have "count (mset (map fst (closes s))) a = count (mset ?as) a" for a
  proof (cases "a < length (made s)")
    case True
    with once [OF True] show ?thesis by (simp add: close_count_def count_mset [symmetric])
  next
    case False
    then have "a \<notin> fst ` set (closes s)" using fds len by auto
    with False show ?thesis by (simp add: count_eq_zero_iff)
  qed
  then have "mset (map fst (closes s)) = mset ?as" by (rule multiset_eqI)
  moreover have "closed_fds s = map (\<lambda>a. made s ! a) (map fst (closes s))"
    using fds by (auto simp: closed_fds_def)
  moreover have "filter (\<lambda>f. 0 \<le> f) (made s) = map (\<lambda>a. made s ! a) ?as"
    by (metis (mono_tags, lifting) comp_apply filter_cong filter_map map_nth)
  ultimately show ?thesis by (metis mset_map)
qed

section \<open>Properties\<close>

text \<open>In every program over \<open>Fd\<close> objects, copy assignments included, no descriptor is closed
  twice through the \<open>Fd\<close> objects made for it, what is closed is the descriptor that the object was
  made with, and no object ever points to a freed record.\<close>
theorem fd_closed_at_most_once:
  assumes "r_fold fd_step ops fd_store_init = Inr s"
  shows "distinct (map fst (closes s)) \<and>
    (\<forall>(a, f, c) \<in> set (closes s). f = made s ! a) \<and>
    (\<forall>h a. detail_of h s = Inr (Some a) \<longrightarrow> (\<exists>d. deref a s = Inr d \<and> 0 < ref_count d))"
proof -
  have inv: "fd_inv False s" using fd_safe_ops.run_inv [OF fd_inv_init _ assms] by simp
  have "count_list (map fst (closes s)) a \<le> 1" for a
  proof (cases "a < length (details s)")
    case True
    from fd_inv_entry [OF inv True] show ?thesis
      by (cases "details s ! a") (auto simp: close_count_def split: if_splits)
  next
    case False
    then have "a \<notin> fst ` set (closes s)" using inv by (auto simp: fd_inv_def)
    then show ?thesis by simp
  qed
  then have "distinct (map fst (closes s))"
    by (metis One_nat_def count_mset distinct_count_atmost_1 count_list_0_iff le_0_eq le_Suc_eq)
  moreover have "\<forall>(a, f, c) \<in> set (closes s). f = made s ! a" using inv by (auto simp: fd_inv_def)
  moreover have "\<exists>d. deref a s = Inr d \<and> 0 < ref_count d" if "detail_of h s = Inr (Some a)" for h a
  proof -
    from that have h: "h < length (handles s)" "handles s ! h = Some (Some a)" by (simp_all add: detail_of_eq)
    then have "Some (Some a) \<in> set (handles s)" by (metis nth_mem)
    then have "a < length (details s)" using inv by (simp add: fd_inv_def)
    with fd_inv_entry [OF inv this] refs_pos [OF h] show ?thesis
      by (cases "details s ! a") (auto simp: deref_def)
  qed
  ultimately show ?thesis by blast
qed

theorem fd_closed_at_most_once_witness:
  "\<exists>s. r_fold fd_step [FOf 5, FCopy 0, FClose 1, FDestroy 0, FDestroy 1] fd_store_init = Inr s \<and>
     distinct (map fst (closes s)) \<and> map (fst \<circ> snd) (closes s) = [5]"
proof -
  have "\<exists>s. r_fold fd_step [FOf 5, FCopy 0, FClose 1, FDestroy 0, FDestroy 1] fd_store_init = Inr s \<and>
     map (fst \<circ> snd) (closes s) = [5]"
    by (simp add: fd_store_init_def Fd_of_def new_Detail_def add_handle_def Fd_copy_def detail_of_def
        share_def deref_def i32_add_def i32_def set_detail_def Fd_close_def do_close_def Fd_destroy_def
        set_handle_def Let_def)
  then obtain s where "r_fold fd_step [FOf 5, FCopy 0, FClose 1, FDestroy 0, FDestroy 1] fd_store_init = Inr s"
    "map (fst \<circ> snd) (closes s) = [5]" by (elim exE conjE)
  moreover from fd_closed_at_most_once [OF this(1)] have "distinct (map fst (closes s))" by (rule conjunct1)
  ultimately show ?thesis by (intro exI [of _ s] conjI)
qed

text \<open>C12: In a program without copy assignments, once every \<open>Fd\<close> object is destroyed or null, every
  record has been freed, and the descriptors that were closed, as they were passed to \<open>::close\<close> or to
  the user's function, are exactly the non-negative ones that the program wrapped, each as often as it
  was wrapped.\<close>
theorem fd_closed_exactly_once:
  assumes "r_fold fd_step ops fd_store_init = Inr s" "\<forall>x \<in> set ops. no_copy_assign x"
    "\<forall>h \<in> set (handles s). h = None \<or> h = Some None"
  shows "(\<forall>d \<in> set (details s). d = None) \<and>
    mset (closed_fds s) = mset (filter (\<lambda>f. 0 \<le> f) (concat (map wrapped ops)))"
proof -
  have inv: "fd_inv True s" using fd_exact_ops.run_inv [OF fd_inv_init assms(2,1)] .
  have free: "details s ! a = None \<and> close_count s a = (if 0 \<le> made s ! a then 1 else 0)" if "a < length (made s)" for a
  proof -
    have "refs s a = 0" using assms(3) by (auto simp: refs_def count_list_0_iff)
    then show ?thesis
      using fd_inv_entry [OF inv, of a] inv that by (cases "details s ! a") (auto simp: fd_inv_def)
  qed
  then have "\<forall>d \<in> set (details s). d = None" using inv by (auto simp: fd_inv_def in_set_conv_nth)
  with closed_made [OF inv] free fd_run_made [OF assms(1)] show ?thesis by (simp add: fd_store_init_def)
qed

theorem fd_closed_exactly_once_witness:
  "\<exists>s. r_fold fd_step [FWith 5, FMove 0, FReset 1, FDestroy 0] fd_store_init = Inr s \<and>
     mset (closed_fds s) = {#5#}"
proof -
  have "\<exists>s. r_fold fd_step [FWith 5, FMove 0, FReset 1, FDestroy 0] fd_store_init = Inr s \<and>
     handles s = [None, Some None, None]"
    by (simp add: fd_store_init_def Fd_with_def new_Detail_def add_handle_def Fd_move_def Fd_swap_def
        Fd_null_def detail_of_def deref_def set_detail_def do_close_def Fd_destroy_def Fd_reset_def
        set_handle_def Let_def)
  then obtain s where s: "r_fold fd_step [FWith 5, FMove 0, FReset 1, FDestroy 0] fd_store_init = Inr s"
    "handles s = [None, Some None, None]" by (elim exE conjE)
  have "mset (closed_fds s) = {#5#}"
    using fd_closed_exactly_once [OF s(1)] s(2) by (simp add: no_copy_assign_def)
  with s(1) show ?thesis by (intro exI [of _ s] conjI) simp_all
qed

text \<open>Copy assignment over an object that holds a descriptor leaks it: after both objects are
  destroyed, the descriptor that was replaced has not been closed.\<close>
theorem fd_copy_assign_leaks:
  "\<exists>s. r_fold fd_step [FOf 3, FOf 4, FAssign 0 1, FDestroy 0, FDestroy 1] fd_store_init = Inr s \<and>
     handles s = [None, None] \<and> close_count s 0 = 0 \<and> close_count s 1 = 1"
  by (simp add: fd_store_init_def Fd_of_def new_Detail_def add_handle_def Fd_assign_def detail_of_def
      share_def deref_def i32_add_def i32_def set_detail_def do_close_def Fd_destroy_def
      set_handle_def Let_def close_count_def)

text \<open>\<open>setCloseOnExec\<close> never sets the close-on-exec flag: the only call it makes, when the flag is
  missing, is \<open>F_SETFL\<close>, which sets the status flags, with the descriptor flags as its argument.\<close>
theorem setCloseOnExec_sets_status_flags:
  assumes "Fd_setCloseOnExec flags h s = Inr calls"
  shows "\<forall>c \<in> set calls. \<exists>f. c = F_SETFL f (flags OR FD_CLOEXEC)"
  using assms
  by (auto simp: Fd_setCloseOnExec_def r_bind_eq_Inr Let_def split: option.splits if_splits)

theorem setCloseOnExec_sets_status_flags_witness:
  "Fd_setCloseOnExec 0 0 (Fd_of 5 fd_store_init) = Inr [F_SETFL 5 1] \<and> (\<exists>f. F_SETFL 5 1 = F_SETFL f (0 OR FD_CLOEXEC))"
proof -
  have "Fd_setCloseOnExec 0 0 (Fd_of 5 fd_store_init) = Inr [F_SETFL 5 1]"
    by (simp add: Fd_setCloseOnExec_def fd_store_init_def Fd_of_def new_Detail_def add_handle_def
        detail_of_def deref_def FD_CLOEXEC_def)
  with setCloseOnExec_sets_status_flags [OF this] show ?thesis by simp
qed

end
