(* ===== verification/Module.thy ===== *)
theory Module
  imports Prelude
begin

text \<open>
  The class \<open>Module\<close> of \<open>gwcpp/base/Module.h\<close>: the name and the state of a module, and its virtual
  operations with their default bodies. \<open>start\<close>, \<open>stop\<close>, \<open>close\<close> and \<open>cleanup\<close> are pure; no class of the
  repository derives from it.
\<close>

datatype module_state = MkNone | MkInited | MkRunning

record module_obj =
  mod_name :: string
  mod_current :: module_state

definition Module_new :: "string \<Rightarrow> module_obj" where
  "Module_new name = \<lparr>mod_name = name, mod_current = MkNone\<rparr>"

definition name_of :: "module_obj \<Rightarrow> string" where "name_of m = mod_name m"
definition state_of :: "module_obj \<Rightarrow> module_state" where "state_of m = mod_current m"

text \<open>\<open>init\<close>, \<open>onInit\<close> and \<open>onStart\<close> answer true, the other defaults do nothing.\<close>

datatype module_op = Init | OnFillDefaultConfig | OnInit | OnStart | OnStop | OnCleanup

fun module_default :: "module_op \<Rightarrow> module_obj \<Rightarrow> bool option \<times> module_obj" where
  "module_default Init m = (Some True, m)"
| "module_default OnFillDefaultConfig m = (None, m)"
| "module_default OnInit m = (Some True, m)"
| "module_default OnStart m = (Some True, m)"
| "module_default OnStop m = (None, m)"
| "module_default OnCleanup m = (None, m)"

text \<open>\<open>state_\<close> is private and has no setter: whatever is called, the state reported is \<open>kNone\<close>.\<close>

lemma module_state_constant:
  "state_of (fold (\<lambda>x m. snd (module_default x m)) ops (Module_new name)) = MkNone"
proof -
  have "snd (module_default x m) = m" for x m by (cases x) simp_all
  then have "fold (\<lambda>x m. snd (module_default x m)) ops m = m" for m by (induction ops) simp_all
  then show ?thesis by (simp add: state_of_def Module_new_def)
qed

end
