(* ===== verification/Timer.thy ===== *)
theory Timer
  imports PollerSafe
begin

text \<open>
  The class \<open>Timer\<close> of \<open>gwcpp/event/Timer.h\<close> and \<open>Timer.cpp\<close>: a timer descriptor and the event
  that watches it. The answers of the kernel (\<open>timerfd_create\<close>, \<open>timerfd_settime\<close>,
  \<open>timerfd_gettime\<close>, \<open>read\<close>, the clock) are arguments. \<open>settimes\<close> records the calls of
  \<open>timerfd_settime\<close> that were made. A \<open>nanoseconds\<close> count is an \<open>int64_t\<close>.
\<close>

record itimerspec =
  it_value_sec :: int
  it_value_nsec :: int
  it_interval_sec :: int
  it_interval_nsec :: int

record timer =
  timerFd :: int
  timerSpec :: itimerspec
  timer_event :: nat
  settimes :: "(int \<times> itimerspec) list"
  timer_fired :: nat            \<comment> \<open>history: how often the callback was called\<close>
  timer_cb :: bool              \<comment> \<open>whether \<open>timerCallback_\<close> is set\<close>

definition NANOSECS_PER_SECOND :: int where "NANOSECS_PER_SECOND = 1000000000"
definition MILLS_IN_SECOND :: int where "MILLS_IN_SECOND = 1000"
definition NANOS_IN_MILL :: int where "NANOS_IN_MILL = 1000 * 1000"

text \<open>The constructor does not initialise \<open>timerSpec_\<close>: its value is an argument, as is the
  uninitialised \<open>fd_\<close> of the new event.\<close>

definition Timer_new :: "itimerspec \<Rightarrow> int \<Rightarrow> 'a poller_scheme \<Rightarrow> timer \<times> 'a poller_scheme" where
  "Timer_new uninit u p =
     (\<lparr>timerFd = - 1, timerSpec = uninit, timer_event = length (objs p), settimes = [],
       timer_fired = 0, timer_cb = False\<rparr>, EpollFdEvent_new u p)"

text \<open>\<open>first.count() / NANOSECS_PER_SECOND\<close>: the constant is an \<open>unsigned long\<close>, so the count is
  converted to unsigned first.\<close>

definition ns_sec :: "int \<Rightarrow> int" where
  "ns_sec count = (count mod 2 ^ 64) div NANOSECS_PER_SECOND"

definition ns_nsec :: "int \<Rightarrow> int" where
  "ns_nsec count = (count mod 2 ^ 64) mod NANOSECS_PER_SECOND"

definition Timer_init :: "int \<Rightarrow> int \<Rightarrow> int \<Rightarrow> timer \<Rightarrow> 'a poller_scheme \<Rightarrow> bool \<times> timer \<times> 'a poller_scheme" where
  "Timer_init created first repeat t p =
     (let t1 = t\<lparr>timerFd := created\<rparr>
      in if created < 0 then (False, t1, p)
         else let t2 = t1\<lparr>timerSpec := \<lparr>it_value_sec = ns_sec first, it_value_nsec = ns_nsec first,
                            it_interval_sec = ns_sec repeat, it_interval_nsec = ns_nsec repeat\<rparr>\<rparr>;
                  mode = (if repeat \<noteq> 0 then KPersist else KOneshot);
                  p1 = EpollFdEvent_init (timer_event t) created mode p
              in (True, t2, upd_ev (timer_event t) (\<lambda>ev. ev\<lparr>ev_reader := True\<rparr>) p1))"

definition setTimerCallback :: "timer \<Rightarrow> timer" where
  "setTimerCallback t = t\<lparr>timer_cb := True\<rparr>"

text \<open>\<open>cleanup\<close> with the descriptors it closes.\<close>

definition Timer_cleanup :: "timer \<Rightarrow> int list \<times> timer" where
  "Timer_cleanup t = (if timerFd t \<noteq> - 1 then ([timerFd t], t\<lparr>timerFd := - 1\<rparr>) else ([], t))"

text \<open>\<open>ret\<close> is what \<open>timerfd_settime\<close> returned.\<close>

definition settime :: "timer \<Rightarrow> timer" where
  "settime t = t\<lparr>settimes := settimes t @ [(timerFd t, timerSpec t)]\<rparr>"

definition Timer_start :: "int \<Rightarrow> timer \<Rightarrow> 'a poller_scheme \<Rightarrow> (bool \<times> timer \<times> 'a poller_scheme) result" where
  "Timer_start ret t p =
     r_bind (enableReading (timer_event t) p) (\<lambda>p'. Inr (\<not> ret < 0, settime t, p'))"

definition Timer_stop :: "int \<Rightarrow> timer \<Rightarrow> 'a poller_scheme \<Rightarrow> (bool \<times> timer \<times> 'a poller_scheme) result" where
  "Timer_stop ret t p =
     (if ret < 0 then Inr (False, settime t, p)
      else r_bind (disableReading (timer_event t) p) (\<lambda>p'. Inr (True, settime t, p')))"

definition remainTime :: "int \<Rightarrow> itimerspec \<Rightarrow> int" where
  "remainTime ret ts =
     (if ret = 0 then it_value_sec ts * NANOSECS_PER_SECOND + it_value_nsec ts else 0)"

text \<open>\<open>onTimer\<close>: \<open>len\<close> is what \<open>read\<close> returned.\<close>

definition onTimer :: "int \<Rightarrow> timer \<Rightarrow> timer" where
  "onTimer len t =
     (if len \<le> 0 then t else if timer_cb t then t\<lparr>timer_fired := timer_fired t + 1\<rparr> else t)"

text \<open>\<open>nowSinceEpoch\<close>: the clock counts nanoseconds; \<open>duration_cast\<close> rounds towards zero. Milliseconds since
  the epoch are a \<open>uint64_t\<close>; in what follows \<open>now\<close> is the answer of \<open>nowSinceEpoch\<close>.\<close>

definition nowSinceEpoch :: "int \<Rightarrow> 64 word" where
  "nowSinceEpoch ns = word_of_int (sgn ns * (\<bar>ns\<bar> div 1000000))"

definition fromNow :: "64 word \<Rightarrow> 64 word \<Rightarrow> 64 word" where
  "fromNow now timestamp = (if timestamp \<ge> now then timestamp - now else 0)"

definition fromNowInTimeSpec :: "64 word \<Rightarrow> 64 word \<Rightarrow> int \<times> int" where
  "fromNowInTimeSpec now timestamp =
     (let from_now_mills = fromNow now timestamp
      in (sint (from_now_mills div word_of_int MILLS_IN_SECOND),
          sint ((from_now_mills mod word_of_int MILLS_IN_SECOND) * word_of_int NANOS_IN_MILL)))"

section \<open>Properties\<close>

text \<open>\<open>init\<close> splits a non-negative first expiration and period into seconds and nanoseconds
  without loss, the nanoseconds below one second, and \<open>remainTime\<close> reads a time so split back.\<close>
theorem timer_spec_exact:
  assumes "0 \<le> first" "first < 2 ^ 63" "0 \<le> repeat" "repeat < 2 ^ 63" "0 \<le> created"
  shows "\<exists>t' p'. Timer_init created first repeat t p = (True, t', p') \<and> timerFd t' = created \<and>
     remainTime 0 (timerSpec t') = first \<and>
     it_interval_sec (timerSpec t') * 1000000000 + it_interval_nsec (timerSpec t') = repeat \<and>
     it_value_nsec (timerSpec t') \<in> {0..<1000000000} \<and> it_interval_nsec (timerSpec t') \<in> {0..<1000000000}"
  using assms
  by (simp add: Timer_init_def Let_def remainTime_def ns_sec_def ns_nsec_def NANOSECS_PER_SECOND_def)

theorem timer_spec_exact_witness:
  "\<exists>t' p'. Timer_init 5 1500000000 0 (fst (Timer_new \<lparr>it_value_sec = 9, it_value_nsec = 9,
       it_interval_sec = 9, it_interval_nsec = 9\<rparr> 0 Poller_new)) Poller_new = (True, t', p') \<and>
     remainTime 0 (timerSpec t') = 1500000000"
proof -
  let ?t = "fst (Timer_new \<lparr>it_value_sec = 9, it_value_nsec = 9, it_interval_sec = 9, it_interval_nsec = 9\<rparr> 0 Poller_new)"
  have "(1500000000 :: int) < 2 ^ 63" "(0 :: int) < 2 ^ 63" by simp_all
  with timer_spec_exact [of 1500000000 0 5 ?t Poller_new] show ?thesis by auto
qed

text \<open>\<open>stop\<close> does not disarm the timer: the specification it passes to \<open>timerfd_settime\<close> is the
  same as that of \<open>start\<close>, so a timer with a non-zero first expiration is armed again.\<close>
theorem stop_rearms:
  assumes "Timer_start r1 t p = Inr (True, t1, p1)" "Timer_stop r2 t1 p1 = Inr (True, t2, p2)"
  shows "settimes t2 = settimes t @ [(timerFd t, timerSpec t), (timerFd t, timerSpec t)]"
  using assms by (auto simp: Timer_start_def Timer_stop_def settime_def r_bind_eq_Inr split: if_splits)

theorem stop_rearms_witness:
  "\<exists>t2 :: timer. settimes t2 = [(5, \<lparr>it_value_sec = 1, it_value_nsec = 0, it_interval_sec = 0, it_interval_nsec = 0\<rparr>),
                       (5, \<lparr>it_value_sec = 1, it_value_nsec = 0, it_interval_sec = 0, it_interval_nsec = 0\<rparr>)]"
proof -
  let ?s = "\<lparr>it_value_sec = 1, it_value_nsec = 0, it_interval_sec = 0, it_interval_nsec = 0\<rparr>"
  let ?t = "\<lparr>timerFd = 5, timerSpec = ?s, timer_event = 0, settimes = [], timer_fired = 0, timer_cb = True\<rparr>"
  let ?p = "EpollFdEvent_init 0 5 KOneshot (EpollFdEvent_new 0 Poller_new)"
  have "\<exists>t1 p1. Timer_start 0 ?t ?p = Inr (True, t1, p1) \<and> (\<exists>t2 p2. Timer_stop 0 t1 p1 = Inr (True, t2, p2))"
    by (simp add: Timer_start_def Timer_stop_def settime_def poll_run)
  then obtain t1 p1 t2 p2 where "Timer_start 0 ?t ?p = Inr (True, t1, p1)" "Timer_stop 0 t1 p1 = Inr (True, t2, p2)"
    by (elim exE conjE)
  from stop_rearms [OF this] show ?thesis by (intro exI [of _ t2]) simp
qed

text \<open>The difference to a time stamp is exact for one in the future and 0 for one in the past, and
  its split into seconds and nanoseconds loses nothing.\<close>
theorem fromNowInTimeSpec_exact:
  "case fromNowInTimeSpec now timestamp of (s, ns) \<Rightarrow>
     0 \<le> ns \<and> ns < 1000000000 \<and> ns mod 1000000 = 0 \<and>
     s * 1000 + ns div 1000000 = (if now \<le> timestamp then uint timestamp - uint now else 0)"
proof -
  let ?d = "fromNow now timestamp"
  have d: "uint ?d = (if now \<le> timestamp then uint timestamp - uint now else 0)"
    by (auto simp: fromNow_def uint_minus_simple_iff word_le_def uint_sub_if')
  have s: "sint (?d div 1000) = uint ?d div 1000"
  proof -
    have "uint ?d div 1000 < 2 ^ 63" using uint_lt2p [of ?d] by simp
    then show ?thesis
      by (simp add: sint_uint uint_div_distrib signed_take_bit_int_eq_self_iff)
         (smt (verit) pos_imp_zdiv_nonneg_iff uint_ge_0)
  qed
  have m: "uint (?d mod 1000) = uint ?d mod 1000" by (simp add: uint_mod_distrib)
  have n: "sint (?d mod 1000 * 1000000) = uint ?d mod 1000 * 1000000"
  proof -
    have "uint ?d mod 1000 * 1000000 < 2 ^ 63" "0 \<le> uint ?d mod 1000"
      using pos_mod_bound [of 1000 "uint ?d"] by simp_all
    then show ?thesis
      by (simp add: sint_uint uint_mult_lem [THEN iffD1] m uint_word_ariths signed_take_bit_int_eq_self_iff)
  qed
  have "0 \<le> uint ?d mod 1000" "uint ?d mod 1000 < 1000" by simp_all
  then show ?thesis
    using d s n by (simp add: fromNowInTimeSpec_def Let_def MILLS_IN_SECOND_def NANOS_IN_MILL_def)
qed

end
