(* ===== verification/TimerRun.thy ===== *)
theory TimerRun
  imports Timer Loop
begin

text \<open>
  A timer on its loop: \<open>start\<close> and \<open>stop\<close> run as tasks of the loop, the loop polls the timer's event and
  dispatches it to \<open>onTimer\<close>. The result says how often the callback of the user runs.
\<close>

section \<open>The loop with a timer\<close>

datatype timer_task = TaskStart | TaskStop

record timed = "timer_task loop" +
  tm :: timer

text \<open>The construction of the timer, \<open>init\<close> and \<open>setTimerCallback\<close>, on a running loop.\<close>

definition timer_setup :: "itimerspec \<Rightarrow> int \<Rightarrow> int \<Rightarrow> int \<Rightarrow> int \<Rightarrow> timed \<Rightarrow> timed" where
  "timer_setup uninit u created first repeat l =
     (let (t, l1) = Timer_new uninit u l; (ok, t2, l2) = Timer_init created first repeat t l1
      in l2\<lparr>tm := setTimerCallback t2\<rparr>)"

text \<open>The read callback of the event is bound to \<open>onTimer\<close>; \<open>len\<close> is the answer of \<open>read\<close>.\<close>

definition timer_event_cb :: "int \<Rightarrow> cb \<Rightarrow> nat \<Rightarrow> timed \<Rightarrow> timed result" where
  "timer_event_cb len c e l =
     (if c = CbRead \<and> e = timer_event (tm l) then Inr (l\<lparr>tm := onTimer len (tm l)\<rparr>) else Inr l)"

fun timer_task_run :: "int \<Rightarrow> timer_task \<Rightarrow> timed \<Rightarrow> timed result" where
  "timer_task_run ret TaskStart l = r_map (\<lambda>(ok, t, l'). l'\<lparr>tm := t\<rparr>) (Timer_start ret (tm l) l)"
| "timer_task_run ret TaskStop l = r_map (\<lambda>(ok, t, l'). l'\<lparr>tm := t\<rparr>) (Timer_stop ret (tm l) l)"

text \<open>A turn with what \<open>epoll_wait\<close> reports for the timer and the answers of \<open>read\<close> and
  \<open>timerfd_settime\<close> in it, or a call of \<open>runTask\<close> between two turns.\<close>

datatype timer_op = Turn "32 word option" int int | Post timer_task

fun timer_step :: "timer_op \<Rightarrow> timed \<Rightarrow> timed result" where
  "timer_step (Turn report len ret) l =
     loop_turn (timer_event_cb len) (timer_task_run ret)
       (Some (case report of None \<Rightarrow> [] | Some re \<Rightarrow> [(timer_event (tm l), re)])) l"
| "timer_step (Post t) l = Inr (runTask t False l)"

text \<open>The reports of a run, and those for which the callback is due.\<close>

fun timer_reports :: "timer_op list \<Rightarrow> (32 word \<times> int) list" where
  "timer_reports [] = []"
| "timer_reports (Turn (Some re) len ret # ops) = (re, len) # timer_reports ops"
| "timer_reports (Turn None len ret # ops) = timer_reports ops"
| "timer_reports (Post t # ops) = timer_reports ops"

definition report_fires :: "32 word \<times> int \<Rightarrow> bool" where
  "report_fires r \<longleftrightarrow> fst r AND (EPOLLIN OR EPOLLPRI OR EPOLLRDHUP) \<noteq> 0 \<and> 0 < snd r"

section \<open>The state of the timer\<close>

definition timer_state :: "nat \<Rightarrow> bool \<Rightarrow> bool \<Rightarrow> nat \<Rightarrow> timed \<Rightarrow> bool" where
  "timer_state e oneshot locked m l \<longleftrightarrow> poller_inv l \<and> 0 < buf_size l \<and> e < length (objs l) \<and>
     (ev_index (ev_at e l) \<noteq> kNew \<or> fdEventMaps l (ev_fd (ev_at e l)) = None) \<and>
     ev_oneshot (ev_at e l) = oneshot \<and> ev_locked (ev_at e l) = locked \<and> ev_reader (ev_at e l) \<and>
     \<not> ev_writer (ev_at e l) \<and> \<not> ev_closer (ev_at e l) \<and> \<not> ev_catcher (ev_at e l) \<and>
     timer_event (tm l) = e \<and> timer_cb (tm l) \<and> timer_fired (tm l) = m"

lemma timer_state_simps [simp]:
  "timer_state e os k m (l\<lparr>activeEvents := x\<rparr>) = timer_state e os k m l"
  "timer_state e os k m (l\<lparr>currentActiveEvent := y\<rparr>) = timer_state e os k m l"
  "timer_state e os k m (l\<lparr>taskQueue := q\<rparr>) = timer_state e os k m l"
  "timer_state e os k m (l\<lparr>ran := q\<rparr>) = timer_state e os k m l"
  by (simp_all add: timer_state_def poller_inv_def ev_at_def)

lemma timer_more: 
  fixes l l' :: timed
  assumes "poller.more l' = poller.more l"
  shows "tm l' = tm l" "taskQueue l' = taskQueue l"
  using assms by (cases l; cases l'; simp)+

lemma timer_update:
  assumes s: "timer_state e os k m l"
  shows "\<exists>l'. EpollFdEvent_update e (with_events e f l) = Inr l' \<and> timer_state e os k m l' \<and>
     activeEvents l' = activeEvents l \<and> taskQueue l' = taskQueue l \<and> tm l' = tm l \<and>
     ev_revents (ev_at e l') = ev_revents (ev_at e l)"
proof -
  from s have i: "poller_inv l" "e < length (objs l)"
    "ev_index (ev_at e l) \<noteq> kNew \<or> fdEventMaps l (ev_fd (ev_at e l)) = None" by (simp_all add: timer_state_def)
  from event_update_ok [OF i, of f] obtain l' where l': "EpollFdEvent_update e (with_events e f l) = Inr l'"
    "poller_inv l'" "length (objs l') = length (objs l)" "ev_index (ev_at e l') \<noteq> kNew"
    "poller.more l' = poller.more l" by blast
  from event_update_index(2) [OF i(1,2) l'(1)] event_buf_size(1) [OF l'(1)] event_update_active [OF l'(1)] timer_more [OF l'(5)] s l'
  show ?thesis by (intro exI [of _ l']) (simp add: timer_state_def ev_flags_def)
qed

lemma timer_state_tm:
  "timer_state e os k m l \<Longrightarrow> timer_event t = e \<Longrightarrow> timer_cb t \<Longrightarrow> timer_state e os k (timer_fired t) (l\<lparr>tm := t\<rparr>)"
  by (simp add: timer_state_def poller_inv_def ev_at_def)

lemma timer_task_ok:
  assumes s: "timer_state e os k m l"
  shows "\<exists>l'. timer_task_run ret t l = Inr l' \<and> timer_state e os k m l' \<and> activeEvents l' = activeEvents l \<and>
     taskQueue l' = taskQueue l \<and> ev_revents (ev_at e l') = ev_revents (ev_at e l)"
proof -
  have e: "timer_event (tm l) = e" "timer_cb (tm l)" "timer_fired (tm l) = m" using s by (simp_all add: timer_state_def)
  have set: "timer_state e os k m (l'\<lparr>tm := settime (tm l)\<rparr>)" if "timer_state e os k m l'" for l'
    using timer_state_tm [OF that, of "settime (tm l)"] e by (simp add: settime_def)
  have at: "ev_at e (l'\<lparr>tm := x\<rparr>) = ev_at e l'" for l' :: timed and x by (simp add: ev_at_def)
  show ?thesis
  proof (cases t)
    case TaskStart
    from timer_update [OF s, of "\<lambda>w. w OR kReadEvent"] set show ?thesis
      by (auto simp: TaskStart Timer_start_def e enableReading_def at)
  next
    case TaskStop
    from timer_update [OF s, of "\<lambda>w. w AND NOT kReadEvent"] set [OF s] set show ?thesis
      by (auto simp: TaskStop Timer_stop_def e disableReading_def at)
  qed
qed

lemma timer_handleTask:
  assumes s: "timer_state e os k m l"
  shows "\<exists>l'. handleTaskFun (timer_task_run ret) l = Inr l' \<and> timer_state e os k m l' \<and>
     activeEvents l' = activeEvents l \<and> ev_revents (ev_at e l') = ev_revents (ev_at e l)"
proof (cases "taskQueue l")
  case (Cons t q)
  let ?l = "l\<lparr>ran := ran l @ [t]\<rparr>"
  have at: "ev_at e ?l = ev_at e l" "ev_at e (x\<lparr>taskQueue := y\<rparr>) = ev_at e x" for x :: timed and y
    by (simp_all add: ev_at_def)
  from timer_task_ok [of e os k m ?l ret t] s obtain l' where l': "timer_task_run ret t ?l = Inr l'"
    "timer_state e os k m l'" "activeEvents l' = activeEvents l" "taskQueue l' = t # q"
    "ev_revents (ev_at e l') = ev_revents (ev_at e l)" using Cons at by auto
  then show ?thesis by (simp add: handleTaskFun_def Cons at)
qed (use s in \<open>simp add: handleTaskFun_def\<close>)

section \<open>One report\<close>

lemma timer_lock:
  assumes "timer_state e os k m l"
  shows "timer_state e os True m (upd_ev e (\<lambda>ev. ev\<lparr>ev_locked := True\<rparr>) l)"
proof -
  have "poller_inv (upd_ev e (\<lambda>ev. ev\<lparr>ev_locked := True\<rparr>) l)"
    by (rule poller_inv_upd) (use assms in \<open>simp_all add: timer_state_def\<close>)
  with assms show ?thesis by (simp add: timer_state_def upd_ev_def ev_at_def)
qed

lemma timer_dispatch:
  assumes s: "timer_state e os k m l" and re: "ev_revents (ev_at e l) = re"
  shows "\<exists>l'. handleEvent (timer_event_cb len) e l = Inr l' \<and>
     timer_state e os (k \<or> os) (if \<not> k \<and> report_fires (re, len) then Suc m else m) l'"
proof (cases k)
  case True
  with s show ?thesis by (simp add: handleEvent_def timer_state_def)
next
  case False
  let ?n = "if report_fires (re, len) then Suc m else m"
  let ?l = "if cb_due CbRead (ev_at e l) then l\<lparr>tm := onTimer len (tm l)\<rparr> else l"
  have e: "timer_event (tm l) = e" "timer_cb (tm l)" "timer_fired (tm l) = m" "ev_locked (ev_at e l) = False"
    "\<not> ev_writer (ev_at e l)" "\<not> ev_closer (ev_at e l)" "\<not> ev_catcher (ev_at e l)" "ev_reader (ev_at e l)"
    using s False by (simp_all add: timer_state_def)
  have at: "ev_at e ?l = ev_at e l" by (simp add: ev_at_def)
  have fold: "r_fold (\<lambda>c p. if cb_due c (ev_at e p) then timer_event_cb len c e p else Inr p)
      [CbClose, CbError, CbRead, CbWrite] l = Inr ?l"
    using e at by (simp add: cb_due_def timer_event_cb_def)
  have st: "timer_state e os k ?n ?l"
    using timer_state_tm [OF s, of "onTimer len (tm l)"] s e re
    by (auto simp: report_fires_def cb_due_def onTimer_def not_le split: if_splits)
  show ?thesis
  proof (cases os)
    case os: True
    have "ev_oneshot (ev_at e ?l)" using st os by (simp add: timer_state_def)
    with timer_update [OF timer_lock [OF st], of "\<lambda>w. kNoneEvent"] fold e(4) os False show ?thesis
      by (auto simp: handleEvent_def handleLockEvent_def disableAll_def simp del: r_fold.simps)
  next
    case os: False
    have "\<not> ev_oneshot (ev_at e ?l)" using st os by (simp add: timer_state_def)
    with fold e(4) os False st show ?thesis
      by (simp add: handleEvent_def handleLockEvent_def del: r_fold.simps)
  qed
qed

lemma timer_poll:
  assumes s: "timer_state e os k m l" "activeEvents l = []"
  shows "\<exists>l'. Poller_poll (Some [(e, re)]) l = Inr l' \<and> timer_state e os k m l' \<and> activeEvents l' = [e] \<and>
     ev_revents (ev_at e l') = re"
proof -
  let ?u = "upd_ev e (\<lambda>ev. ev\<lparr>ev_revents := re\<rparr>) l"
  have e: "e < length (objs l)" "0 < buf_size l" using s by (simp_all add: timer_state_def)
  have "poller_inv ?u" by (rule poller_inv_upd) (use s in \<open>simp_all add: timer_state_def\<close>)
  with s(1) have u: "timer_state e os k m ?u" by (simp add: timer_state_def upd_ev_def ev_at_def)
  have at: "ev_revents (ev_at e ?u) = re" "activeEvents ?u = []" "buf_size ?u = buf_size l"
    using e s(2) by (simp_all add: upd_ev_def ev_at_def)
  have size: "timer_state e os k m (x\<lparr>buf_size := buf_size x * 2\<rparr>) = timer_state e os k m x" for x
    by (simp add: timer_state_def poller_inv_def ev_at_def)
  have same: "ev_at e (x\<lparr>activeEvents := y\<rparr>) = ev_at e x" "ev_at e (x\<lparr>buf_size := z\<rparr>) = ev_at e x" for x :: timed and y z
    by (simp_all add: ev_at_def)
  let ?v = "?u\<lparr>activeEvents := [e]\<rparr>"
  have v: "Poller_poll (Some [(e, re)]) l = Inr (if 1 = buf_size ?v then ?v\<lparr>buf_size := buf_size ?v * 2\<rparr> else ?v)"
    using e(2) at by (simp add: Poller_poll_def fillActiveEvents_def Let_def)
  have "timer_state e os k m ?v" using u by simp
  with v size [of ?v] at(1) show ?thesis by (auto simp: same)
qed

lemma timer_turn:
  assumes s: "timer_state e os k m l"
  shows "\<exists>l'. timer_step (Turn report len ret) l = Inr l' \<and>
     timer_state e os (k \<or> report \<noteq> None \<and> os)
       (if \<not> k \<and> (\<exists>re. report = Some re \<and> report_fires (re, len)) then Suc m else m) l'"
proof -
  have e: "timer_event (tm l) = e" using s by (simp add: timer_state_def)
  have s0: "timer_state e os k m (l\<lparr>activeEvents := []\<rparr>)" using s by simp
  show ?thesis
  proof (cases report)
    case None
    from timer_handleTask [OF s0, of ret] show ?thesis
      by (auto simp: None loop_turn_def Poller_poll_def)
  next
    case (Some re)
    from timer_poll [OF s0, of re] obtain l1 where l1: "Poller_poll (Some [(e, re)]) (l\<lparr>activeEvents := []\<rparr>) = Inr l1"
      "timer_state e os k m l1" "activeEvents l1 = [e]" "ev_revents (ev_at e l1) = re" by auto
    from timer_handleTask [OF l1(2), of ret] l1 obtain l2 where l2: "handleTaskFun (timer_task_run ret) l1 = Inr l2"
      "timer_state e os k m l2" "activeEvents l2 = [e]" "ev_revents (ev_at e l2) = re" by auto
    have cur: "timer_state e os k m (l2\<lparr>currentActiveEvent := Some e\<rparr>)"
      "ev_revents (ev_at e (l2\<lparr>currentActiveEvent := Some e\<rparr>)) = re"
      using l2 by (simp_all add: ev_at_def)
    from timer_dispatch [OF cur, of len] l1(1) l2(1,3) show ?thesis
      by (auto simp: Some loop_turn_def e)
  qed
qed

lemma timer_run:
  "timer_state e os k m l \<Longrightarrow>
   \<exists>l'. r_fold timer_step ops l = Inr l' \<and>
     timer_fired (tm l') = m + length (filter report_fires
        (if k then [] else if os then take 1 (timer_reports ops) else timer_reports ops))"
proof (induction ops arbitrary: k m l)
  case Nil
  then show ?case by (simp add: timer_state_def)
next
  case (Cons x ops)
  show ?case
  proof (cases x)
    case (Turn report len ret)
    from timer_turn [OF Cons.prems, of report len ret] obtain l1 where
      l1: "timer_step x l = Inr l1" "timer_state e os (k \<or> report \<noteq> None \<and> os)
       (if \<not> k \<and> (\<exists>re. report = Some re \<and> report_fires (re, len)) then Suc m else m) l1" using Turn by blast
    from Cons.IH [OF l1(2)] l1(1) Turn show ?thesis
      by (cases report) (auto simp: report_fires_def)
  next
    case (Post t)
    with Cons.prems have "timer_state e os k m (runTask t False l)" by (simp add: runTask_def)
    from Cons.IH [OF this] Post show ?thesis by (cases os; cases k) simp_all
  qed
qed

lemma timer_setup_state:
  assumes "poller_inv l" "0 < buf_size l" "fdEventMaps l created = None" "0 \<le> created"
  shows "timer_state (length (objs l)) (repeat = 0) False 0 (timer_setup uninit u created first repeat l)"
proof -
  let ?p = "EpollFdEvent_init (length (objs l)) created (if repeat \<noteq> 0 then KPersist else KOneshot) (EpollFdEvent_new u l)"
  have p: "poller_inv ?p" "length (objs ?p) = Suc (length (objs l))" "fdEventMaps ?p = fdEventMaps l"
    "buf_size ?p = buf_size l"
    using new_inv [OF assms(1)] by (simp_all add: EpollFdEvent_init_def EpollFdEvent_new_def upd_ev_def)
  have at: "ev_at (length (objs l)) ?p = \<lparr>ev_fd = created, ev_added = False, ev_oneshot = (repeat = 0), ev_revents = 0,
        ev_index = - 1, ev_events = 0, ev_locked = False, ev_reader = False, ev_writer = False,
        ev_closer = False, ev_catcher = False\<rparr>"
    by (simp add: EpollFdEvent_init_def EpollFdEvent_new_def upd_ev_def ev_at_def nth_append)
  let ?q = "upd_ev (length (objs l)) (\<lambda>ev. ev\<lparr>ev_reader := True\<rparr>) ?p"
  have "poller_inv ?q" by (rule poller_inv_upd) (use p in simp_all)
  moreover have "ev_at (length (objs l)) ?q = (ev_at (length (objs l)) ?p)\<lparr>ev_reader := True\<rparr>" "buf_size ?q = buf_size l"
    "length (objs ?q) = Suc (length (objs l))" "fdEventMaps ?q = fdEventMaps l"
    using p by (simp_all add: upd_ev_def ev_at_def)
  moreover define t where "t = setTimerCallback (fst (snd (Timer_init created first repeat
      (fst (Timer_new uninit u l)) (snd (Timer_new uninit u l)))))"
  moreover have "timer_setup uninit u created first repeat l = ?q\<lparr>tm := t\<rparr>" "timer_event t = length (objs l)"
    "timer_cb t" "timer_fired t = 0"
    using assms(4) by (simp_all add: t_def timer_setup_def Timer_new_def Timer_init_def setTimerCallback_def Let_def)
  ultimately show ?thesis using assms at by (auto simp: timer_state_def ev_at_def poller_inv_def)
qed

section \<open>Properties\<close>

text \<open>C37: A repeating timer on its loop calls the callback of the user exactly once for every report of its
  descriptor for which the read callback is due and \<open>read\<close> returned data. One that does not repeat calls it
  at most once: for its first report, and only if that one is such a report; no later report counts,
  whatever \<open>start\<close> and \<open>stop\<close> do before or after it. The reports are arbitrary, and a \<open>stop\<close> that runs in
  the turn of a report does not hold back the callback. No assertion fails in any sequence of turns,
  starts and stops.\<close>
theorem timer_fires_per_report:
  assumes "poller_inv l" "0 < buf_size l" "fdEventMaps l created = None" "0 \<le> created"
  shows "\<exists>l'. r_fold timer_step ops (timer_setup uninit u created first repeat l) = Inr l' \<and>
     timer_fired (tm l') = length (filter report_fires
        (if repeat = 0 then take 1 (timer_reports ops) else timer_reports ops))"
  using timer_run [OF timer_setup_state [OF assms, of repeat uninit u first], of ops] by simp

definition sample_timer :: timer where
  "sample_timer = \<lparr>timerFd = - 1, timerSpec = \<lparr>it_value_sec = 9, it_value_nsec = 9, it_interval_sec = 9, it_interval_nsec = 9\<rparr>,
     timer_event = 7, settimes = [], timer_fired = 0, timer_cb = False\<rparr>"

theorem timer_fires_per_report_witness:
  "\<exists>l l'. Loop_new 0 3 = Inr (l :: timer_task loop) \<and>
     r_fold timer_step [Post TaskStart, Turn None 0 0, Turn (Some EPOLLIN) 8 0, Turn (Some EPOLLIN) 8 0]
       (timer_setup (timerSpec sample_timer) 0 5 1000 0 (loop.extend l (timed.fields sample_timer))) = Inr l' \<and> timer_fired (tm l') = 1"
proof -
  obtain l :: "timer_task loop" where l: "Loop_new 0 3 = Inr l" "objs l = []" "fdEventMaps l = (\<lambda>_. None)"
      "ctl_log l = []" "buf_size l = 256"
    by (simp add: Loop_new_def ThreadPool_new_def MAX_THREAD_NUM_def Poller_new_def)
  let ?l = "loop.extend l (timed.fields sample_timer)"
  have "poller_inv ?l" "0 < buf_size ?l" "fdEventMaps ?l 5 = None"
    using l by (simp_all add: loop.defs poller_inv_def interest_def)
  from timer_fires_per_report [OF this, of "[Post TaskStart, Turn None 0 0, Turn (Some EPOLLIN) 8 0, Turn (Some EPOLLIN) 8 0]" "timerSpec sample_timer" 0 1000 0] l(1)
  show ?thesis by (auto simp: report_fires_def EPOLLIN_def EPOLLPRI_def EPOLLRDHUP_def)
qed

end
