(* ===== verification/PollerView.thy ===== *)
theory PollerView
  imports PollerSafe
begin

text \<open>
  Views of a state that extends the poller. The operations on events read and write only the event
  objects, the map and the log of a \<open>poller\<close>; so they commute with every function that leaves these
  alone: the change of a field of an extension, or the projection of a larger state to a smaller one.
  The locale \<open>poller_view\<close> states this once for the operations of \<open>EpollFdEvent\<close>, and
  \<open>poller_projection\<close> adds what \<open>poll\<close> and \<open>handleEvent\<close> need.
\<close>

locale poller_view =
  fixes view :: "'a poller_scheme \<Rightarrow> 'b poller_scheme"
  assumes view_objs [simp]: "objs (view p) = objs p"
    and view_maps [simp]: "fdEventMaps (view p) = fdEventMaps p"
    and view_log [simp]: "ctl_log (view p) = ctl_log p"
    and view_upd_objs: "view (p\<lparr>objs := x\<rparr>) = (view p)\<lparr>objs := x\<rparr>"
    and view_upd_maps: "view (p\<lparr>fdEventMaps := m\<rparr>) = (view p)\<lparr>fdEventMaps := m\<rparr>"
    and view_upd_log: "view (p\<lparr>ctl_log := l\<rparr>) = (view p)\<lparr>ctl_log := l\<rparr>"
begin

lemma view_at [simp]: "ev_at e (view p) = ev_at e p"
  by (simp add: ev_at_def)

lemma view_upd: "upd_ev e f (view p) = view (upd_ev e f p)"
  by (simp add: upd_ev_def view_upd_objs)

lemma view_setIndex: "setIndex_ev e i (view p) = view (setIndex_ev e i p)"
  by (simp add: setIndex_ev_def view_upd)

lemma view_ctl: "Poller_update x e (view p) = view (Poller_update x e p)"
  by (simp add: Poller_update_def view_upd_log)

lemma view_with_events: "with_events e f (view p) = view (with_events e f p)"
  by (simp add: with_events_def view_upd)

lemma view_updateEvent: "Poller_updateEvent e (view p) = r_map view (Poller_updateEvent e p)"
  by (simp add: Poller_updateEvent_def Let_def r_assert_def view_upd_maps [symmetric] view_setIndex view_ctl)

lemma view_removeEvent: "Poller_removeEvent e (view p) = r_map view (Poller_removeEvent e p)"
  by (simp add: Poller_removeEvent_def Let_def r_assert_def view_upd_maps [symmetric] view_setIndex view_ctl)

lemma view_update: "EpollFdEvent_update e (view p) = r_map view (EpollFdEvent_update e p)"
  by (simp add: EpollFdEvent_update_def view_upd view_updateEvent)

lemma view_remove: "EpollFdEvent_remove e (view p) = r_map view (EpollFdEvent_remove e p)"
  by (simp add: EpollFdEvent_remove_def view_upd view_removeEvent r_assert_def)

lemma view_interest:
  "enableReading e (view p) = r_map view (enableReading e p)"
  "enableWriting e (view p) = r_map view (enableWriting e p)"
  "disableReading e (view p) = r_map view (disableReading e p)"
  "disableWriting e (view p) = r_map view (disableWriting e p)"
  "disableAll e (view p) = r_map view (disableAll e p)"
  by (simp_all add: enableReading_def enableWriting_def disableReading_def disableWriting_def disableAll_def
      view_with_events view_update)

lemma view_inv [simp]: "poller_inv (view p) = poller_inv p"
  by (simp add: poller_inv_def)

text \<open>Dispatch, when the callbacks of the two states correspond.\<close>

lemma view_handleEvent:
  assumes "\<And>x e p. r_map view (f x e p) = g x e (view p)"
  shows "r_map view (handleEvent f e p) = handleEvent g e (view p)"
proof -
  have "r_fold (\<lambda>x p. if cb_due x (ev_at e p) then g x e p else Inr p) cs (view p) =
      r_map view (r_fold (\<lambda>x p. if cb_due x (ev_at e p) then f x e p else Inr p) cs p)" for cs p
    by (rule r_map_fold [symmetric]) (simp add: assms)
  then show ?thesis
    by (simp add: handleEvent_def handleLockEvent_def r_map_bind r_bind_map view_interest view_upd del: r_fold.simps cong: if_cong)
qed

end

locale poller_projection = poller_view view
  for view :: "'a poller_scheme \<Rightarrow> 'b poller_scheme" +
  assumes view_size [simp]: "buf_size (view p) = buf_size p"
    and view_active [simp]: "activeEvents (view p) = activeEvents p"
    and view_upd_size: "view (p\<lparr>buf_size := s\<rparr>) = (view p)\<lparr>buf_size := s\<rparr>"
    and view_upd_active: "view (p\<lparr>activeEvents := es\<rparr>) = (view p)\<lparr>activeEvents := es\<rparr>"
begin

lemma view_poll: "r_map view (Poller_poll w p) = Poller_poll w (view p)"
proof -
  have "fold (\<lambda>(e, re) p. let p' = upd_ev e (\<lambda>ev. ev\<lparr>ev_revents := re\<rparr>) p
        in p'\<lparr>activeEvents := activeEvents p' @ [e]\<rparr>) r (view p) =
      view (fold (\<lambda>(e, re) p. let p' = upd_ev e (\<lambda>ev. ev\<lparr>ev_revents := re\<rparr>) p
        in p'\<lparr>activeEvents := activeEvents p' @ [e]\<rparr>) r p)" for r
  proof (induction r arbitrary: p)
    case (Cons x r)
    obtain e re where x: "x = (e, re)" by (cases x)
    let ?p = "upd_ev e (\<lambda>ev. ev\<lparr>ev_revents := re\<rparr>) p"
    from Cons.IH [of "?p\<lparr>activeEvents := activeEvents ?p @ [e]\<rparr>"] x show ?case
      by (simp add: Let_def view_upd view_upd_active [symmetric])
  qed simp
  then show ?thesis
    by (cases w) (simp_all add: Poller_poll_def fillActiveEvents_def r_assert_def view_upd_size)
qed

end

end
