(* ===== verification/Address.thy ===== *)
theory Address
  imports Prelude
begin

text \<open>
  The class \<open>Address\<close> of \<open>gwcpp/net/Address.h\<close> and \<open>Address.cpp\<close>. The \<open>sockaddr_storage\<close> is its
  family, the port in network order, and the 124 bytes behind the port: the address of a
  \<open>sockaddr_in\<close> is bytes 0 to 3 of them, that of a \<open>sockaddr_in6\<close> bytes 4 to 19.
  The conversions between text and address, \<open>inet_pton\<close> and \<open>inet_ntop\<close>, are arguments.
\<close>

datatype protocol = IPv4 | IPv6 | Local

record address =
  protocol_of :: protocol
  sa_family :: "protocol option"     \<comment> \<open>\<open>None\<close> is \<open>AF_UNSPEC\<close>, the zero of \<open>memset\<close>\<close>
  sa_port :: "16 word"
  sa_rest :: bytes

definition zero_storage :: "protocol \<Rightarrow> address" where
  "zero_storage p = \<lparr>protocol_of = p, sa_family = None, sa_port = 0, sa_rest = replicate 124 0\<rparr>"

definition Address_new :: "protocol \<Rightarrow> address" where
  "Address_new p = zero_storage p"

text \<open>\<open>htons\<close> and \<open>ntohs\<close> on a little-endian machine.\<close>

definition swap16 :: "16 word \<Rightarrow> 16 word" where
  "swap16 w = push_bit 8 w OR drop_bit 8 w"

text \<open>\<open>pton p ip\<close> is the address that \<open>inet_pton\<close> stores, \<open>None\<close> when it stores nothing.\<close>

definition put_rest :: "nat \<Rightarrow> bytes option \<Rightarrow> bytes \<Rightarrow> bytes" where
  "put_rest k b rest =
     (case b of None \<Rightarrow> rest | Some bs \<Rightarrow> take k rest @ bs @ drop (k + length bs) rest)"

definition Address_make :: "(protocol \<Rightarrow> string \<Rightarrow> bytes option) \<Rightarrow> string \<Rightarrow> 16 word \<Rightarrow> protocol \<Rightarrow> address" where
  "Address_make pton ip port p =
     (let a = zero_storage p
      in case p of
           IPv4 \<Rightarrow> a\<lparr>sa_family := Some IPv4, sa_rest := put_rest 0 (pton IPv4 ip) (sa_rest a), sa_port := swap16 port\<rparr>
         | IPv6 \<Rightarrow> a\<lparr>sa_family := Some IPv6, sa_rest := put_rest 4 (pton IPv6 ip) (sa_rest a), sa_port := swap16 port\<rparr>
         | Local \<Rightarrow> a\<lparr>sa_family := Some Local\<rparr>)"

text \<open>The copy constructors copy the storage and leave \<open>protocol_\<close> at its default; the assignments
  leave it as it was.\<close>

definition Address_copy :: "address \<Rightarrow> address" where
  "Address_copy other = other\<lparr>protocol_of := IPv4\<rparr>"

definition Address_assign :: "address \<Rightarrow> address \<Rightarrow> address" where
  "Address_assign this other = other\<lparr>protocol_of := protocol_of this\<rparr>"

text \<open>\<open>ip\<close> and \<open>port\<close> of a local address return an uninitialised variable.\<close>

definition Address_ip :: "(protocol \<Rightarrow> bytes \<Rightarrow> string) \<Rightarrow> address \<Rightarrow> string result" where
  "Address_ip ntop a =
     (case protocol_of a of
        IPv4 \<Rightarrow> Inr (ntop IPv4 (take 4 (sa_rest a)))
      | IPv6 \<Rightarrow> Inr (ntop IPv6 (take 16 (drop 4 (sa_rest a))))
      | Local \<Rightarrow> Inl Undefined)"

definition Address_port :: "address \<Rightarrow> 16 word result" where
  "Address_port a = (case protocol_of a of Local \<Rightarrow> Inl Undefined | _ \<Rightarrow> Inr (swap16 (sa_port a)))"

lemma swap16_swap16 [simp]: "swap16 (swap16 w) = w"
  unfolding swap16_def by (rule bit_word_eqI) (auto simp: bit_simps)

text \<open>An address made from a text and a port returns that port, and the text that \<open>inet_ntop\<close>
  makes of the bytes that \<open>inet_pton\<close> made of the text, for both address families.\<close>
theorem address_round_trip:
  assumes "p = IPv4 \<and> n = 4 \<or> p = IPv6 \<and> n = 16" "pton p ip = Some b" "length b = n"
  shows "Address_port (Address_make pton ip port p) = Inr port \<and>
     Address_ip ntop (Address_make pton ip port p) = Inr (ntop p b)"
  using assms
  by (auto simp: Address_make_def Address_port_def Address_ip_def zero_storage_def put_rest_def Let_def)

theorem address_round_trip_witness:
  "Address_port (Address_make (\<lambda>p ip. Some [127, 0, 0, 1]) ''127.0.0.1'' 8080 IPv4) = Inr 8080"
  using address_round_trip [of IPv4 4 "\<lambda>p ip. Some [127, 0, 0, 1]" "''127.0.0.1''" "[127, 0, 0, 1]" 8080] by simp

text \<open>A copy of an IPv6 address is no longer one: its \<open>protocol_\<close> is IPv4, and \<open>ip()\<close> gives the
  text of the IPv4 address 0.0.0.0, whatever the address was.\<close>
theorem address_copy_forgets_ipv6:
  assumes "pton IPv6 ip = Some b"
  shows "Address_ip ntop (Address_copy (Address_make pton ip port IPv6)) = Inr (ntop IPv4 [0, 0, 0, 0])"
  using assms
  by (simp add: Address_make_def Address_copy_def Address_ip_def zero_storage_def put_rest_def Let_def
      numeral_eq_Suc)

theorem address_copy_forgets_ipv6_witness:
  "Address_ip (\<lambda>p b. if b = [0, 0, 0, 0] then ''0.0.0.0'' else ''::1'')
     (Address_copy (Address_make (\<lambda>p ip. Some (replicate 15 0 @ [1])) ''::1'' 80 IPv6)) = Inr ''0.0.0.0''"
  using address_copy_forgets_ipv6 [of "\<lambda>p ip. Some (replicate 15 0 @ [1])" "''::1''" "replicate 15 0 @ [1]"
      "\<lambda>p b. if b = [0, 0, 0, 0] then ''0.0.0.0'' else ''::1''" 80] by simp

end
