(* ===== verification/Socket.thy ===== *)
theory Socket
  imports Address
begin

text \<open>
  The class \<open>Socket\<close> of \<open>gwcpp/net/Socket.h\<close> and \<open>Socket.cpp\<close>. The descriptor that \<open>fd_\<close> wraps
  is -1 when it is null or closed. The answers of the kernel are arguments: \<open>so opt val\<close> is whether
  \<open>setsockopt\<close> succeeds, the others are the values returned. The operations that set options also
  return the list of the options they tried.
\<close>

datatype sock_type = TCP | UDP

datatype sockopt =
    SO_REUSEADDR | TCP_NODELAY | SO_KEEPALIVE | TCP_KEEPIDLE | TCP_KEEPINTVL | TCP_KEEPCNT
  | SO_RCVBUF | SO_SNDBUF

record socket =
  sock_fd :: int
  sock_connected :: bool
  sock_type :: sock_type
  sock_protocol :: protocol
  localAddress :: "address option"
  remoteAddress :: "address option"

definition KEEP_IDLE :: int where "KEEP_IDLE = 60"
definition KEEP_INTEL :: int where "KEEP_INTEL = 10"
definition KEEP_CNT :: int where "KEEP_CNT = 2"

definition Socket_new :: "protocol \<Rightarrow> sock_type \<Rightarrow> socket" where
  "Socket_new protocol type = \<lparr>sock_fd = - 1, sock_connected = False, sock_type = type,
     sock_protocol = protocol, localAddress = None, remoteAddress = None\<rparr>"

definition isInvalid :: "socket \<Rightarrow> bool" where "isInvalid s \<longleftrightarrow> sock_fd s = - 1"
definition isConnected :: "socket \<Rightarrow> bool" where "isConnected s = sock_connected s"
definition getFd :: "socket \<Rightarrow> int" where "getFd s = sock_fd s"

definition Socket_close :: "socket \<Rightarrow> socket" where
  "Socket_close s = (if isInvalid s then s else s\<lparr>sock_connected := False, sock_fd := - 1\<rparr>)"

text \<open>The destructor closes the descriptor, with the descriptor that it closes; \<open>shutDownWrite\<close> only writes a
  log line when \<open>shutdown\<close> fails.\<close>

definition Socket_destroy :: "socket \<Rightarrow> int list" where
  "Socket_destroy s = (if sock_fd s \<ge> 0 then [sock_fd s] else [])"

definition shutDownWrite :: "(int \<Rightarrow> int) \<Rightarrow> socket \<Rightarrow> string list" where
  "shutDownWrite shutdown s = (if shutdown (sock_fd s) < 0 then [''Socket ShutDown Error''] else [])"

section \<open>Options\<close>

text \<open>The calls on a \<open>void\<close> pointer: \<open>getsockopt\<close> and \<open>setsockopt\<close> are functions of the descriptor, the level
  and the option; the first gives its return value and the bytes that it stored.\<close>

definition getSocketOpt :: "(int \<Rightarrow> int \<Rightarrow> int \<Rightarrow> int \<times> bytes) \<Rightarrow> int \<Rightarrow> int \<Rightarrow> socket \<Rightarrow> bool \<times> bytes" where
  "getSocketOpt getsockopt level opt_name s =
     (case getsockopt (sock_fd s) level opt_name of (ret, val) \<Rightarrow> (ret = 0, val))"

definition setSocketOpt_raw :: "(int \<Rightarrow> int \<Rightarrow> int \<Rightarrow> bytes \<Rightarrow> int) \<Rightarrow> int \<Rightarrow> int \<Rightarrow> bytes \<Rightarrow> socket \<Rightarrow> bool" where
  "setSocketOpt_raw setsockopt level opt_name val s \<longleftrightarrow> setsockopt (sock_fd s) level opt_name val = 0"

definition setSocketOpt :: "(sockopt \<Rightarrow> int \<Rightarrow> bool) \<Rightarrow> sockopt \<Rightarrow> int \<Rightarrow> bool" where
  "setSocketOpt so opt val = so opt val"

definition setReuseAddress :: "(sockopt \<Rightarrow> int \<Rightarrow> bool) \<Rightarrow> bool \<Rightarrow> bool" where
  "setReuseAddress so enable = setSocketOpt so SO_REUSEADDR (of_bool enable)"

definition setRecvBufferSize :: "(sockopt \<Rightarrow> int \<Rightarrow> bool) \<Rightarrow> int \<Rightarrow> bool" where
  "setRecvBufferSize so sz = setSocketOpt so SO_RCVBUF sz"

definition setSendBufferSize :: "(sockopt \<Rightarrow> int \<Rightarrow> bool) \<Rightarrow> int \<Rightarrow> bool" where
  "setSendBufferSize so sz = setSocketOpt so SO_SNDBUF sz"

definition setKeepAlive :: "(sockopt \<Rightarrow> int \<Rightarrow> bool) \<Rightarrow> bool \<Rightarrow> bool \<times> sockopt list" where
  "setKeepAlive so enable =
     (if enable then
        if \<not> setSocketOpt so SO_KEEPALIVE 1 then (False, [SO_KEEPALIVE])
        else if \<not> setSocketOpt so TCP_KEEPIDLE KEEP_IDLE then (False, [SO_KEEPALIVE, TCP_KEEPIDLE])
        else if \<not> setSocketOpt so TCP_KEEPINTVL KEEP_INTEL
        then (False, [SO_KEEPALIVE, TCP_KEEPIDLE, TCP_KEEPINTVL])
        else if setSocketOpt so TCP_KEEPCNT KEEP_CNT
        then (False, [SO_KEEPALIVE, TCP_KEEPIDLE, TCP_KEEPINTVL, TCP_KEEPCNT])
        else (True, [SO_KEEPALIVE, TCP_KEEPIDLE, TCP_KEEPINTVL, TCP_KEEPCNT])
      else (setSocketOpt so SO_KEEPALIVE 0, [SO_KEEPALIVE]))"

text \<open>\<open>got\<close> is whether \<open>getsockopt\<close> succeeded, \<open>optval\<close> the pending error that it stored.\<close>

definition getSocketError :: "bool \<Rightarrow> int \<Rightarrow> int \<Rightarrow> int" where
  "getSocketError got err optval = (if got then err else optval)"

section \<open>Creation\<close>

definition set_common :: "(sockopt \<Rightarrow> int \<Rightarrow> bool) \<Rightarrow> socket \<Rightarrow> bool" where
  "set_common so s \<longleftrightarrow> setSocketOpt so SO_REUSEADDR 1 \<and> (sock_type s = TCP \<longrightarrow> setSocketOpt so TCP_NODELAY 1)"

definition newSocket :: "(sockopt \<Rightarrow> int \<Rightarrow> bool) \<Rightarrow> int \<Rightarrow> socket \<Rightarrow> bool \<times> socket" where
  "newSocket so socket_fd s =
     (let s' = s\<lparr>sock_fd := socket_fd\<rparr>
      in if socket_fd \<noteq> - 1 then (set_common so s', s') else (False, s'))"

text \<open>\<open>got\<close> is the address that \<open>getsockname\<close> or \<open>getpeername\<close> returned, \<open>None\<close> for an error.\<close>

definition getLocalAddress :: "address option \<Rightarrow> socket \<Rightarrow> address option \<times> socket" where
  "getLocalAddress got s =
     (case localAddress s of
        Some a \<Rightarrow> (Some a, s)
      | None \<Rightarrow> (case got of None \<Rightarrow> (None, s) | Some a \<Rightarrow> (Some a, s\<lparr>localAddress := Some a\<rparr>)))"

definition getPeerAddress :: "address option \<Rightarrow> socket \<Rightarrow> address option \<times> socket" where
  "getPeerAddress got s =
     (case remoteAddress s of
        Some a \<Rightarrow> (Some a, s)
      | None \<Rightarrow> (case got of None \<Rightarrow> (None, s) | Some a \<Rightarrow> (Some a, s\<lparr>remoteAddress := Some a\<rparr>)))"

definition Socket_init ::
    "(sockopt \<Rightarrow> int \<Rightarrow> bool) \<Rightarrow> address option \<Rightarrow> address option \<Rightarrow> int \<Rightarrow> socket \<Rightarrow> bool \<times> socket" where
  "Socket_init so loc peer sock s =
     (let s1 = s\<lparr>sock_fd := sock\<rparr>;
          s2 = (if \<not> isInvalid s1 then s1\<lparr>sock_connected := True\<rparr> else s1)
      in if \<not> isInvalid s1 \<and> \<not> set_common so s2 then (False, s2)
         else (True, snd (getPeerAddress peer (snd (getLocalAddress loc s2)))))"

definition CreateUdpSocket :: "(sockopt \<Rightarrow> int \<Rightarrow> bool) \<Rightarrow> int \<Rightarrow> socket" where
  "CreateUdpSocket so ret = (snd (newSocket so ret (Socket_new IPv4 UDP)))\<lparr>sock_connected := True\<rparr>"

definition CreateTcpSocket :: "(sockopt \<Rightarrow> int \<Rightarrow> bool) \<Rightarrow> int \<Rightarrow> socket" where
  "CreateTcpSocket so ret = (snd (newSocket so ret (Socket_new IPv4 TCP)))\<lparr>sock_connected := True\<rparr>"

section \<open>Operations\<close>

text \<open>\<open>tcpi_state\<close> is what the structure holds after \<open>getsockopt(TCP_INFO)\<close>.\<close>

definition TCP_ESTABLISHED :: int where "TCP_ESTABLISHED = 1"

definition checkConnected :: "int \<Rightarrow> socket \<Rightarrow> bool \<times> socket" where
  "checkConnected tcpi_state s =
     (let c = (tcpi_state = TCP_ESTABLISHED) in (c, s\<lparr>sock_connected := c\<rparr>))"

definition Socket_connect :: "int \<Rightarrow> address option \<Rightarrow> address option \<Rightarrow> address \<Rightarrow> socket \<Rightarrow> int \<times> socket" where
  "Socket_connect ret peer loc addr s =
     (let s1 = s\<lparr>remoteAddress := Some addr, sock_connected := True\<rparr>
      in (ret, snd (getLocalAddress loc (snd (getPeerAddress peer s1)))))"

definition Socket_bind :: "int \<Rightarrow> address option \<Rightarrow> socket \<Rightarrow> bool \<times> socket" where
  "Socket_bind ret loc s =
     (if ret < 0 then (False, s\<lparr>sock_fd := - 1\<rparr>) else (True, snd (getLocalAddress loc s)))"

definition Socket_listen :: "int \<Rightarrow> socket \<Rightarrow> bool \<times> socket" where
  "Socket_listen ret s = (if ret < 0 then (False, s\<lparr>sock_fd := - 1\<rparr>) else (True, s))"

text \<open>\<open>send\<close>: the bytes handed to \<open>::send\<close>, if it is called, and the value returned.\<close>

definition Socket_send :: "int \<Rightarrow> bytes \<Rightarrow> socket \<Rightarrow> bytes option \<times> int" where
  "Socket_send ret b s = (if isConnected s then (Some b, ret) else (None, - 1))"

definition Socket_accept ::
    "(sockopt \<Rightarrow> int \<Rightarrow> bool) \<Rightarrow> address option \<Rightarrow> address option \<Rightarrow> int \<Rightarrow> socket \<Rightarrow> socket option" where
  "Socket_accept so loc peer ret s =
     (if ret < 0 then None
      else Some ((snd (Socket_init so loc peer ret (Socket_new (sock_protocol s) (sock_type s))))
                   \<lparr>sock_connected := True\<rparr>))"

text \<open>A null address is dereferenced. The comparison of an IPv4 address is of its first four bytes.\<close>

definition isSelfConnect :: "address option \<Rightarrow> address option \<Rightarrow> socket \<Rightarrow> (bool \<times> socket) result" where
  "isSelfConnect loc peer s =
     (let (l, s1) = getLocalAddress loc s; (r, s2) = getPeerAddress peer s1
      in case (l, r) of
           (Some la, Some ra) \<Rightarrow>
             Inr (sa_family la = Some IPv4 \<and> sa_port la = sa_port ra \<and>
                  take 4 (sa_rest la) = take 4 (sa_rest ra), s2)
         | (Some la, None) \<Rightarrow> if sa_family la = Some IPv4 then Inl Undefined else Inr (False, s2)
         | (None, _) \<Rightarrow> Inl Undefined)"

section \<open>Properties\<close>

text \<open>\<open>setKeepAlive(true)\<close> tells success the wrong way round: when the kernel accepts all four
  options it returns false, and it returns true exactly when the first three are accepted and
  \<open>TCP_KEEPCNT\<close> is rejected.\<close>
theorem setKeepAlive_inverted:
  "fst (setKeepAlive so True) \<longleftrightarrow>
     so SO_KEEPALIVE 1 \<and> so TCP_KEEPIDLE 60 \<and> so TCP_KEEPINTVL 10 \<and> \<not> so TCP_KEEPCNT 2"
  by (simp add: setKeepAlive_def setSocketOpt_def KEEP_IDLE_def KEEP_INTEL_def KEEP_CNT_def)

text \<open>A TCP socket that could not be created is reported as connected, so a \<open>send\<close> on it is not
  held back, and the failure of its creation shows only in \<open>isInvalid\<close>.\<close>
theorem failed_socket_looks_connected:
  "isConnected (CreateTcpSocket so (- 1)) \<and> isInvalid (CreateTcpSocket so (- 1)) \<and>
     fst (Socket_send r b (CreateTcpSocket so (- 1))) = Some b"
  by (simp add: CreateTcpSocket_def newSocket_def Let_def isConnected_def isInvalid_def Socket_send_def)

end
