(* ===== verification/StdString.thy ===== *)
theory StdString
  imports Prelude
begin

text \<open>
  The operations of \<open>std::string\<close> (as the C++17 standard describes them) that the code uses, on
  lists of any character type: \<open>8 word\<close> for the byte buffers, \<open>char\<close> for text. Positions are
  \<open>size_t\<close> values, that is \<open>nat\<close>; "not found" is \<open>npos\<close>, and a position past the end throws.
  Memory behind a pointer is the list of the bytes that may be read from it.
\<close>

definition max_size :: nat where "max_size = 2 ^ 63 - 1"

definition str_at :: "'a list \<Rightarrow> nat \<Rightarrow> 'a result" where
  "str_at s n = (if n < length s then Inr (s ! n) else Inl OutOfRange)"

definition str_substr :: "'a list \<Rightarrow> nat \<Rightarrow> nat \<Rightarrow> 'a list result" where
  "str_substr s pos n = (if length s < pos then Inl OutOfRange else Inr (take n (drop pos s)))"

definition str_append :: "'a list \<Rightarrow> 'a list \<Rightarrow> 'a list result" where
  "str_append s t = (if max_size < length s + length t then Inl LengthError else Inr (s @ t))"

definition str_insert :: "'a list \<Rightarrow> nat \<Rightarrow> 'a list \<Rightarrow> 'a list result" where
  "str_insert s pos t =
     (if length s < pos then Inl OutOfRange
      else if max_size < length s + length t then Inl LengthError
      else Inr (take pos s @ t @ drop pos s))"

text \<open>\<open>std::string(p, n)\<close> and \<open>s.append(p, n)\<close>: the length is checked against \<open>max_size\<close> before
  memory is read; reading past the memory behind \<open>p\<close> is undefined. \<open>std::string(n, c)\<close> checks
  the length too.\<close>

definition str_of_mem :: "'a list \<Rightarrow> nat \<Rightarrow> 'a list result" where
  "str_of_mem mem n =
     (if max_size < n then Inl LengthError
      else if length mem < n then Inl Undefined
      else Inr (take n mem))"

definition str_fill :: "nat \<Rightarrow> 'a \<Rightarrow> 'a list result" where
  "str_fill n c = (if max_size < n then Inl LengthError else Inr (replicate n c))"

text \<open>\<open>std::string(p)\<close> for a \<open>const char *p\<close>: everything up to the first NUL; a memory without
  one is read past its end.\<close>

definition str_of_cstr :: "bytes \<Rightarrow> bytes result" where
  "str_of_cstr mem =
     (if 0 \<in> set mem then Inr (takeWhile (\<lambda>c. c \<noteq> 0) mem) else Inl Undefined)"

text \<open>\<open>s.data()\<close>, \<open>s.c_str()\<close>: the characters followed by a NUL.\<close>

definition str_data :: "bytes \<Rightarrow> bytes" where "str_data s = s @ [0]"

section \<open>Searching\<close>

definition find_if_from :: "('a \<Rightarrow> bool) \<Rightarrow> 'a list \<Rightarrow> nat \<Rightarrow> nat" where
  "find_if_from P s pos =
     (let k = length (takeWhile (\<lambda>c. \<not> P c) (drop pos s))
      in if pos + k < length s then pos + k else npos)"

definition find_first_of :: "'a list \<Rightarrow> 'a list \<Rightarrow> nat \<Rightarrow> nat" where
  "find_first_of s cs pos = find_if_from (\<lambda>c. c \<in> set cs) s pos"

definition find_first_not_of :: "'a list \<Rightarrow> 'a list \<Rightarrow> nat \<Rightarrow> nat" where
  "find_first_not_of s cs pos = find_if_from (\<lambda>c. c \<notin> set cs) s pos"

definition find_last_if :: "('a \<Rightarrow> bool) \<Rightarrow> 'a list \<Rightarrow> nat \<Rightarrow> nat" where
  "find_last_if P s pos =
     (let t = take (Suc pos) s; k = length (takeWhile (\<lambda>c. \<not> P c) (rev t))
      in if k < length t then length t - k - 1 else npos)"

definition find_last_not_of :: "'a list \<Rightarrow> 'a list \<Rightarrow> nat \<Rightarrow> nat" where
  "find_last_not_of s cs pos = find_last_if (\<lambda>c. c \<notin> set cs) s pos"

definition str_rfind :: "'a list \<Rightarrow> 'a \<Rightarrow> nat" where
  "str_rfind s c = find_last_if (\<lambda>d. d = c) s npos"

fun find_sub :: "'a list \<Rightarrow> 'a list \<Rightarrow> nat option" where
  "find_sub pat [] = (if pat = [] then Some 0 else None)"
| "find_sub pat (x # xs) =
     (if take (length pat) (x # xs) = pat then Some 0 else map_option Suc (find_sub pat xs))"

definition str_find :: "'a list \<Rightarrow> 'a list \<Rightarrow> nat \<Rightarrow> nat" where
  "str_find s pat pos =
     (if length s < pos then npos
      else case find_sub pat (drop pos s) of None \<Rightarrow> npos | Some k \<Rightarrow> pos + k)"

section \<open>Lemmas\<close>

lemma str_at_ok [simp]: "n < length s \<Longrightarrow> str_at s n = Inr (s ! n)"
  by (simp add: str_at_def)

lemma str_at_out [simp]: "length s \<le> n \<Longrightarrow> str_at s n = Inl OutOfRange"
  by (simp add: str_at_def)

lemma str_substr_ok [simp]: "pos \<le> length s \<Longrightarrow> str_substr s pos n = Inr (take n (drop pos s))"
  by (simp add: str_substr_def)

lemma str_substr_out [simp]: "length s < pos \<Longrightarrow> str_substr s pos n = Inl OutOfRange"
  by (simp add: str_substr_def)

lemma str_append_ok [simp]: "length s + length t \<le> max_size \<Longrightarrow> str_append s t = Inr (s @ t)"
  by (simp add: str_append_def)

lemma str_insert_ok [simp]:
  "pos \<le> length s \<Longrightarrow> length s + length t \<le> max_size \<Longrightarrow>
   str_insert s pos t = Inr (take pos s @ t @ drop pos s)"
  by (simp add: str_insert_def)

lemma str_of_mem_ok [simp]:
  "n \<le> length mem \<Longrightarrow> n \<le> max_size \<Longrightarrow> str_of_mem mem n = Inr (take n mem)"
  by (simp add: str_of_mem_def)

lemma str_of_cstr_data: "str_of_cstr (str_data s) = Inr (takeWhile (\<lambda>c. c \<noteq> 0) s)"
  by (simp add: str_of_cstr_def str_data_def takeWhile_tail)

lemma str_of_cstr_data_nonzero: "0 \<notin> set s \<Longrightarrow> str_of_cstr (str_data s) = Inr s"
  by (auto simp: str_of_cstr_data takeWhile_eq_all_conv)

lemma find_if_from_npos_or:
  "find_if_from P s pos \<noteq> npos \<Longrightarrow>
     pos \<le> find_if_from P s pos \<and> find_if_from P s pos < length s \<and> P (s ! find_if_from P s pos)"
proof -
  let ?k = "length (takeWhile (\<lambda>c. \<not> P c) (drop pos s))"
  assume "find_if_from P s pos \<noteq> npos"
  then have lt: "pos + ?k < length s" and eq: "find_if_from P s pos = pos + ?k"
    by (auto simp: find_if_from_def Let_def split: if_splits)
  from lt have "?k < length (drop pos s)" by simp
  from nth_length_takeWhile [OF this] have "P (s ! (pos + ?k))"
    using lt by (simp add: add.commute)
  with lt eq show ?thesis by simp
qed

lemma find_if_from_before:
  "pos \<le> i \<Longrightarrow> i < length s \<Longrightarrow> i < find_if_from P s pos \<Longrightarrow> \<not> P (s ! i)"
proof -
  let ?k = "length (takeWhile (\<lambda>c. \<not> P c) (drop pos s))"
  assume "pos \<le> i" "i < length s" "i < find_if_from P s pos"
  have "i - pos < ?k"
  proof (cases "pos + ?k < length s")
    case True
    then show ?thesis
      using \<open>i < find_if_from P s pos\<close> \<open>pos \<le> i\<close> by (simp add: find_if_from_def Let_def)
  next
    case False
    then show ?thesis using \<open>i < length s\<close> \<open>pos \<le> i\<close> by simp
  qed
  then have "drop pos s ! (i - pos) \<in> set (takeWhile (\<lambda>c. \<not> P c) (drop pos s))"
    by (metis nth_mem takeWhile_nth)
  then show ?thesis
    using \<open>pos \<le> i\<close> \<open>i < length s\<close> by (auto dest: set_takeWhileD)
qed

lemma find_sub_Some:
  "find_sub pat s = Some k \<Longrightarrow> k + length pat \<le> length s \<and> take (length pat) (drop k s) = pat"
proof (induction s arbitrary: k)
  case Nil
  then show ?case by (auto split: if_splits)
next
  case (Cons x xs)
  show ?case
  proof (cases "take (length pat) (x # xs) = pat")
    case True
    then have "length pat \<le> length (x # xs)" by (metis length_take min.cobounded1)
    with True Cons.prems show ?thesis by (simp del: take_Cons')
  next
    case False
    with Cons.prems obtain j where "find_sub pat xs = Some j" "k = Suc j"
      by (auto simp del: take_Cons')
    with Cons.IH show ?thesis by auto
  qed
qed

lemma find_sub_append: "\<exists>k. find_sub pat (u @ pat @ v) = Some k \<and> k \<le> length u"
proof (induction u)
  case Nil
  show ?case
  proof (cases "pat @ v")
    case (Cons a list)
    then have "take (length pat) (a # list) = pat" by (metis append_eq_conv_conj)
    with Cons show ?thesis by (simp del: take_Cons')
  qed auto
next
  case (Cons x u)
  then show ?case by (auto simp del: take_Cons')
qed

end
