(* ===== verification/ByteBufData.thy ===== *)
theory ByteBufData
  imports StdString
begin

text \<open>
  The class \<open>ByteBufData\<close> of \<open>gwcpp/base/ByteBuf.h\<close>: a string with a reader and a writer index
  and a mark for each, and the member templates that convert between integers and bytes. A
  template at the type \<open>T\<close> is a polymorphic definition at the word of \<open>sizeof(T)\<close> bytes.

  The decoding loops compute in \<open>int\<close>, as the code does: a byte is shifted as an \<open>int\<close> of 32
  bits, which is undefined for a shift of 32 or more, and the sum is undefined when it leaves the
  range of an \<open>int\<close> or of a wider \<open>T\<close>; a narrower \<open>T\<close> wraps.
\<close>

section \<open>State\<close>

record bytebuf =
  originData :: bytes
  readerIndex :: int
  writerIndex :: int
  markedReaderIndex :: int
  markedWriterIndex :: int

definition ByteBufData_new :: bytebuf where
  "ByteBufData_new = \<lparr>originData = [], readerIndex = 0, writerIndex = 0,
     markedReaderIndex = 0, markedWriterIndex = 0\<rparr>"

section \<open>Decoding\<close>

text \<open>\<open>(c & 0xff) << s\<close>: the mask makes the \<open>int\<close> the byte's unsigned value, whether \<open>char\<close> is
  signed or not.\<close>

definition shl_int :: "byte \<Rightarrow> nat \<Rightarrow> int result" where
  "shl_int c s = (if 32 \<le> s then Inl Undefined else Inr (signed_take_bit 31 (uint c * 2 ^ s)))"

text \<open>\<open>value += x\<close> for a \<open>T value\<close> and an \<open>int x\<close>.\<close>

definition acc_add :: "'a::len word \<Rightarrow> int \<Rightarrow> 'a word result" where
  "acc_add v x =
     (let y = sint v + x
      in if 32 \<le> LENGTH('a) \<and> \<not> (- (2 ^ (LENGTH('a) - 1)) \<le> y \<and> y < 2 ^ (LENGTH('a) - 1))
         then Inl Undefined else Inr (word_of_int y))"

definition byte_step :: "bytes \<Rightarrow> int \<Rightarrow> (nat \<Rightarrow> nat) \<Rightarrow> nat \<Rightarrow> 'a::len word \<Rightarrow> 'a word result" where
  "byte_step s index shift delta value =
     r_bind (i32_add (int delta) index) (\<lambda>i.
     r_bind (str_at s (size_of_i32 i)) (\<lambda>c.
     r_bind (shl_int c (shift delta)) (acc_add value)))"

definition loop_be :: "bytes \<Rightarrow> int \<Rightarrow> nat \<Rightarrow> 'a::len word result" where
  "loop_be s index max_bit =
     r_fold (byte_step s index (\<lambda>delta. 8 * (max_bit - delta - 1))) [0..<max_bit] 0"

definition loop_le :: "bytes \<Rightarrow> int \<Rightarrow> nat \<Rightarrow> 'a::len word result" where
  "loop_le s index max_bit = r_fold (byte_step s index (\<lambda>delta. 8 * delta)) [0..<max_bit] 0"

definition getT :: "int \<Rightarrow> nat \<Rightarrow> bytebuf \<Rightarrow> 'a::len word result" where
  "getT index max_bit d =
     (if size_sub (length (originData d)) (size_of_i32 index) < max_bit then Inr 0
      else loop_be (originData d) index max_bit)"

definition getTLE :: "int \<Rightarrow> nat \<Rightarrow> bytebuf \<Rightarrow> 'a::len word result" where
  "getTLE index max_bit d =
     (if size_sub (length (originData d)) (size_of_i32 index) < max_bit then Inr 0
      else loop_le (originData d) index max_bit)"

text \<open>The reading operations change the state, so they return it beside the result.\<close>

definition readT :: "nat \<Rightarrow> bytebuf \<Rightarrow> 'a::len word result \<times> bytebuf" where
  "readT max_bit d =
     (if size_sub (length (originData d)) (size_of_i32 (readerIndex d)) < max_bit then (Inr 0, d)
      else case r_bind (loop_be (originData d) (readerIndex d) max_bit) (\<lambda>v.
                r_bind (i32_add (readerIndex d) (int max_bit)) (\<lambda>r. Inr (v, r))) of
             Inl e \<Rightarrow> (Inl e, d)
           | Inr (v, r) \<Rightarrow> (Inr v, d\<lparr>readerIndex := r\<rparr>))"

definition readTLE :: "nat \<Rightarrow> bytebuf \<Rightarrow> 'a::len word result \<times> bytebuf" where
  "readTLE max_bit d =
     (if size_sub (length (originData d)) (size_of_i32 (readerIndex d)) < max_bit then (Inr 0, d)
      else case r_bind (loop_le (originData d) (readerIndex d) max_bit) (\<lambda>v.
                r_bind (i32_add (readerIndex d) (int max_bit)) (\<lambda>r. Inr (v, r))) of
             Inl e \<Rightarrow> (Inl e, d)
           | Inr (v, r) \<Rightarrow> (Inr v, d\<lparr>readerIndex := r\<rparr>))"

section \<open>Encoding\<close>

text \<open>\<open>shr\<close> is the shift of \<open>T\<close>: \<open>signed_drop_bit\<close> for a signed \<open>T\<close>, \<open>drop_bit\<close> for an
  unsigned one.\<close>

definition toBinary :: "(nat \<Rightarrow> 'a::len word \<Rightarrow> 'a word) \<Rightarrow> 'a word \<Rightarrow> bytes" where
  "toBinary shr value =
     (let max_bit = LENGTH('a) div 8
      in map (\<lambda>index. ucast (shr (8 * (max_bit - index - 1)) value AND 0xff)) [0..<max_bit])"

definition toBinaryLE :: "(nat \<Rightarrow> 'a::len word \<Rightarrow> 'a word) \<Rightarrow> 'a word \<Rightarrow> bytes" where
  "toBinaryLE shr value =
     (let max_bit = LENGTH('a) div 8
      in map (\<lambda>index. ucast (shr (8 * index) value AND 0xff)) [0..<max_bit])"

definition setData :: "int \<Rightarrow> bytes \<Rightarrow> bytebuf \<Rightarrow> bytebuf result" where
  "setData index data d =
     r_bind (if length (originData d) < size_of_i32 index
             then str_append (originData d) data
             else str_insert (originData d) (size_of_i32 index) data)
       (\<lambda>s. Inr (d\<lparr>originData := s\<rparr>))"

definition writeData :: "bytes \<Rightarrow> bytebuf \<Rightarrow> bytebuf result" where
  "writeData data d =
     (if length (originData d) < size_of_i32 (writerIndex d)
      then r_bind (str_append (originData d) data) (\<lambda>s.
           Inr (d\<lparr>originData := s, writerIndex := i32_of_size (length s)\<rparr>))
      else r_bind (str_insert (originData d) (size_of_i32 (writerIndex d)) data) (\<lambda>s.
           r_bind (i32_add (writerIndex d) (i32_of_size (length data))) (\<lambda>w.
           Inr (d\<lparr>originData := s, writerIndex := w\<rparr>))))"

definition setT :: "(nat \<Rightarrow> 'a::len word \<Rightarrow> 'a word) \<Rightarrow> int \<Rightarrow> 'a word \<Rightarrow> bytebuf \<Rightarrow> bytebuf result" where
  "setT shr index value d = setData index (toBinary shr value) d"

definition setTLE :: "(nat \<Rightarrow> 'a::len word \<Rightarrow> 'a word) \<Rightarrow> int \<Rightarrow> 'a word \<Rightarrow> bytebuf \<Rightarrow> bytebuf result" where
  "setTLE shr index value d = setData index (toBinaryLE shr value) d"

definition writeT :: "(nat \<Rightarrow> 'a::len word \<Rightarrow> 'a word) \<Rightarrow> 'a word \<Rightarrow> bytebuf \<Rightarrow> bytebuf result" where
  "writeT shr value d = writeData (toBinary shr value) d"

definition writeTLE :: "(nat \<Rightarrow> 'a::len word \<Rightarrow> 'a word) \<Rightarrow> 'a word \<Rightarrow> bytebuf \<Rightarrow> bytebuf result" where
  "writeTLE shr value d = writeData (toBinaryLE shr value) d"

end
