(* ===== verification/ByteBuf.thy ===== *)
theory ByteBuf
  imports ByteBufData
begin

text \<open>
  The class \<open>ByteBuf\<close> of \<open>gwcpp/base/ByteBuf.cpp\<close>, one definition per member function, over the
  state \<open>bytebuf\<close> of \<open>ByteBufData\<close>. The private pointer \<open>d\<close> always points to a live object (every
  constructor allocates one), so a \<open>ByteBuf\<close> is its \<open>ByteBufData\<close>. A function that returns
  \<open>*this\<close> returns the new state; one that reads and changes returns a pair. \<open>capacity\<close> is not
  modelled: it does not change the contents.

  The modelled platform is x86-64, where \<open>char\<close> is signed.
\<close>

section \<open>Construction and copying\<close>

definition ByteBuf_new :: bytebuf where
  "ByteBuf_new = ByteBufData_new"

text \<open>\<open>ByteBuf(const char *data, int32_t size = -1)\<close>: \<open>mem\<close> is the memory behind \<open>data\<close>.\<close>

definition ByteBuf_mem :: "bytes \<Rightarrow> int \<Rightarrow> bytebuf result" where
  "ByteBuf_mem mem sz =
     r_bind (str_of_mem mem (size_of_i32 sz)) (\<lambda>s.
     r_bind (i32_add 0 sz) (\<lambda>w.
     Inr (ByteBufData_new\<lparr>originData := s, writerIndex := w\<rparr>)))"

definition ByteBuf_mem_default :: "bytes \<Rightarrow> bytebuf result" where
  "ByteBuf_mem_default mem = ByteBuf_mem mem (- 1)"

definition ByteBuf_str :: "bytes \<Rightarrow> bytebuf result" where
  "ByteBuf_str data =
     r_bind (str_append [] data) (\<lambda>s.
     Inr (ByteBufData_new\<lparr>originData := s, writerIndex := i32_of_size (length data)\<rparr>))"

definition ByteBuf_fill :: "int \<Rightarrow> byte \<Rightarrow> bytebuf result" where
  "ByteBuf_fill sz ch =
     r_bind (str_fill (size_of_i32 sz) ch) (\<lambda>s.
     r_bind (i32_add 0 sz) (\<lambda>w.
     Inr (ByteBufData_new\<lparr>originData := s, writerIndex := w\<rparr>)))"

definition ByteBuf_copy_ctor :: "bytebuf \<Rightarrow> bytebuf result" where
  "ByteBuf_copy_ctor other =
     r_bind (str_append [] (originData other)) (\<lambda>s.
     Inr \<lparr>originData = s, readerIndex = readerIndex other, writerIndex = writerIndex other,
          markedReaderIndex = markedReaderIndex other, markedWriterIndex = markedWriterIndex other\<rparr>)"

text \<open>\<open>operator=\<close>: \<open>same\<close> is the test \<open>&other == this\<close>.\<close>

definition ByteBuf_assign :: "bool \<Rightarrow> bytebuf \<Rightarrow> bytebuf \<Rightarrow> bytebuf result" where
  "ByteBuf_assign same this other =
     (if \<not> same then
        r_bind (str_append (originData this) (originData other)) (\<lambda>s.
        Inr \<lparr>originData = s, readerIndex = readerIndex other, writerIndex = writerIndex other,
             markedReaderIndex = markedReaderIndex other,
             markedWriterIndex = markedWriterIndex other\<rparr>)
      else Inr this)"

section \<open>Hexadecimal text\<close>

definition ascii :: "string \<Rightarrow> bytes" where
  "ascii = map of_char"

definition toHexLower :: "32 word \<Rightarrow> byte" where
  "toHexLower value = ascii ''0123456789abcdef'' ! unat (value AND 0xF)"

definition toHexUpper :: "32 word \<Rightarrow> byte" where
  "toHexUpper value = ascii ''0123456789ABCDEF'' ! unat (value AND 0xF)"

datatype hex_case = Lower | Upper

definition hex_digit :: "hex_case \<Rightarrow> 32 word \<Rightarrow> byte" where
  "hex_digit type value = (if type = Lower then toHexLower value else toHexUpper value)"

text \<open>\<open>ch >> 4\<close> and \<open>ch & 0xF\<close> promote the signed \<open>char\<close> to \<open>int\<close>, which becomes a \<open>uint32_t\<close>.\<close>

definition toHexString :: "hex_case \<Rightarrow> bytes \<Rightarrow> bytebuf \<Rightarrow> bytes" where
  "toHexString type fill_str d =
     concat (map (\<lambda>ch. [hex_digit type (signed_drop_bit 4 (scast ch)),
                        hex_digit type (scast ch AND 0xF)] @ fill_str) (originData d))"

definition fromHexDigit :: "32 word \<Rightarrow> int" where
  "fromHexDigit c =
     (if 48 \<le> c \<and> c \<le> 57 then sint (c - 48)
      else if 65 \<le> c \<and> c \<le> 70 then sint (c - 65 + 10)
      else if 97 \<le> c \<and> c \<le> 102 then sint (c - 97 + 10)
      else - 1)"

text \<open>\<open>ch |= (char)hi << 4; ch |= (char)lo\<close> from \<open>ch = 0\<close>: the left shift of a negative \<open>int\<close> is
  undefined in C++17, the language the build selects.\<close>

definition hex_pair :: "int \<Rightarrow> int \<Rightarrow> byte result" where
  "hex_pair hi lo =
     (let h = sint (word_of_int hi :: byte); l = sint (word_of_int lo :: byte)
      in if h < 0 then Inl Undefined
         else Inr ((word_of_int 0 OR word_of_int (h * 2 ^ 4)) OR word_of_int l))"

function fromHex_loop :: "bytes \<Rightarrow> int \<Rightarrow> bytebuf \<Rightarrow> bytebuf result" where
  "fromHex_loop hexEncoded index data =
     (if size_of_i32 index < size_sub (length hexEncoded) 1 then
        r_bind (str_at hexEncoded (size_of_i32 index)) (\<lambda>hi.
        r_bind (i32_add index 1) (\<lambda>index1.
        r_bind (str_at hexEncoded (size_of_i32 index1)) (\<lambda>lo.
        r_bind (hex_pair (fromHexDigit (scast hi)) (fromHexDigit (scast lo))) (\<lambda>ch.
        r_bind (writeT signed_drop_bit ch data) (\<lambda>data'.
        r_bind (i32_add index1 1) (\<lambda>index2.
        fromHex_loop hexEncoded index2 data'))))))
      else Inr data)"
  by pat_completeness auto
termination
  by (relation "measure (\<lambda>(s, i, d). nat (2 ^ 31 - i))")
    (auto simp: i32_add_def i32_def split: if_splits)

declare fromHex_loop.simps [simp del]

text \<open>\<open>fromHex\<close> is \<open>noexcept\<close>: an exception that would leave it calls \<open>std::terminate\<close>.\<close>

definition noexcept :: "'a result \<Rightarrow> 'a result" where
  "noexcept m = (case m of Inl OutOfRange \<Rightarrow> Inl Terminate | Inl LengthError \<Rightarrow> Inl Terminate | r \<Rightarrow> r)"

definition fromHex :: "bytes \<Rightarrow> bytebuf result" where
  "fromHex hexEncoded = noexcept (fromHex_loop hexEncoded 0 ByteBuf_new)"

section \<open>Searching\<close>

function bytesBefore_loop :: "byte \<Rightarrow> int \<Rightarrow> bytebuf \<Rightarrow> int result" where
  "bytesBefore_loop value index d =
     (if index < writerIndex d then
        r_bind (str_at (originData d) (size_of_i32 index)) (\<lambda>c.
        if c = value then i32_sub index (readerIndex d)
        else r_bind (i32_add index 1) (\<lambda>i. bytesBefore_loop value i d))
      else Inr (- 1))"
  by pat_completeness auto
termination
  by (relation "measure (\<lambda>(v, i, d). nat (writerIndex d - i))")
    (auto simp: i32_add_def split: if_splits)

declare bytesBefore_loop.simps [simp del]

definition bytesBefore :: "byte \<Rightarrow> bytebuf \<Rightarrow> int result" where
  "bytesBefore value d = bytesBefore_loop value (readerIndex d) d"

text \<open>The inner loop of the third overload: \<open>last_ok\<close> after the scan of \<open>[second_index, stop)\<close>.\<close>

function run_ok :: "bytes \<Rightarrow> byte \<Rightarrow> int \<Rightarrow> int \<Rightarrow> bool result" where
  "run_ok s value second_index stop =
     (if second_index < stop then
        r_bind (str_at s (size_of_i32 second_index)) (\<lambda>c.
        if c \<noteq> value then Inr False
        else r_bind (i32_add second_index 1) (\<lambda>i. run_ok s value i stop))
      else Inr True)"
  by pat_completeness auto
termination
  by (relation "measure (\<lambda>(s, v, i, stop). nat (stop - i))")
    (auto simp: i32_add_def split: if_splits)

declare run_ok.simps [simp del]

function bytesBefore_run_loop :: "int \<Rightarrow> byte \<Rightarrow> int \<Rightarrow> bytebuf \<Rightarrow> int result" where
  "bytesBefore_run_loop len value index d =
     r_bind (i32_sub (writerIndex d) len) (\<lambda>bound.
     if index < bound then
       r_bind (str_at (originData d) (size_of_i32 index)) (\<lambda>c.
       r_bind (if c = value then i32_add index len else Inr (writerIndex d)) (\<lambda>stop.
       r_bind (if c = value \<and> stop < writerIndex d
               then r_bind (i32_add index 1) (\<lambda>i. run_ok (originData d) value i stop)
               else Inr False) (\<lambda>found.
       if found then i32_sub index (readerIndex d)
       else r_bind (i32_add index 1) (\<lambda>i. bytesBefore_run_loop len value i d))))
     else Inr (- 1))"
  by pat_completeness auto
termination
  by (relation "measure (\<lambda>(l, v, i, d). nat (writerIndex d - l - i))")
    (auto simp: i32_add_def i32_sub_def split: if_splits)

declare bytesBefore_run_loop.simps [simp del]

definition bytesBefore_from :: "int \<Rightarrow> int \<Rightarrow> byte \<Rightarrow> bytebuf \<Rightarrow> int result" where
  "bytesBefore_from index len value d = bytesBefore_run_loop len value index d"

definition bytesBefore_run :: "int \<Rightarrow> byte \<Rightarrow> bytebuf \<Rightarrow> int result" where
  "bytesBefore_run len value d = bytesBefore_from (readerIndex d) len value d"

function indexOf :: "int \<Rightarrow> int \<Rightarrow> byte \<Rightarrow> bytebuf \<Rightarrow> int result" where
  "indexOf fromIndex toIndex value d =
     (if size_of_i32 fromIndex < length (originData d) \<and> fromIndex < toIndex then
        r_bind (str_at (originData d) (size_of_i32 fromIndex)) (\<lambda>c.
        if c = value then Inr fromIndex
        else r_bind (i32_add fromIndex 1) (\<lambda>i. indexOf i toIndex value d))
      else Inr (- 1))"
  by pat_completeness auto
termination
  by (relation "measure (\<lambda>(i, t, v, d). nat (t - i))")
    (auto simp: i32_add_def split: if_splits)

declare indexOf.simps [simp del]

section \<open>Contents and indices\<close>

definition ByteBuf_data :: "bytebuf \<Rightarrow> bytes" where
  "ByteBuf_data d = str_data (originData d)"

definition ByteBuf_clear :: "bytebuf \<Rightarrow> bytebuf" where
  "ByteBuf_clear d = d\<lparr>readerIndex := 0, writerIndex := 0\<rparr>"

text \<open>\<open>std::string::compare\<close>: lexicographic on the bytes as \<open>unsigned char\<close>, then on the lengths;
  only the sign of the result is specified.\<close>

fun bytes_compare :: "bytes \<Rightarrow> bytes \<Rightarrow> int" where
  "bytes_compare [] [] = 0"
| "bytes_compare [] (y # ys) = - 1"
| "bytes_compare (x # xs) [] = 1"
| "bytes_compare (x # xs) (y # ys) =
     (if x < y then - 1 else if y < x then 1 else bytes_compare xs ys)"

definition compareTo :: "bytebuf \<Rightarrow> bytebuf \<Rightarrow> int" where
  "compareTo d buffer = bytes_compare (originData d) (originData buffer)"

definition ByteBuf_copy :: "bytebuf \<Rightarrow> bytebuf result" where
  "ByteBuf_copy d = ByteBuf_str (originData d)"

definition ByteBuf_copy_range :: "int \<Rightarrow> int \<Rightarrow> bytebuf \<Rightarrow> bytebuf result" where
  "ByteBuf_copy_range index len d =
     r_bind (str_substr (originData d) (size_of_i32 index) (size_of_i32 len)) ByteBuf_str"

definition discardReadBytes :: "bytebuf \<Rightarrow> bytebuf result" where
  "discardReadBytes d =
     r_bind (i32_add (readerIndex d) 1) (\<lambda>p.
     r_bind (str_substr (originData d) (size_of_i32 p) npos) (\<lambda>s.
     Inr (d\<lparr>originData := s, readerIndex := 0, writerIndex := 0\<rparr>)))"

text \<open>\<open>setIndex\<close> changes the buffer and returns a copy of it.\<close>

definition setIndex :: "int \<Rightarrow> int \<Rightarrow> bytebuf \<Rightarrow> bytebuf result" where
  "setIndex r w d =
     (if originData d = [] then Inr d
      else let n = length (originData d)
           in r_bind (if n \<le> size_of_i32 r then i32_sub (i32_of_size n) 1 else Inr r) (\<lambda>r'.
              Inr (d\<lparr>readerIndex := r',
                    writerIndex := (if n < size_of_i32 w then i32_of_size n else w)\<rparr>)))"

definition isReadable :: "bytebuf \<Rightarrow> bool result" where
  "isReadable d = r_bind (i32_sub (writerIndex d) (readerIndex d)) (\<lambda>n. Inr (n > 0))"

definition isReadable_size :: "int \<Rightarrow> bytebuf \<Rightarrow> bool result" where
  "isReadable_size sz d = r_bind (i32_sub (writerIndex d) (readerIndex d)) (\<lambda>n. Inr (n \<ge> sz))"

definition markReaderIndex :: "bytebuf \<Rightarrow> bytebuf" where
  "markReaderIndex d = d\<lparr>markedReaderIndex := readerIndex d\<rparr>"

definition markWriterIndex :: "bytebuf \<Rightarrow> bytebuf" where
  "markWriterIndex d = d\<lparr>markedWriterIndex := writerIndex d\<rparr>"

definition set_readerIndex :: "int \<Rightarrow> bytebuf \<Rightarrow> bytebuf" where
  "set_readerIndex reader_index d =
     (if reader_index \<le> writerIndex d then d\<lparr>readerIndex := reader_index\<rparr> else d)"

definition resetReaderIndex :: "bytebuf \<Rightarrow> bytebuf" where
  "resetReaderIndex d = d\<lparr>readerIndex := markedReaderIndex d\<rparr>"

definition set_writerIndex :: "int \<Rightarrow> bytebuf \<Rightarrow> bytebuf" where
  "set_writerIndex writer_index d =
     (if size_of_i32 writer_index < length (originData d) then d\<lparr>writerIndex := writer_index\<rparr> else d)"

definition resetWriterIndex :: "bytebuf \<Rightarrow> bytebuf" where
  "resetWriterIndex d = d\<lparr>writerIndex := markedWriterIndex d\<rparr>"

definition readableBytes :: "bytebuf \<Rightarrow> int result" where
  "readableBytes d = i32_sub (writerIndex d) (readerIndex d)"

section \<open>Reading at an index\<close>

definition getByte :: "int \<Rightarrow> bytebuf \<Rightarrow> byte result" where
  "getByte index d =
     (if length (originData d) \<le> size_of_i32 index then Inr 0
      else str_at (originData d) (size_of_i32 index))"

text \<open>\<open>getBytes(index, dst)\<close> stores a single character through \<open>dst\<close> (none when it returns early)
  and returns a count. The definitions return the two.\<close>

definition getBytes_dst :: "int \<Rightarrow> bytebuf \<Rightarrow> (byte option \<times> int) result" where
  "getBytes_dst index d =
     (if length (originData d) \<le> size_of_i32 index then Inr (None, 0)
      else r_bind (str_substr (originData d) (size_of_i32 index) npos) (\<lambda>res.
           Inr (Some (hd (str_data res)), i32_of_size (length res))))"

definition getBytes_dst_len :: "int \<Rightarrow> int \<Rightarrow> bytebuf \<Rightarrow> (byte option \<times> int) result" where
  "getBytes_dst_len index len d =
     (if length (originData d) \<le> size_of_i32 index then Inr (None, 0)
      else r_bind (str_substr (originData d) (size_of_i32 index) (size_of_i32 len)) (\<lambda>res.
           Inr (Some (hd (str_data res)), i32_of_size (length res))))"

definition getBytes :: "int \<Rightarrow> bytebuf \<Rightarrow> bytebuf result" where
  "getBytes index d =
     (if length (originData d) \<le> size_of_i32 index then Inr ByteBuf_new
      else r_bind (str_substr (originData d) (size_of_i32 index) npos) ByteBuf_str)"

definition getBytes_len :: "int \<Rightarrow> int \<Rightarrow> bytebuf \<Rightarrow> bytebuf result" where
  "getBytes_len index len d =
     (if length (originData d) \<le> size_of_i32 index then Inr ByteBuf_new
      else r_bind (str_substr (originData d) (size_of_i32 index) (size_of_i32 len)) ByteBuf_str)"

definition getChar :: "int \<Rightarrow> bytebuf \<Rightarrow> 8 word result" where
  "getChar index d =
     (if length (originData d) \<le> size_of_i32 index then Inr 0
      else str_at (originData d) (size_of_i32 index))"

definition getUnsignedChar :: "int \<Rightarrow> bytebuf \<Rightarrow> 8 word result" where
  "getUnsignedChar index d = getChar index d"

definition getShort :: "int \<Rightarrow> bytebuf \<Rightarrow> 16 word result" where
  "getShort index d = getT index 2 d"

definition getShortLE :: "int \<Rightarrow> bytebuf \<Rightarrow> 16 word result" where
  "getShortLE index d = getTLE index 2 d"

definition getUnsignedShort :: "int \<Rightarrow> bytebuf \<Rightarrow> 16 word result" where
  "getUnsignedShort index d = getT index 2 d"

definition getUnsignedShortLE :: "int \<Rightarrow> bytebuf \<Rightarrow> 16 word result" where
  "getUnsignedShortLE index d = getTLE index 2 d"

definition getInt :: "int \<Rightarrow> bytebuf \<Rightarrow> 32 word result" where
  "getInt index d = getT index 4 d"

definition getIntLE :: "int \<Rightarrow> bytebuf \<Rightarrow> 32 word result" where
  "getIntLE index d = getTLE index 4 d"

definition getUnsignedInt :: "int \<Rightarrow> bytebuf \<Rightarrow> 32 word result" where
  "getUnsignedInt index d = getT index 4 d"

definition getUnsignedIntLE :: "int \<Rightarrow> bytebuf \<Rightarrow> 32 word result" where
  "getUnsignedIntLE index d = getTLE index 4 d"

definition getLong :: "int \<Rightarrow> bytebuf \<Rightarrow> 64 word result" where
  "getLong index d = getT index 8 d"

definition getLongLE :: "int \<Rightarrow> bytebuf \<Rightarrow> 64 word result" where
  "getLongLE index d = getTLE index 8 d"

definition getUnsignedLong :: "int \<Rightarrow> bytebuf \<Rightarrow> 64 word result" where
  "getUnsignedLong index d = getT index 8 d"

definition getUnsignedLongLE :: "int \<Rightarrow> bytebuf \<Rightarrow> 64 word result" where
  "getUnsignedLongLE index d = getTLE index 8 d"

text \<open>
  The floating-point getters copy bytes into the object \<open>result\<close>, modelled as its object
  representation: \<open>width\<close> bytes, all zero for \<open>0.00\<close>. Their loop condition
  \<open>index < index + width\<close> compares \<open>size_t\<close> values, and the loop stores at the offset
  \<open>index\<close> of \<open>result\<close>, which is undefined outside it. The right operand of the assignment is
  evaluated first (C++17), so a throwing \<open>at\<close> comes before the store. \<open>pos\<close> is the source position
  read for an index. The loop returns the index too: it is \<open>readerIndex\<close> for \<open>readDouble\<close>.
\<close>

function fp_loop :: "bytes \<Rightarrow> nat \<Rightarrow> (int \<Rightarrow> nat) \<Rightarrow> int \<Rightarrow> bytes \<Rightarrow> bytes result \<times> int" where
  "fp_loop s width pos index obj =
     (if size_of_i32 index < size_add (size_of_i32 index) width then
        case str_at s (pos index) of
          Inl e \<Rightarrow> (Inl e, index)
        | Inr c \<Rightarrow>
            (if 0 \<le> index \<and> index < int (length obj)
             then (case i32_add index 1 of
                     Inl e \<Rightarrow> (Inl e, index)
                   | Inr i \<Rightarrow> fp_loop s width pos i (obj[nat index := c]))
             else (Inl Undefined, index))
      else (Inr obj, index))"
  by pat_completeness auto
termination
  by (relation "measure (\<lambda>(s, w, p, i, ob). nat (2 ^ 31 - i))")
    (auto simp: i32_add_def i32_def split: if_splits)

declare fp_loop.simps [simp del]

definition pos_be :: "int \<Rightarrow> nat" where "pos_be index = size_of_i32 index"

text \<open>\<open>originData.at(FLOAT_BIT - index - 1)\<close>, in \<open>size_t\<close>.\<close>

definition pos_le :: "nat \<Rightarrow> int \<Rightarrow> nat" where
  "pos_le width index = size_sub (size_sub width (size_of_i32 index)) 1"

definition getFloat :: "int \<Rightarrow> bytebuf \<Rightarrow> bytes result" where
  "getFloat index d =
     (if size_sub (length (originData d)) (size_of_i32 index) < 4 then Inr (replicate 4 0)
      else fst (fp_loop (originData d) 4 pos_be index (replicate 4 0)))"

definition getFloatLE :: "int \<Rightarrow> bytebuf \<Rightarrow> bytes result" where
  "getFloatLE index d =
     (if size_sub (length (originData d)) (size_of_i32 index) < 4 then Inr (replicate 4 0)
      else fst (fp_loop (originData d) 4 (pos_le 4) index (replicate 4 0)))"

definition getDouble :: "int \<Rightarrow> bytebuf \<Rightarrow> bytes result" where
  "getDouble index d =
     (if size_sub (length (originData d)) (size_of_i32 index) < 8 then Inr (replicate 8 0)
      else fst (fp_loop (originData d) 8 pos_be index (replicate 8 0)))"

definition getDoubleLE :: "int \<Rightarrow> bytebuf \<Rightarrow> bytes result" where
  "getDoubleLE index d =
     (if size_sub (length (originData d)) (size_of_i32 index) < 8 then Inr (replicate 8 0)
      else fst (fp_loop (originData d) 8 (pos_le 8) index (replicate 8 0)))"

section \<open>Reading at the reader index\<close>

text \<open>\<open>at(readerIndex++)\<close> moves the index before \<open>at\<close> may throw.\<close>

definition readChar :: "bytebuf \<Rightarrow> 8 word result \<times> bytebuf" where
  "readChar d =
     (if size_sub (length (originData d)) (size_of_i32 (readerIndex d)) < 1 then (Inr 0, d)
      else case i32_add (readerIndex d) 1 of
             Inl e \<Rightarrow> (Inl e, d)
           | Inr r \<Rightarrow> (str_at (originData d) (size_of_i32 (readerIndex d)), d\<lparr>readerIndex := r\<rparr>))"

definition readUnsignedChar :: "bytebuf \<Rightarrow> 8 word result \<times> bytebuf" where
  "readUnsignedChar d = readChar d"

definition readShort :: "bytebuf \<Rightarrow> 16 word result \<times> bytebuf" where
  "readShort d = readT 2 d"

definition readShortLE :: "bytebuf \<Rightarrow> 16 word result \<times> bytebuf" where
  "readShortLE d = readTLE 2 d"

definition readUnsignedShort :: "bytebuf \<Rightarrow> 16 word result \<times> bytebuf" where
  "readUnsignedShort d = readT 2 d"

definition readUnsignedShortLE :: "bytebuf \<Rightarrow> 16 word result \<times> bytebuf" where
  "readUnsignedShortLE d = readTLE 2 d"

definition readInt :: "bytebuf \<Rightarrow> 32 word result \<times> bytebuf" where
  "readInt d = readT 4 d"

definition readIntLE :: "bytebuf \<Rightarrow> 32 word result \<times> bytebuf" where
  "readIntLE d = readTLE 4 d"

definition readUnsignedInt :: "bytebuf \<Rightarrow> 32 word result \<times> bytebuf" where
  "readUnsignedInt d = readT 4 d"

definition readUnsignedIntLE :: "bytebuf \<Rightarrow> 32 word result \<times> bytebuf" where
  "readUnsignedIntLE d = readTLE 4 d"

definition readLong :: "bytebuf \<Rightarrow> 64 word result \<times> bytebuf" where
  "readLong d = readT 8 d"

definition readLongLE :: "bytebuf \<Rightarrow> 64 word result \<times> bytebuf" where
  "readLongLE d = readTLE 8 d"

definition readUnsignedLong :: "bytebuf \<Rightarrow> 64 word result \<times> bytebuf" where
  "readUnsignedLong d = readT 8 d"

definition readUnsignedLongLE :: "bytebuf \<Rightarrow> 64 word result \<times> bytebuf" where
  "readUnsignedLongLE d = readTLE 8 d"

definition readBytes :: "int \<Rightarrow> bytebuf \<Rightarrow> bytebuf result \<times> bytebuf" where
  "readBytes len d =
     (case r_bind (str_substr (originData d) (size_of_i32 (readerIndex d)) (size_of_i32 len)) (\<lambda>data.
           r_bind (i32_add (readerIndex d) (i32_of_size (length data))) (\<lambda>r. Inr (data, r))) of
        Inl e \<Rightarrow> (Inl e, d)
      | Inr (data, r) \<Rightarrow> (ByteBuf_str data, d\<lparr>readerIndex := r\<rparr>))"

definition readDouble :: "bytebuf \<Rightarrow> bytes result \<times> bytebuf" where
  "readDouble d =
     (if size_sub (length (originData d)) (size_of_i32 (readerIndex d)) < 8
      then (Inr (replicate 8 0), d)
      else let (res, r) = fp_loop (originData d) 8 pos_be (readerIndex d) (replicate 8 0)
           in (res, d\<lparr>readerIndex := r\<rparr>))"

definition readDoubleLE :: "bytebuf \<Rightarrow> bytes result \<times> bytebuf" where
  "readDoubleLE d =
     (if size_sub (length (originData d)) (size_of_i32 (readerIndex d)) < 8
      then (Inr (replicate 8 0), d)
      else let (res, r) = fp_loop (originData d) 8 (pos_le 8) (readerIndex d) (replicate 8 0)
           in (res, d\<lparr>readerIndex := r\<rparr>))"

definition skipBytes :: "int \<Rightarrow> bytebuf \<Rightarrow> bytebuf result" where
  "skipBytes len d =
     r_bind (i32_add (readerIndex d) len) (\<lambda>r.
     Inr (d\<lparr>readerIndex := (if length (originData d) < size_of_i32 r
                           then i32_of_size (length (originData d)) else r)\<rparr>))"

section \<open>Writing at an index\<close>

definition setChar :: "int \<Rightarrow> 8 word \<Rightarrow> bytebuf \<Rightarrow> bytebuf result" where
  "setChar index value d = setT signed_drop_bit index value d"

definition setUnsignedChar :: "int \<Rightarrow> 8 word \<Rightarrow> bytebuf \<Rightarrow> bytebuf result" where
  "setUnsignedChar index value d = setT drop_bit index value d"

definition setShort :: "int \<Rightarrow> 16 word \<Rightarrow> bytebuf \<Rightarrow> bytebuf result" where
  "setShort index value d = setT signed_drop_bit index value d"

definition setShortLE :: "int \<Rightarrow> 16 word \<Rightarrow> bytebuf \<Rightarrow> bytebuf result" where
  "setShortLE index value d = setTLE signed_drop_bit index value d"

definition setUnsignedShort :: "int \<Rightarrow> 16 word \<Rightarrow> bytebuf \<Rightarrow> bytebuf result" where
  "setUnsignedShort index value d = setT drop_bit index value d"

definition setUnsignedShortLE :: "int \<Rightarrow> 16 word \<Rightarrow> bytebuf \<Rightarrow> bytebuf result" where
  "setUnsignedShortLE index value d = setTLE drop_bit index value d"

definition setInt :: "int \<Rightarrow> 32 word \<Rightarrow> bytebuf \<Rightarrow> bytebuf result" where
  "setInt index value d = setT signed_drop_bit index value d"

definition setIntLE :: "int \<Rightarrow> 32 word \<Rightarrow> bytebuf \<Rightarrow> bytebuf result" where
  "setIntLE index value d = setTLE signed_drop_bit index value d"

definition setUnsignedInt :: "int \<Rightarrow> 32 word \<Rightarrow> bytebuf \<Rightarrow> bytebuf result" where
  "setUnsignedInt index value d = setT drop_bit index value d"

definition setUnsignedIntLE :: "int \<Rightarrow> 32 word \<Rightarrow> bytebuf \<Rightarrow> bytebuf result" where
  "setUnsignedIntLE index value d = setTLE drop_bit index value d"

definition setLong :: "int \<Rightarrow> 64 word \<Rightarrow> bytebuf \<Rightarrow> bytebuf result" where
  "setLong index value d = setT signed_drop_bit index value d"

definition setLongLE :: "int \<Rightarrow> 64 word \<Rightarrow> bytebuf \<Rightarrow> bytebuf result" where
  "setLongLE index value d = setTLE signed_drop_bit index value d"

definition setUnsignedLong :: "int \<Rightarrow> 64 word \<Rightarrow> bytebuf \<Rightarrow> bytebuf result" where
  "setUnsignedLong index value d = setT drop_bit index value d"

definition setUnsignedLongLE :: "int \<Rightarrow> 64 word \<Rightarrow> bytebuf \<Rightarrow> bytebuf result" where
  "setUnsignedLongLE index value d = setTLE drop_bit index value d"

text \<open>\<open>setBytes\<close> and \<open>writeBytes\<close> of a buffer pass its \<open>data()\<close>, a \<open>const char *\<close>, to a parameter
  of type \<open>std::string\<close>.\<close>

definition setBytes :: "int \<Rightarrow> bytebuf \<Rightarrow> bytebuf \<Rightarrow> bytebuf result" where
  "setBytes index buf d = r_bind (str_of_cstr (ByteBuf_data buf)) (\<lambda>s. setData index s d)"

definition setBytes_mem :: "int \<Rightarrow> bytes \<Rightarrow> int \<Rightarrow> bytebuf \<Rightarrow> bytebuf result" where
  "setBytes_mem index mem sz d =
     r_bind (str_of_mem mem (size_of_i32 sz)) (\<lambda>s. setData index s d)"

definition setZero :: "int \<Rightarrow> int \<Rightarrow> bytebuf \<Rightarrow> bytebuf result" where
  "setZero index len d = r_bind (str_fill (size_of_i32 len) 0) (\<lambda>s. setData index s d)"

section \<open>Writing at the writer index\<close>

definition writeChar :: "8 word \<Rightarrow> bytebuf \<Rightarrow> bytebuf result" where
  "writeChar value d = writeT signed_drop_bit value d"

definition writeUnsignedChar :: "8 word \<Rightarrow> bytebuf \<Rightarrow> bytebuf result" where
  "writeUnsignedChar value d = writeT drop_bit value d"

definition writeShort :: "16 word \<Rightarrow> bytebuf \<Rightarrow> bytebuf result" where
  "writeShort value d = writeT signed_drop_bit value d"

definition writeShortLE :: "16 word \<Rightarrow> bytebuf \<Rightarrow> bytebuf result" where
  "writeShortLE value d = writeTLE signed_drop_bit value d"

definition writeUnsignedShort :: "16 word \<Rightarrow> bytebuf \<Rightarrow> bytebuf result" where
  "writeUnsignedShort value d = writeT drop_bit value d"

definition writeUnsignedShortLE :: "16 word \<Rightarrow> bytebuf \<Rightarrow> bytebuf result" where
  "writeUnsignedShortLE value d = writeTLE drop_bit value d"

definition writeInt :: "32 word \<Rightarrow> bytebuf \<Rightarrow> bytebuf result" where
  "writeInt value d = writeT signed_drop_bit value d"

definition writeIntLE :: "32 word \<Rightarrow> bytebuf \<Rightarrow> bytebuf result" where
  "writeIntLE value d = writeTLE signed_drop_bit value d"

definition writeUnsignedInt :: "32 word \<Rightarrow> bytebuf \<Rightarrow> bytebuf result" where
  "writeUnsignedInt value d = writeT drop_bit value d"

definition writeUnsignedIntLE :: "32 word \<Rightarrow> bytebuf \<Rightarrow> bytebuf result" where
  "writeUnsignedIntLE value d = writeTLE drop_bit value d"

definition writeLong :: "64 word \<Rightarrow> bytebuf \<Rightarrow> bytebuf result" where
  "writeLong value d = writeT signed_drop_bit value d"

definition writeLongLE :: "64 word \<Rightarrow> bytebuf \<Rightarrow> bytebuf result" where
  "writeLongLE value d = writeTLE signed_drop_bit value d"

definition writeUnsignedLong :: "64 word \<Rightarrow> bytebuf \<Rightarrow> bytebuf result" where
  "writeUnsignedLong value d = writeT drop_bit value d"

definition writeUnsignedLongLE :: "64 word \<Rightarrow> bytebuf \<Rightarrow> bytebuf result" where
  "writeUnsignedLongLE value d = writeTLE drop_bit value d"

definition writeBytes :: "bytebuf \<Rightarrow> bytebuf \<Rightarrow> bytebuf result" where
  "writeBytes buf d = r_bind (str_of_cstr (ByteBuf_data buf)) (\<lambda>s. writeData s d)"

definition writeBytes_mem :: "bytes \<Rightarrow> int \<Rightarrow> bytebuf \<Rightarrow> bytebuf result" where
  "writeBytes_mem mem sz d = r_bind (str_of_mem mem (size_of_i32 sz)) (\<lambda>s. writeData s d)"

definition writeZero :: "int \<Rightarrow> bytebuf \<Rightarrow> bytebuf result" where
  "writeZero len d = r_bind (str_fill (size_of_i32 len) 0) (\<lambda>s. writeData s d)"

text \<open>\<open>getBytes(index, dstIndex, length)\<close> writes behind \<open>dstIndex\<close> zero bytes of a new buffer.\<close>

definition getBytes_at :: "int \<Rightarrow> int \<Rightarrow> int \<Rightarrow> bytebuf \<Rightarrow> bytebuf result" where
  "getBytes_at index dstIndex len d =
     (if length (originData d) \<le> size_of_i32 index then Inr ByteBuf_new
      else r_bind (ByteBuf_fill dstIndex 0) (\<lambda>data.
           r_bind (str_substr (originData d) (size_of_i32 index) (size_of_i32 len)) (\<lambda>res.
           writeBytes_mem (str_data res) (i32_of_size (length res)) data)))"

end
