(* ===== verification/ByteCodec.thy ===== *)
theory ByteCodec
  imports ByteBufData Contracts
begin

text \<open>
  The reference meaning of the integer encodings of \<open>ByteBufData\<close>: \<open>le_val\<close> reads a byte list as
  a little-endian number, \<open>be_val\<close> as a big-endian one, \<open>le_bytes n k\<close> writes the number \<open>k\<close> as
  \<open>n\<close> bytes. The loops of \<open>toBinary\<close>, \<open>getT\<close> and \<open>readT\<close> are shown equal to these.

  The four encodings that decode without undefined behaviour (16 and 32 bits, both byte orders)
  are interpretations of \<open>fixed_codec\<close>; the 64-bit decoding always shifts too far.
\<close>

section \<open>Reference encoding\<close>

fun le_val :: "bytes \<Rightarrow> nat" where
  "le_val [] = 0"
| "le_val (b # bs) = unat b + 256 * le_val bs"

definition be_val :: "bytes \<Rightarrow> nat" where
  "be_val bs = le_val (rev bs)"

fun le_bytes :: "nat \<Rightarrow> nat \<Rightarrow> bytes" where
  "le_bytes 0 k = []"
| "le_bytes (Suc n) k = word_of_nat k # le_bytes n (k div 256)"

lemma length_le_bytes [simp]: "length (le_bytes n k) = n"
  by (induction n arbitrary: k) auto

lemma le_val_le_bytes: "le_val (le_bytes n k) = k mod 256 ^ n"
proof (induction n arbitrary: k)
  case (Suc n)
  have "k mod 256 ^ Suc n = k mod 256 + 256 * (k div 256 mod 256 ^ n)"
    by (simp add: mod_mult2_eq)
  with Suc show ?case by (simp add: unsigned_of_nat take_bit_eq_mod)
qed simp

lemma le_bytes_nth: "i < n \<Longrightarrow> le_bytes n k ! i = word_of_nat (k div 256 ^ i)"
proof (induction n arbitrary: k i)
  case (Suc n)
  show ?case
  proof (cases i)
    case (Suc j)
    with Suc.IH Suc.prems show ?thesis by (simp add: div_mult2_eq)
  qed simp
qed simp

lemma le_val_append: "le_val (xs @ ys) = le_val xs + 256 ^ length xs * le_val ys"
  by (induction xs) (auto simp: algebra_simps)

lemma le_val_bound: "le_val bs < 256 ^ length bs"
proof (induction bs)
  case (Cons b bs)
  have "unat b < 256" using unsigned_less [of b, where ?'a = nat] by simp
  with Cons show ?case by simp
qed simp

section \<open>Encoders\<close>

lemma ff_mask: "(0xff :: 'a::len word) = mask 8"
  by (simp add: mask_eq_exp_minus_1)

lemma byte_of_drop_bit:
  fixes v :: "'a::len word"
  shows "(ucast (drop_bit k v AND 0xff) :: byte) = word_of_nat (unat v div 2 ^ k)"
proof -
  have "(ucast (drop_bit k v AND 0xff) :: byte) = ucast (drop_bit k v)"
    unfolding ff_mask
    by (rule bit_word_eqI) (auto simp: bit_simps dest: bit_imp_le_length)
  also have "\<dots> = word_of_nat (unat (drop_bit k v))"
    by (rule of_nat_unat [symmetric])
  also have "unat (drop_bit k v) = unat v div 2 ^ k"
    by (simp only: unat_drop_bit_eq) (rule drop_bit_eq_div)
  finally show ?thesis .
qed

text \<open>An arithmetic shift and a logical one agree on the byte that is kept.\<close>

lemma byte_of_signed_drop_bit:
  fixes v :: "'a::len word"
  assumes "k + 8 \<le> LENGTH('a)"
  shows "(ucast (signed_drop_bit k v AND 0xff) :: byte) = ucast (drop_bit k v AND 0xff)"
  unfolding ff_mask
  by (rule bit_word_eqI) (use assms in \<open>auto simp: bit_simps not_le dest: bit_imp_le_length\<close>)

definition shift_ok :: "(nat \<Rightarrow> 'a::len word \<Rightarrow> 'a word) \<Rightarrow> bool" where
  "shift_ok shr \<longleftrightarrow> shr = drop_bit \<or> shr = signed_drop_bit"

lemma shift_ok [simp]: "shift_ok drop_bit" "shift_ok signed_drop_bit"
  by (simp_all add: shift_ok_def)

lemma shift_byte:
  fixes v :: "'a::len word"
  assumes "shift_ok shr" "k + 8 \<le> LENGTH('a)"
  shows "(ucast (shr k v AND 0xff) :: byte) = word_of_nat (unat v div 2 ^ k)"
  using assms by (auto simp: shift_ok_def byte_of_signed_drop_bit byte_of_drop_bit)

lemma toBinaryLE_spec:
  fixes v :: "'a::len word"
  assumes "shift_ok shr"
  shows "toBinaryLE shr v = le_bytes (LENGTH('a) div 8) (unat v)"
proof (rule nth_equalityI)
  fix i assume "i < length (toBinaryLE shr v)"
  then have i: "i < LENGTH('a) div 8" by (simp add: toBinaryLE_def Let_def)
  then have "8 * i + 8 \<le> LENGTH('a)" by linarith
  with i show "toBinaryLE shr v ! i = le_bytes (LENGTH('a) div 8) (unat v) ! i"
    using assms by (simp add: toBinaryLE_def Let_def shift_byte le_bytes_nth power_mult)
qed (simp add: toBinaryLE_def Let_def)

lemma toBinary_spec:
  fixes v :: "'a::len word"
  assumes "shift_ok shr"
  shows "toBinary shr v = rev (le_bytes (LENGTH('a) div 8) (unat v))"
proof (rule nth_equalityI)
  fix i assume "i < length (toBinary shr v)"
  then have i: "i < LENGTH('a) div 8" by (simp add: toBinary_def Let_def)
  then have "8 * (LENGTH('a) div 8 - i - 1) + 8 \<le> LENGTH('a)" by linarith
  with i show "toBinary shr v ! i = rev (le_bytes (LENGTH('a) div 8) (unat v)) ! i"
    using assms by (simp add: toBinary_def Let_def shift_byte le_bytes_nth power_mult rev_nth)
qed (simp add: toBinary_def Let_def)

section \<open>Decoders\<close>

lemma byte_bounds: "0 \<le> uint (c :: byte)" "uint (c :: byte) < 256"
  using unsigned_less [of c, where ?'a = int] by simp_all

lemma neg_le_byte: "k \<le> 0 \<Longrightarrow> k \<le> uint (c :: byte)" "k \<le> 0 \<Longrightarrow> k \<le> uint (c :: byte) * 2 ^ s"
  by (rule order_trans, assumption, simp)+

lemma shl_int_small:
  assumes "s \<le> 16"
  shows "shl_int c s = Inr (uint c * 2 ^ s)"
proof -
  have "(2::int) ^ s \<le> 2 ^ 16" using assms by (intro power_increasing) auto
  then have "uint c * 2 ^ s \<le> 255 * 2 ^ 16"
    by (intro mult_mono) (use byte_bounds [of c] in auto)
  then show ?thesis
    using assms by (simp add: shl_int_def signed_take_bit_int_eq_self_iff neg_le_byte)
qed

lemma shl_int_24:
  "shl_int c 24 = Inr ((if uint c < 128 then uint c else uint c - 256) * 2 ^ 24)"
proof (cases "uint c < 128")
  case True
  then show ?thesis
    by (simp add: shl_int_def signed_take_bit_int_eq_self_iff neg_le_byte)
next
  case False
  have eq: "(uint c - 256) * 2 ^ 24 = uint c * 2 ^ 24 - 2 ^ 32" by simp
  have "signed_take_bit 31 (uint c * 2 ^ 24) = signed_take_bit 31 ((uint c - 256) * 2 ^ 24)"
    unfolding eq signed_take_bit_eq_iff_take_bit_eq take_bit_eq_mod
    by (simp only: Suc_numeral add_num_simps) (rule minus_mod_self2 [symmetric])
  also have "\<dots> = (uint c - 256) * 2 ^ 24"
    using False byte_bounds [of c] by (simp add: signed_take_bit_int_eq_self_iff)
  finally show ?thesis using False by (simp add: shl_int_def)
qed

lemma shl_int_wide: "32 \<le> s \<Longrightarrow> shl_int c s = Inl Undefined"
  by (simp add: shl_int_def)

text \<open>A 16-bit accumulator wraps; a 32-bit one must stay in range.\<close>

lemma acc_add_16: "acc_add (v :: 16 word) x = Inr (v + word_of_int x)"
  by (simp add: acc_add_def Let_def of_int_sint)

lemma acc_add_32:
  assumes "- 2147483648 \<le> k" "k < 2147483648" "- 2147483648 \<le> k + x" "k + x < 2147483648"
  shows "acc_add (word_of_int k :: 32 word) x = Inr (word_of_int (k + x))"
proof -
  have "sint (word_of_int k :: 32 word) = k"
    using assms(1,2) by (simp add: sint_sbintrunc' signed_take_bit_int_eq_self_iff)
  then show ?thesis using assms by (simp add: acc_add_def Let_def)
qed

text \<open>One iteration on an index in range.\<close>

lemma byte_step_eq:
  assumes "0 \<le> index" "nat index + delta < length s" "length s < 2147483648"
  shows "byte_step s index shift delta value =
         r_bind (shl_int (s ! (nat index + delta)) (shift delta)) (acc_add value)"
proof -
  have "i32 (int delta + index)" using assms by (auto simp: i32_def)
  moreover have "size_of_i32 (int delta + index) = nat index + delta"
    using assms by (simp add: size_of_i32_nonneg nat_add_distrib)
  ultimately show ?thesis
    using assms by (simp add: byte_step_def i32_add_ok)
qed

lemma drop_nth_4:
  assumes "i + 4 \<le> length s"
  shows "take 4 (drop i s) = [s ! i, s ! (i + 1), s ! (i + 2), s ! (i + 3)]"
  by (rule nth_equalityI) (use assms in \<open>auto simp: less_Suc_eq numeral_eq_Suc\<close>)

lemma drop_nth_2: "i + 2 \<le> length s \<Longrightarrow> take 2 (drop i s) = [s ! i, s ! (i + 1)]"
  by (rule nth_equalityI) (auto simp: less_Suc_eq numeral_eq_Suc)

lemma upt_4: "[0..<4] = [0, 1, 2, 3 :: nat]" and upt_2: "[0..<2] = [0, 1 :: nat]"
  and upt_8: "[0..<8] = [0, 1, 2, 3, 4, 5, 6, 7 :: nat]"
  by (simp_all add: upt_rec)

lemma loop_be_16:
  assumes "0 \<le> index" "nat index + 2 \<le> length s" "length s < 2147483648"
  shows "loop_be s index 2 = Inr (word_of_nat (be_val (take 2 (drop (nat index) s))) :: 16 word)"
  using assms unfolding loop_be_def upt_2
  by (simp add: byte_step_eq shl_int_small acc_add_16 drop_nth_2 be_val_def algebra_simps)

lemma loop_le_16:
  assumes "0 \<le> index" "nat index + 2 \<le> length s" "length s < 2147483648"
  shows "loop_le s index 2 = Inr (word_of_nat (le_val (take 2 (drop (nat index) s))) :: 16 word)"
  using assms unfolding loop_le_def upt_2
  by (simp add: byte_step_eq shl_int_small acc_add_16 drop_nth_2 algebra_simps)

text \<open>The 32-bit loops: no partial sum leaves the range of an \<open>int\<close>.\<close>

definition top_byte :: "byte \<Rightarrow> int" where
  "top_byte c = (if uint c < 128 then uint c else uint c - 256)"

lemma top_byte_bounds: "- 128 \<le> top_byte c" "top_byte c < 128"
  using byte_bounds [of c] by (auto simp: top_byte_def neg_le_byte)

lemma sum_be_32:
  fixes a b c d :: byte
  shows "r_bind (acc_add 0 (top_byte a * 16777216)) (\<lambda>v. r_bind (acc_add v (uint b * 65536)) (\<lambda>v.
   r_bind (acc_add v (uint c * 256)) (\<lambda>v. acc_add v (uint d)))) =
   Inr (word_of_int (top_byte a * 16777216 + uint b * 65536 + uint c * 256 + uint d) :: 32 word)"
proof -
  note bnds = top_byte_bounds [of a] byte_bounds [of b] byte_bounds [of c] byte_bounds [of d]
  have "acc_add (word_of_int 0 :: 32 word) (top_byte a * 16777216) =
      Inr (word_of_int (0 + top_byte a * 16777216))"
    by (rule acc_add_32) (use bnds in linarith)+
  moreover have "acc_add (word_of_int (top_byte a * 16777216) :: 32 word) (uint b * 65536) =
      Inr (word_of_int (top_byte a * 16777216 + uint b * 65536))"
    by (rule acc_add_32) (use bnds in linarith)+
  moreover have "acc_add (word_of_int (top_byte a * 16777216 + uint b * 65536) :: 32 word)
      (uint c * 256) = Inr (word_of_int (top_byte a * 16777216 + uint b * 65536 + uint c * 256))"
    by (rule acc_add_32) (use bnds in linarith)+
  moreover have "acc_add (word_of_int (top_byte a * 16777216 + uint b * 65536 + uint c * 256) :: 32 word)
      (uint d) = Inr (word_of_int (top_byte a * 16777216 + uint b * 65536 + uint c * 256 + uint d))"
    by (rule acc_add_32) (use bnds in linarith)+
  ultimately show ?thesis by (simp only: word_of_int_0 [symmetric] r_bind_simps add_0_left)
qed

lemma sum_le_32:
  fixes a b c d :: byte
  shows "r_bind (acc_add 0 (uint a)) (\<lambda>v. r_bind (acc_add v (uint b * 256)) (\<lambda>v.
   r_bind (acc_add v (uint c * 65536)) (\<lambda>v. acc_add v (top_byte d * 16777216)))) =
   Inr (word_of_int (uint a + uint b * 256 + uint c * 65536 + top_byte d * 16777216) :: 32 word)"
proof -
  note bnds = top_byte_bounds [of d] byte_bounds [of b] byte_bounds [of c] byte_bounds [of a]
  have "acc_add (word_of_int 0 :: 32 word) (uint a) = Inr (word_of_int (0 + uint a))"
    by (rule acc_add_32) (use bnds in linarith)+
  moreover have "acc_add (word_of_int (uint a) :: 32 word) (uint b * 256) =
      Inr (word_of_int (uint a + uint b * 256))"
    by (rule acc_add_32) (use bnds in linarith)+
  moreover have "acc_add (word_of_int (uint a + uint b * 256) :: 32 word) (uint c * 65536) =
      Inr (word_of_int (uint a + uint b * 256 + uint c * 65536))"
    by (rule acc_add_32) (use bnds in linarith)+
  moreover have "acc_add (word_of_int (uint a + uint b * 256 + uint c * 65536) :: 32 word)
      (top_byte d * 16777216) =
      Inr (word_of_int (uint a + uint b * 256 + uint c * 65536 + top_byte d * 16777216))"
    by (rule acc_add_32) (use bnds in linarith)+
  ultimately show ?thesis by (simp only: word_of_int_0 [symmetric] r_bind_simps add_0_left)
qed

lemma top_byte_word: "(word_of_int (top_byte c * 16777216) :: 32 word) = word_of_int (uint c * 16777216)"
proof (cases "uint c < 128")
  case False
  have "(word_of_int (uint c * 16777216 - 4294967296) :: 32 word) = word_of_int (uint c * 16777216)"
    unfolding wi_hom_sub [symmetric] by simp
  moreover have "top_byte c * 16777216 = uint c * 16777216 - 4294967296"
    using False by (simp add: top_byte_def)
  ultimately show ?thesis by simp
qed (simp add: top_byte_def)

lemma shl_int_top: "shl_int c 24 = Inr (top_byte c * 2 ^ 24)"
  by (simp only: shl_int_24 top_byte_def)

lemma loop_be_32:
  assumes "0 \<le> index" "nat index + 4 \<le> length s" "length s < 2 ^ 31"
  shows "loop_be s index 4 = Inr (word_of_nat (be_val (take 4 (drop (nat index) s))) :: 32 word)"
proof -
  let ?c = "\<lambda>k. s ! (nat index + k)"
  have "loop_be s index 4 =
      (Inr (word_of_int (top_byte (?c 0) * 16777216 + uint (?c 1) * 65536 + uint (?c 2) * 256
         + uint (?c 3))) :: 32 word result)"
    unfolding loop_be_def upt_4 sum_be_32 [symmetric]
    using assms by (simp add: byte_step_eq shl_int_small shl_int_top r_fold_fun r_bind_Inr)
  also have "(word_of_int (top_byte (?c 0) * 16777216 + uint (?c 1) * 65536 + uint (?c 2) * 256
         + uint (?c 3)) :: 32 word) = word_of_nat (be_val (take 4 (drop (nat index) s)))"
    unfolding wi_hom_add [symmetric] top_byte_word
    using assms by (simp add: drop_nth_4 be_val_def algebra_simps)
  finally show ?thesis .
qed

lemma loop_le_32:
  assumes "0 \<le> index" "nat index + 4 \<le> length s" "length s < 2 ^ 31"
  shows "loop_le s index 4 = Inr (word_of_nat (le_val (take 4 (drop (nat index) s))) :: 32 word)"
proof -
  let ?c = "\<lambda>k. s ! (nat index + k)"
  have "loop_le s index 4 =
      (Inr (word_of_int (uint (?c 0) + uint (?c 1) * 256 + uint (?c 2) * 65536
         + top_byte (?c 3) * 16777216)) :: 32 word result)"
    unfolding loop_le_def upt_4 sum_le_32 [symmetric]
    using assms by (simp add: byte_step_eq shl_int_small shl_int_top r_fold_fun r_bind_Inr)
  also have "(word_of_int (uint (?c 0) + uint (?c 1) * 256 + uint (?c 2) * 65536
         + top_byte (?c 3) * 16777216) :: 32 word) = word_of_nat (le_val (take 4 (drop (nat index) s)))"
    unfolding wi_hom_add [symmetric] top_byte_word
    using assms by (simp add: drop_nth_4 algebra_simps)
  finally show ?thesis .
qed

section \<open>Round trips\<close>

lemma be_val_toBinary:
  fixes v :: "'a::len word"
  assumes "shift_ok shr" "8 dvd LENGTH('a)"
  shows "be_val (toBinary shr v) = unat v" "le_val (toBinaryLE shr v) = unat v"
proof -
  have "(2::nat) ^ LENGTH('a) = 2 ^ (8 * (LENGTH('a) div 8))" using assms(2) by simp
  also have "\<dots> = 256 ^ (LENGTH('a) div 8)" by (simp add: power_mult)
  finally have "(256::nat) ^ (LENGTH('a) div 8) = 2 ^ LENGTH('a)" by (rule sym)
  then show "be_val (toBinary shr v) = unat v" "le_val (toBinaryLE shr v) = unat v"
    using assms(1) unsigned_less [of v, where ?'a = nat]
    by (simp_all add: be_val_def toBinary_spec toBinaryLE_spec le_val_le_bytes)
qed

lemma length_toBinary [simp]:
  "length (toBinary shr (v :: 'a::len word)) = LENGTH('a) div 8"
  "length (toBinaryLE shr (v :: 'a::len word)) = LENGTH('a) div 8"
  by (simp_all add: toBinary_def toBinaryLE_def Let_def)

lemma toBinary_shift:
  "shift_ok shr \<Longrightarrow> toBinary shr v = toBinary drop_bit v"
  "shift_ok shr \<Longrightarrow> toBinaryLE shr v = toBinaryLE drop_bit v"
  by (simp_all add: toBinary_spec toBinaryLE_spec)

lemma take_encoded: "length e = n \<Longrightarrow> take n (drop (length pre) (pre @ e @ post)) = e"
  by simp

interpretation be16: fixed_codec 2 "toBinary signed_drop_bit" "\<lambda>i s. loop_be s (int i) 2 :: 16 word result"
proof unfold_locales
  fix pre post :: bytes and v :: "16 word"
  let ?s = "pre @ toBinary signed_drop_bit v @ post"
  assume "length ?s < 2 ^ 31"
  then have "loop_be ?s (int (length pre)) 2 =
      (Inr (word_of_nat (be_val (take 2 (drop (nat (int (length pre))) ?s)))) :: 16 word result)"
    by (intro loop_be_16) simp_all
  then show "loop_be ?s (int (length pre)) 2 = Inr v"
    by (simp add: take_encoded be_val_toBinary)
qed simp

interpretation le16: fixed_codec 2 "toBinaryLE signed_drop_bit" "\<lambda>i s. loop_le s (int i) 2 :: 16 word result"
proof unfold_locales
  fix pre post :: bytes and v :: "16 word"
  let ?s = "pre @ toBinaryLE signed_drop_bit v @ post"
  assume "length ?s < 2 ^ 31"
  then have "loop_le ?s (int (length pre)) 2 =
      (Inr (word_of_nat (le_val (take 2 (drop (nat (int (length pre))) ?s)))) :: 16 word result)"
    by (intro loop_le_16) simp_all
  then show "loop_le ?s (int (length pre)) 2 = Inr v"
    by (simp add: take_encoded be_val_toBinary)
qed simp

interpretation be32: fixed_codec 4 "toBinary signed_drop_bit" "\<lambda>i s. loop_be s (int i) 4 :: 32 word result"
proof unfold_locales
  fix pre post :: bytes and v :: "32 word"
  let ?s = "pre @ toBinary signed_drop_bit v @ post"
  assume "length ?s < 2 ^ 31"
  then have "loop_be ?s (int (length pre)) 4 =
      (Inr (word_of_nat (be_val (take 4 (drop (nat (int (length pre))) ?s)))) :: 32 word result)"
    by (intro loop_be_32) simp_all
  then show "loop_be ?s (int (length pre)) 4 = Inr v"
    by (simp add: take_encoded be_val_toBinary)
qed simp

interpretation le32: fixed_codec 4 "toBinaryLE signed_drop_bit" "\<lambda>i s. loop_le s (int i) 4 :: 32 word result"
proof unfold_locales
  fix pre post :: bytes and v :: "32 word"
  let ?s = "pre @ toBinaryLE signed_drop_bit v @ post"
  assume "length ?s < 2 ^ 31"
  then have "loop_le ?s (int (length pre)) 4 =
      (Inr (word_of_nat (le_val (take 4 (drop (nat (int (length pre))) ?s)))) :: 32 word result)"
    by (intro loop_le_32) simp_all
  then show "loop_le ?s (int (length pre)) 4 = Inr v"
    by (simp add: take_encoded be_val_toBinary)
qed simp

section \<open>The 64-bit loops\<close>

lemma r_fold_undefined:
  assumes "\<And>x s. x \<in> set xs \<Longrightarrow> (\<exists>s'. f x s = Inr s') \<or> f x s = Inl Undefined"
    and "y \<in> set xs" "\<And>s. f y s = Inl Undefined"
  shows "r_fold f xs s = Inl Undefined"
  using assms(1,2)
proof (induction xs arbitrary: s)
  case (Cons x xs)
  show ?case
  proof (cases "f x s")
    case (Inl e)
    with Cons.prems(1) [of x s] show ?thesis by auto
  next
    case (Inr t)
    with Cons.prems assms(3) have "y \<in> set xs" by auto
    with Inr Cons show ?thesis by simp
  qed
qed simp

lemma byte_step_ok_or_undefined:
  assumes "0 \<le> index" "nat index + delta < length s" "length s < 2 ^ 31"
  shows "(\<exists>v'. byte_step s index shift delta (v :: 'a::len word) = Inr v') \<or>
         byte_step s index shift delta v = Inl Undefined"
  using assms by (auto simp: byte_step_eq shl_int_def acc_add_def Let_def)

lemma loop_64_undefined:
  assumes "0 \<le> index" "nat index + 8 \<le> length s" "length s < 2 ^ 31"
  shows "loop_be s index 8 = (Inl Undefined :: 'a::len word result)"
    and "loop_le s index 8 = (Inl Undefined :: 'a::len word result)"
proof -
  have u: "byte_step s index shift d (v :: 'a word) = Inl Undefined" if "32 \<le> shift d" "d < 8" for shift d v
    using that assms by (simp add: byte_step_eq shl_int_wide)
  have o: "(\<exists>v'. byte_step s index shift d (v :: 'a word) = Inr v') \<or>
      byte_step s index shift d v = Inl Undefined" if "d \<in> set [0..<8]" for shift d v
    using that assms by (intro byte_step_ok_or_undefined) auto
  show "loop_be s index 8 = (Inl Undefined :: 'a word result)"
    unfolding loop_be_def by (rule r_fold_undefined [where y = 0], erule o) (auto intro: u)
  show "loop_le s index 8 = (Inl Undefined :: 'a word result)"
    unfolding loop_le_def by (rule r_fold_undefined [where y = 7], erule o) (auto intro: u)
qed

end
