(* ===== verification/ByteBufRead.thy ===== *)
theory ByteBufRead
  imports ByteBuf ByteCodec
begin

text \<open>
  What the reading operations of \<open>ByteBuf\<close> return on every index: \<open>read_spec\<close> is the reference
  (the decoded value, 0 where fewer than \<open>n\<close> bytes remain, an exception elsewhere), and the
  getters and readers of 16 and 32 bits equal it. The 64-bit ones are undefined whenever there is
  something to read, and the floating-point ones never return a value they read.
\<close>

section \<open>The length check\<close>

lemma size_sub_i32: "size_sub n (size_of_i32 i) = nat ((int n - i) mod size_mod)"
  by (simp add: size_sub_def size_of_i32_def size_mod_def mod_diff_right_eq)

lemma too_short_iff:
  assumes "i32 i" "n < 2 ^ 31" "k \<le> 8"
  shows "size_sub n (size_of_i32 i) < k \<longleftrightarrow> i \<le> int n \<and> int n - i < int k"
proof (cases "i \<le> int n")
  case True
  then have "(int n - i) mod size_mod = int n - i"
    using assms by (intro mod_pos_pos_trivial) (auto simp: size_mod_def i32_def)
  with True assms show ?thesis by (auto simp: size_sub_i32 nat_less_iff)
next
  case False
  have "(int n - i) mod size_mod = (int n - i + size_mod) mod size_mod" by simp
  also have "\<dots> = int n - i + size_mod"
    using False assms by (intro mod_pos_pos_trivial) (auto simp: size_mod_def i32_def)
  finally show ?thesis
    using False assms by (auto simp: size_sub_i32 size_mod_def i32_def nat_less_iff)
qed

lemma size_of_i32_out:
  assumes "i32 i" "n < 2 ^ 31" "i < 0 \<or> int n \<le> i"
  shows "n \<le> size_of_i32 i"
proof (cases "i < 0")
  case True
  then show ?thesis using size_of_i32_neg [of i] assms by simp
next
  case False
  then show ?thesis using assms by (auto simp: i32_def size_of_i32_nonneg le_nat_iff)
qed

lemma size_of_i32_in:
  "i32 i \<Longrightarrow> n < 2 ^ 31 \<Longrightarrow> size_of_i32 i < n \<longleftrightarrow> 0 \<le> i \<and> i < int n"
proof (cases "i < 0 \<or> int n \<le> i")
  case True
  moreover assume "i32 i" "n < 2 ^ 31"
  ultimately show ?thesis using size_of_i32_out [of i n] by auto
next
  case False
  moreover assume "i32 i" "n < 2 ^ 31"
  ultimately show ?thesis by (simp add: i32_def size_of_i32_nonneg nat_less_iff)
qed

lemma loop_out:
  assumes "i32 index" "length s < 2 ^ 31" "index < 0 \<or> int (length s) \<le> index" "0 < n"
  shows "loop_be s index n = (Inl OutOfRange :: 'a::len word result)"
    and "loop_le s index n = (Inl OutOfRange :: 'a::len word result)"
proof -
  have "byte_step s index shift 0 (v :: 'a word) = Inl OutOfRange" for shift v
    using assms by (simp add: byte_step_def i32_add_ok size_of_i32_out)
  moreover have "[0..<n] = 0 # [1..<n]" using assms(4) by (simp add: upt_conv_Cons)
  ultimately show "loop_be s index n = (Inl OutOfRange :: 'a word result)"
    and "loop_le s index n = (Inl OutOfRange :: 'a word result)"
    by (simp_all add: loop_be_def loop_le_def)
qed

section \<open>Getters\<close>

text \<open>An index past the end, or so far below 0 that the wrapped difference is not short, makes
  \<open>at\<close> throw.\<close>

definition read_spec :: "nat \<Rightarrow> (bytes \<Rightarrow> nat) \<Rightarrow> bytes \<Rightarrow> int \<Rightarrow> 'a::len word result" where
  "read_spec n val s index =
     (if int (length s) < index \<or> index < 0 \<and> int n \<le> int (length s) - index then Inl OutOfRange
      else if int (length s) - index < int n then Inr 0
      else Inr (word_of_nat (val (take n (drop (nat index) s)))))"

lemma getT_eq_read_spec:
  assumes idx: "i32 index" "length (originData d) < 2 ^ 31" and n: "0 < n" "n \<le> 8"
    and be: "0 \<le> index \<Longrightarrow> nat index + n \<le> length (originData d) \<Longrightarrow>
       loop_be (originData d) index n =
       (Inr (word_of_nat (be_val (take n (drop (nat index) (originData d))))) :: 'a::len word result)"
    and le: "0 \<le> index \<Longrightarrow> nat index + n \<le> length (originData d) \<Longrightarrow>
       loop_le (originData d) index n =
       (Inr (word_of_nat (le_val (take n (drop (nat index) (originData d))))) :: 'a::len word result)"
  shows "getT index n d = (read_spec n be_val (originData d) index :: 'a word result)"
    and "getTLE index n d = (read_spec n le_val (originData d) index :: 'a word result)"
proof -
  let ?s = "originData d"
  consider (out) "int (length ?s) < index \<or> index < 0 \<and> int n \<le> int (length ?s) - index"
    | (short) "index \<le> int (length ?s)" "int (length ?s) - index < int n"
    | (ok) "0 \<le> index" "nat index + n \<le> length ?s"
    by linarith
  then have "getT index n d = (read_spec n be_val ?s index :: 'a word result) \<and>
      getTLE index n d = (read_spec n le_val ?s index :: 'a word result)"
  proof cases
    case out
    then have "\<not> size_sub (length ?s) (size_of_i32 index) < n"
      using idx n by (subst too_short_iff) auto
    moreover have "index < 0 \<or> int (length ?s) \<le> index" using out by auto
    ultimately show ?thesis
      using out idx n loop_out [of index ?s n, where ?'a = 'a]
      by (simp add: getT_def getTLE_def read_spec_def)
  next
    case short
    then have "size_sub (length ?s) (size_of_i32 index) < n"
      using idx n by (subst too_short_iff) auto
    with short show ?thesis by (auto simp: getT_def getTLE_def read_spec_def)
  next
    case ok
    then have "\<not> size_sub (length ?s) (size_of_i32 index) < n"
      using idx n by (subst too_short_iff) auto
    with ok be le show ?thesis by (auto simp: getT_def getTLE_def read_spec_def)
  qed
  then show "getT index n d = (read_spec n be_val ?s index :: 'a word result)"
    and "getTLE index n d = (read_spec n le_val ?s index :: 'a word result)" by auto
qed

lemma getT_16:
  assumes "i32 index" "length (originData d) < 2 ^ 31"
  shows "getT index 2 d = (read_spec 2 be_val (originData d) index :: 16 word result)"
    and "getTLE index 2 d = (read_spec 2 le_val (originData d) index :: 16 word result)"
  using assms getT_eq_read_spec [of index d 2, where ?'a = 16] loop_be_16 loop_le_16 by auto

lemma getT_32:
  assumes "i32 index" "length (originData d) < 2 ^ 31"
  shows "getT index 4 d = (read_spec 4 be_val (originData d) index :: 32 word result)"
    and "getTLE index 4 d = (read_spec 4 le_val (originData d) index :: 32 word result)"
  using assms getT_eq_read_spec [of index d 4, where ?'a = 32] loop_be_32 loop_le_32 by auto

section \<open>Readers\<close>

text \<open>A reader decodes at \<open>readerIndex\<close> like the getter and moves on only when it decoded.\<close>

lemma readT_getT:
  assumes "i32 (readerIndex d)" "length (originData d) < 2 ^ 31" "0 < n" "n \<le> 8"
  shows "readT n d = (getT (readerIndex d) n d :: 'a::len word result,
      if nat (readerIndex d) + n \<le> length (originData d) \<and> 0 \<le> readerIndex d \<and>
         \<not> (\<exists>e. getT (readerIndex d) n d = (Inl e :: 'a word result))
      then d\<lparr>readerIndex := readerIndex d + int n\<rparr> else d)" (is ?be)
    and "readTLE n d = (getTLE (readerIndex d) n d :: 'a::len word result,
      if nat (readerIndex d) + n \<le> length (originData d) \<and> 0 \<le> readerIndex d \<and>
         \<not> (\<exists>e. getTLE (readerIndex d) n d = (Inl e :: 'a word result))
      then d\<lparr>readerIndex := readerIndex d + int n\<rparr> else d)" (is ?le)
proof -
  let ?s = "originData d" and ?r = "readerIndex d"
  show ?be and ?le
  proof (atomize (full), cases "size_sub (length ?s) (size_of_i32 ?r) < n")
    case True
    then have "?r \<le> int (length ?s)" "int (length ?s) - ?r < int n"
      using assms too_short_iff [of ?r "length ?s" n] by auto
    with True show "?be \<and> ?le" by (auto simp: readT_def readTLE_def getT_def getTLE_def)
  next
    case False
    show "?be \<and> ?le"
    proof (cases "0 \<le> ?r \<and> nat ?r + n \<le> length ?s")
      case True
      then have "i32 (?r + int n)" using assms by (auto simp: i32_def)
      with False True show ?thesis
        by (auto simp: readT_def readTLE_def getT_def getTLE_def i32_add_ok r_bind_def split: sum.splits)
    next
      case out: False
      then have "?r < 0 \<or> int (length ?s) \<le> ?r"
        using False assms too_short_iff [of ?r "length ?s" n] by auto
      with False out assms loop_out [of ?r ?s n, where ?'a = 'a] show ?thesis
        by (simp add: readT_def readTLE_def getT_def getTLE_def)
    qed
  qed
qed

definition read_after :: "nat \<Rightarrow> bytebuf \<Rightarrow> bytebuf" where
  "read_after n d =
     (if 0 \<le> readerIndex d \<and> nat (readerIndex d) + n \<le> length (originData d)
      then d\<lparr>readerIndex := readerIndex d + int n\<rparr> else d)"

lemma read_spec_fails_iff:
  "0 \<le> index \<Longrightarrow> nat index + n \<le> length s \<Longrightarrow>
   read_spec n val s index = (Inr (word_of_nat (val (take n (drop (nat index) s)))) :: 'a::len word result)"
  by (auto simp: read_spec_def)

lemma readT_eq:
  assumes "i32 (readerIndex d)" "length (originData d) < 2 ^ 31" "0 < n" "n \<le> 8"
    and be: "getT (readerIndex d) n d = (read_spec n be_val (originData d) (readerIndex d) :: 'a::len word result)"
    and le: "getTLE (readerIndex d) n d = (read_spec n le_val (originData d) (readerIndex d) :: 'a word result)"
  shows "readT n d = (read_spec n be_val (originData d) (readerIndex d) :: 'a word result, read_after n d)"
    and "readTLE n d = (read_spec n le_val (originData d) (readerIndex d) :: 'a word result, read_after n d)"
  using readT_getT [OF assms(1-4), where ?'a = 'a]
  by (auto simp: be le read_after_def read_spec_fails_iff)

lemma readT_16:
  assumes "i32 (readerIndex d)" "length (originData d) < 2 ^ 31"
  shows "readT 2 d = (read_spec 2 be_val (originData d) (readerIndex d) :: 16 word result, read_after 2 d)"
    and "readTLE 2 d = (read_spec 2 le_val (originData d) (readerIndex d) :: 16 word result, read_after 2 d)"
  using assms getT_16 [OF assms] readT_eq [of d 2, where ?'a = 16] by auto

lemma readT_32:
  assumes "i32 (readerIndex d)" "length (originData d) < 2 ^ 31"
  shows "readT 4 d = (read_spec 4 be_val (originData d) (readerIndex d) :: 32 word result, read_after 4 d)"
    and "readTLE 4 d = (read_spec 4 le_val (originData d) (readerIndex d) :: 32 word result, read_after 4 d)"
  using assms getT_32 [OF assms] readT_eq [of d 4, where ?'a = 32] by auto

lemma getT_64_undefined:
  assumes "0 \<le> index" "nat index + 8 \<le> length (originData d)" "length (originData d) < 2 ^ 31"
  shows "getT index 8 d = (Inl Undefined :: 64 word result)"
    and "getTLE index 8 d = (Inl Undefined :: 64 word result)"
  using assms loop_64_undefined [OF assms, where ?'a = 64] too_short_iff [of index "length (originData d)" 8]
  by (auto simp: getT_def getTLE_def i32_def)

section \<open>Floating-point loops\<close>

lemma fp_loop_fails:
  assumes "0 \<le> index" "index < 2 ^ 31" "0 < width" "width \<le> 8"
  shows "\<exists>e. fst (fp_loop s width pos index obj) = Inl e"
  using assms
proof (induction s width pos index obj rule: fp_loop.induct)
  case (1 s width pos index obj)
  have guard: "size_of_i32 index < size_add (size_of_i32 index) width"
    using "1.prems" by (simp add: size_of_i32_nonneg size_add_less)
  show ?case
  proof (cases "str_at s (pos index)")
    case (Inl e)
    then show ?thesis using guard by (simp add: fp_loop.simps [of s width pos index obj])
  next
    case (Inr c)
    show ?thesis
    proof (cases "i32_add index 1")
      case (Inl e)
      then show ?thesis using guard Inr by (simp add: fp_loop.simps [of s width pos index obj])
    next
      case next_index: (Inr i)
      then have "0 \<le> i" "i < 2 ^ 31" using "1.prems" by (auto simp: i32_add_def i32_def split: if_splits)
      then show ?thesis
        using "1.IH" [OF guard Inr _ next_index] "1.prems" guard Inr next_index
        by (auto simp: fp_loop.simps [of s width pos index obj])
    qed
  qed
qed

section \<open>Properties\<close>

text \<open>C18: Every 16- and 32-bit getter of \<open>ByteBuf\<close>, in both byte orders, on every \<open>int32_t\<close>
  index: the decoded big- or little-endian number when all its bytes are in the buffer, 0 when the
  index is in the buffer but fewer bytes remain, and \<open>std::out_of_range\<close> when the index is past the
  end or far enough below 0. It never runs into undefined behaviour.\<close>
theorem getters_spec:
  assumes "i32 index" "length (originData d) < 2 ^ 31"
  shows "getShort index d = read_spec 2 be_val (originData d) index \<and>
         getShortLE index d = read_spec 2 le_val (originData d) index \<and>
         getUnsignedShort index d = read_spec 2 be_val (originData d) index \<and>
         getUnsignedShortLE index d = read_spec 2 le_val (originData d) index \<and>
         getInt index d = read_spec 4 be_val (originData d) index \<and>
         getIntLE index d = read_spec 4 le_val (originData d) index \<and>
         getUnsignedInt index d = read_spec 4 be_val (originData d) index \<and>
         getUnsignedIntLE index d = read_spec 4 le_val (originData d) index"
  using getT_16 [OF assms] getT_32 [OF assms]
  by (simp add: getShort_def getShortLE_def getUnsignedShort_def getUnsignedShortLE_def
      getInt_def getIntLE_def getUnsignedInt_def getUnsignedIntLE_def)

theorem getters_spec_witness:
  "getInt 1 (ByteBufData_new\<lparr>originData := [9, 0xFF, 0, 0, 2]\<rparr>) = Inr (0xFF000002)"
  using getters_spec [of 1 "ByteBufData_new\<lparr>originData := [9, 0xFF, 0, 0, 2]\<rparr>"]
  by (simp add: i32_def read_spec_def be_val_def ByteBufData_new_def)

text \<open>Every 16- and 32-bit reader returns what the getter at \<open>readerIndex\<close> returns, and advances
  \<open>readerIndex\<close> by the width exactly when all the bytes were there; nothing else of the buffer
  changes.\<close>
theorem readers_spec:
  assumes "i32 (readerIndex d)" "length (originData d) < 2 ^ 31"
  shows "readShort d = (getShort (readerIndex d) d, read_after 2 d) \<and>
         readShortLE d = (getShortLE (readerIndex d) d, read_after 2 d) \<and>
         readUnsignedShort d = (getUnsignedShort (readerIndex d) d, read_after 2 d) \<and>
         readUnsignedShortLE d = (getUnsignedShortLE (readerIndex d) d, read_after 2 d) \<and>
         readInt d = (getInt (readerIndex d) d, read_after 4 d) \<and>
         readIntLE d = (getIntLE (readerIndex d) d, read_after 4 d) \<and>
         readUnsignedInt d = (getUnsignedInt (readerIndex d) d, read_after 4 d) \<and>
         readUnsignedIntLE d = (getUnsignedIntLE (readerIndex d) d, read_after 4 d)"
  using readT_16 [OF assms] readT_32 [OF assms] getT_16 [OF assms] getT_32 [OF assms]
  by (simp add: getShort_def getShortLE_def getUnsignedShort_def getUnsignedShortLE_def
      getInt_def getIntLE_def getUnsignedInt_def getUnsignedIntLE_def
      readShort_def readShortLE_def readUnsignedShort_def readUnsignedShortLE_def
      readInt_def readIntLE_def readUnsignedInt_def readUnsignedIntLE_def)

theorem readers_spec_witness:
  "readShortLE (ByteBufData_new\<lparr>originData := [7, 1, 2], readerIndex := 1\<rparr>) =
   (Inr 0x201, ByteBufData_new\<lparr>originData := [7, 1, 2], readerIndex := 3\<rparr>)"
  using readers_spec [of "ByteBufData_new\<lparr>originData := [7, 1, 2], readerIndex := 1\<rparr>"]
    getT_16 [of 1 "ByteBufData_new\<lparr>originData := [7, 1, 2], readerIndex := 1\<rparr>"]
  by (simp add: i32_def read_spec_def read_after_def getShortLE_def ByteBufData_new_def)

text \<open>The 64-bit getters and readers are undefined behaviour on every buffer that holds the eight
  bytes they are asked for, because a byte is shifted as a 32-bit \<open>int\<close> by up to 56.\<close>
theorem long_reads_undefined:
  assumes "0 \<le> index" "nat index + 8 \<le> length (originData d)" "length (originData d) < 2 ^ 31"
  shows "getLong index d = Inl Undefined \<and> getLongLE index d = Inl Undefined \<and>
         getUnsignedLong index d = Inl Undefined \<and> getUnsignedLongLE index d = Inl Undefined \<and>
         fst (readLong (d\<lparr>readerIndex := index\<rparr>)) = Inl Undefined \<and>
         fst (readLongLE (d\<lparr>readerIndex := index\<rparr>)) = Inl Undefined \<and>
         fst (readUnsignedLong (d\<lparr>readerIndex := index\<rparr>)) = Inl Undefined \<and>
         fst (readUnsignedLongLE (d\<lparr>readerIndex := index\<rparr>)) = Inl Undefined"
proof -
  have r: "i32 index" using assms by (auto simp: i32_def)
  have d': "getT index 8 (d\<lparr>readerIndex := index\<rparr>) = (Inl Undefined :: 64 word result)"
    "getTLE index 8 (d\<lparr>readerIndex := index\<rparr>) = (Inl Undefined :: 64 word result)"
    using assms by (auto intro!: getT_64_undefined)
  have "readT 8 (d\<lparr>readerIndex := index\<rparr>) = (Inl Undefined :: 64 word result, d\<lparr>readerIndex := index\<rparr>)"
    "readTLE 8 (d\<lparr>readerIndex := index\<rparr>) = (Inl Undefined :: 64 word result, d\<lparr>readerIndex := index\<rparr>)"
    using assms r readT_getT [of "d\<lparr>readerIndex := index\<rparr>" 8, where ?'a = 64] by (simp_all add: d')
  then show ?thesis
    using getT_64_undefined [OF assms]
    by (simp add: getLong_def getLongLE_def getUnsignedLong_def getUnsignedLongLE_def
        readLong_def readLongLE_def readUnsignedLong_def readUnsignedLongLE_def)
qed

theorem long_reads_undefined_witness:
  "getLong 0 (ByteBufData_new\<lparr>originData := [0, 0, 0, 0, 0, 0, 0, 1]\<rparr>) = Inl Undefined"
  using long_reads_undefined [of 0 "ByteBufData_new\<lparr>originData := [0, 0, 0, 0, 0, 0, 0, 1]\<rparr>"] by simp

text \<open>A floating-point getter or reader at an index of the buffer returns only the \<open>0.00\<close> of its
  length check: where the bytes are there, its loop has no exit, and it ends in an exception or in
  a store outside the result.\<close>
theorem fp_reads_never_return:
  assumes "0 \<le> index" "i32 index" "length (originData d) < 2 ^ 31" "index \<le> int (length (originData d))"
  shows "(getFloat index d = Inr v \<longrightarrow> int (length (originData d)) - index < 4 \<and> v = replicate 4 0) \<and>
         (getFloatLE index d = Inr v \<longrightarrow> int (length (originData d)) - index < 4 \<and> v = replicate 4 0) \<and>
         (getDouble index d = Inr v \<longrightarrow> int (length (originData d)) - index < 8 \<and> v = replicate 8 0) \<and>
         (getDoubleLE index d = Inr v \<longrightarrow> int (length (originData d)) - index < 8 \<and> v = replicate 8 0) \<and>
         (fst (readDouble (d\<lparr>readerIndex := index\<rparr>)) = Inr v \<longrightarrow>
            int (length (originData d)) - index < 8 \<and> v = replicate 8 0) \<and>
         (fst (readDoubleLE (d\<lparr>readerIndex := index\<rparr>)) = Inr v \<longrightarrow>
            int (length (originData d)) - index < 8 \<and> v = replicate 8 0)"
proof -
  let ?n = "length (originData d)"
  have fails: "fst (fp_loop s w pos index obj) \<noteq> Inr v" if "0 < w" "w \<le> 8" for s w pos obj
    using fp_loop_fails [of index w s pos obj] that assms by (auto simp: i32_def)
  have short: "size_sub ?n (size_of_i32 index) < k \<longleftrightarrow> int ?n - index < int k" if "k \<le> 8" for k
    using too_short_iff [of index ?n k] that assms by auto
  show ?thesis
    by (auto simp: getFloat_def getFloatLE_def getDouble_def getDoubleLE_def readDouble_def
        readDoubleLE_def Let_def case_prod_beta short fails split: if_splits)
qed

theorem fp_reads_never_return_witness:
  "getDouble 0 (ByteBufData_new\<lparr>originData := replicate 8 1\<rparr>) \<noteq> Inr (replicate 8 1)"
  using fp_reads_never_return [of 0 "ByteBufData_new\<lparr>originData := replicate 8 1\<rparr>" "replicate 8 1"]
  by (auto simp: i32_def)

end
