(* ===== verification/ByteBufWrite.thy ===== *)
theory ByteBufWrite
  imports ByteBufRead
begin

text \<open>
  The index invariant of \<open>ByteBuf\<close>, its use as a first-in first-out channel of bytes, and what the
  writing operations do to the contents.

  \<^item> \<open>bb_wf\<close>: all four indices lie in the buffer; \<open>bb_in\<close> says it of the reader, the writer and those marks
    that are known to be valid. Every operation with \<open>op_ok\<close> arguments keeps it (\<open>buf_step_keeps\<close>), where
    \<open>discardReadBytes\<close> invalidates both marks until they are set again (\<open>buf_reach\<close>). The
    stronger order \<open>readerIndex <= writerIndex\<close> drawn in \<open>ByteBuf.h\<close> is not kept.
  \<^item> \<open>bb_open\<close>: the writer index is at the end, as after any number of writes to a new buffer.
    Then \<open>writeBytes\<close> and \<open>readBytes\<close> are the put and get of a \<open>byte_channel\<close> (\<open>bb_chan\<close>).
\<close>

section \<open>The index invariant\<close>

definition bb_wf :: "bytebuf \<Rightarrow> bool" where
  "bb_wf d \<longleftrightarrow> length (originData d) < 2 ^ 31 \<and>
     0 \<le> readerIndex d \<and> readerIndex d \<le> int (length (originData d)) \<and>
     0 \<le> writerIndex d \<and> writerIndex d \<le> int (length (originData d)) \<and>
     0 \<le> markedReaderIndex d \<and> markedReaderIndex d \<le> int (length (originData d)) \<and>
     0 \<le> markedWriterIndex d \<and> markedWriterIndex d \<le> int (length (originData d))"

text \<open>The same, of a buffer whose marks are known to be valid if \<open>mr\<close> and \<open>mw\<close>.\<close>

definition bb_in :: "bool \<Rightarrow> bool \<Rightarrow> bytebuf \<Rightarrow> bool" where
  "bb_in mr mw d \<longleftrightarrow> length (originData d) < 2 ^ 31 \<and>
     0 \<le> readerIndex d \<and> readerIndex d \<le> int (length (originData d)) \<and>
     0 \<le> writerIndex d \<and> writerIndex d \<le> int (length (originData d)) \<and>
     (mr \<longrightarrow> 0 \<le> markedReaderIndex d \<and> markedReaderIndex d \<le> int (length (originData d))) \<and>
     (mw \<longrightarrow> 0 \<le> markedWriterIndex d \<and> markedWriterIndex d \<le> int (length (originData d)))"

lemma bb_wf_in: "bb_wf d \<longleftrightarrow> bb_in True True d"
  by (simp add: bb_wf_def bb_in_def)

lemma bb_in_i32: "bb_in mr mw d \<Longrightarrow> i32 (readerIndex d) \<and> i32 (writerIndex d)"
  by (auto simp: bb_in_def i32_def)

lemma bb_in_size_of:
  "bb_in mr mw d \<Longrightarrow> size_of_i32 (writerIndex d) = nat (writerIndex d)"
  "bb_in mr mw d \<Longrightarrow> size_of_i32 (readerIndex d) = nat (readerIndex d)"
  by (auto simp: bb_in_def size_of_i32_nonneg)

lemmas bb_wf_i32 = bb_in_i32 [of True True, folded bb_wf_in]

lemmas bb_wf_size_of = bb_in_size_of [of True True, folded bb_wf_in]

text \<open>The general write: the bytes are inserted at \<open>writerIndex\<close>, which moves behind them.\<close>

lemma writeData_in:
  assumes "bb_in mr mw d" "length (originData d) + length b < 2 ^ 31"
  shows "writeData b d = Inr (d\<lparr>
      originData := take (nat (writerIndex d)) (originData d) @ b @ drop (nat (writerIndex d)) (originData d),
      writerIndex := writerIndex d + int (length b)\<rparr>)"
proof -
  have w: "nat (writerIndex d) \<le> length (originData d)" using assms by (auto simp: bb_in_def)
  have "i32 (writerIndex d + int (length b))" using assms by (auto simp: bb_in_def i32_def)
  moreover have "length (originData d) + length b \<le> max_size" using assms by (simp add: max_size_def)
  ultimately show ?thesis
    using w assms by (simp add: writeData_def bb_in_size_of i32_of_size_small i32_add_ok)
qed

lemmas writeData_wf = writeData_in [of True True, folded bb_wf_in]

lemma writeData_wf_len:
  assumes "writeData b d = Inr d'"
  shows "length (originData d') = length (originData d) + length b"
  using assms by (auto simp: writeData_def r_bind_eq_Inr str_append_def str_insert_def split: if_splits)

lemma setData_len:
  assumes "setData index b d = Inr d'"
  shows "length (originData d') = length (originData d) + length b
     \<and> readerIndex d' = readerIndex d \<and> writerIndex d' = writerIndex d
     \<and> markedReaderIndex d' = markedReaderIndex d \<and> markedWriterIndex d' = markedWriterIndex d"
  using assms by (auto simp: setData_def r_bind_eq_Inr str_append_def str_insert_def split: if_splits)

text \<open>All operations of the class that change the buffer, as one type; \<open>buf_step\<close> performs one. A cell is a value
  of a \<open>set...\<close> or \<open>write...\<close> operation. A reading operation leaves its state behind whether or not it threw.\<close>

datatype cell =
    VChar "8 word" | VUnsignedChar "8 word" | VShort "16 word" | VShortLE "16 word" | VUnsignedShort "16 word"
  | VUnsignedShortLE "16 word" | VInt "32 word" | VIntLE "32 word" | VUnsignedInt "32 word"
  | VUnsignedIntLE "32 word" | VLong "64 word" | VLongLE "64 word" | VUnsignedLong "64 word"
  | VUnsignedLongLE "64 word"

fun set_cell :: "int \<Rightarrow> cell \<Rightarrow> bytebuf \<Rightarrow> bytebuf result" where
  "set_cell i (VChar v) d = setChar i v d"
| "set_cell i (VUnsignedChar v) d = setUnsignedChar i v d"
| "set_cell i (VShort v) d = setShort i v d"
| "set_cell i (VShortLE v) d = setShortLE i v d"
| "set_cell i (VUnsignedShort v) d = setUnsignedShort i v d"
| "set_cell i (VUnsignedShortLE v) d = setUnsignedShortLE i v d"
| "set_cell i (VInt v) d = setInt i v d"
| "set_cell i (VIntLE v) d = setIntLE i v d"
| "set_cell i (VUnsignedInt v) d = setUnsignedInt i v d"
| "set_cell i (VUnsignedIntLE v) d = setUnsignedIntLE i v d"
| "set_cell i (VLong v) d = setLong i v d"
| "set_cell i (VLongLE v) d = setLongLE i v d"
| "set_cell i (VUnsignedLong v) d = setUnsignedLong i v d"
| "set_cell i (VUnsignedLongLE v) d = setUnsignedLongLE i v d"

fun write_cell :: "cell \<Rightarrow> bytebuf \<Rightarrow> bytebuf result" where
  "write_cell (VChar v) d = writeChar v d"
| "write_cell (VUnsignedChar v) d = writeUnsignedChar v d"
| "write_cell (VShort v) d = writeShort v d"
| "write_cell (VShortLE v) d = writeShortLE v d"
| "write_cell (VUnsignedShort v) d = writeUnsignedShort v d"
| "write_cell (VUnsignedShortLE v) d = writeUnsignedShortLE v d"
| "write_cell (VInt v) d = writeInt v d"
| "write_cell (VIntLE v) d = writeIntLE v d"
| "write_cell (VUnsignedInt v) d = writeUnsignedInt v d"
| "write_cell (VUnsignedIntLE v) d = writeUnsignedIntLE v d"
| "write_cell (VLong v) d = writeLong v d"
| "write_cell (VLongLE v) d = writeLongLE v d"
| "write_cell (VUnsignedLong v) d = writeUnsignedLong v d"
| "write_cell (VUnsignedLongLE v) d = writeUnsignedLongLE v d"

datatype reading =
    RChar | RUnsignedChar | RShort | RShortLE | RUnsignedShort | RUnsignedShortLE | RInt | RIntLE
  | RUnsignedInt | RUnsignedIntLE | RLong | RLongLE | RUnsignedLong | RUnsignedLongLE | RDouble | RDoubleLE
  | RBytes int

definition after_read :: "'v result \<times> bytebuf \<Rightarrow> bytebuf result" where
  "after_read p = (if fst p = Inl Undefined then Inl Undefined else Inr (snd p))"

fun run_reading :: "reading \<Rightarrow> bytebuf \<Rightarrow> bytebuf result" where
  "run_reading RChar d = after_read (readChar d)"
| "run_reading RUnsignedChar d = after_read (readUnsignedChar d)"
| "run_reading RShort d = after_read (readShort d)"
| "run_reading RShortLE d = after_read (readShortLE d)"
| "run_reading RUnsignedShort d = after_read (readUnsignedShort d)"
| "run_reading RUnsignedShortLE d = after_read (readUnsignedShortLE d)"
| "run_reading RInt d = after_read (readInt d)"
| "run_reading RIntLE d = after_read (readIntLE d)"
| "run_reading RUnsignedInt d = after_read (readUnsignedInt d)"
| "run_reading RUnsignedIntLE d = after_read (readUnsignedIntLE d)"
| "run_reading RLong d = after_read (readLong d)"
| "run_reading RLongLE d = after_read (readLongLE d)"
| "run_reading RUnsignedLong d = after_read (readUnsignedLong d)"
| "run_reading RUnsignedLongLE d = after_read (readUnsignedLongLE d)"
| "run_reading RDouble d = after_read (readDouble d)"
| "run_reading RDoubleLE d = after_read (readDoubleLE d)"
| "run_reading (RBytes n) d = after_read (readBytes n d)"

datatype buf_op =
    OpClear | OpDiscard | OpSetIndex int int | OpMarkReader | OpMarkWriter | OpResetReader | OpResetWriter
  | OpSetReader int | OpSetWriter int | OpSkip int | OpRead reading
  | OpSet int cell | OpSetBytes int bytebuf | OpSetMem int bytes int | OpSetZero int int
  | OpWrite cell | OpWriteBytes bytebuf | OpWriteMem bytes int | OpWriteZero int | OpAssign bytebuf

fun buf_step :: "buf_op \<Rightarrow> bytebuf \<Rightarrow> bytebuf result" where
  "buf_step OpClear d = Inr (ByteBuf_clear d)"
| "buf_step OpDiscard d = discardReadBytes d"
| "buf_step (OpSetIndex r w) d = setIndex r w d"
| "buf_step OpMarkReader d = Inr (markReaderIndex d)"
| "buf_step OpMarkWriter d = Inr (markWriterIndex d)"
| "buf_step OpResetReader d = Inr (resetReaderIndex d)"
| "buf_step OpResetWriter d = Inr (resetWriterIndex d)"
| "buf_step (OpSetReader i) d = Inr (set_readerIndex i d)"
| "buf_step (OpSetWriter i) d = Inr (set_writerIndex i d)"
| "buf_step (OpSkip n) d = skipBytes n d"
| "buf_step (OpRead r) d = run_reading r d"
| "buf_step (OpSet i v) d = set_cell i v d"
| "buf_step (OpSetBytes i b) d = setBytes i b d"
| "buf_step (OpSetMem i m n) d = setBytes_mem i m n d"
| "buf_step (OpSetZero i n) d = setZero i n d"
| "buf_step (OpWrite v) d = write_cell v d"
| "buf_step (OpWriteBytes b) d = writeBytes b d"
| "buf_step (OpWriteMem m n) d = writeBytes_mem m n d"
| "buf_step (OpWriteZero n) d = writeZero n d"
| "buf_step (OpAssign other) d = ByteBuf_assign False d other"

text \<open>The arguments: \<open>int32_t\<close> values, no negative \<open>readerIndex(int)\<close>, and a well-formed source of
  an assignment.\<close>

fun op_ok :: "buf_op \<Rightarrow> bool" where
  "op_ok (OpSetReader i) = (0 \<le> i)"
| "op_ok (OpSetIndex r w) = (i32 r \<and> i32 w)"
| "op_ok (OpSetWriter i) = i32 i"
| "op_ok (OpSkip n) = i32 n"
| "op_ok (OpAssign other) = bb_wf other"
| "op_ok _ = True"

text \<open>Which marks are valid after an operation that did not throw, if \<open>(mr, mw)\<close> were before it; and the
  operations that use a mark.\<close>

fun marks_after :: "buf_op \<Rightarrow> bool \<times> bool \<Rightarrow> bool \<times> bool" where
  "marks_after OpMarkReader (mr, mw) = (True, mw)"
| "marks_after OpMarkWriter (mr, mw) = (mr, True)"
| "marks_after OpDiscard (mr, mw) = (False, False)"
| "marks_after (OpAssign other) (mr, mw) = (True, True)"
| "marks_after _ (mr, mw) = (mr, mw)"

fun uses_valid :: "buf_op \<Rightarrow> bool \<times> bool \<Rightarrow> bool" where
  "uses_valid OpResetReader (mr, mw) = mr"
| "uses_valid OpResetWriter (mr, mw) = mw"
| "uses_valid _ (mr, mw) = True"

text \<open>Runs from a well-formed buffer, of fewer than \<open>2 ^ 31\<close> bytes throughout. An exception leaves the buffer as
  it was (for the readers see \<open>after_read\<close>) and is caught.\<close>

inductive buf_reach :: "bytebuf \<Rightarrow> bool \<times> bool \<Rightarrow> bytebuf \<Rightarrow> bool" for d0 where
  buf_start: "bb_wf d0 \<Longrightarrow> buf_reach d0 (True, True) d0"
| buf_next: "buf_reach d0 m d \<Longrightarrow> op_ok x \<Longrightarrow> uses_valid x m \<Longrightarrow> buf_step x d = Inr d' \<Longrightarrow> length (originData d') < 2 ^ 31 \<Longrightarrow>
    buf_reach d0 (marks_after x m) d'"
| buf_caught: "buf_reach d0 m d \<Longrightarrow> buf_step x d = Inl e \<Longrightarrow> e \<noteq> Undefined \<Longrightarrow> buf_reach d0 m d"

lemma writeData_keeps:
  assumes "bb_in mr mw d" "writeData b d = Inr d'" "length (originData d') < 2 ^ 31"
  shows "bb_in mr mw d'"
  using assms(2,3) writeData_wf_len [OF assms(2)] writeData_in [OF assms(1), of b] assms(1) by (auto simp: bb_in_def)

lemma setData_keeps:
  assumes "bb_in mr mw d" "setData i b d = Inr d'" "length (originData d') < 2 ^ 31"
  shows "bb_in mr mw d'"
  using setData_len [OF assms(2)] assms(1,3) by (auto simp: bb_in_def)

lemma size_of_i32_gt:
  "i32 i \<Longrightarrow> n < 2 ^ 31 \<Longrightarrow> n < size_of_i32 i \<longleftrightarrow> i < 0 \<or> int n < i"
proof (cases "i < 0")
  case True
  moreover assume "i32 i" "n < 2 ^ 31"
  ultimately show ?thesis using size_of_i32_neg [of i] by auto
next
  case False
  moreover assume "i32 i" "n < 2 ^ 31"
  ultimately show ?thesis by (auto simp: i32_def size_of_i32_nonneg zless_nat_eq_int_zless)
qed

lemma setIndex_keeps:
  assumes "bb_in mr mw d" "setIndex r w d = Inr d'" "i32 r" "i32 w"
  shows "bb_in mr mw d'"
proof (cases "originData d = []")
  case False
  from assms(1) have "length (originData d) < 2 ^ 31" by (simp add: bb_in_def)
  then show ?thesis
    using assms False size_of_i32_in [of r "length (originData d)"]
      size_of_i32_gt [of w "length (originData d)"]
    by (auto simp: setIndex_def Let_def r_bind_eq_Inr bb_in_def i32_sub_def i32_of_size_small
        not_le not_less split: if_splits)
qed (use assms in \<open>auto simp: setIndex_def\<close>)

lemma skipBytes_keeps:
  assumes "bb_in mr mw d" "skipBytes n d = Inr d'"
  shows "bb_in mr mw d'"
proof -
  from assms(2) have r: "i32 (readerIndex d + n)"
    by (auto simp: skipBytes_def r_bind_eq_Inr i32_add_def split: if_splits)
  with assms size_of_i32_gt [OF r, of "length (originData d)"] show ?thesis
    by (auto simp: skipBytes_def r_bind_eq_Inr i32_add_def bb_in_def i32_of_size_small split: if_splits)
qed

lemma set_writerIndex_keeps: "bb_in mr mw d \<Longrightarrow> i32 i \<Longrightarrow> bb_in mr mw (set_writerIndex i d)"
  using size_of_i32_in [of i "length (originData d)"] by (auto simp: set_writerIndex_def bb_in_def)

lemma discard_keeps: "bb_in mr mw d \<Longrightarrow> discardReadBytes d = Inr d' \<Longrightarrow> bb_in False False d'"
  by (auto simp: discardReadBytes_def r_bind_eq_Inr str_substr_def bb_in_def split: if_splits)

lemma readT_keeps:
  assumes "bb_in mr mw d" "n \<le> 8"
  shows "bb_in mr mw (snd (readT n d :: 'a::len word result \<times> bytebuf))"
    "bb_in mr mw (snd (readTLE n d :: 'a::len word result \<times> bytebuf))"
  using assms too_short_iff [of "readerIndex d" "length (originData d)" n] bb_in_i32 [OF assms(1)]
  by (auto simp: readT_def readTLE_def bb_in_def i32_add_def r_bind_eq_Inr split: sum.splits if_splits)

lemma readChar_keeps: "bb_in mr mw d \<Longrightarrow> bb_in mr mw (snd (readChar d))"
  using too_short_iff [of "readerIndex d" "length (originData d)" 1]
  by (auto simp: readChar_def bb_in_def i32_def i32_add_def split: sum.splits if_splits)

lemma readBytes_eq:
  assumes "bb_wf d" "0 \<le> n" "n < 2 ^ 31"
  shows "readBytes n d =
    (let s = take (nat n) (drop (nat (readerIndex d)) (originData d))
     in (ByteBuf_str s, d\<lparr>readerIndex := readerIndex d + int (length s)\<rparr>))"
proof -
  let ?s = "take (nat n) (drop (nat (readerIndex d)) (originData d))"
  have "i32 (readerIndex d + int (length ?s))" using assms by (auto simp: bb_wf_def i32_def)
  moreover have "length ?s < 2 ^ 31" using assms by (auto simp: bb_wf_def)
  moreover have "nat (readerIndex d) \<le> length (originData d)" using assms by (auto simp: bb_wf_def)
  ultimately show ?thesis
    using assms by (simp add: readBytes_def bb_wf_size_of size_of_i32_nonneg i32_of_size_small i32_add_ok Let_def)
qed

lemma readBytes_keeps:
  assumes "bb_in mr mw d"
  shows "bb_in mr mw (snd (readBytes n d))"
proof -
  let ?s = "take (size_of_i32 n) (drop (nat (readerIndex d)) (originData d))"
  have "nat (readerIndex d) \<le> length (originData d)" "length ?s < 2 ^ 31"
    "i32 (readerIndex d + int (length ?s))"
    using assms by (auto simp: bb_in_def i32_def)
  then have "snd (readBytes n d) = d\<lparr>readerIndex := readerIndex d + int (length ?s)\<rparr>"
    using assms by (simp add: readBytes_def bb_in_size_of i32_of_size_small i32_add_ok)
  with assms show ?thesis by (auto simp: bb_in_def)
qed

text \<open>The loop of \<open>readDouble\<close> and \<open>readDoubleLE\<close> stops, if not in undefined behaviour, no later than at index 8.\<close>

lemma fp_loop_index:
  "fp_loop s width pos index obj = (res, r) \<Longrightarrow> res \<noteq> Inl Undefined \<Longrightarrow> 0 \<le> index \<Longrightarrow>
   index \<le> r \<and> r \<le> max index (int (length obj))"
proof (induction s width pos index obj rule: fp_loop.induct)
  case (1 s width pos index obj)
  show ?case
  proof (cases "size_of_i32 index < size_add (size_of_i32 index) width")
    case True
    note loop = "1.prems"(1) [unfolded fp_loop.simps [of s width pos index obj] if_P [OF True]]
    show ?thesis
    proof (cases "str_at s (pos index)")
      case (Inr c)
      with loop "1.prems"(2) have in_obj: "index < int (length obj)" by (auto split: if_splits)
      obtain i where i: "i32_add index 1 = Inr i" "i = index + 1"
        using loop Inr in_obj "1.prems"(2,3) by (auto simp: i32_add_def split: if_splits)
      have "fp_loop s width pos i (obj[nat index := c]) = (res, r)" using loop Inr in_obj "1.prems"(3) i(1) by simp
      from "1.IH" [OF True Inr _ i(1) this "1.prems"(2)] in_obj "1.prems"(3) i(2) show ?thesis by auto
    qed (use loop in auto)
  qed (use "1.prems" in \<open>auto simp: fp_loop.simps [of s width pos index obj]\<close>)
qed

lemma readDouble_keeps:
  assumes inv: "bb_in mr mw d"
  shows "fst (readDouble d) \<noteq> Inl Undefined \<Longrightarrow> bb_in mr mw (snd (readDouble d))"
    "fst (readDoubleLE d) \<noteq> Inl Undefined \<Longrightarrow> bb_in mr mw (snd (readDoubleLE d))"
proof -
  have room: "readerIndex d + 8 \<le> int (length (originData d))"
    if "\<not> size_sub (length (originData d)) (size_of_i32 (readerIndex d)) < 8"
    using that inv too_short_iff [of "readerIndex d" "length (originData d)" 8] bb_in_i32 [OF inv] by (auto simp: bb_in_def)
  have moved: "bb_in mr mw (d\<lparr>readerIndex := r\<rparr>)"
    if "fp_loop (originData d) 8 pos (readerIndex d) (replicate 8 0) = (res, r)" "res \<noteq> Inl Undefined"
      "\<not> size_sub (length (originData d)) (size_of_i32 (readerIndex d)) < 8" for pos res r
    using fp_loop_index [OF that(1,2)] room [OF that(3)] inv by (auto simp: bb_in_def)
  show "fst (readDouble d) \<noteq> Inl Undefined \<Longrightarrow> bb_in mr mw (snd (readDouble d))"
    "fst (readDoubleLE d) \<noteq> Inl Undefined \<Longrightarrow> bb_in mr mw (snd (readDoubleLE d))"
    using inv moved by (auto simp: readDouble_def readDoubleLE_def split: prod.splits if_splits)
qed

lemma assign_keeps:
  "ByteBuf_assign False d other = Inr d' \<Longrightarrow> bb_wf other \<Longrightarrow> length (originData d') < 2 ^ 31 \<Longrightarrow> bb_in mr mw d'"
  by (auto simp: ByteBuf_assign_def r_bind_eq_Inr str_append_def bb_wf_def bb_in_def split: if_splits)

lemmas set_defs =
  setChar_def setUnsignedChar_def setShort_def setShortLE_def setUnsignedShort_def setUnsignedShortLE_def setInt_def
  setIntLE_def setUnsignedInt_def setUnsignedIntLE_def setLong_def setLongLE_def setUnsignedLong_def setUnsignedLongLE_def
  setBytes_def setBytes_mem_def setZero_def setT_def setTLE_def

lemmas write_defs =
  writeChar_def writeUnsignedChar_def writeShort_def writeShortLE_def writeUnsignedShort_def writeUnsignedShortLE_def
  writeInt_def writeIntLE_def writeUnsignedInt_def writeUnsignedIntLE_def writeLong_def writeLongLE_def
  writeUnsignedLong_def writeUnsignedLongLE_def writeBytes_def writeBytes_mem_def writeZero_def writeT_def writeTLE_def

lemmas read_defs =
  readUnsignedChar_def readShort_def readShortLE_def readUnsignedShort_def readUnsignedShortLE_def readInt_def
  readIntLE_def readUnsignedInt_def readUnsignedIntLE_def readLong_def readLongLE_def readUnsignedLong_def
  readUnsignedLongLE_def

lemma reading_keeps: "bb_in mr mw d \<Longrightarrow> run_reading r d = Inr d' \<Longrightarrow> bb_in mr mw d'"
  by (cases r) (auto simp: read_defs after_read_def readT_keeps readChar_keeps readBytes_keeps readDouble_keeps
    split: if_splits)

lemma edit_cases:
  "set_cell i v d = Inr d' \<Longrightarrow> \<exists>b. setData i b d = Inr d'"
  "write_cell v d = Inr d' \<Longrightarrow> \<exists>b. writeData b d = Inr d'"
  by (cases v; auto simp: set_defs write_defs)+

lemma buf_step_keeps:
  assumes "bb_in mr mw d" "buf_step x d = Inr d'" "op_ok x" "uses_valid x (mr, mw)" "length (originData d') < 2 ^ 31"
    "marks_after x (mr, mw) = (mr', mw')"
  shows "bb_in mr' mw' d'"
proof -
  have edit: "bb_in mr mw d'" if "(\<exists>i b. setData i b d = Inr d') \<or> (\<exists>b. writeData b d = Inr d')"
    using that setData_keeps [OF assms(1) _ assms(5)] writeData_keeps [OF assms(1) _ assms(5)] by blast
  show ?thesis
  proof (cases x)
    case OpDiscard
    with assms discard_keeps show ?thesis by auto
  next
    case (OpSetIndex r w)
    with assms setIndex_keeps show ?thesis by auto
  next
    case (OpSetWriter i)
    with assms set_writerIndex_keeps show ?thesis by auto
  next
    case (OpSkip n)
    with assms skipBytes_keeps show ?thesis by auto
  next
    case (OpRead r)
    with assms reading_keeps show ?thesis by auto
  next
    case (OpSet i v)
    with assms(2) edit_cases(1) [of i v d d'] have "bb_in mr mw d'" by (intro edit) auto
    with OpSet assms(6) show ?thesis by auto
  next
    case (OpWrite v)
    with assms(2) edit_cases(2) [of v d d'] have "bb_in mr mw d'" by (intro edit) auto
    with OpWrite assms(6) show ?thesis by auto
  next
    case (OpAssign other)
    with assms assign_keeps [of d other d'] show ?thesis by auto
  qed (use assms(1-4,6) edit in \<open>auto simp: ByteBuf_clear_def markReaderIndex_def markWriterIndex_def resetReaderIndex_def
      resetWriterIndex_def set_readerIndex_def bb_in_def set_defs write_defs r_bind_eq_Inr\<close>)
qed

lemma buf_reach_in: "buf_reach d0 m d \<Longrightarrow> bb_in (fst m) (snd m) d"
proof (induction rule: buf_reach.induct)
  case (buf_next m d x d')
  then show ?case using buf_step_keeps [of "fst m" "snd m" d x d' "fst (marks_after x m)" "snd (marks_after x m)"] by simp
qed (simp_all add: bb_wf_in)

section \<open>The buffer as a channel\<close>

definition bb_open :: "bytebuf \<Rightarrow> bool" where
  "bb_open d \<longleftrightarrow> bb_wf d \<and> writerIndex d = int (length (originData d))"

definition bb_content :: "bytebuf \<Rightarrow> bytes" where
  "bb_content d = drop (nat (readerIndex d)) (originData d)"

definition bb_put :: "bytes \<Rightarrow> bytebuf \<Rightarrow> bytebuf result" where
  "bb_put b d = writeBytes_mem b (int (length b)) d"

definition bb_get :: "nat \<Rightarrow> bytebuf \<Rightarrow> bytes result \<times> bytebuf" where
  "bb_get n d = map_prod (map_sum id originData) id (readBytes (int n) d)"

lemma ByteBuf_str_ok:
  "length s < 2 ^ 31 \<Longrightarrow>
   ByteBuf_str s = Inr (ByteBufData_new\<lparr>originData := s, writerIndex := int (length s)\<rparr>)"
  by (simp add: ByteBuf_str_def max_size_def i32_of_size_small)

lemma bb_open_new [simp]: "bb_open ByteBuf_new" "bb_content ByteBuf_new = []"
  by (simp_all add: bb_open_def bb_wf_def bb_content_def ByteBuf_new_def ByteBufData_new_def)

lemma writeBytes_mem_ok:
  assumes "length b < 2 ^ 31"
  shows "writeBytes_mem b (int (length b)) d = writeData b d"
  using assms by (simp add: writeBytes_mem_def size_of_i32_nonneg max_size_def)

lemma writeData_open:
  assumes "bb_open d" "length (originData d) + length b < 2 ^ 31"
  shows "\<exists>d'. writeData b d = Inr d' \<and> bb_open d' \<and> bb_content d' = bb_content d @ b
      \<and> originData d' = originData d @ b \<and> readerIndex d' = readerIndex d"
proof -
  let ?d' = "d\<lparr>originData := originData d @ b, writerIndex := writerIndex d + int (length b)\<rparr>"
  have "writeData b d = Inr ?d'"
    using assms writeData_wf [of d b] by (simp add: bb_open_def)
  moreover have "bb_open ?d'" using assms by (auto simp: bb_open_def bb_wf_def)
  moreover have "bb_content ?d' = bb_content d @ b"
    using assms by (auto simp: bb_content_def bb_open_def bb_wf_def)
  ultimately show ?thesis by auto
qed

interpretation bb_chan: byte_channel bb_open bb_content "\<lambda>d. length (originData d)" "2 ^ 31" bb_put bb_get
proof unfold_locales
  fix c :: bytebuf and b :: bytes
  assume "bb_open c" "length (originData c) + length b < 2 ^ 31"
  with writeData_open [of c b]
  show "\<exists>c'. bb_put b c = Inr c' \<and> bb_open c' \<and> bb_content c' = bb_content c @ b \<and>
      length (originData c') = length (originData c) + length b"
    by (auto simp: bb_put_def writeBytes_mem_ok)
next
  fix c :: bytebuf and n :: nat
  assume c: "bb_open c" and n: "n \<le> length (bb_content c)"
  let ?s = "take n (bb_content c)"
  have "int n < 2 ^ 31" "length ?s < 2 ^ 31"
    using c n by (auto simp: bb_open_def bb_wf_def bb_content_def)
  moreover have "bb_wf c" using c by (simp add: bb_open_def)
  ultimately have "bb_get n c = (Inr ?s, c\<lparr>readerIndex := readerIndex c + int n\<rparr>)"
    using n readBytes_eq [of c "int n"]
    by (simp add: bb_get_def bb_content_def Let_def ByteBuf_str_ok)
  moreover have "bb_open (c\<lparr>readerIndex := readerIndex c + int n\<rparr>)"
    using c n by (auto simp: bb_open_def bb_wf_def bb_content_def)
  moreover have "bb_content (c\<lparr>readerIndex := readerIndex c + int n\<rparr>) = drop n (bb_content c)"
    using c by (simp add: bb_content_def bb_open_def bb_wf_def nat_add_distrib add.commute)
  ultimately show "\<exists>c'. bb_get n c = (Inr (take n (bb_content c)), c') \<and> bb_open c' \<and>
      bb_content c' = drop n (bb_content c) \<and> length (originData c') = length (originData c)"
    by auto
qed

lemma bb_open_readable:
  "bb_open d \<Longrightarrow> readableBytes d = Inr (int (length (bb_content d)))"
  by (auto simp: readableBytes_def bb_open_def bb_wf_def bb_content_def i32_sub_def i32_def)

text \<open>Everything that waits in a buffer is read at once.\<close>

lemma readBytes_all:
  assumes "bb_open d"
  shows "readBytes (int (length (bb_content d))) d =
     (Inr (ByteBufData_new\<lparr>originData := bb_content d, writerIndex := int (length (bb_content d))\<rparr>),
      d\<lparr>readerIndex := int (length (originData d))\<rparr>)"
proof -
  have d: "bb_wf d" "length (bb_content d) < 2 ^ 31"
    "readerIndex d + int (length (bb_content d)) = int (length (originData d))"
    using assms by (auto simp: bb_open_def bb_wf_def bb_content_def)
  moreover have "take (length (bb_content d)) (drop (nat (readerIndex d)) (originData d)) = bb_content d"
    by (simp add: bb_content_def)
  ultimately show ?thesis
    using readBytes_eq [OF d(1), of "int (length (bb_content d))"] by (simp add: Let_def ByteBuf_str_ok)
qed

section \<open>Messages of typed fields\<close>

text \<open>A message is a list of fields, written with the \<open>write...\<close> operations and read with the
  \<open>read...\<close> operations of the same type.\<close>

datatype field = F8 "8 word" | F16 "16 word" | F16LE "16 word" | F32 "32 word" | F32LE "32 word"
datatype kind = K8 | K16 | K16LE | K32 | K32LE

fun kind_of :: "field \<Rightarrow> kind" where
  "kind_of (F8 _) = K8" | "kind_of (F16 _) = K16" | "kind_of (F16LE _) = K16LE"
| "kind_of (F32 _) = K32" | "kind_of (F32LE _) = K32LE"

fun field_bytes :: "field \<Rightarrow> bytes" where
  "field_bytes (F8 v) = toBinary signed_drop_bit v"
| "field_bytes (F16 v) = toBinary signed_drop_bit v"
| "field_bytes (F16LE v) = toBinaryLE signed_drop_bit v"
| "field_bytes (F32 v) = toBinary signed_drop_bit v"
| "field_bytes (F32LE v) = toBinaryLE signed_drop_bit v"

fun write_field :: "field \<Rightarrow> bytebuf \<Rightarrow> bytebuf result" where
  "write_field (F8 v) d = writeChar v d"
| "write_field (F16 v) d = writeShort v d"
| "write_field (F16LE v) d = writeShortLE v d"
| "write_field (F32 v) d = writeInt v d"
| "write_field (F32LE v) d = writeIntLE v d"

fun read_field :: "kind \<Rightarrow> bytebuf \<Rightarrow> field result \<times> bytebuf" where
  "read_field K8 d = map_prod (map_sum id F8) id (readChar d)"
| "read_field K16 d = map_prod (map_sum id F16) id (readShort d)"
| "read_field K16LE d = map_prod (map_sum id F16LE) id (readShortLE d)"
| "read_field K32 d = map_prod (map_sum id F32) id (readInt d)"
| "read_field K32LE d = map_prod (map_sum id F32LE) id (readIntLE d)"

fun read_fields :: "kind list \<Rightarrow> bytebuf \<Rightarrow> field list result \<times> bytebuf" where
  "read_fields [] d = (Inr [], d)"
| "read_fields (k # ks) d =
     (case read_field k d of
        (Inl e, d') \<Rightarrow> (Inl e, d')
      | (Inr f, d') \<Rightarrow> map_prod (map_sum id (Cons f)) id (read_fields ks d'))"

lemma write_field_eq: "write_field f d = writeData (field_bytes f) d"
  by (cases f) (simp_all add: set_defs write_defs)

lemma length_field_bytes_pos: "0 < length (field_bytes f)" "length (field_bytes f) \<le> 4"
  by (cases f; simp)+

lemma write_fields_open:
  "bb_open d \<Longrightarrow> length (originData d) + length (concat (map field_bytes fs)) < 2 ^ 31 \<Longrightarrow>
   \<exists>d'. r_fold write_field fs d = Inr d' \<and> bb_open d' \<and>
        bb_content d' = bb_content d @ concat (map field_bytes fs)"
proof (induction fs arbitrary: d)
  case (Cons f fs)
  from Cons.prems writeData_open [of d "field_bytes f"] obtain e where e: "writeData (field_bytes f) d = Inr e"
    "bb_open e" "bb_content e = bb_content d @ field_bytes f" "originData e = originData d @ field_bytes f"
    by auto
  with Cons.IH [of e] Cons.prems show ?case by (auto simp: write_field_eq)
qed simp

lemma content_at_reader:
  assumes "bb_open d" "bb_content d = b @ rest"
  shows "nat (readerIndex d) + length b \<le> length (originData d)"
    and "take (length b) (drop (nat (readerIndex d)) (originData d)) = b"
    and "bb_content (read_after (length b) d) = rest" and "bb_open (read_after (length b) d)"
proof -
  have "length (bb_content d) = length b + length rest" using assms by simp
  then show len: "nat (readerIndex d) + length b \<le> length (originData d)"
    using assms by (auto simp: bb_content_def bb_open_def bb_wf_def)
  show "take (length b) (drop (nat (readerIndex d)) (originData d)) = b"
    using assms by (simp add: bb_content_def)
  have "drop (length b) (bb_content d) = rest" using assms by simp
  with len assms(1) show "bb_content (read_after (length b) d) = rest" "bb_open (read_after (length b) d)"
    by (auto simp: read_after_def bb_content_def bb_open_def bb_wf_def nat_add_distrib add.commute)
qed

lemma read_spec_field:
  assumes "bb_open d" "bb_content d = b @ rest" "length b = n"
  shows "read_spec n val (originData d) (readerIndex d) = (Inr (word_of_nat (val b)) :: 'a::len word result)"
  using content_at_reader(1,2) [OF assms(1,2)] assms
  by (subst read_spec_fails_iff) (auto simp: bb_open_def bb_wf_def)

lemma read_field_open:
  assumes d: "bb_open d" "bb_content d = field_bytes f @ rest"
  shows "\<exists>d'. read_field (kind_of f) d = (Inr f, d') \<and> bb_open d' \<and> bb_content d' = rest"
proof -
  note at_r = content_at_reader [OF d]
  have wf: "i32 (readerIndex d)" "length (originData d) < 2 ^ 31" "bb_wf d"
    using d bb_wf_i32 by (auto simp: bb_open_def bb_wf_def)
  have "read_field (kind_of f) d = (Inr f, read_after (length (field_bytes f)) d)"
  proof (cases f)
    case (F8 v)
    let ?r = "nat (readerIndex d)"
    have b: "toBinary signed_drop_bit v = [v]" by (simp add: toBinary_spec)
    have "originData d ! ?r = v" "?r < length (originData d)"
      using at_r(1,2) F8 b by (auto simp: take_Suc_conv_app_nth)
    moreover have "i32_add (readerIndex d) 1 = Inr (readerIndex d + 1)"
      using wf at_r(1) F8 by (auto simp: i32_add_def i32_def bb_wf_def)
    moreover have "\<not> size_sub (length (originData d)) (size_of_i32 (readerIndex d)) < 1"
      using wf at_r(1) F8 too_short_iff [of "readerIndex d" "length (originData d)" 1]
      by (auto simp: bb_wf_def)
    ultimately show ?thesis
      using F8 wf at_r(1) by (simp add: readChar_def bb_wf_size_of read_after_def bb_wf_def b)
  next
    case (F16 v)
    then show ?thesis
      using readT_16 [OF wf(1,2)] read_spec_field [OF d, of 2 be_val, where ?'a = 16]
      by (simp add: readShort_def be_val_toBinary)
  next
    case (F16LE v)
    then show ?thesis
      using readT_16 [OF wf(1,2)] read_spec_field [OF d, of 2 le_val, where ?'a = 16]
      by (simp add: readShortLE_def be_val_toBinary)
  next
    case (F32 v)
    then show ?thesis
      using readT_32 [OF wf(1,2)] read_spec_field [OF d, of 4 be_val, where ?'a = 32]
      by (simp add: readInt_def be_val_toBinary)
  next
    case (F32LE v)
    then show ?thesis
      using readT_32 [OF wf(1,2)] read_spec_field [OF d, of 4 le_val, where ?'a = 32]
      by (simp add: readIntLE_def be_val_toBinary)
  qed
  with at_r(3,4) show ?thesis by blast
qed

lemma read_fields_open:
  "bb_open d \<Longrightarrow> bb_content d = concat (map field_bytes fs) @ rest \<Longrightarrow>
   \<exists>d'. read_fields (map kind_of fs) d = (Inr fs, d') \<and> bb_open d' \<and> bb_content d' = rest"
proof (induction fs arbitrary: d)
  case (Cons f fs)
  from Cons.prems read_field_open [of d f "concat (map field_bytes fs) @ rest"] obtain e where
    "read_field (kind_of f) d = (Inr f, e)" "bb_open e" "bb_content e = concat (map field_bytes fs) @ rest"
    by auto
  with Cons.IH [of e] show ?case by auto
qed simp

section \<open>Properties\<close>

text \<open>C1: Any message of 8-, 16- and 32-bit fields in either byte order that is written to a new
  \<open>ByteBuf\<close>, of fewer than \<open>2 ^ 31\<close> bytes in all, is read back field by field unchanged, and then
  nothing is readable.\<close>
theorem message_round_trip:
  assumes "length (concat (map field_bytes fs)) < 2 ^ 31"
  shows "\<exists>d d'. r_fold write_field fs ByteBuf_new = Inr d \<and>
      read_fields (map kind_of fs) d = (Inr fs, d') \<and> isReadable d' = Inr False"
proof -
  have "length (originData ByteBuf_new) = 0" by (simp add: ByteBuf_new_def ByteBufData_new_def)
  with write_fields_open [of ByteBuf_new fs] assms obtain d where
    d: "r_fold write_field fs ByteBuf_new = Inr d" "bb_open d" "bb_content d = concat (map field_bytes fs)"
    by auto
  with read_fields_open [of d fs "[]"] obtain d' where
    d': "read_fields (map kind_of fs) d = (Inr fs, d')" "bb_open d'" "bb_content d' = []" by auto
  have "isReadable d' = Inr False"
    using bb_open_readable [OF d'(2)] d'(3) by (simp add: isReadable_def readableBytes_def)
  with d d' show ?thesis by blast
qed

theorem message_round_trip_witness:
  "\<exists>d d'. r_fold write_field [F32 0xDEADBEEF, F8 7, F16LE 0x8001] ByteBuf_new = Inr d \<and>
     read_fields [K32, K8, K16LE] d = (Inr [F32 0xDEADBEEF, F8 7, F16LE 0x8001], d') \<and>
     isReadable d' = Inr False"
  using message_round_trip [of "[F32 0xDEADBEEF, F8 7, F16LE 0x8001]"] by simp

text \<open>\<open>ByteBuf\<close> implements a first-in first-out channel: chunks written with
  \<open>writeBytes(data, size)\<close> to a new buffer, of fewer than \<open>2 ^ 31\<close> bytes together, are returned by
  one \<open>readBytes\<close> of their total length as their concatenation, after which nothing is readable.\<close>
theorem chunks_fifo:
  assumes "length (concat bs) < 2 ^ 31"
  shows "\<exists>d d' r. r_fold (\<lambda>b. writeBytes_mem b (int (length b))) bs ByteBuf_new = Inr d \<and>
      readBytes (int (length (concat bs))) d = (Inr r, d') \<and> originData r = concat bs \<and>
      readableBytes d' = Inr 0"
proof -
  have new: "length (originData ByteBuf_new) = 0" by (simp add: ByteBuf_new_def ByteBufData_new_def)
  have put: "(\<lambda>b. writeBytes_mem b (int (length b))) = bb_put" by (simp add: fun_eq_iff bb_put_def)
  from bb_chan.put_many_get [of ByteBuf_new bs] assms obtain d d' where
    d: "r_fold bb_put bs ByteBuf_new = Inr d" "bb_get (length (concat bs)) d = (Inr (concat bs), d')"
    "bb_open d'" "bb_content d' = []"
    by (auto simp: new)
  then obtain r where "readBytes (int (length (concat bs))) d = (Inr r, d')" "originData r = concat bs"
    by (auto simp: bb_get_def map_prod_def map_sum_def split: prod.splits sum.splits)
  moreover have "readableBytes d' = Inr 0" using bb_open_readable [OF d(3)] d(4) by simp
  ultimately show ?thesis using d(1) unfolding put by blast
qed

theorem chunks_fifo_witness:
  "\<exists>d d' r. r_fold (\<lambda>b. writeBytes_mem b (int (length b))) [[1, 0], [], [2]] ByteBuf_new = Inr d \<and>
     readBytes 3 d = (Inr r, d') \<and> originData r = [1, 0, 2] \<and> readableBytes d' = Inr 0"
  using chunks_fifo [of "[[1, 0], [], [2]]"] by simp

text \<open>C19: In every state that a run of any operations that change a \<open>ByteBuf\<close> reaches from a well-formed
  buffer, whatever the arguments (a negative \<open>readerIndex(int)\<close> and an ill-formed source of an assignment
  apart), with exceptions caught, and up to undefined behaviour of a 64-bit or floating-point reader, the
  reader and the writer index lie between 0 and the length of the contents, and so does each mark unless
  \<open>discardReadBytes\<close> came after it was set. The run never calls \<open>resetReaderIndex\<close> or \<open>resetWriterIndex\<close> with
  such a stale mark, and the buffer has fewer than \<open>2 ^ 31\<close> bytes throughout.\<close>
theorem indices_in_buffer:
  assumes "buf_reach d0 (mr, mw) d"
  shows "0 \<le> readerIndex d \<and> readerIndex d \<le> int (length (originData d)) \<and>
    0 \<le> writerIndex d \<and> writerIndex d \<le> int (length (originData d)) \<and>
    (mr \<longrightarrow> 0 \<le> markedReaderIndex d \<and> markedReaderIndex d \<le> int (length (originData d))) \<and>
    (mw \<longrightarrow> 0 \<le> markedWriterIndex d \<and> markedWriterIndex d \<le> int (length (originData d)))"
  using buf_reach_in [OF assms] by (simp add: bb_in_def)

theorem indices_in_buffer_witness:
  "\<exists>d. buf_reach ByteBuf_new (False, False) d \<and> originData d = [7] \<and> readerIndex d \<le> 1"
proof -
  let ?d1 = "ByteBufData_new\<lparr>originData := [5], writerIndex := 1\<rparr>"
    and ?d2 = "ByteBufData_new\<lparr>originData := [5, 7], writerIndex := 2\<rparr>"
  have new: "bb_wf ByteBuf_new" by (simp add: bb_wf_def ByteBuf_new_def ByteBufData_new_def)
  note run = ByteBuf_new_def ByteBufData_new_def writeChar_def writeT_def toBinary_def writeData_def size_of_i32_def size_mod_def
    max_size_def i32_of_size_def i32_add_def i32_def discardReadBytes_def str_substr_def npos_def
  have "buf_step (OpWrite (VChar 5)) ByteBuf_new = Inr ?d1" "buf_step (OpWrite (VChar 7)) ?d1 = Inr ?d2"
    "buf_step OpDiscard ?d2 = Inr (ByteBufData_new\<lparr>originData := [7]\<rparr>)"
    by (simp_all add: run)
  with buf_next [OF buf_next [OF buf_next [OF buf_start [OF new]]], of "OpWrite (VChar 5)" ?d1 "OpWrite (VChar 7)" ?d2 OpDiscard]
  have reach: "buf_reach ByteBuf_new (False, False) (ByteBufData_new\<lparr>originData := [7]\<rparr>)"
    by (simp add: ByteBufData_new_def)
  from indices_in_buffer [OF reach] reach show ?thesis by (intro exI [of _ "ByteBufData_new\<lparr>originData := [7]\<rparr>"]) simp
qed

text \<open>After \<open>discardReadBytes\<close> a mark can lie behind the contents, and \<open>resetReaderIndex\<close> takes it.\<close>
theorem discard_leaves_marks:
  "\<exists>d. r_fold buf_step [OpWrite (VInt v), OpSkip 3, OpMarkReader, OpDiscard, OpResetReader] ByteBuf_new = Inr d \<and>
     originData d = [] \<and> readerIndex d = 3"
proof -
  have len: "length (toBinary signed_drop_bit v) = 4" by simp
  let ?d = "ByteBufData_new\<lparr>originData := toBinary signed_drop_bit v, writerIndex := 4\<rparr>"
  have "writeInt v ByteBuf_new = Inr ?d"
    by (simp add: writeInt_def writeT_def ByteBuf_new_def ByteBufData_new_def writeData_def
        size_of_i32_def size_mod_def max_size_def i32_of_size_def i32_add_def i32_def)
  then show ?thesis
    by (simp add: skipBytes_def ByteBufData_new_def markReaderIndex_def resetReaderIndex_def discardReadBytes_def str_substr_def
        npos_def size_of_i32_def size_mod_def i32_add_def i32_def)
qed

text \<open>The order \<open>readerIndex <= writerIndex\<close> that \<open>ByteBuf.h\<close> draws is not an invariant: after a
  write, \<open>clear\<close> and a read of the same width, the reader is past the writer and
  \<open>readableBytes\<close> is negative, because the readers check the contents and not \<open>writerIndex\<close>.\<close>
theorem reader_passes_writer:
  "\<exists>d. r_fold buf_step [OpWrite (VInt v), OpClear, OpRead RInt] ByteBuf_new = Inr d \<and>
     readerIndex d = 4 \<and> writerIndex d = 0 \<and> readableBytes d = Inr (- 4)"
proof -
  let ?d = "\<lparr>originData = toBinary signed_drop_bit v, readerIndex = 0, writerIndex = 0,
     markedReaderIndex = 0, markedWriterIndex = 0\<rparr>"
  have "writeInt v ByteBuf_new = Inr (?d\<lparr>writerIndex := 4\<rparr>)"
    by (simp add: writeInt_def writeT_def ByteBuf_new_def ByteBufData_new_def writeData_def
        size_of_i32_def size_mod_def max_size_def i32_of_size_def i32_add_def i32_def)
  moreover have "readInt ?d = (Inr v, ?d\<lparr>readerIndex := 4\<rparr>)"
    using readT_32 [of ?d] by (simp add: readInt_def i32_def read_spec_def be_val_toBinary read_after_def)
  ultimately show ?thesis
    by (simp add: ByteBuf_clear_def after_read_def readableBytes_def i32_sub_def i32_def)
qed

end
