(* ===== verification/ByteBufText.thy ===== *)
theory ByteBufText
  imports ByteBufWrite
begin

text \<open>
  The hexadecimal text of a buffer and back, the searches, and the operations that copy, discard or
  insert bytes, with the places where they differ from their description in \<open>ByteBuf.h\<close>.
\<close>

section \<open>Hexadecimal digits\<close>

lemma below_16: "k < 16 \<Longrightarrow> k \<in> set [0, 1, 2, 3, 4, 5, 6, 7, 8, 9, 10, 11, 12, 13, 14, 15 :: nat]"
  by (simp only: set_simps insert_iff empty_iff) arith

lemma digit_value_lower: "k < 16 \<Longrightarrow> fromHexDigit (scast (ascii ''0123456789abcdef'' ! k)) = int k"
  by (drule below_16) (auto simp: ascii_def fromHexDigit_def)

lemma digit_value_upper: "k < 16 \<Longrightarrow> fromHexDigit (scast (ascii ''0123456789ABCDEF'' ! k)) = int k"
  by (drule below_16) (auto simp: ascii_def fromHexDigit_def)

lemma and_F: "(w :: 32 word) AND 0xF = take_bit 4 w"
  by (simp add: take_bit_eq_mask mask_eq_exp_minus_1)

lemma hex_digit_value: "fromHexDigit (scast (hex_digit t w)) = uint (take_bit 4 w)"
proof -
  have "unat (take_bit 4 w) < 16"
    using take_bit_nat_less_exp [of 4 "unat w"] by (simp add: unsigned_take_bit_eq)
  then show ?thesis
    by (simp add: hex_digit_def toHexLower_def toHexUpper_def and_F digit_value_lower digit_value_upper)
qed

definition hex_byte :: "hex_case \<Rightarrow> byte \<Rightarrow> bytes" where
  "hex_byte t ch = [hex_digit t (signed_drop_bit 4 (scast ch)), hex_digit t (scast ch AND 0xF)]"

text \<open>The sign extension of the promotion does not reach the nibble that is kept; an unsigned
  \<open>char\<close> would give the same digits.\<close>

lemma below_4: "n < 4 \<Longrightarrow> n \<in> set [0, 1, 2, 3 :: nat]"
  by (simp only: set_simps insert_iff empty_iff) arith

lemma nibble_high:
  fixes ch :: byte
  shows "uint (take_bit 4 (signed_drop_bit 4 (scast ch) :: 32 word)) = uint (drop_bit 4 ch)"
proof (rule bit_eqI)
  fix n
  show "bit (uint (take_bit 4 (signed_drop_bit 4 (scast ch) :: 32 word))) n = bit (uint (drop_bit 4 ch)) n"
  proof (cases "n < 4")
    case True
    then show ?thesis by (drule_tac below_4) (auto simp: bit_simps)
  next
    case False
    then show ?thesis by (auto simp: bit_simps dest: bit_imp_le_length)
  qed
qed

lemma nibble_low:
  fixes ch :: byte
  shows "uint (take_bit 4 (scast ch AND 0xF :: 32 word)) = uint (take_bit 4 ch)"
proof (rule bit_eqI)
  fix n
  show "bit (uint (take_bit 4 (scast ch AND 0xF :: 32 word))) n = bit (uint (take_bit 4 ch)) n"
  proof (cases "n < 4")
    case True
    then show ?thesis by (drule_tac below_4) (auto simp: and_F bit_simps)
  next
    case False
    then show ?thesis by (auto simp: bit_simps)
  qed
qed

lemma hex_pair_nibbles:
  fixes ch :: byte
  shows "hex_pair (uint (drop_bit 4 ch)) (uint (take_bit 4 ch)) = Inr ch"
proof -
  have "\<not> bit (drop_bit 4 ch) 7" by (auto simp: bit_simps dest: bit_imp_le_length)
  then have "\<not> sint (drop_bit 4 ch) < 0"
    using bit_last_iff [of "drop_bit 4 ch"] by simp
  moreover have "(word_of_int (sint (drop_bit 4 ch) * 2 ^ 4) :: byte) = push_bit 4 (drop_bit 4 ch)"
    by (simp add: push_bit_eq_mult)
  moreover have "push_bit 4 (drop_bit 4 ch) OR take_bit 4 ch = ch"
    by (rule bit_word_eqI) (auto simp: bit_simps)
  ultimately show ?thesis by (simp add: hex_pair_def Let_def)
qed

lemma hex_byte_value:
  "hex_pair (fromHexDigit (scast (hex_byte t ch ! 0))) (fromHexDigit (scast (hex_byte t ch ! 1))) = Inr ch"
  by (simp only: hex_byte_def nth_Cons_0 One_nat_def nth_Cons_Suc hex_digit_value nibble_high nibble_low
      hex_pair_nibbles)

lemma length_hex_byte [simp]: "length (hex_byte t ch) = 2"
  by (simp add: hex_byte_def)

lemma toHexString_hex_byte: "toHexString t [] d = concat (map (hex_byte t) (originData d))"
  by (simp add: toHexString_def hex_byte_def [abs_def])

section \<open>Hexadecimal round trip\<close>

lemma fromHex_loop_byte:
  assumes "length (pre @ hex_byte t ch @ post) < 2 ^ 31"
  shows "fromHex_loop (pre @ hex_byte t ch @ post) (int (length pre)) d =
    r_bind (writeData [ch] d) (fromHex_loop (pre @ hex_byte t ch @ post) (int (length pre) + 2))"
proof -
  let ?s = "pre @ hex_byte t ch @ post"
  have at0: "?s ! length pre = hex_byte t ch ! 0"
    by (simp add: nth_append)
  have at1: "?s ! Suc (length pre) = hex_byte t ch ! 1"
    by (simp add: nth_append)
  have sizes: "size_of_i32 (int (length pre)) = length pre"
    "size_of_i32 (int (length pre) + 1) = Suc (length pre)"
    using assms by (simp_all add: size_of_i32_nonneg nat_add_distrib)
  have lt: "size_of_i32 (int (length pre)) < size_sub (length ?s) 1"
    using assms by (simp add: sizes size_sub_le)
  have adds: "i32_add (int (length pre)) 1 = Inr (int (length pre) + 1)"
    "i32_add (int (length pre) + 1) 1 = Inr (int (length pre) + 2)"
    using assms by (simp_all add: i32_add_def i32_def)
  have b: "toBinary signed_drop_bit ch = [ch]" by (simp add: toBinary_spec)
  have "str_at ?s (length pre) = Inr (hex_byte t ch ! 0)"
    "str_at ?s (Suc (length pre)) = Inr (hex_byte t ch ! 1)"
    using at0 at1 by (simp_all add: str_at_def)
  with lt show ?thesis
    by (subst fromHex_loop.simps)
      (simp add: sizes adds hex_byte_value [simplified] writeT_def b)
qed

lemma fromHex_loop_bytes:
  "bb_open d \<Longrightarrow> length (originData d) + length bs < 2 ^ 31 \<Longrightarrow> s = pre @ concat (map (hex_byte t) bs) \<Longrightarrow>
   length s < 2 ^ 31 \<Longrightarrow> s \<noteq> [] \<Longrightarrow>
   \<exists>d'. fromHex_loop s (int (length pre)) d = Inr d' \<and> bb_open d' \<and> bb_content d' = bb_content d @ bs
      \<and> originData d' = originData d @ bs"
proof (induction bs arbitrary: d pre)
  case Nil
  then have "size_of_i32 (int (length pre)) = length pre" "size_sub (length s) 1 = length s - 1"
    by (auto simp: size_of_i32_nonneg size_sub_le Suc_le_eq)
  with Nil show ?case by (subst fromHex_loop.simps) auto
next
  case (Cons b bs)
  from Cons.prems writeData_open [of d "[b]"] obtain e where e: "writeData [b] d = Inr e" "bb_open e"
    "bb_content e = bb_content d @ [b]" "originData e = originData d @ [b]" by auto
  have "fromHex_loop s (int (length pre)) d = fromHex_loop s (int (length (pre @ hex_byte t b))) e"
    using Cons.prems e(1) fromHex_loop_byte [of pre t b "concat (map (hex_byte t) bs)" d]
    by (simp add: add.commute)
  moreover from Cons.IH [of e "pre @ hex_byte t b"] Cons.prems e
  obtain d' where "fromHex_loop s (int (length (pre @ hex_byte t b))) e = Inr d'" "bb_open d'"
    "bb_content d' = bb_content e @ bs" "originData d' = originData e @ bs" by auto
  ultimately show ?case using e by auto
qed

lemma length_hex_bytes: "length (concat (map (hex_byte t) bs)) = 2 * length bs"
  by (induction bs) simp_all

text \<open>C36: The hexadecimal text of a non-empty buffer, in either case and without separator, is
  decoded by \<open>fromHex\<close> to a buffer with the same contents, all of it readable, for fewer than
  \<open>2 ^ 30\<close> bytes.\<close>
theorem hex_round_trip:
  assumes "originData d \<noteq> []" "length (originData d) < 2 ^ 30"
  shows "\<exists>d'. fromHex (toHexString t [] d) = Inr d' \<and> originData d' = originData d \<and>
      readableBytes d' = Inr (int (length (originData d)))"
proof -
  have "originData ByteBuf_new = []" by (simp add: ByteBuf_new_def ByteBufData_new_def)
  moreover have "toHexString t [] d \<noteq> []"
    using assms length_hex_bytes [of t "originData d"]
    by (metis length_0_conv mult_is_0 toHexString_hex_byte zero_neq_numeral)
  ultimately obtain d' where "fromHex_loop (toHexString t [] d) 0 ByteBuf_new = Inr d'"
    "bb_open d'" "bb_content d' = originData d" "originData d' = originData d"
    using assms fromHex_loop_bytes [of ByteBuf_new "originData d" "toHexString t [] d" "[]" t]
    by (auto simp: toHexString_hex_byte length_hex_bytes)
  then show ?thesis using bb_open_readable [of d'] by (simp add: fromHex_def noexcept_def)
qed

theorem hex_round_trip_witness:
  "\<exists>d'. fromHex (toHexString Upper [] (ByteBufData_new\<lparr>originData := [0xff, 0x80, 0]\<rparr>)) = Inr d' \<and>
     originData d' = [0xff, 0x80, 0] \<and> readableBytes d' = Inr 3"
  using hex_round_trip [of "ByteBufData_new\<lparr>originData := [0xff, 0x80, 0]\<rparr>" Upper] by simp

text \<open>\<open>fromHex\<close> of the empty string does not return an empty buffer: \<open>length() - 1\<close> wraps, the
  loop reads past the end, and the exception meets \<open>noexcept\<close>. Two digits that are no hexadecimal
  digits are an undefined shift of \<open>-1\<close>.\<close>
theorem fromHex_failures:
  "fromHex [] = Inl Terminate \<and> fromHex (ascii ''zz'') = Inl Undefined"
proof -
  have "fromHex_loop [] 0 ByteBuf_new = Inl OutOfRange"
    by (subst fromHex_loop.simps) (simp add: size_sub_def size_mod_def size_of_i32_def str_at_def)
  moreover have "fromHex_loop (ascii ''zz'') 0 ByteBuf_new = Inl Undefined"
    by (subst fromHex_loop.simps)
      (simp add: size_sub_def size_mod_def size_of_i32_def str_at_def ascii_def i32_add_def i32_def
        fromHexDigit_def hex_pair_def)
  ultimately show ?thesis by (simp add: fromHex_def noexcept_def)
qed

section \<open>Searches\<close>

definition first_offset :: "'a \<Rightarrow> 'a list \<Rightarrow> int" where
  "first_offset v xs = (if v \<in> set xs then int (length (takeWhile (\<lambda>c. c \<noteq> v) xs)) else - 1)"

lemma first_offset_simps [simp]:
  "first_offset v [] = - 1"
  "first_offset v (x # xs) =
     (if x = v then 0 else if v \<in> set xs then first_offset v xs + 1 else - 1)"
  by (auto simp: first_offset_def)

lemma first_offset_none [simp]: "v \<notin> set xs \<Longrightarrow> first_offset v xs = - 1"
  by (simp add: first_offset_def)

lemma window_cons:
  "0 \<le> i \<Longrightarrow> i < j \<Longrightarrow> nat i < length s \<Longrightarrow>
   drop (nat i) (take (nat j) s) = s ! nat i # drop (nat (i + 1)) (take (nat j) s)"
  by (subst Cons_nth_drop_Suc [symmetric]) (auto simp: nat_add_distrib nth_take)

lemma bytesBefore_loop_spec:
  "bb_wf d \<Longrightarrow> readerIndex d \<le> i \<Longrightarrow>
   bytesBefore_loop v i d =
     Inr (let xs = drop (nat i) (take (nat (writerIndex d)) (originData d))
          in if v \<in> set xs then i - readerIndex d + first_offset v xs else - 1)"
proof (induction v i d rule: bytesBefore_loop.induct)
  case (1 v i d)
  show ?case
  proof (cases "i < writerIndex d")
    case False
    then have "drop (nat i) (take (nat (writerIndex d)) (originData d)) = []" by simp
    with False show ?thesis by (simp add: bytesBefore_loop.simps Let_def)
  next
    case True
    with 1 have i: "0 \<le> i" "i < 2 ^ 31" "nat i < length (originData d)"
      by (auto simp: bb_wf_def)
    then have sz: "size_of_i32 i = nat i" "i32_add i 1 = Inr (i + 1)"
      "i32_sub i (readerIndex d) = Inr (i - readerIndex d)"
      using 1 True by (auto simp: size_of_i32_nonneg i32_add_def i32_sub_def i32_def bb_wf_def)
    note win = window_cons [OF i(1) True i(3)]
    show ?thesis
    proof (cases "originData d ! nat i = v")
      case True
      with \<open>i < writerIndex d\<close> sz i win show ?thesis by (subst bytesBefore_loop.simps) (simp add: Let_def)
    next
      case False
      have "bytesBefore_loop v i d = bytesBefore_loop v (i + 1) d"
        using True False sz i by (subst bytesBefore_loop.simps) simp
      with "1.IH" [of "originData d ! nat i" "i + 1"] False True 1 sz i win
      show ?thesis by (simp add: Let_def)
    qed
  qed
qed

text \<open>\<open>bytesBefore(value)\<close> of a well-formed buffer is the distance from the reader index to the
  first occurrence of the value between the reader and the writer index, or -1 if there is none.\<close>
theorem bytesBefore_spec:
  assumes "bb_wf d"
  shows "bytesBefore v d =
    Inr (first_offset v (drop (nat (readerIndex d)) (take (nat (writerIndex d)) (originData d))))"
  using bytesBefore_loop_spec [OF assms, of "readerIndex d" v] by (auto simp: bytesBefore_def Let_def)

theorem bytesBefore_spec_witness:
  "bytesBefore 9 (ByteBufData_new\<lparr>originData := [9, 1, 9, 9], readerIndex := 1, writerIndex := 3\<rparr>) = Inr 1"
  using bytesBefore_spec [of "ByteBufData_new\<lparr>originData := [9, 1, 9, 9], readerIndex := 1, writerIndex := 3\<rparr>" 9]
  by (simp add: bb_wf_def ByteBufData_new_def)

lemma run_ok_spec:
  "0 \<le> i \<Longrightarrow> stop < 2 ^ 31 \<Longrightarrow> nat stop \<le> length s \<Longrightarrow>
   run_ok s v i stop = Inr (\<forall>c \<in> set (drop (nat i) (take (nat stop) s)). c = v)"
proof (induction s v i stop rule: run_ok.induct)
  case (1 s v i stop)
  show ?case
  proof (cases "i < stop")
    case False
    then have "drop (nat i) (take (nat stop) s) = []" by simp
    with False show ?thesis by (simp add: run_ok.simps)
  next
    case True
    with 1 have sz: "size_of_i32 i = nat i" "i32_add i 1 = Inr (i + 1)" "nat i < length s"
      by (auto simp: size_of_i32_nonneg i32_add_def i32_def)
    have "run_ok s v i stop = (if s ! nat i \<noteq> v then Inr False else run_ok s v (i + 1) stop)"
      using True sz by (subst run_ok.simps) simp
    with "1.IH" [of "s ! nat i" "i + 1"] True 1 sz window_cons [of i stop s]
    show ?thesis by (cases "s ! nat i = v") simp_all
  qed
qed

definition run_at :: "bytes \<Rightarrow> byte \<Rightarrow> int \<Rightarrow> int \<Rightarrow> bool" where
  "run_at s v i len \<longleftrightarrow> (\<forall>c \<in> set (take (nat len) (drop (nat i) s)). c = v)"

lemma bytesBefore_run_loop_unfold:
  assumes "bb_wf d" "1 \<le> len" "i32 len" "readerIndex d \<le> i"
  shows "bytesBefore_run_loop len v i d =
    (if i < writerIndex d - len then
       if run_at (originData d) v i len then Inr (i - readerIndex d)
       else bytesBefore_run_loop len v (i + 1) d
     else Inr (- 1))"
proof -
  have bnd: "i32_sub (writerIndex d) len = Inr (writerIndex d - len)"
    using assms by (auto simp: bb_wf_def i32_def i32_sub_def)
  show ?thesis
  proof (cases "i < writerIndex d - len")
    case False
    with bnd show ?thesis by (simp add: bytesBefore_run_loop.simps)
  next
    case True
    with assms have i: "0 \<le> i" "nat i < length (originData d)" "nat (i + len) \<le> length (originData d)"
      "i + len < 2 ^ 31" "i + len < writerIndex d"
      by (auto simp: bb_wf_def)
    with assms True have sz: "size_of_i32 i = nat i" "i32_add i 1 = Inr (i + 1)"
      "i32_add i len = Inr (i + len)" "i32_sub i (readerIndex d) = Inr (i - readerIndex d)"
      by (auto simp: size_of_i32_nonneg i32_add_def i32_sub_def i32_def bb_wf_def)
    have win: "take (nat len) (drop (nat i) (originData d)) =
        originData d ! nat i # drop (nat (i + 1)) (take (nat (i + len)) (originData d))"
      using i assms window_cons [of i "i + len" "originData d"]
      by (simp add: take_drop nat_add_distrib add.commute)
    have "run_ok (originData d) v (i + 1) (i + len) =
        Inr (\<forall>c \<in> set (drop (nat (i + 1)) (take (nat (i + len)) (originData d))). c = v)"
      using i by (intro run_ok_spec) auto
    with True bnd sz i win show ?thesis
      by (subst bytesBefore_run_loop.simps) (auto simp: run_at_def)
  qed
qed

lemma bytesBefore_run_loop_sound:
  assumes "bb_wf d" "1 \<le> len" "i32 len" "k \<noteq> - 1"
  shows "nat (writerIndex d - i) = n \<Longrightarrow> readerIndex d \<le> i \<Longrightarrow> bytesBefore_run_loop len v i d = Inr k \<Longrightarrow>
    i - readerIndex d \<le> k \<and> readerIndex d + k + len < writerIndex d \<and>
    run_at (originData d) v (readerIndex d + k) len"
proof (induction n arbitrary: i rule: less_induct)
  case (less n)
  note unf = bytesBefore_run_loop_unfold [OF assms(1-3) less.prems(2), of v]
  from less.prems unf assms have lt: "i < writerIndex d - len" by (auto split: if_splits)
  show ?case
  proof (cases "run_at (originData d) v i len")
    case True
    with less.prems unf lt show ?thesis by auto
  next
    case False
    with less.prems unf lt assms less.IH [of "nat (writerIndex d - (i + 1))" "i + 1"] show ?thesis by auto
  qed
qed

text \<open>When \<open>bytesBefore(length, value)\<close> of a well-formed buffer returns an offset, the value
  stands \<open>length\<close> times there, in front of the writer index; but it never finds a run that ends at
  the writer index, so it reports -1 for a buffer that is one such run.\<close>
theorem bytesBefore_run_sound:
  assumes "bb_wf d" "1 \<le> len" "i32 len" "bytesBefore_run len v d = Inr k" "k \<noteq> - 1"
  shows "0 \<le> k \<and> readerIndex d + k + len < writerIndex d \<and>
    run_at (originData d) v (readerIndex d + k) len"
  using bytesBefore_run_loop_sound [OF assms(1-3,5) refl, of "readerIndex d" v] assms
  by (simp add: bytesBefore_run_def bytesBefore_from_def)

theorem bytesBefore_run_sound_witness:
  "run_at [1, 7, 7, 3] 7 1 2"
proof -
  let ?d = "ByteBufData_new\<lparr>originData := [1, 7, 7, 3], writerIndex := 4\<rparr>"
  have "bytesBefore_run 2 7 ?d = Inr 1"
    using bytesBefore_run_loop_unfold [of ?d 2 0 7] bytesBefore_run_loop_unfold [of ?d 2 1 7]
    by (simp add: bytesBefore_run_def bytesBefore_from_def bb_wf_def ByteBufData_new_def i32_def run_at_def)
  then show ?thesis
    using bytesBefore_run_sound [of ?d 2 7 1] by (simp add: bb_wf_def ByteBufData_new_def i32_def)
qed

lemma bytesBefore_run_misses_last:
  assumes "1 \<le> n" "n < 2 ^ 31"
  shows "bytesBefore_run (int n) v
      (ByteBufData_new\<lparr>originData := replicate n v, writerIndex := int n\<rparr>) = Inr (- 1)"
  using assms bytesBefore_run_loop_unfold
    [of "ByteBufData_new\<lparr>originData := replicate n v, writerIndex := int n\<rparr>" "int n" 0 v]
  by (simp add: bytesBefore_run_def bytesBefore_from_def bb_wf_def ByteBufData_new_def i32_def)

section \<open>Contents\<close>

text \<open>\<open>discardReadBytes\<close> of a well-formed buffer keeps what follows the reader index except the
  first unread byte, and makes nothing readable: the writer index becomes 0. At the end of the
  contents it throws.\<close>
theorem discardReadBytes_spec:
  assumes "bb_wf d" "length (originData d) + 1 < 2 ^ 31"
  shows "discardReadBytes d =
    (if nat (readerIndex d) = length (originData d) then Inl OutOfRange
     else Inr (d\<lparr>originData := tl (bb_content d), readerIndex := 0, writerIndex := 0\<rparr>))"
proof (cases "nat (readerIndex d) = length (originData d)")
  case True
  with assms show ?thesis
    by (auto simp: discardReadBytes_def bb_wf_def i32_add_def i32_def size_of_i32_def size_mod_def
        nat_add_distrib)
next
  case False
  with assms have "i32_add (readerIndex d) 1 = Inr (readerIndex d + 1)"
    "size_of_i32 (readerIndex d + 1) = Suc (nat (readerIndex d))"
    "Suc (nat (readerIndex d)) \<le> length (originData d)"
    by (auto simp: bb_wf_def i32_add_def i32_def size_of_i32_def size_mod_def nat_add_distrib)
  moreover have "length (originData d) \<le> npos" using assms by (simp add: bb_wf_def npos_def)
  ultimately show ?thesis
    using False by (simp add: discardReadBytes_def bb_content_def tl_drop drop_Suc)
qed

theorem discardReadBytes_spec_witness:
  "\<exists>d. discardReadBytes (ByteBufData_new\<lparr>originData := [1, 2, 3, 4], readerIndex := 1, writerIndex := 4\<rparr>) = Inr d \<and>
     originData d = [3, 4]"
  using discardReadBytes_spec [of "ByteBufData_new\<lparr>originData := [1, 2, 3, 4], readerIndex := 1, writerIndex := 4\<rparr>"]
  by (simp add: bb_wf_def ByteBufData_new_def bb_content_def)

text \<open>A receive buffer is cleared and written again: the new bytes are inserted in front of the old
  ones, which are never released.\<close>

definition refill :: "bytes \<Rightarrow> bytebuf \<Rightarrow> bytebuf result" where
  "refill b d = writeBytes_mem b (int (length b)) (ByteBuf_clear d)"

lemma refill_wf:
  assumes "bb_wf d" "length (originData d) + length b < 2 ^ 31"
  shows "refill b d = Inr (d\<lparr>originData := b @ originData d, readerIndex := 0, writerIndex := int (length b)\<rparr>)"
proof -
  have "bb_wf (ByteBuf_clear d)" using assms by (auto simp: bb_wf_def ByteBuf_clear_def)
  with writeData_wf [of "ByteBuf_clear d" b] assms show ?thesis
    by (simp add: refill_def writeBytes_mem_ok ByteBuf_clear_def)
qed

text \<open>After any number of rounds of \<open>clear\<close> and \<open>writeBytes\<close>, the reader sees exactly the last
  chunk between the indices, but the contents hold every chunk ever written, the last one first.\<close>
theorem clear_write_keeps_everything:
  assumes "bb_wf d" "length (originData d) + length (concat bs) + length b < 2 ^ 31"
  shows "\<exists>d'. r_fold refill (bs @ [b]) d = Inr d' \<and> readerIndex d' = 0 \<and> writerIndex d' = int (length b) \<and>
     originData d' = concat (rev (bs @ [b])) @ originData d"
  using assms
proof (induction bs arbitrary: d)
  case Nil
  then show ?case by (simp add: refill_wf)
next
  case (Cons c bs)
  let ?e = "d\<lparr>originData := c @ originData d, readerIndex := 0, writerIndex := int (length c)\<rparr>"
  have "refill c d = Inr ?e" using Cons.prems by (simp add: refill_wf)
  moreover have "bb_wf ?e" using Cons.prems by (auto simp: bb_wf_def)
  ultimately show ?case using Cons.IH [of ?e] Cons.prems by simp
qed

theorem clear_write_keeps_everything_witness:
  "\<exists>d'. r_fold refill [[1, 2], [3]] ByteBuf_new = Inr d' \<and> originData d' = [3, 1, 2]"
  using clear_write_keeps_everything [of ByteBuf_new "[[1, 2]]" "[3]"]
  by (auto simp: bb_wf_def ByteBuf_new_def ByteBufData_new_def)

text \<open>\<open>writeBytes\<close> and \<open>setBytes\<close> of another buffer pass its contents as a C string, so the other
  buffer's contents from its first zero byte on are not written.\<close>
theorem writeBytes_stops_at_zero:
  "writeBytes buf d = writeData (takeWhile (\<lambda>c. c \<noteq> 0) (originData buf)) d \<and>
   setBytes i buf d = setData i (takeWhile (\<lambda>c. c \<noteq> 0) (originData buf)) d"
  by (simp add: writeBytes_def setBytes_def ByteBuf_data_def str_of_cstr_data)

end
