(* ===== verification/TcpConnection.thy ===== *)
theory TcpConnection
  imports PollerSafe Socket ByteBufText
begin

text \<open>
  The class \<open>TcpConnection\<close> of \<open>gwcpp/net/TcpConnection.h\<close> and \<open>TcpConnection.cpp\<close>, and the
  \<open>TcpServer\<close> of \<open>gwcpp/net/TcpServer.h\<close> and \<open>TcpServer.cpp\<close> that owns its connections. The
  state \<open>net\<close> adds to the poller the connections (a pointer is an index into \<open>conns\<close>), the
  \<open>disconnect\<close> tasks that wait in the loop's queue, the server's map of connections, and the
  history: what was handed to \<open>::send\<close>, and the calls of the user's callbacks. A callback of the
  user is only recorded; what it does is not modelled. The answers of the kernel are arguments.
\<close>

section \<open>State\<close>

datatype conn_state = CsDisconnected | CsConnecting | CsConnected | CsDisconnecting

record tcp_conn =
  tc_state :: conn_state
  tc_socket :: socket
  tc_name :: string
  tc_event :: nat
  read_buffer :: bytebuf
  write_buffer :: bytebuf

text \<open>The receive callback gets a pointer to \<open>data()\<close> and a length: the memory behind the pointer is
  recorded.\<close>

datatype user_call = UConnected nat | UReceived nat bytes int | UClosed "nat option"

text \<open>The tasks that the classes of \<open>net\<close> queue in the loop: \<open>disconnect\<close> of a connection, and
  \<open>resetEvent\<close> of a connector.\<close>

datatype loop_task = TDisconnect nat | TResetEvent

record net = poller +
  conns :: "tcp_conn list"
  loop_tasks :: "loop_task list"
  sent_log :: "(nat \<times> bytes) list"
  user_log :: "user_call list"
  connections :: "string \<Rightarrow> nat option"
  connId :: int

definition conn_at :: "nat \<Rightarrow> ('a net_scheme) \<Rightarrow> tcp_conn" where
  "conn_at c n = conns n ! c"

definition upd_conn :: "nat \<Rightarrow> (tcp_conn \<Rightarrow> tcp_conn) \<Rightarrow> 'a net_scheme \<Rightarrow> 'a net_scheme" where
  "upd_conn c f n = n\<lparr>conns := (conns n)[c := f (conns n ! c)]\<rparr>"

definition set_state :: "nat \<Rightarrow> conn_state \<Rightarrow> 'a net_scheme \<Rightarrow> 'a net_scheme" where
  "set_state c st n = upd_conn c (\<lambda>t. t\<lparr>tc_state := st\<rparr>) n"

section \<open>\<open>TcpConnection\<close>\<close>

definition TcpConnection_new :: "socket \<Rightarrow> string \<Rightarrow> 'a net_scheme \<Rightarrow> 'a net_scheme" where
  "TcpConnection_new socket name n =
     (let e = length (objs n);
          n1 = EpollFdEvent_init e (getFd socket) KPersist (EpollFdEvent_new 0 n);
          n2 = upd_ev e (\<lambda>ev. ev\<lparr>ev_reader := True, ev_writer := True, ev_closer := True, ev_catcher := True\<rparr>) n1
      in n2\<lparr>conns := conns n2 @ [\<lparr>tc_state = CsConnecting, tc_socket = socket, tc_name = name, tc_event = e,
              read_buffer = ByteBuf_new, write_buffer = ByteBuf_new\<rparr>]\<rparr>)"

text \<open>\<open>send\<close>: the interest in writing is switched on before the bytes are stored.\<close>

definition tc_send_with ::
    "(bytebuf \<Rightarrow> bytebuf result) \<Rightarrow> nat \<Rightarrow> 'a net_scheme \<Rightarrow> 'a net_scheme result" where
  "tc_send_with store c n =
     (if tc_state (conn_at c n) = CsConnected then
        r_bind (if \<not> isWriting (ev_at (tc_event (conn_at c n)) n) then enableWriting (tc_event (conn_at c n)) n
                else Inr n) (\<lambda>n1.
        r_bind (store (write_buffer (conn_at c n1))) (\<lambda>b.
        Inr (upd_conn c (\<lambda>t. t\<lparr>write_buffer := b\<rparr>) n1)))
      else Inr n)"

definition tc_send :: "bytes \<Rightarrow> int \<Rightarrow> nat \<Rightarrow> 'a net_scheme \<Rightarrow> 'a net_scheme result" where
  "tc_send message len c n = tc_send_with (writeBytes_mem message len) c n"

definition tc_send_buf :: "bytebuf \<Rightarrow> nat \<Rightarrow> 'a net_scheme \<Rightarrow> 'a net_scheme result" where
  "tc_send_buf message c n = tc_send_with (writeBytes message) c n"

definition tc_disconnect :: "nat \<Rightarrow> 'a net_scheme \<Rightarrow> 'a net_scheme result" where
  "tc_disconnect c n =
     r_bind (if tc_state (conn_at c n) = CsConnected
             then disableAll (tc_event (conn_at c n)) (set_state c CsConnecting n)
             else Inr n) (\<lambda>n1.
     EpollFdEvent_remove (tc_event (conn_at c n1)) n1)"

definition tc_connectFinished :: "nat \<Rightarrow> 'a net_scheme \<Rightarrow> 'a net_scheme result" where
  "tc_connectFinished c n =
     (if tc_state (conn_at c n) = CsConnecting then
        r_bind (enableReading (tc_event (conn_at c n)) (set_state c CsConnected n)) (\<lambda>n1.
        Inr (n1\<lparr>user_log := user_log n1 @ [UConnected c]\<rparr>))
      else Inr n)"

text \<open>\<open>handleWrite\<close>: everything readable leaves the buffer and is handed to \<open>send\<close> once; the value
  \<open>ret\<close> that it returns is not looked at.\<close>

definition tc_handleWrite :: "int \<Rightarrow> nat \<Rightarrow> 'a net_scheme \<Rightarrow> 'a net_scheme result" where
  "tc_handleWrite ret c n =
     (if tc_state (conn_at c n) = CsConnected then
        if isWriting (ev_at (tc_event (conn_at c n)) n) then
          r_bind (readableBytes (write_buffer (conn_at c n))) (\<lambda>k.
          let (r, wb) = readBytes k (write_buffer (conn_at c n))
          in r_bind r (\<lambda>buf.
             r_bind (readableBytes buf) (\<lambda>m.
             r_bind (str_of_mem (ByteBuf_data buf) (size_of_i32 m)) (\<lambda>out.
             let n1 = upd_conn c (\<lambda>t. t\<lparr>write_buffer := wb\<rparr>) n;
                 (call, curr_write) = Socket_send ret out (tc_socket (conn_at c n));
                 n2 = n1\<lparr>sent_log := sent_log n1 @ (case call of None \<Rightarrow> [] | Some b \<Rightarrow> [(c, b)])\<rparr>
             in r_bind (readableBytes wb) (\<lambda>left.
                if left = 0 then disableWriting (tc_event (conn_at c n2)) n2 else Inr n2)))))
        else Inr n
      else Inr (upd_conn c (\<lambda>t. t\<lparr>write_buffer := ByteBuf_clear (write_buffer t)\<rparr>) n))"

text \<open>\<open>on_close\<close> is the close callback, set by the owner of the connection.\<close>

definition tc_handleClose ::
    "(nat \<Rightarrow> 'a net_scheme \<Rightarrow> 'a net_scheme result) \<Rightarrow> nat \<Rightarrow> 'a net_scheme \<Rightarrow> 'a net_scheme result" where
  "tc_handleClose on_close c n =
     r_assert (tc_state (conn_at c n) = CsConnected \<or> tc_state (conn_at c n) = CsDisconnecting)
       (r_bind (disableAll (tc_event (conn_at c n)) (set_state c CsDisconnected n)) (on_close c))"

text \<open>What \<open>recv\<close> answered: some bytes (at most 2048), the end of the stream, or an error.\<close>

datatype recv = Got bytes | EndOfStream | Failed

text \<open>\<open>on_recv c mem k\<close> is the user's receive callback: it runs while the bytes are still in the read
  buffer, which is cleared after it returns.\<close>

definition tc_handleRead_with ::
    "(nat \<Rightarrow> bytes \<Rightarrow> int \<Rightarrow> 'a net_scheme \<Rightarrow> 'a net_scheme result) \<Rightarrow>
     (nat \<Rightarrow> 'a net_scheme \<Rightarrow> 'a net_scheme result) \<Rightarrow> recv \<Rightarrow> nat \<Rightarrow> 'a net_scheme \<Rightarrow> 'a net_scheme result" where
  "tc_handleRead_with on_recv on_close r c n =
     (case r of
        Got b \<Rightarrow>
          r_bind (writeBytes_mem b (int (length b)) (read_buffer (conn_at c n))) (\<lambda>rb.
          r_bind (readableBytes rb) (\<lambda>k.
          r_bind (on_recv c (ByteBuf_data rb) k
                    ((upd_conn c (\<lambda>t. t\<lparr>read_buffer := rb\<rparr>) n)
                       \<lparr>user_log := user_log n @ [UReceived c (ByteBuf_data rb) k]\<rparr>)) (\<lambda>n1.
          Inr (upd_conn c (\<lambda>t. t\<lparr>read_buffer := ByteBuf_clear (read_buffer t)\<rparr>) n1))))
      | EndOfStream \<Rightarrow> tc_handleClose on_close c n
      | Failed \<Rightarrow> Inr n)"

text \<open>\<open>handleRead\<close> with a receive callback that does nothing to the connections.\<close>

definition tc_handleRead ::
    "(nat \<Rightarrow> 'a net_scheme \<Rightarrow> 'a net_scheme result) \<Rightarrow> recv \<Rightarrow> nat \<Rightarrow> 'a net_scheme \<Rightarrow> 'a net_scheme result" where
  "tc_handleRead on_close r c n = tc_handleRead_with (\<lambda>_ _ _. Inr) on_close r c n"

lemma tc_handleRead_eq:
  "tc_handleRead on_close r c n =
     (case r of
        Got b \<Rightarrow>
          r_bind (writeBytes_mem b (int (length b)) (read_buffer (conn_at c n))) (\<lambda>rb.
          r_bind (readableBytes rb) (\<lambda>k.
          Inr ((upd_conn c (\<lambda>t. t\<lparr>read_buffer := ByteBuf_clear rb\<rparr>) n)
                 \<lparr>user_log := user_log n @ [UReceived c (ByteBuf_data rb) k]\<rparr>)))
      | EndOfStream \<Rightarrow> tc_handleClose on_close c n
      | Failed \<Rightarrow> Inr n)"
  by (cases n; cases "c < length (conns n)")
    (auto simp: tc_handleRead_def tc_handleRead_with_def upd_conn_def list_update_beyond split: recv.splits)

section \<open>\<open>TcpServer\<close>\<close>

text \<open>\<open>name\<close> is what \<open>snprintf\<close> makes of the server's address and \<open>connId_\<close>, which never changes.\<close>

definition server_removeConnection :: "nat \<Rightarrow> 'a net_scheme \<Rightarrow> 'a net_scheme result" where
  "server_removeConnection c n =
     Inr (n\<lparr>connections := (connections n)(tc_name (conn_at c n) := None),
            loop_tasks := loop_tasks n @ [TDisconnect c],
            user_log := user_log n @ [UClosed (Some c)]\<rparr>)"

definition server_newConnection :: "(int \<Rightarrow> string) \<Rightarrow> socket \<Rightarrow> 'a net_scheme \<Rightarrow> 'a net_scheme result" where
  "server_newConnection name socket n =
     (let c = length (conns n);
          n1 = TcpConnection_new socket (name (connId n)) n
      in tc_connectFinished c (n1\<lparr>connections := (connections n1)(name (connId n1) \<mapsto> c)\<rparr>))"

text \<open>The loop runs the first queued task; \<open>reset\<close> is \<open>resetEvent\<close> of the connector.\<close>

definition run_loop_task ::
    "('a net_scheme \<Rightarrow> 'a net_scheme result) \<Rightarrow> 'a net_scheme \<Rightarrow> 'a net_scheme result" where
  "run_loop_task reset n =
     (case loop_tasks n of
        [] \<Rightarrow> Inr n
      | TDisconnect c # ts \<Rightarrow> tc_disconnect c (n\<lparr>loop_tasks := ts\<rparr>)
      | TResetEvent # ts \<Rightarrow> reset (n\<lparr>loop_tasks := ts\<rparr>))"

end
