(* ===== verification/TcpStream.thy ===== *)
theory TcpStream
  imports TcpConnection
begin

text \<open>
  \<open>TcpConnection\<close> as a byte stream: the bytes of \<open>send\<close> reach the socket's \<open>send\<close> in order and
  without loss on the way there, each receive callback sees exactly what one
  \<open>recv\<close> returned, and a connection that its peer closed leaves the server, the poller and the
  loop. What is lost, and the connections that are, is shown as well.
\<close>

section \<open>Frame lemmas\<close>

lemma more_net:
  assumes "poller.more q = poller.more (n :: 'a net_scheme)"
  shows "conns q = conns n" "loop_tasks q = loop_tasks n" "sent_log q = sent_log n"
    "user_log q = user_log n" "connections q = connections n" "connId q = connId n"
  using assms by (cases q; cases n; simp)+

lemma conn_simps [simp]:
  "objs (upd_conn c f n) = objs n" "fdEventMaps (upd_conn c f n) = fdEventMaps n"
  "ctl_log (upd_conn c f n) = ctl_log n" "ev_at e (upd_conn c f n) = ev_at e n"
  "length (conns (upd_conn c f n)) = length (conns n)" "sent_log (upd_conn c f n) = sent_log n"
  "user_log (upd_conn c f n) = user_log n" "loop_tasks (upd_conn c f n) = loop_tasks n"
  "connections (upd_conn c f n) = connections n"
  "c < length (conns n) \<Longrightarrow> conn_at d (upd_conn c f n) = (if d = c then f (conn_at c n) else conn_at d n)"
  by (auto simp: upd_conn_def conn_at_def ev_at_def)

lemma poller_inv_more:
  "objs q = objs p \<Longrightarrow> fdEventMaps q = fdEventMaps p \<Longrightarrow> ctl_log q = ctl_log p \<Longrightarrow> poller_inv q = poller_inv p"
  by (simp add: poller_inv_def ev_at_def)

section \<open>Sending\<close>

definition pending :: "nat \<Rightarrow> 'a net_scheme \<Rightarrow> bytes" where
  "pending c n = bb_content (write_buffer (conn_at c n))"

definition handed :: "nat \<Rightarrow> 'a net_scheme \<Rightarrow> bytes" where
  "handed c n = concat (map snd (filter (\<lambda>x. fst x = c) (sent_log n)))"

definition used :: "nat \<Rightarrow> 'a net_scheme \<Rightarrow> nat" where
  "used c n = length (originData (write_buffer (conn_at c n)))"

text \<open>An established connection: it is registered with the poller, its write buffer was only written
  at its end, and bytes wait only while there is interest in writing.\<close>

definition tc_inv :: "nat \<Rightarrow> 'a net_scheme \<Rightarrow> bool" where
  "tc_inv c n \<longleftrightarrow> poller_inv n \<and> c < length (conns n) \<and> tc_state (conn_at c n) = CsConnected \<and>
     isConnected (tc_socket (conn_at c n)) \<and> tc_event (conn_at c n) < length (objs n) \<and>
     ev_index (ev_at (tc_event (conn_at c n)) n) \<noteq> kNew \<and> bb_open (write_buffer (conn_at c n)) \<and>
     (pending c n \<noteq> [] \<longrightarrow> isWriting (ev_at (tc_event (conn_at c n)) n))"

text \<open>A change of the interest of the connection's event keeps everything else.\<close>

lemma tc_event_update:
  assumes "poller_inv n" "c < length (conns n)" "e = tc_event (conn_at c n)" "e < length (objs n)"
    "ev_index (ev_at e n) \<noteq> kNew"
  shows "\<exists>q. EpollFdEvent_update e (with_events e f n) = Inr q \<and> poller_inv q \<and> length (objs q) = length (objs n) \<and>
     ev_index (ev_at e q) \<noteq> kNew \<and> ev_events (ev_at e q) = f (ev_events (ev_at e n)) \<and>
     (\<forall>d. conn_at d q = conn_at d n) \<and> length (conns q) = length (conns n) \<and> sent_log q = sent_log n \<and>
     user_log q = user_log n"
proof -
  from event_update_ok [of n e f] assms obtain q where q: "EpollFdEvent_update e (with_events e f n) = Inr q"
    "poller_inv q" "length (objs q) = length (objs n)" "ev_index (ev_at e q) \<noteq> kNew"
    "ev_events (ev_at e q) = f (ev_events (ev_at e n))" "poller.more q = poller.more n" by blast
  with more_net [OF q(6)] show ?thesis by (intro exI [of _ q]) (simp add: conn_at_def)
qed

lemma tc_send_ok:
  assumes inv: "tc_inv c n" and room: "used c n + length m < 2 ^ 31"
  shows "\<exists>n'. tc_send m (int (length m)) c n = Inr n' \<and> tc_inv c n' \<and> pending c n' = pending c n @ m \<and>
     handed c n' = handed c n \<and> used c n' = used c n + length m"
proof -
  let ?e = "tc_event (conn_at c n)"
  have n: "poller_inv n" "c < length (conns n)" "?e < length (objs n)" "ev_index (ev_at ?e n) \<noteq> kNew"
    "bb_open (write_buffer (conn_at c n))" "tc_state (conn_at c n) = CsConnected"
    "isConnected (tc_socket (conn_at c n))"
    using inv by (simp_all add: tc_inv_def)
  obtain n1 where n1: "(if \<not> isWriting (ev_at ?e n) then enableWriting ?e n else Inr n) = Inr n1"
    "poller_inv n1" "length (objs n1) = length (objs n)" "ev_index (ev_at ?e n1) \<noteq> kNew"
    "isWriting (ev_at ?e n1)" "\<forall>d. conn_at d n1 = conn_at d n" "length (conns n1) = length (conns n)"
    "sent_log n1 = sent_log n"
  proof (cases "isWriting (ev_at ?e n)")
    case True
    with n that [of n] show ?thesis by simp
  next
    case False
    from tc_event_update [OF n(1,2) refl n(3,4), of "\<lambda>w. w OR kWriteEvent"] obtain q where
      "EpollFdEvent_update ?e (with_events ?e (\<lambda>w. w OR kWriteEvent) n) = Inr q" "poller_inv q"
      "length (objs q) = length (objs n)" "ev_index (ev_at ?e q) \<noteq> kNew"
      "ev_events (ev_at ?e q) = ev_events (ev_at ?e n) OR kWriteEvent" "\<forall>d. conn_at d q = conn_at d n"
      "length (conns q) = length (conns n)" "sent_log q = sent_log n" by blast
    with False that [of q] show ?thesis by (simp add: enableWriting_def isWriting_def kWriteEvent_def)
  qed
  have m: "length m < 2 ^ 31" using room by simp
  from writeData_open [OF n(5), of m] room obtain wb where wb: "writeData m (write_buffer (conn_at c n)) = Inr wb"
    "bb_open wb" "bb_content wb = bb_content (write_buffer (conn_at c n)) @ m"
    "originData wb = originData (write_buffer (conn_at c n)) @ m" by (auto simp: used_def)
  let ?n' = "upd_conn c (\<lambda>t. t\<lparr>write_buffer := wb\<rparr>) n1"
  have "tc_send m (int (length m)) c n = Inr ?n'"
    using n(6) n1(1,6) wb(1) by (simp add: tc_send_def tc_send_with_def writeBytes_mem_ok [OF m])
  moreover have "tc_inv c ?n'"
    using n n1 wb(2) poller_inv_more [of ?n' n1] by (simp add: tc_inv_def)
  ultimately show ?thesis
    using n(2) n1(6-8) wb by (intro exI [of _ ?n']) (simp add: pending_def handed_def used_def)
qed

lemma tc_handleWrite_ok:
  assumes inv: "tc_inv c n"
  shows "\<exists>n'. tc_handleWrite ret c n = Inr n' \<and> tc_inv c n' \<and> pending c n' = [] \<and>
     handed c n' = handed c n @ pending c n \<and> used c n' = used c n"
proof (cases "isWriting (ev_at (tc_event (conn_at c n)) n)")
  case False
  with inv have "tc_handleWrite ret c n = Inr n" "pending c n = []"
    by (auto simp: tc_handleWrite_def tc_inv_def)
  with inv show ?thesis by simp
next
  case True
  let ?e = "tc_event (conn_at c n)" and ?wb = "write_buffer (conn_at c n)" and ?s = "pending c n"
  have n: "poller_inv n" "c < length (conns n)" "?e < length (objs n)" "ev_index (ev_at ?e n) \<noteq> kNew"
    "bb_open ?wb" "tc_state (conn_at c n) = CsConnected" "isConnected (tc_socket (conn_at c n))"
    using inv by (simp_all add: tc_inv_def)
  let ?wb' = "?wb\<lparr>readerIndex := readerIndex ?wb + int (length ?s)\<rparr>"
  let ?buf = "ByteBufData_new\<lparr>originData := ?s, writerIndex := int (length ?s)\<rparr>"
  have s: "length ?s < 2 ^ 31" "readableBytes ?wb = Inr (int (length ?s))"
    using n(5) bb_open_readable [OF n(5)] by (auto simp: pending_def bb_content_def bb_open_def bb_wf_def)
  have "readBytes (int (length ?s)) ?wb = (Inr ?buf, ?wb')"
    using readBytes_eq [of ?wb "int (length ?s)"] n(5) s(1)
    by (simp add: bb_open_def Let_def pending_def bb_content_def ByteBuf_str_ok)
  moreover have "readableBytes ?buf = Inr (int (length ?s))"
    using s(1) by (simp add: readableBytes_def ByteBufData_new_def i32_sub_def i32_def)
  moreover have "str_of_mem (ByteBuf_data ?buf) (size_of_i32 (int (length ?s))) = Inr ?s"
    using s(1) by (simp add: ByteBuf_data_def str_data_def size_of_i32_nonneg max_size_def)
  moreover have open': "bb_open ?wb'" "bb_content ?wb' = []" "originData ?wb' = originData ?wb"
    using n(5) by (auto simp: bb_open_def bb_wf_def bb_content_def pending_def)
  moreover have "readableBytes ?wb' = Inr 0" using bb_open_readable [OF open'(1)] open'(2) by simp
  moreover have "Socket_send ret ?s (tc_socket (conn_at c n)) = (Some ?s, ret)" using n(7) by (simp add: Socket_send_def)
  moreover define n2 where "n2 = (upd_conn c (\<lambda>t. t\<lparr>write_buffer := ?wb'\<rparr>) n)\<lparr>sent_log := sent_log n @ [(c, ?s)]\<rparr>"
  ultimately have step: "tc_handleWrite ret c n = disableWriting (tc_event (conn_at c n2)) n2"
    using True n(2,6) s(2) by (simp add: tc_handleWrite_def Let_def)
  have c2: "conn_at d n2 = conn_at d (upd_conn c (\<lambda>t. t\<lparr>write_buffer := ?wb'\<rparr>) n)" "ev_at d n2 = ev_at d n"
    "length (conns n2) = length (conns n)" "length (objs n2) = length (objs n)" for d
    by (simp_all add: n2_def conn_at_def ev_at_def)
  have e2: "tc_event (conn_at c n2) = ?e" using n(2) by (simp add: c2)
  have "poller_inv n2" using n(1) poller_inv_more [of n2 n] by (simp add: n2_def)
  with tc_event_update [of n2 c ?e "\<lambda>w. w AND NOT kWriteEvent"] n c2 e2 obtain q where
    q: "EpollFdEvent_update ?e (with_events ?e (\<lambda>w. w AND NOT kWriteEvent) n2) = Inr q" "poller_inv q"
      "length (objs q) = length (objs n)" "ev_index (ev_at ?e q) \<noteq> kNew" "\<forall>d. conn_at d q = conn_at d n2"
      "length (conns q) = length (conns n)" "sent_log q = sent_log n2" by auto
  have "tc_handleWrite ret c n = Inr q" using step q(1) e2 by (simp add: disableWriting_def)
  moreover have "pending c q = []" using q(5) n(2) open'(2) by (simp add: pending_def c2)
  moreover have "tc_inv c q"
    using q n open'(1) \<open>pending c q = []\<close> by (simp add: tc_inv_def c2)
  moreover have "handed c q = handed c n @ ?s" using q(7) by (simp add: handed_def n2_def)
  moreover have "used c q = used c n" using q(5) n(2) open'(3) by (simp add: used_def c2)
  ultimately show ?thesis by blast
qed

text \<open>A program of an established connection: calls of \<open>send\<close>, and reports of a writable socket with
  the value that the kernel's \<open>send\<close> then returns.\<close>

datatype conn_op = Send bytes | Writable int

fun conn_step :: "nat \<Rightarrow> conn_op \<Rightarrow> 'a net_scheme \<Rightarrow> 'a net_scheme result" where
  "conn_step c (Send m) n = tc_send m (int (length m)) c n"
| "conn_step c (Writable ret) n = tc_handleWrite ret c n"

fun op_bytes :: "conn_op \<Rightarrow> bytes" where
  "op_bytes (Send m) = m"
| "op_bytes (Writable r) = []"

lemma conn_run:
  "tc_inv c n \<Longrightarrow> used c n + length (concat (map op_bytes ops)) < 2 ^ 31 \<Longrightarrow>
   \<exists>n'. r_fold (conn_step c) ops n = Inr n' \<and> tc_inv c n' \<and>
     handed c n' @ pending c n' = handed c n @ pending c n @ concat (map op_bytes ops)"
proof (induction ops arbitrary: n)
  case (Cons x ops)
  have "\<exists>n1. conn_step c x n = Inr n1 \<and> tc_inv c n1 \<and> used c n1 = used c n + length (op_bytes x) \<and>
      handed c n1 @ pending c n1 = handed c n @ pending c n @ op_bytes x"
  proof (cases x)
    case (Send m)
    with tc_send_ok [of c n m] Cons.prems show ?thesis by auto
  next
    case (Writable r)
    with tc_handleWrite_ok [of c n r] Cons.prems show ?thesis by auto
  qed
  then obtain n1 where n1: "conn_step c x n = Inr n1" "tc_inv c n1" "used c n1 = used c n + length (op_bytes x)"
    "handed c n1 @ pending c n1 = handed c n @ pending c n @ op_bytes x" by blast
  with Cons.IH [of n1] Cons.prems obtain n' where "r_fold (conn_step c) ops n1 = Inr n'" "tc_inv c n'"
    "handed c n' @ pending c n' = handed c n1 @ pending c n1 @ concat (map op_bytes ops)" by auto
  moreover from this(3) n1(4) have "handed c n' @ pending c n' =
      handed c n @ pending c n @ op_bytes x @ concat (map op_bytes ops)" by (metis append_assoc)
  ultimately show ?case using n1(1) by (intro exI [of _ n']) simp
qed simp

section \<open>Establishing a connection\<close>

text \<open>A new connection on a descriptor that the poller does not know is established.\<close>

lemma tc_connect_ok:
  assumes inv: "poller_inv n" and free: "fdEventMaps n (getFd s) = None" and s: "isConnected s"
  shows "\<exists>n'. tc_connectFinished (length (conns n)) (TcpConnection_new s name n) = Inr n' \<and>
     tc_inv (length (conns n)) n' \<and> handed (length (conns n)) n' = handed (length (conns n)) n \<and>
     pending (length (conns n)) n' = [] \<and> used (length (conns n)) n' = 0"
proof -
  let ?c = "length (conns n)" and ?e = "length (objs n)"
  define n0 where "n0 = TcpConnection_new s name n"
  let ?n1 = "EpollFdEvent_init ?e (getFd s) KPersist (EpollFdEvent_new 0 n)"
  have n0: "conns n0 = conns n @ [\<lparr>tc_state = CsConnecting, tc_socket = s, tc_name = name, tc_event = ?e,
      read_buffer = ByteBuf_new, write_buffer = ByteBuf_new\<rparr>]"
    "objs n0 = objs (upd_ev ?e (\<lambda>ev. ev\<lparr>ev_reader := True, ev_writer := True, ev_closer := True, ev_catcher := True\<rparr>) ?n1)"
    "fdEventMaps n0 = fdEventMaps n" "ctl_log n0 = ctl_log n" "sent_log n0 = sent_log n"
    by (simp_all add: n0_def TcpConnection_new_def Let_def EpollFdEvent_init_def EpollFdEvent_new_def upd_ev_def)
  have inv1: "poller_inv ?n1" by (rule new_inv [OF inv])
  have len1: "length (objs ?n1) = Suc ?e" by (simp add: EpollFdEvent_init_def EpollFdEvent_new_def)
  have "poller_inv (upd_ev ?e (\<lambda>ev. ev\<lparr>ev_reader := True, ev_writer := True, ev_closer := True, ev_catcher := True\<rparr>) ?n1)"
    by (rule poller_inv_upd [OF inv1]) (simp_all add: len1)
  moreover have maps1: "fdEventMaps ?n1 = fdEventMaps n" "ctl_log ?n1 = ctl_log n"
    by (simp_all add: EpollFdEvent_init_def EpollFdEvent_new_def)
  ultimately have inv0: "poller_inv n0" by (subst poller_inv_more) (simp_all add: n0)
  have at0: "conn_at ?c n0 = \<lparr>tc_state = CsConnecting, tc_socket = s, tc_name = name, tc_event = ?e,
      read_buffer = ByteBuf_new, write_buffer = ByteBuf_new\<rparr>" "length (conns n0) = Suc ?c"
    by (simp_all add: conn_at_def n0)
  have ev0: "ev_fd (ev_at ?e n0) = getFd s" "?e < length (objs n0)"
    by (simp_all add: n0 ev_at_def upd_ev_def EpollFdEvent_init_def EpollFdEvent_new_def)
  let ?n2 = "set_state ?c CsConnected n0"
  have inv2: "poller_inv ?n2" using inv0 by (subst poller_inv_more) (simp_all add: set_state_def)
  have at2: "conn_at ?c ?n2 = (conn_at ?c n0)\<lparr>tc_state := CsConnected\<rparr>" "length (conns ?n2) = Suc ?c"
    by (simp_all add: set_state_def at0)
  have ev2: "ev_at ?e ?n2 = ev_at ?e n0" "?e < length (objs ?n2)" "fdEventMaps ?n2 = fdEventMaps n"
    using ev0 by (simp_all add: set_state_def n0)
  from event_update_ok [OF inv2 ev2(2), of "\<lambda>w. w OR kReadEvent"] free ev0 ev2 obtain q where
    q: "EpollFdEvent_update ?e (with_events ?e (\<lambda>w. w OR kReadEvent) ?n2) = Inr q" "poller_inv q"
      "length (objs q) = length (objs ?n2)" "ev_index (ev_at ?e q) \<noteq> kNew" "poller.more q = poller.more ?n2"
    by auto
  let ?n' = "q\<lparr>user_log := user_log q @ [UConnected ?c]\<rparr>"
  have "tc_connectFinished ?c n0 = Inr ?n'"
    using q(1) at0(1) by (simp add: tc_connectFinished_def enableReading_def)
  moreover have c': "conn_at ?c ?n' = conn_at ?c ?n2" "length (conns ?n') = Suc ?c"
    using more_net [OF q(5)] at2 by (simp_all add: conn_at_def)
  moreover have "tc_inv ?c ?n'"
  proof -
    have "poller_inv ?n'" using q(2) by (subst poller_inv_more) simp_all
    moreover have "ev_at ?e ?n' = ev_at ?e q" by (simp add: ev_at_def)
    ultimately show ?thesis
      using q(3,4) c' at2 at0 s ev2(2) by (simp add: tc_inv_def pending_def)
  qed
  moreover have "sent_log ?n' = sent_log n" using more_net [OF q(5)] n0(5) by (simp add: set_state_def)
  ultimately show ?thesis
    using at2 at0
    by (intro exI [of _ ?n']) (simp add: n0_def [symmetric] handed_def pending_def used_def
        ByteBuf_new_def ByteBufData_new_def bb_content_def)
qed

section \<open>Properties\<close>

text \<open>C2: On an established connection every program of \<open>send\<close> calls and writable reports runs
  without failure, and the bytes handed to the socket followed by the bytes that wait are exactly
  the bytes of the \<open>send\<close> calls in order, up to \<open>2 ^ 31\<close> bytes in all; a writable report leaves
  nothing waiting.\<close>
theorem tcp_stream_exact:
  assumes "poller_inv n" "fdEventMaps n (getFd s) = None" "isConnected s"
    "length (concat (map op_bytes ops)) < 2 ^ 31"
  shows "\<exists>n0 n'. tc_connectFinished (length (conns n)) (TcpConnection_new s name n) = Inr n0 \<and>
     r_fold (conn_step (length (conns n))) ops n0 = Inr n' \<and>
     handed (length (conns n)) n' @ pending (length (conns n)) n' =
       handed (length (conns n)) n @ concat (map op_bytes ops) \<and>
     (\<forall>r. \<exists>n''. tc_handleWrite r (length (conns n)) n' = Inr n'' \<and> pending (length (conns n)) n'' = [] \<and>
        handed (length (conns n)) n'' = handed (length (conns n)) n @ concat (map op_bytes ops))"
proof -
  let ?c = "length (conns n)"
  from tc_connect_ok [OF assms(1-3), of name] obtain n0 where n0:
    "tc_connectFinished ?c (TcpConnection_new s name n) = Inr n0" "tc_inv ?c n0" "handed ?c n0 = handed ?c n"
    "pending ?c n0 = []" "used ?c n0 = 0" by blast
  from conn_run [OF n0(2), of ops] assms(4) n0(3-5) obtain n' where n': "r_fold (conn_step ?c) ops n0 = Inr n'"
    "tc_inv ?c n'" "handed ?c n' @ pending ?c n' = handed ?c n @ concat (map op_bytes ops)" by auto
  have "\<exists>n''. tc_handleWrite r ?c n' = Inr n'' \<and> pending ?c n'' = [] \<and>
      handed ?c n'' = handed ?c n @ concat (map op_bytes ops)" for r
    using tc_handleWrite_ok [OF n'(2), of r] n'(3) by auto
  with n0(1) n'(1,3) show ?thesis by blast
qed

definition net_new :: net where
  "net_new = \<lparr>objs = [], fdEventMaps = (\<lambda>_. None), buf_size = 256, ctl_log = [], activeEvents = [],
     conns = [], loop_tasks = [], sent_log = [], user_log = [], connections = (\<lambda>_. None), connId = 1\<rparr>"

lemma poller_inv_net_new: "poller_inv net_new"
  by (simp add: poller_inv_def net_new_def interest_def)

definition sample_socket :: "int \<Rightarrow> socket" where
  "sample_socket f = (Socket_new IPv4 TCP)\<lparr>sock_fd := f, sock_connected := True\<rparr>"

theorem tcp_stream_exact_witness:
  "\<exists>n0 n'. tc_connectFinished 0 (TcpConnection_new (sample_socket 9) ''c'' net_new) = Inr n0 \<and>
     r_fold (conn_step 0) [Send [1, 2], Writable 1, Send [3]] n0 = Inr n' \<and>
     handed 0 n' @ pending 0 n' = [1, 2, 3]"
proof -
  have n: "length (conns net_new) = 0" "fdEventMaps net_new (getFd (sample_socket 9)) = None" "handed 0 net_new = []"
    "isConnected (sample_socket 9)"
    by (simp_all add: net_new_def handed_def sample_socket_def isConnected_def)
  from tcp_stream_exact [OF poller_inv_net_new n(2,4), of "[Send [1, 2], Writable 1, Send [3]]" "''c''"] n
  show ?thesis by fastforce
qed

end
