(* ===== verification/TcpLife.thy ===== *)
theory TcpLife
  imports TcpStream
begin

text \<open>
  Receiving, and the end of a connection of a \<open>TcpServer\<close>: what the receive callback sees, how a
  connection that the peer closed is taken down by \<open>handleClose\<close>, the server's close callback and
  the queued \<open>disconnect\<close>, and what happens to the second connection of a server.
\<close>

section \<open>Receiving\<close>

definition received :: "nat \<Rightarrow> 'a net_scheme \<Rightarrow> bytes list" where
  "received c n = concat (map (\<lambda>u. case u of UReceived d mem k \<Rightarrow> if d = c then [take (nat k) mem] else [] | _ \<Rightarrow> [])
     (user_log n))"

definition read_ready :: "nat \<Rightarrow> 'a net_scheme \<Rightarrow> bool" where
  "read_ready c n \<longleftrightarrow> c < length (conns n) \<and> bb_wf (read_buffer (conn_at c n)) \<and>
     readerIndex (read_buffer (conn_at c n)) = 0 \<and> writerIndex (read_buffer (conn_at c n)) = 0"

definition stored :: "nat \<Rightarrow> 'a net_scheme \<Rightarrow> bytes" where
  "stored c n = originData (read_buffer (conn_at c n))"

lemma handleRead_Got:
  assumes "read_ready c n" "length (stored c n) + length b < 2 ^ 31"
  shows "\<exists>n'. tc_handleRead on_close (Got b) c n = Inr n' \<and> read_ready c n' \<and>
     received c n' = received c n @ [b] \<and> stored c n' = b @ stored c n"
proof -
  let ?rb = "read_buffer (conn_at c n)"
  let ?rb' = "?rb\<lparr>originData := b @ originData ?rb, writerIndex := int (length b)\<rparr>"
  let ?n' = "(upd_conn c (\<lambda>t. t\<lparr>read_buffer := ByteBuf_clear ?rb'\<rparr>) n)
      \<lparr>user_log := user_log n @ [UReceived c (ByteBuf_data ?rb') (int (length b))]\<rparr>"
  have r: "c < length (conns n)" "bb_wf ?rb" "readerIndex ?rb = 0" "writerIndex ?rb = 0"
    using assms(1) by (simp_all add: read_ready_def)
  have "writeData b ?rb = Inr ?rb'"
    using writeData_wf [OF r(2), of b] assms(2) r(4) by (simp add: stored_def)
  moreover have "readableBytes ?rb' = Inr (int (length b))"
    using assms(2) r(3) by (simp add: readableBytes_def i32_sub_def i32_def)
  ultimately have "tc_handleRead on_close (Got b) c n = Inr ?n'"
    using assms(2) by (simp add: tc_handleRead_eq writeBytes_mem_ok)
  moreover have at: "conn_at c ?n' = (conn_at c n)\<lparr>read_buffer := ByteBuf_clear ?rb'\<rparr>" "length (conns ?n') = length (conns n)"
    using r(1) by (simp_all add: conn_at_def upd_conn_def)
  moreover have "read_ready c ?n'"
    using at r assms(2) by (simp add: read_ready_def ByteBuf_clear_def bb_wf_def stored_def)
  moreover have "received c ?n' = received c n @ [b]"
    by (simp add: received_def ByteBuf_data_def str_data_def)
  moreover have "stored c ?n' = b @ stored c n" using at by (simp add: stored_def ByteBuf_clear_def)
  ultimately show ?thesis by blast
qed

text \<open>Each call of the receive callback sees exactly the bytes of one \<open>recv\<close>, in order; but the
  read buffer is never emptied: it holds every byte received so far, so a connection that has
  received \<open>2 ^ 31\<close> bytes is out of the range in which this holds.\<close>
theorem receive_exact_but_growing:
  assumes "read_ready c n" "length (stored c n) + length (concat bs) < 2 ^ 31"
  shows "\<exists>n'. r_fold (\<lambda>b. tc_handleRead on_close (Got b) c) bs n = Inr n' \<and>
     received c n' = received c n @ bs \<and> stored c n' = concat (rev bs) @ stored c n"
  using assms
proof (induction bs arbitrary: n)
  case (Cons b bs)
  from handleRead_Got [of c n b on_close] Cons.prems obtain n1 where
    n1: "tc_handleRead on_close (Got b) c n = Inr n1" "read_ready c n1" "received c n1 = received c n @ [b]"
    "stored c n1 = b @ stored c n" by auto
  with Cons.IH [of n1] Cons.prems show ?case by auto
qed simp

definition established :: "int \<Rightarrow> net result" where
  "established f = tc_connectFinished 0 (TcpConnection_new (sample_socket f) ''c'' net_new)"

lemma established_ok: "\<exists>n. established f = Inr n \<and> tc_inv 0 n"
  using tc_connect_ok [OF poller_inv_net_new, of "sample_socket f" "''c''"]
  by (auto simp: established_def net_new_def sample_socket_def isConnected_def)

theorem receive_exact_but_growing_witness:
  "\<exists>n n'. established 9 = Inr n \<and> r_fold (\<lambda>b. tc_handleRead (\<lambda>c. Inr) (Got b) 0) [[1, 2], [0]] n = Inr n' \<and>
     received 0 n' = [[1, 2], [0]] \<and> stored 0 n' = [0, 1, 2]"
proof -
  have "\<exists>n. established 9 = Inr n \<and> read_ready 0 n \<and> stored 0 n = [] \<and> received 0 n = []"
    by (simp add: established_def tc_connectFinished_def TcpConnection_new_def net_new_def poll_run conn_at_def
        set_state_def upd_conn_def read_ready_def stored_def received_def ByteBuf_new_def ByteBufData_new_def
        bb_wf_def sample_socket_def getFd_def Socket_new_def)
  then obtain n where n: "established 9 = Inr n" "read_ready 0 n" "stored 0 n = []" "received 0 n = []" by blast
  with receive_exact_but_growing [OF n(2), of "[[1, 2], [0]]" "\<lambda>c. Inr"] show ?thesis by auto
qed

section \<open>The end of a connection\<close>

text \<open>C17: When the peer closes a connection of the server, \<open>handleRead\<close> and the \<open>disconnect\<close> task
  that it queues take it down completely: no assertion fails, the server's map no longer has its
  name, and neither the poller's map nor the interest list has its descriptor.\<close>
theorem peer_close_cleans_up:
  assumes "tc_inv c n" "loop_tasks n = []"
  shows "\<exists>n1 n2. tc_handleRead server_removeConnection EndOfStream c n = Inr n1 \<and> run_loop_task Inr n1 = Inr n2 \<and>
     connections n2 (tc_name (conn_at c n)) = None \<and> loop_tasks n2 = [] \<and>
     fdEventMaps n2 (ev_fd (ev_at (tc_event (conn_at c n)) n)) = None \<and>
     ev_fd (ev_at (tc_event (conn_at c n)) n) \<notin> interest (ctl_log n2) \<and>
     tc_state (conn_at c n2) = CsDisconnected"
proof -
  let ?e = "tc_event (conn_at c n)" and ?f = "ev_fd (ev_at (tc_event (conn_at c n)) n)"
  let ?n0 = "set_state c CsDisconnected n"
  have n: "poller_inv n" "c < length (conns n)" "?e < length (objs n)" "ev_index (ev_at ?e n) \<noteq> kNew"
    "tc_state (conn_at c n) = CsConnected"
    using assms(1) by (simp_all add: tc_inv_def)
  have inv0: "poller_inv ?n0" using n(1) by (subst poller_inv_more) (simp_all add: set_state_def)
  from event_update_ok [OF inv0, of ?e "\<lambda>w. kNoneEvent"] n(3,4) obtain q where
    q: "EpollFdEvent_update ?e (with_events ?e (\<lambda>w. kNoneEvent) ?n0) = Inr q" "poller_inv q"
      "length (objs q) = length (objs n)" "ev_index (ev_at ?e q) \<noteq> kNew" "ev_events (ev_at ?e q) = kNoneEvent"
      "ev_fd (ev_at ?e q) = ?f" "poller.more q = poller.more ?n0"
    by (auto simp: set_state_def)
  note more = more_net [OF q(7)]
  have cq: "conn_at c q = (conn_at c n)\<lparr>tc_state := CsDisconnected\<rparr>"
    using more(1) n(2) by (simp add: conn_at_def set_state_def upd_conn_def)
  let ?n1 = "q\<lparr>connections := (connections q)(tc_name (conn_at c q) := None), loop_tasks := loop_tasks q @ [TDisconnect c],
      user_log := user_log q @ [UClosed (Some c)]\<rparr>"
  have n1: "tc_handleRead server_removeConnection EndOfStream c n = Inr ?n1"
    using n(5) q(1) by (simp add: tc_handleRead_eq tc_handleClose_def disableAll_def server_removeConnection_def)
  let ?n1' = "?n1\<lparr>loop_tasks := []\<rparr>"
  have "loop_tasks ?n1 = [TDisconnect c]" using more(2) assms(2) by (simp add: set_state_def)
  then have task: "run_loop_task Inr ?n1 = tc_disconnect c ?n1'" by (simp add: run_loop_task_def)
  have c1: "conn_at c ?n1' = conn_at c q" by (simp add: conn_at_def)
  have ev1: "ev_at ?e ?n1' = ev_at ?e q" "length (objs ?n1') = length (objs n)"
    using q(3) by (simp_all add: ev_at_def)
  have inv1: "poller_inv ?n1'" using q(2) by (subst poller_inv_more) simp_all
  from event_remove_ok [OF inv1, of ?e] ev1 q(4-6) n(3) obtain n2 where
    n2: "EpollFdEvent_remove ?e ?n1' = Inr n2" "poller_inv n2" "fdEventMaps n2 ?f = None"
      "poller.more n2 = poller.more ?n1'" by auto
  have "tc_disconnect c ?n1' = Inr n2" using c1 cq n2(1) by (simp add: tc_disconnect_def)
  moreover have "?f \<notin> interest (ctl_log n2)" using poller_invD(4) [OF n2(2)] n2(3) by simp
  moreover have "connections n2 (tc_name (conn_at c n)) = None" "loop_tasks n2 = []"
    using more_net [OF n2(4)] cq by simp_all
  moreover have "tc_state (conn_at c n2) = CsDisconnected"
    using more_net(1) [OF n2(4)] cq by (simp add: conn_at_def)
  ultimately show ?thesis using n1 task n2(3) by (intro exI [of _ ?n1] exI [of _ n2]) simp
qed

theorem peer_close_cleans_up_witness:
  "\<exists>n n1 n2. established 9 = Inr n \<and> tc_handleRead server_removeConnection EndOfStream 0 n = Inr n1 \<and>
     run_loop_task Inr n1 = Inr n2 \<and> tc_state (conn_at 0 n2) = CsDisconnected"
proof -
  have "\<exists>n. established 9 = Inr n \<and> loop_tasks n = []"
    by (simp add: established_def tc_connectFinished_def TcpConnection_new_def net_new_def poll_run conn_at_def
        set_state_def upd_conn_def sample_socket_def getFd_def Socket_new_def)
  then obtain n where n: "established 9 = Inr n" "loop_tasks n = []" by blast
  with established_ok [of 9] have "tc_inv 0 n" by auto
  from peer_close_cleans_up [OF this n(2)] n(1) show ?thesis by blast
qed

section \<open>The server's names\<close>

lemma TcpConnection_new_frame:
  "connections (TcpConnection_new s name n) = connections n" "connId (TcpConnection_new s name n) = connId n"
  "fdEventMaps (TcpConnection_new s name n) = fdEventMaps n"
  "length (objs (TcpConnection_new s name n)) = Suc (length (objs n))"
  "ev_fd (ev_at (length (objs n)) (TcpConnection_new s name n)) = getFd s"
  "ev_index (ev_at (length (objs n)) (TcpConnection_new s name n)) = kNew"
  "conns (TcpConnection_new s name n) = conns n @ [\<lparr>tc_state = CsConnecting, tc_socket = s, tc_name = name,
     tc_event = length (objs n), read_buffer = ByteBuf_new, write_buffer = ByteBuf_new\<rparr>]"
  by (simp_all add: TcpConnection_new_def Let_def EpollFdEvent_init_def EpollFdEvent_new_def upd_ev_def ev_at_def
      kNew_def)

text \<open>The first registration of an event.\<close>

lemma enableReading_new:
  assumes "e < length (objs p)" "ev_index (ev_at e p) = kNew" "fdEventMaps p (ev_fd (ev_at e p)) = None"
  shows "\<exists>q. enableReading e p = Inr q \<and> fdEventMaps q = (fdEventMaps p)(ev_fd (ev_at e p) \<mapsto> e) \<and>
     length (objs q) = length (objs p) \<and> poller.more q = poller.more p"
  using assms by (simp add: enableReading_def EpollFdEvent_update_def with_events_def Poller_updateEvent_def Let_def
      setIndex_ev_def Poller_update_def) (simp add: upd_ev_def)

lemma server_newConnection_ok:
  assumes free: "fdEventMaps n (getFd s) = None"
  shows "\<exists>n'. server_newConnection name s n = Inr n' \<and>
     connections n' = (connections n)(name (connId n) \<mapsto> length (conns n)) \<and> connId n' = connId n \<and>
     fdEventMaps n' = (fdEventMaps n)(getFd s \<mapsto> length (objs n)) \<and>
     length (conns n') = Suc (length (conns n)) \<and> length (objs n') = Suc (length (objs n)) \<and>
     tc_state (conn_at (length (conns n)) n') = CsConnected \<and>
     (\<forall>c < length (conns n). conn_at c n' = conn_at c n)"
proof -
  let ?c = "length (conns n)" and ?e = "length (objs n)"
  define m where "m = (TcpConnection_new s (name (connId n)) n)
      \<lparr>connections := (connections n)(name (connId n) \<mapsto> ?c)\<rparr>"
  define m2 where "m2 = set_state ?c CsConnected m"
  have m: "conn_at ?c m = \<lparr>tc_state = CsConnecting, tc_socket = s, tc_name = name (connId n), tc_event = ?e,
      read_buffer = ByteBuf_new, write_buffer = ByteBuf_new\<rparr>"
    "server_newConnection name s n = tc_connectFinished ?c m"
    by (simp_all add: conn_at_def m_def TcpConnection_new_frame server_newConnection_def Let_def)
  have m2: "?e < length (objs m2)" "length (objs m2) = Suc ?e" "fdEventMaps m2 = fdEventMaps n"
    "ev_index (ev_at ?e m2) = kNew" "ev_fd (ev_at ?e m2) = getFd s" "connId m2 = connId n"
    "connections m2 = (connections n)(name (connId n) \<mapsto> ?c)" "length (conns m2) = Suc ?c"
    "tc_state (conns m2 ! ?c) = CsConnected" "\<forall>c < ?c. conns m2 ! c = conns n ! c"
    using TcpConnection_new_frame [where s = s and name = "name (connId n)" and n = n]
    by (simp_all add: m2_def m_def set_state_def upd_conn_def ev_at_def nth_append)
  from enableReading_new [of ?e m2] m2(1,3-5) free obtain q where
    q: "enableReading ?e m2 = Inr q" "fdEventMaps q = (fdEventMaps n)(getFd s \<mapsto> ?e)"
      "length (objs q) = Suc ?e" "poller.more q = poller.more m2" using m2(2) by auto
  let ?n' = "q\<lparr>user_log := user_log q @ [UConnected ?c]\<rparr>"
  have "server_newConnection name s n = Inr ?n'"
    using q(1) m by (simp add: tc_connectFinished_def m2_def)
  with q(2,3) more_net [OF q(4)] m2(6-10) show ?thesis
    by (intro exI [of _ ?n']) (simp add: conn_at_def)
qed

text \<open>The server names every connection alike, since \<open>connId_\<close> never changes. The second
  connection takes the place of the first in the server's map, so that no name leads to the first
  any more; yet the first was never closed: it is still connected and its event is still
  registered with the poller. (The model never destroys a connection. When the user's callbacks kept
  no pointer to it, the map held the last one, and what stays registered is a dangling pointer.)\<close>
theorem second_connection_evicts_first:
  assumes "fdEventMaps n (getFd s1) = None" "fdEventMaps n (getFd s2) = None" "getFd s1 \<noteq> getFd s2"
    "\<forall>k. connections n k \<noteq> Some (length (conns n))"
  shows "\<exists>n1 n2. server_newConnection name s1 n = Inr n1 \<and> server_newConnection name s2 n1 = Inr n2 \<and>
     connections n1 (name (connId n)) = Some (length (conns n)) \<and>
     (\<forall>k. connections n2 k \<noteq> Some (length (conns n))) \<and>
     tc_state (conn_at (length (conns n)) n2) = CsConnected \<and>
     fdEventMaps n2 (getFd s1) = Some (length (objs n))"
proof -
  let ?c = "length (conns n)"
  from server_newConnection_ok [OF assms(1), of name] obtain n1 where
    n1: "server_newConnection name s1 n = Inr n1" "connections n1 = (connections n)(name (connId n) \<mapsto> ?c)"
      "connId n1 = connId n" "fdEventMaps n1 = (fdEventMaps n)(getFd s1 \<mapsto> length (objs n))"
      "length (conns n1) = Suc ?c" "tc_state (conn_at ?c n1) = CsConnected" by blast
  have "fdEventMaps n1 (getFd s2) = None" using assms(2,3) n1(4) by simp
  from server_newConnection_ok [OF this, of name] obtain n2 where
    n2: "server_newConnection name s2 n1 = Inr n2"
      "connections n2 = (connections n1)(name (connId n1) \<mapsto> length (conns n1))"
      "fdEventMaps n2 = (fdEventMaps n1)(getFd s2 \<mapsto> length (objs n1))"
      "\<forall>c < length (conns n1). conn_at c n2 = conn_at c n1" by blast
  have "tc_state (conn_at ?c n2) = CsConnected" using n2(4) n1(5,6) by simp
  with n1 n2(1-3) assms(3,4) show ?thesis by (intro exI [of _ n1] exI [of _ n2]) simp
qed

theorem second_connection_evicts_first_witness:
  "\<exists>n1 n2. server_newConnection (\<lambda>i. ''10.0.0.1:80'') (sample_socket 8) net_new = Inr n1 \<and>
     server_newConnection (\<lambda>i. ''10.0.0.1:80'') (sample_socket 9) n1 = Inr n2 \<and>
     (\<forall>k. connections n2 k \<noteq> Some 0) \<and> fdEventMaps n2 8 = Some 0"
proof -
  have n: "fdEventMaps net_new f = None" "connections net_new k \<noteq> Some (length (conns net_new))"
    "length (conns net_new) = 0" "length (objs net_new) = 0" "getFd (sample_socket f) = f" for f k
    by (simp_all add: net_new_def sample_socket_def getFd_def)
  from second_connection_evicts_first [of net_new "sample_socket 8" "sample_socket 9" "\<lambda>i. ''10.0.0.1:80''"]
  have "\<exists>n1 n2. server_newConnection (\<lambda>i. ''10.0.0.1:80'') (sample_socket 8) net_new = Inr n1 \<and>
     server_newConnection (\<lambda>i. ''10.0.0.1:80'') (sample_socket 9) n1 = Inr n2 \<and>
     connections n1 ''10.0.0.1:80'' = Some 0 \<and> (\<forall>k. connections n2 k \<noteq> Some 0) \<and>
     tc_state (conn_at 0 n2) = CsConnected \<and> fdEventMaps n2 8 = Some 0"
    using n(2) by (simp add: n(1,3-5))
  then show ?thesis by blast
qed

end
