(* ===== verification/Connector.thy ===== *)
theory Connector
  imports TcpConnection
begin

text \<open>
  The class \<open>Connector\<close> of \<open>gwcpp/net/Connector.h\<close> and \<open>Connector.cpp\<close> on top of the state \<open>net\<close>.
  \<open>event_\<close> is the index of the event object that it owns. When the owner drops an event, the
  object is destroyed; its index is then added to \<open>deleted\<close>, so that a poller which still points to
  it can be seen. The fields \<open>try_times_\<close>, \<open>delay_sec_\<close> and \<open>conn_forever\<close> are never read.
\<close>

datatype connector_state = CnDisconnected | CnConnecting | CnConnected

record connector = net +
  cn_state :: connector_state
  cn_connect :: bool
  cn_addr :: address
  cn_event :: "nat option"
  cn_sock :: "socket option"
  deleted :: "nat list"

definition Connector_new :: "address \<Rightarrow> net \<Rightarrow> connector" where
  "Connector_new address n = net.extend n (connector.fields CnDisconnected False address None None [])"

text \<open>What the kernel answers to the calls that \<open>start\<close> makes.\<close>

record connect_env =
  env_opt :: "sockopt \<Rightarrow> int \<Rightarrow> bool"
  env_fd :: int
  env_ret :: int
  env_peer :: "address option"
  env_local :: "address option"

text \<open>The effect of \<open>event_.reset(p)\<close> on the object that was owned.\<close>

definition delete_event :: "'a connector_scheme \<Rightarrow> 'a connector_scheme" where
  "delete_event c = c\<lparr>deleted := deleted c @ (case cn_event c of None \<Rightarrow> [] | Some e \<Rightarrow> [e])\<rparr>"

definition Connector_start :: "connect_env \<Rightarrow> 'a connector_scheme \<Rightarrow> (bool \<times> 'a connector_scheme) result" where
  "Connector_start env c =
     (if cn_state c \<noteq> CnDisconnected then Inr (False, c)
      else let new_socket = CreateTcpSocket (env_opt env) (env_fd env)
      in if isInvalid new_socket then Inr (False, c)
      else let (conn_ret, sock) = Socket_connect (env_ret env) (env_peer env) (env_local env) (cn_addr c) new_socket
      in if conn_ret \<noteq> 0 then Inr (False, c)
      else let e = length (objs c);
               c1 = (delete_event c)\<lparr>cn_sock := Some sock, cn_event := Some e\<rparr>;
               c2 = upd_ev e (\<lambda>ev. ev\<lparr>ev_writer := True\<rparr>)
                      (EpollFdEvent_init e (getFd sock) KPersist (EpollFdEvent_new 0 c1))
      in r_bind (enableWriting e c2) (\<lambda>c3. Inr (True, c3\<lparr>cn_state := CnConnecting\<rparr>)))"

definition Connector_reStart :: "connect_env \<Rightarrow> 'a connector_scheme \<Rightarrow> 'a connector_scheme result" where
  "Connector_reStart env c =
     r_bind (Connector_start env (c\<lparr>cn_state := CnDisconnected, cn_connect := True\<rparr>)) (\<lambda>(started, c'). Inr c')"

definition removeAndResetChannel :: "'a connector_scheme \<Rightarrow> 'a connector_scheme result" where
  "removeAndResetChannel c =
     (case cn_event c of
        None \<Rightarrow> Inl Undefined
      | Some e \<Rightarrow>
          r_bind (disableAll e c) (\<lambda>c1.
          r_bind (EpollFdEvent_remove e c1) (\<lambda>c2.
          Inr (c2\<lparr>loop_tasks := loop_tasks c2 @ [TResetEvent]\<rparr>))))"

definition resetEvent :: "'a connector_scheme \<Rightarrow> 'a connector_scheme" where
  "resetEvent c = (delete_event c)\<lparr>cn_event := None\<rparr>"

text \<open>\<open>stop\<close> compares the state with \<open>Disconnected\<close> where it means to assign it.\<close>

definition Connector_stop :: "'a connector_scheme \<Rightarrow> 'a connector_scheme result" where
  "Connector_stop c =
     (let c1 = c\<lparr>cn_connect := False\<rparr>
      in if cn_state c1 = CnConnecting then removeAndResetChannel c1 else Inr c1)"

text \<open>\<open>on_connect\<close> is \<open>connect_cb_\<close>, \<open>sock_errno\<close> the error that \<open>getsockopt\<close> stored, \<open>loc\<close> and
  \<open>peer\<close> the answers to \<open>isSelfConnect\<close>.\<close>

definition Connector_handleWrite ::
    "connect_env \<Rightarrow> int \<Rightarrow> address option \<Rightarrow> address option \<Rightarrow>
     (socket \<Rightarrow> 'a connector_scheme \<Rightarrow> 'a connector_scheme result) option \<Rightarrow>
     'a connector_scheme \<Rightarrow> 'a connector_scheme result" where
  "Connector_handleWrite env sock_errno loc peer on_connect c =
     (if cn_state c = CnConnecting then
        r_bind (removeAndResetChannel c) (\<lambda>c1.
        case cn_sock c1 of
          None \<Rightarrow> Inl Undefined
        | Some s \<Rightarrow>
            if sock_errno \<noteq> 0 then Connector_reStart env c1
            else r_bind (isSelfConnect loc peer s) (\<lambda>(self, s1).
              let c2 = c1\<lparr>cn_sock := Some s1\<rparr>
              in if self then Connector_reStart env c2
                 else let c3 = c2\<lparr>cn_state := CnConnected\<rparr>
                 in case on_connect of
                      Some connect_cb \<Rightarrow> connect_cb s1 c3
                    | None \<Rightarrow> Inr (c3\<lparr>cn_sock := Some (Socket_close s1)\<rparr>)))
      else Inr c)"

text \<open>The destructor calls \<open>cleanup\<close>.\<close>

definition Connector_cleanup :: "'a connector_scheme \<Rightarrow> 'a connector_scheme result" where
  "Connector_cleanup c = Connector_stop c"

end
