(* ===== verification/TcpClient.thy ===== *)
theory TcpClient
  imports Connector
begin

text \<open>
  The class \<open>TcpClient\<close> of \<open>gwcpp/net/TcpClient.h\<close> and \<open>TcpClient.cpp\<close>: a connector and at most one
  connection. The member functions that only store a callback are not modelled: all callbacks are
  set and their calls are recorded in \<open>user_log\<close>. A connection that \<open>connection_\<close> loses is kept in
  \<open>conns\<close>; its destruction is not modelled.
\<close>

datatype client_state = ClNone | ClInited | ClConnecting | ClConnected

record tcp_client = connector +
  cl_state :: client_state
  cl_connId :: int
  connection :: "nat option"
  recon_enable :: bool

definition TcpClient_new :: "address \<Rightarrow> net \<Rightarrow> tcp_client" where
  "TcpClient_new addr n = connector.extend (Connector_new addr n) (tcp_client.fields ClInited 1 None False)"

definition client_setAutoReconnect :: "bool \<Rightarrow> 'a tcp_client_scheme \<Rightarrow> 'a tcp_client_scheme" where
  "client_setAutoReconnect enable c = c\<lparr>recon_enable := enable\<rparr>"

definition client_start :: "connect_env \<Rightarrow> 'a tcp_client_scheme \<Rightarrow> (bool \<times> 'a tcp_client_scheme) result" where
  "client_start env c = Connector_start env (c\<lparr>cl_state := ClConnecting\<rparr>)"

definition client_stop :: "'a tcp_client_scheme \<Rightarrow> 'a tcp_client_scheme result" where
  "client_stop c =
     r_bind (if cl_state c = ClConnecting then Connector_stop c
             else if cl_state c = ClConnected then
               r_bind (Connector_stop c) (\<lambda>c1.
               case connection c1 of None \<Rightarrow> Inr c1 | Some i \<Rightarrow> tc_disconnect i c1)
             else Inr c)
       (\<lambda>c2. Inr (c2\<lparr>cl_state := ClInited\<rparr>))"

text \<open>The socket moves from the connector to the connection. \<open>name\<close> is what \<open>snprintf\<close> makes of the
  address and \<open>connId_\<close>.\<close>

definition client_newConnection :: "(int \<Rightarrow> string) \<Rightarrow> socket \<Rightarrow> 'a tcp_client_scheme \<Rightarrow> 'a tcp_client_scheme result" where
  "client_newConnection name s c =
     (let i = length (conns c);
          c1 = TcpConnection_new s (name (cl_connId c)) (c\<lparr>cn_sock := None\<rparr>)
      in r_bind (tc_connectFinished i (c1\<lparr>connection := Some i\<rparr>)) (\<lambda>c2. Inr (c2\<lparr>cl_state := ClConnected\<rparr>)))"

text \<open>The close callback gets \<open>connection_\<close>, which was reset before.\<close>

definition client_removeConnection :: "connect_env \<Rightarrow> nat \<Rightarrow> 'a tcp_client_scheme \<Rightarrow> 'a tcp_client_scheme result" where
  "client_removeConnection env i c =
     (let c1 = c\<lparr>connection := None, loop_tasks := loop_tasks c @ [TDisconnect i]\<rparr>
      in r_bind (if recon_enable c1 \<and> cl_state c1 = ClConnected then Connector_reStart env c1 else Inr c1)
           (\<lambda>c2. Inr (c2\<lparr>user_log := user_log c2 @ [UClosed (connection c2)]\<rparr>)))"

text \<open>The destructor calls \<open>cleanup\<close>.\<close>

definition client_cleanup :: "'a tcp_client_scheme \<Rightarrow> 'a tcp_client_scheme result" where
  "client_cleanup c = client_stop c"

end
