(* ===== verification/ClientLife.thy ===== *)
theory ClientLife
  imports TcpLife TcpClient
begin

text \<open>
  The life of a \<open>TcpClient\<close>: a connect that succeeds ends in an established connection and leaves no
  trace of the connector in the poller; a connect that is retried does not, because the queued
  \<open>resetEvent\<close> destroys the event of the second attempt; a stopped client cannot be started again.
\<close>

section \<open>Frame lemmas\<close>

lemma more_net_more: "poller.more q = poller.more (n :: 'a net_scheme) \<Longrightarrow> net.more q = net.more n"
  by (cases q; cases n) simp

lemma more_connector_net:
  assumes "net.more q = net.more (c :: 'a connector_scheme)"
  shows "cn_state q = cn_state c" "cn_connect q = cn_connect c" "cn_addr q = cn_addr c" "cn_event q = cn_event c"
    "cn_sock q = cn_sock c" "deleted q = deleted c" "connector.more q = connector.more c"
  using assms by (cases q; cases c; simp)+

lemma more_connector:
  assumes "poller.more q = poller.more (c :: 'a connector_scheme)"
  shows "cn_state q = cn_state c" "cn_connect q = cn_connect c" "cn_addr q = cn_addr c" "cn_event q = cn_event c"
    "cn_sock q = cn_sock c" "deleted q = deleted c" "connector.more q = connector.more c"
  using assms by (cases q; cases c; simp)+

lemma more_client:
  assumes "connector.more q = connector.more (c :: 'a tcp_client_scheme)"
  shows "cl_state q = cl_state c" "cl_connId q = cl_connId c" "connection q = connection c"
    "recon_enable q = recon_enable c"
  using assms by (cases q; cases c; simp)+

lemma ev_at_more: "objs q = objs p \<Longrightarrow> ev_at e q = ev_at e p"
  by (simp add: ev_at_def)

section \<open>The steps of the connector\<close>

text \<open>What holds after a \<open>start\<close> that found no error: the event waits for the socket to be writable.\<close>

definition awaiting :: "connect_env \<Rightarrow> 'a connector_scheme \<Rightarrow> bool" where
  "awaiting env c \<longleftrightarrow> poller_inv c \<and> cn_state c = CnConnecting \<and>
     (\<exists>e s. cn_event c = Some e \<and> e < length (objs c) \<and> ev_fd (ev_at e c) = env_fd env \<and>
        ev_index (ev_at e c) \<noteq> kNew \<and> cn_sock c = Some s \<and> getFd s = env_fd env \<and> isConnected s \<and>
        remoteAddress s = Some (cn_addr c) \<and> localAddress s = env_local env)"

text \<open>The kernel accepts the connect, on a descriptor that the poller does not know.\<close>

definition connectable :: "connect_env \<Rightarrow> 'a connector_scheme \<Rightarrow> bool" where
  "connectable env c \<longleftrightarrow> env_fd env \<noteq> - 1 \<and> env_ret env = 0 \<and> fdEventMaps c (env_fd env) = None"

lemma Connector_start_ok:
  assumes inv: "poller_inv c" and st: "cn_state c = CnDisconnected" and env: "connectable env c"
  shows "\<exists>c1. Connector_start env c = Inr (True, c1) \<and> awaiting env c1 \<and> cn_event c1 = Some (length (objs c)) \<and>
     fdEventMaps c1 = (fdEventMaps c)(env_fd env \<mapsto> length (objs c)) \<and> cn_addr c1 = cn_addr c \<and>
     deleted c1 = deleted c @ (case cn_event c of None \<Rightarrow> [] | Some e \<Rightarrow> [e]) \<and>
     conns c1 = conns c \<and> loop_tasks c1 = loop_tasks c \<and> user_log c1 = user_log c \<and>
     connector.more c1 = connector.more c"
proof -
  let ?e = "length (objs c)"
  define s where "s = snd (Socket_connect 0 (env_peer env) (env_local env) (cn_addr c) (CreateTcpSocket (env_opt env) (env_fd env)))"
  have s: "getFd s = env_fd env" "isConnected s" "remoteAddress s = Some (cn_addr c)" "localAddress s = env_local env"
    by (simp_all add: s_def Socket_connect_def CreateTcpSocket_def newSocket_def Socket_new_def Let_def
        getPeerAddress_def getLocalAddress_def getFd_def isConnected_def split: option.splits)
  define c0 where "c0 = (delete_event c)\<lparr>cn_sock := Some s, cn_event := Some ?e\<rparr>"
  have c0: "objs c0 = objs c" "fdEventMaps c0 = fdEventMaps c" "ctl_log c0 = ctl_log c"
    by (simp_all add: c0_def delete_event_def)
  have "poller_inv c0" using inv by (subst poller_inv_more) (simp_all add: c0)
  with event_register_ok [of c0 "env_fd env" "\<lambda>ev. ev\<lparr>ev_writer := True\<rparr>" "\<lambda>w. w OR kWriteEvent" KPersist 0] env
  obtain q where q: "EpollFdEvent_update ?e (with_events ?e (\<lambda>w. w OR kWriteEvent)
       (upd_ev ?e (\<lambda>ev. ev\<lparr>ev_writer := True\<rparr>) (EpollFdEvent_init ?e (env_fd env) KPersist (EpollFdEvent_new 0 c0)))) = Inr q"
      "poller_inv q" "fdEventMaps q = (fdEventMaps c)(env_fd env \<mapsto> ?e)" "length (objs q) = Suc ?e"
      "ev_fd (ev_at ?e q) = env_fd env" "ev_index (ev_at ?e q) \<noteq> kNew" "poller.more q = poller.more c0"
    by (auto simp: connectable_def c0)
  let ?c1 = "q\<lparr>cn_state := CnConnecting\<rparr>"
  have "\<not> isInvalid (CreateTcpSocket (env_opt env) (env_fd env))"
    using env by (simp add: connectable_def CreateTcpSocket_def newSocket_def isInvalid_def Let_def)
  moreover have "Socket_connect (env_ret env) (env_peer env) (env_local env) (cn_addr c)
      (CreateTcpSocket (env_opt env) (env_fd env)) = (0, s)"
    using env by (simp add: s_def connectable_def Socket_connect_def Let_def)
  ultimately have "Connector_start env c = Inr (True, ?c1)"
    using st q(1) s(1) by (simp add: Connector_start_def Let_def c0_def [symmetric] enableWriting_def)
  moreover have "poller_inv ?c1" using q(2) by (subst poller_inv_more) simp_all
  ultimately show ?thesis
    using more_net [OF q(7)] more_connector [OF q(7)] q(3-6) s
    by (intro exI [of _ ?c1]) (simp add: awaiting_def c0_def delete_event_def ev_at_def)
qed

lemma removeAndResetChannel_ok:
  assumes inv: "poller_inv c" and e: "cn_event c = Some e" "e < length (objs c)" "ev_index (ev_at e c) \<noteq> kNew"
  shows "\<exists>c1. removeAndResetChannel c = Inr c1 \<and> poller_inv c1 \<and>
     fdEventMaps c1 = (fdEventMaps c)(ev_fd (ev_at e c) := None) \<and> length (objs c1) = length (objs c) \<and>
     poller.more c1 = poller.more (c\<lparr>loop_tasks := loop_tasks c @ [TResetEvent]\<rparr>)"
proof -
  from event_update_ok [OF inv e(2), of "\<lambda>w. kNoneEvent"] e(3) obtain q where
    q: "EpollFdEvent_update e (with_events e (\<lambda>w. kNoneEvent) c) = Inr q" "poller_inv q"
      "length (objs q) = length (objs c)" "ev_index (ev_at e q) \<noteq> kNew" "ev_events (ev_at e q) = kNoneEvent"
      "ev_fd (ev_at e q) = ev_fd (ev_at e c)" "poller.more q = poller.more c" by blast
  have maps: "fdEventMaps q = (fdEventMaps c)(ev_fd (ev_at e c) \<mapsto> e)" by (rule event_update_maps [OF inv e(2) q(1)])
  from event_remove_ok [OF q(2) _ q(4,5)] q(3) e(2) obtain r where
    r: "EpollFdEvent_remove e q = Inr r" "poller_inv r" "length (objs r) = length (objs q)"
      "fdEventMaps r = (fdEventMaps q)(ev_fd (ev_at e q) := None)" "poller.more r = poller.more q" by auto
  let ?c1 = "r\<lparr>loop_tasks := loop_tasks r @ [TResetEvent]\<rparr>"
  have "removeAndResetChannel c = Inr ?c1"
    using e(1) q(1) r(1) by (simp add: removeAndResetChannel_def disableAll_def)
  moreover have "poller_inv ?c1" using r(2) by (subst poller_inv_more) simp_all
  moreover have "poller.more ?c1 = poller.more (c\<lparr>loop_tasks := loop_tasks c @ [TResetEvent]\<rparr>)"
    using r(5) q(7) by (cases r; cases c) simp
  ultimately show ?thesis using r(3,4) q(3,6) maps by (intro exI [of _ ?c1]) simp
qed

text \<open>\<open>handleWrite\<close> while connecting: the event is unregistered and its destruction is queued.\<close>

lemma handleWrite_remove:
  assumes "awaiting env c"
  shows "\<exists>c1 e s. removeAndResetChannel c = Inr c1 \<and> poller_inv c1 \<and> cn_event c1 = Some e \<and>
     cn_event c = Some e \<and>
     fdEventMaps c1 = (fdEventMaps c)(env_fd env := None) \<and> cn_sock c1 = Some s \<and> getFd s = env_fd env \<and>
     isConnected s \<and> remoteAddress s = Some (cn_addr c) \<and> localAddress s = env_local env \<and>
     length (objs c1) = length (objs c) \<and>
     poller.more c1 = poller.more (c\<lparr>loop_tasks := loop_tasks c @ [TResetEvent]\<rparr>)"
proof -
  from assms obtain e s where c: "poller_inv c" "cn_event c = Some e" "e < length (objs c)"
    "ev_fd (ev_at e c) = env_fd env" "ev_index (ev_at e c) \<noteq> kNew" "cn_sock c = Some s" "getFd s = env_fd env"
    "isConnected s" "remoteAddress s = Some (cn_addr c)" "localAddress s = env_local env"
    by (auto simp: awaiting_def)
  from removeAndResetChannel_ok [OF c(1-3,5)] obtain c1 where c1: "removeAndResetChannel c = Inr c1" "poller_inv c1"
    "fdEventMaps c1 = (fdEventMaps c)(ev_fd (ev_at e c) := None)" "length (objs c1) = length (objs c)"
    "poller.more c1 = poller.more (c\<lparr>loop_tasks := loop_tasks c @ [TResetEvent]\<rparr>)" by blast
  from c1 c more_connector [OF c1(5)] show ?thesis by (intro exI [of _ c1] exI [of _ e] exI [of _ s]) simp
qed

section \<open>The connection that a client makes\<close>

lemma connection_made:
  assumes free: "fdEventMaps n (getFd s) = None"
  shows "\<exists>n'. tc_connectFinished (length (conns n)) (TcpConnection_new s nm n) = Inr n' \<and>
     fdEventMaps n' = (fdEventMaps n)(getFd s \<mapsto> length (objs n)) \<and> length (objs n') = Suc (length (objs n)) \<and>
     loop_tasks n' = loop_tasks n \<and> net.more n' = net.more n"
proof -
  let ?c = "length (conns n)" and ?e = "length (objs n)"
  define m2 where "m2 = set_state ?c CsConnected (TcpConnection_new s nm n)"
  note new = TcpConnection_new_frame [where s = s and name = nm and n = n]
  have "loop_tasks (TcpConnection_new s nm n) = loop_tasks n" "net.more (TcpConnection_new s nm n) = net.more n"
    by (simp_all add: TcpConnection_new_def Let_def EpollFdEvent_init_def EpollFdEvent_new_def upd_ev_def)
  then have m2: "?e < length (objs m2)" "length (objs m2) = Suc ?e" "fdEventMaps m2 = fdEventMaps n"
    "ev_index (ev_at ?e m2) = kNew" "ev_fd (ev_at ?e m2) = getFd s" "loop_tasks m2 = loop_tasks n" "net.more m2 = net.more n"
    using new by (simp_all add: m2_def set_state_def upd_conn_def ev_at_def)
  from enableReading_new [of ?e m2] m2 free obtain q where
    q: "enableReading ?e m2 = Inr q" "fdEventMaps q = (fdEventMaps n)(getFd s \<mapsto> ?e)"
      "length (objs q) = Suc ?e" "poller.more q = poller.more m2" by auto
  let ?n' = "q\<lparr>user_log := user_log q @ [UConnected ?c]\<rparr>"
  have "tc_connectFinished ?c (TcpConnection_new s nm n) = Inr ?n'"
    using q(1) new(7) by (simp add: tc_connectFinished_def m2_def conn_at_def)
  with q(2,3) more_net [OF q(4)] more_net_more [OF q(4)] m2(6,7) show ?thesis
    by (intro exI [of _ ?n']) simp
qed

lemma TcpConnection_new_client:
  "(TcpConnection_new s nm (c :: 'a tcp_client_scheme))\<lparr>connection := x\<rparr> = TcpConnection_new s nm (c\<lparr>connection := x\<rparr>)"
  by (simp add: TcpConnection_new_def Let_def EpollFdEvent_init_def EpollFdEvent_new_def upd_ev_def)

lemma tc_inv_frame:
  assumes "objs q = objs n" "fdEventMaps q = fdEventMaps n" "ctl_log q = ctl_log n" "conns q = conns n"
  shows "tc_inv i q = tc_inv i n"
  using poller_inv_more [OF assms(1-3)] assms by (simp add: tc_inv_def conn_at_def ev_at_def pending_def)

lemma client_newConnection_ok:
  assumes inv: "poller_inv c" and free: "fdEventMaps c (getFd s) = None" and s: "isConnected s"
  shows "\<exists>c2. client_newConnection name s c = Inr c2 \<and> tc_inv (length (conns c)) c2 \<and>
     fdEventMaps c2 = (fdEventMaps c)(getFd s \<mapsto> length (objs c)) \<and> length (objs c2) = Suc (length (objs c)) \<and>
     loop_tasks c2 = loop_tasks c \<and> cn_state c2 = cn_state c \<and> cn_event c2 = cn_event c \<and> deleted c2 = deleted c \<and>
     cl_state c2 = ClConnected \<and> connection c2 = Some (length (conns c)) \<and> recon_enable c2 = recon_enable c"
proof -
  let ?i = "length (conns c)" and ?nm = "name (cl_connId c)"
  define n where "n = c\<lparr>cn_sock := None, connection := Some (length (conns c))\<rparr>"
  have n: "conns n = conns c" "objs n = objs c" "fdEventMaps n = fdEventMaps c" "loop_tasks n = loop_tasks c"
    "poller_inv n" using inv by (simp_all add: n_def) (subst poller_inv_more, simp_all)
  from connection_made [of n s ?nm] free n obtain n' where
    n': "tc_connectFinished ?i (TcpConnection_new s ?nm n) = Inr n'" "fdEventMaps n' = (fdEventMaps c)(getFd s \<mapsto> length (objs c))"
      "length (objs n') = Suc (length (objs c))" "loop_tasks n' = loop_tasks c" "net.more n' = net.more n" by auto
  from tc_connect_ok [OF n(5), of s ?nm] free s n n'(1) have inv': "tc_inv ?i n'" by auto
  let ?c2 = "n'\<lparr>cl_state := ClConnected\<rparr>"
  have "client_newConnection name s c = Inr ?c2"
    using n'(1) by (simp add: client_newConnection_def Let_def TcpConnection_new_client n_def)
  moreover have "tc_inv ?i ?c2" using inv' by (subst tc_inv_frame) simp_all
  moreover note more_connector_net [OF n'(5)]
  moreover note more_client [OF more_connector_net(7) [OF n'(5)]]
  ultimately show ?thesis using n'(2-4) by (intro exI [of _ ?c2]) (simp add: n_def)
qed

section \<open>Properties\<close>

text \<open>The events that were destroyed are not registered with the poller.\<close>

definition no_dangling :: "'a connector_scheme \<Rightarrow> bool" where
  "no_dangling c \<longleftrightarrow> (\<forall>e \<in> set (deleted c). e < length (objs c) \<and> (\<forall>f. fdEventMaps c f \<noteq> Some e))"

text \<open>A local address that is not the one of the server: \<open>isSelfConnect\<close> compares the port and the first four
  bytes of the address, and only for IPv4.\<close>

definition other_end :: "address \<Rightarrow> address \<Rightarrow> bool" where
  "other_end la ra \<longleftrightarrow> sa_family la \<noteq> Some IPv4 \<or> sa_port la \<noteq> sa_port ra \<or> take 4 (sa_rest la) \<noteq> take 4 (sa_rest ra)"

lemma isSelfConnect_other:
  assumes "localAddress s = Some la" "remoteAddress s = Some ra" "other_end la ra"
  shows "isSelfConnect loc peer s = Inr (False, s)"
  using assms by (auto simp: isSelfConnect_def Let_def getLocalAddress_def getPeerAddress_def other_end_def)

lemma connect_succeeds:
  assumes "poller_inv c" "no_dangling c" "cn_event c = None" "cn_state c = CnDisconnected" "connectable env c"
    "env_local env = Some la" "other_end la (cn_addr c)" "loop_tasks c = []"
  shows "\<exists>c1 c2 c3. client_start env c = Inr (True, c1) \<and> cn_state c1 = CnConnecting \<and>
     Connector_handleWrite env2 0 loc peer (Some (client_newConnection name)) c1 = Inr c2 \<and>
     cn_state c2 = CnConnected \<and> cl_state c2 = ClConnected \<and> connection c2 = Some (length (conns c)) \<and>
     tc_inv (length (conns c)) c2 \<and>
     run_loop_task (\<lambda>n. Inr (resetEvent n)) c2 = Inr c3 \<and> cn_event c3 = None \<and> loop_tasks c3 = [] \<and>
     tc_inv (length (conns c)) c3 \<and> no_dangling c3"
proof -
  let ?i = "length (conns c)" and ?e = "length (objs c)"
  define c0 where "c0 = c\<lparr>cl_state := ClConnecting\<rparr>"
  have c0: "poller_inv c0" "cn_state c0 = CnDisconnected" "connectable env c0" "cn_event c0 = None" "objs c0 = objs c"
    "fdEventMaps c0 = fdEventMaps c" "deleted c0 = deleted c" "conns c0 = conns c" "loop_tasks c0 = []" "cn_addr c0 = cn_addr c"
    using assms by (simp_all add: c0_def connectable_def) (subst poller_inv_more, simp_all)
  from Connector_start_ok [OF c0(1-3)] c0(4-10) obtain c1 where
    c1: "Connector_start env c0 = Inr (True, c1)" "awaiting env c1" "cn_event c1 = Some ?e"
      "fdEventMaps c1 = (fdEventMaps c)(env_fd env \<mapsto> ?e)" "deleted c1 = deleted c" "conns c1 = conns c" "loop_tasks c1 = []"
      "cn_addr c1 = cn_addr c" by auto
  have e1: "cn_state c1 = CnConnecting" "?e < length (objs c1)" using c1(2,3) by (auto simp: awaiting_def)
  from handleWrite_remove [OF c1(2)] c1(3) obtain r s where
    r: "removeAndResetChannel c1 = Inr r" "poller_inv r" "cn_event r = Some ?e"
      "fdEventMaps r = (fdEventMaps c1)(env_fd env := None)" "cn_sock r = Some s" "getFd s = env_fd env"
      "isConnected s" "remoteAddress s = Some (cn_addr c1)" "localAddress s = env_local env"
      "length (objs r) = length (objs c1)"
      "poller.more r = poller.more (c1\<lparr>loop_tasks := loop_tasks c1 @ [TResetEvent]\<rparr>)" by auto
  have self: "isSelfConnect loc peer s = Inr (False, s)"
    by (rule isSelfConnect_other) (use r(8,9) assms(6,7) c1(8) in auto)
  define r' where "r' = r\<lparr>cn_sock := Some s, cn_state := CnConnected\<rparr>"
  have r': "poller_inv r'" "fdEventMaps r' (getFd s) = None" "conns r' = conns c" "loop_tasks r' = [TResetEvent]"
    "cn_state r' = CnConnected" "cn_event r' = Some ?e" "deleted r' = deleted c" "objs r' = objs r"
    "fdEventMaps r' = (fdEventMaps c)(env_fd env := None)"
    using r(2-6) more_net [OF r(11)] more_connector [OF r(11)] c1(4-7)
    by (simp_all add: r'_def) (subst poller_inv_more, simp_all)
  from client_newConnection_ok [OF r'(1,2) r(7), of name] r' r(6) obtain c2 where
    c2: "client_newConnection name s r' = Inr c2" "tc_inv ?i c2"
      "fdEventMaps c2 = (fdEventMaps c)(env_fd env \<mapsto> length (objs r))" "length (objs c2) = Suc (length (objs r))"
      "loop_tasks c2 = [TResetEvent]" "cn_state c2 = CnConnected" "cn_event c2 = Some ?e" "deleted c2 = deleted c"
      "cl_state c2 = ClConnected" "connection c2 = Some ?i" by auto
  let ?c3 = "resetEvent (c2\<lparr>loop_tasks := []\<rparr>)"
  have "Connector_handleWrite env2 0 loc peer (Some (client_newConnection name)) c1 = Inr c2"
    using e1(1) r(1,5) self c2(1) by (simp add: Connector_handleWrite_def Let_def r'_def)
  moreover have "run_loop_task (\<lambda>n. Inr (resetEvent n)) c2 = Inr ?c3" using c2(5) by (simp add: run_loop_task_def)
  moreover have "tc_inv ?i ?c3" using c2(2) by (subst tc_inv_frame) (simp_all add: resetEvent_def delete_event_def)
  moreover have "no_dangling ?c3"
    using assms(2) poller_invD(1) [OF assms(1)] c2(3,4,7,8) r(10) e1(2)
    by (fastforce simp: no_dangling_def resetEvent_def delete_event_def)
  moreover have "cn_event ?c3 = None \<and> loop_tasks ?c3 = []" by (simp add: resetEvent_def delete_event_def)
  moreover have "client_start env c = Inr (True, c1)" using c1(1) by (simp add: client_start_def c0_def)
  ultimately show ?thesis
    using e1(1) c2(2,6,9,10) by (intro exI [of _ c1] exI [of _ c2] exI [of _ ?c3]) simp
qed

text \<open>C15: A client whose connect the kernel accepts at once, on a descriptor that the poller does not know,
  ends, when the socket becomes writable without error and its local address and port are not those of
  the server, in an established connection; the connector's event is unregistered and, once the queued
  task has run, destroyed, and no destroyed event is registered with the poller.\<close>
theorem client_connects:
  assumes "poller_inv c" "no_dangling c" "cn_event c = None" "cn_state c = CnDisconnected" "connectable env c"
    "env_local env = Some la" "other_end la (cn_addr c)" "loop_tasks c = []"
  shows "\<exists>c1 c2 c3. client_start env c = Inr (True, c1) \<and> cn_state c1 = CnConnecting \<and>
     Connector_handleWrite env2 0 loc peer (Some (client_newConnection name)) c1 = Inr c2 \<and>
     cn_state c2 = CnConnected \<and> cl_state c2 = ClConnected \<and> connection c2 = Some (length (conns c)) \<and>
     tc_inv (length (conns c)) c2 \<and>
     run_loop_task (\<lambda>n. Inr (resetEvent n)) c2 = Inr c3 \<and> cn_event c3 = None \<and> loop_tasks c3 = [] \<and>
     tc_inv (length (conns c)) c3 \<and> no_dangling c3"
  by (rule connect_succeeds [OF assms])

text \<open>A client at 10.0.0.1, whose server is at port 80.\<close>

definition sample_address :: "16 word \<Rightarrow> address" where
  "sample_address port = Address_make (\<lambda>p ip. Some [10, 0, 0, 1]) ''10.0.0.1'' port IPv4"

definition sample_client :: tcp_client where
  "sample_client = TcpClient_new (sample_address 80) net_new"

definition sample_env :: "int \<Rightarrow> connect_env" where
  "sample_env f = \<lparr>env_opt = (\<lambda>opt v. True), env_fd = f, env_ret = 0, env_peer = None,
     env_local = Some (sample_address 4000)\<rparr>"

lemma sample_client_ok:
  "poller_inv sample_client" "no_dangling sample_client" "cn_event sample_client = None"
  "cn_state sample_client = CnDisconnected" "f \<noteq> - 1 \<Longrightarrow> connectable (sample_env f) sample_client"
  "env_local (sample_env f) = Some (sample_address 4000)"
  "other_end (sample_address 4000) (cn_addr sample_client)" "loop_tasks sample_client = []"
  "conns sample_client = []" "cn_addr sample_client = sample_address 80" "recon_enable sample_client = False"
  "deleted sample_client = []" "objs sample_client = []"
  by (simp_all add: sample_client_def TcpClient_new_def Connector_new_def net.defs connector.defs tcp_client.defs
      net_new_def poller_inv_def interest_def no_dangling_def connectable_def sample_env_def sample_address_def
      Address_make_def zero_storage_def swap16_def Let_def other_end_def)

text \<open>The local port may be that of the server, on another machine.\<close>

definition sample_neighbour :: connect_env where
  "sample_neighbour = (sample_env 9)\<lparr>env_local := Some (Address_make (\<lambda>p ip. Some [10, 0, 0, 2]) ''10.0.0.2'' 80 IPv4)\<rparr>"

theorem client_connects_witness:
  "\<exists>c1 c2. client_start sample_neighbour sample_client = Inr (True, c1) \<and>
     Connector_handleWrite (sample_env 10) 0 None None (Some (client_newConnection (\<lambda>i. ''c''))) c1 = Inr c2 \<and>
     tc_inv 0 c2 \<and> connection c2 = Some 0"
proof -
  have "connectable sample_neighbour sample_client"
    using sample_client_ok(5) [of 9] by (simp add: connectable_def sample_neighbour_def sample_env_def)
  moreover have "env_local sample_neighbour = Some (Address_make (\<lambda>p ip. Some [10, 0, 0, 2]) ''10.0.0.2'' 80 IPv4)"
    by (simp add: sample_neighbour_def)
  moreover have "other_end (Address_make (\<lambda>p ip. Some [10, 0, 0, 2]) ''10.0.0.2'' 80 IPv4) (cn_addr sample_client)"
    by (simp add: sample_client_ok(10) sample_address_def Address_make_def zero_storage_def swap16_def Let_def other_end_def put_rest_def)
  ultimately show ?thesis
    using client_connects [OF sample_client_ok(1-4) _ _ _ sample_client_ok(8), of sample_neighbour _ "sample_env 10" None None "\<lambda>i. ''c''"]
      sample_client_ok(9) by force
qed

text \<open>C39: When a connect attempt fails, the second attempt loses its event: the event of the first one is
  destroyed by the second \<open>start\<close>, and the queued \<open>resetEvent\<close> then destroys the event of the second,
  which stays registered with the poller; a \<open>stop\<close> dereferences a null pointer.\<close>
theorem retry_loses_event:
  assumes "awaiting env c" "loop_tasks c = []" "sock_errno \<noteq> 0" "connectable env2 c"
  shows "\<exists>c1 c2 e. Connector_handleWrite env2 sock_errno loc peer cb c = Inr c1 \<and> awaiting env2 c1 \<and>
     run_loop_task (\<lambda>n. Inr (resetEvent n)) c1 = Inr c2 \<and> cn_state c2 = CnConnecting \<and> cn_event c2 = None \<and>
     fdEventMaps c2 (env_fd env2) = Some e \<and> e \<in> set (deleted c2) \<and> Connector_stop c2 = Inl Undefined"
proof -
  from handleWrite_remove [OF assms(1)] obtain r s where
    r: "removeAndResetChannel c = Inr r" "poller_inv r" "fdEventMaps r = (fdEventMaps c)(env_fd env := None)"
      "cn_sock r = Some s" "poller.more r = poller.more (c\<lparr>loop_tasks := loop_tasks c @ [TResetEvent]\<rparr>)" by blast
  define r' where "r' = r\<lparr>cn_state := CnDisconnected, cn_connect := True\<rparr>"
  have "poller_inv r'" "cn_state r' = CnDisconnected" "connectable env2 r'" "loop_tasks r' = [TResetEvent]"
    using r(2,3) more_net(2) [OF r(5)] assms(2,4)
    by (simp_all add: r'_def connectable_def) (subst poller_inv_more, simp_all)
  with Connector_start_ok [of r' env2] obtain c1 where
    c1: "Connector_start env2 r' = Inr (True, c1)" "awaiting env2 c1" "cn_event c1 = Some (length (objs r'))"
      "fdEventMaps c1 = (fdEventMaps r')(env_fd env2 \<mapsto> length (objs r'))" "loop_tasks c1 = [TResetEvent]" by auto
  let ?c2 = "resetEvent (c1\<lparr>loop_tasks := []\<rparr>)"
  have "Connector_handleWrite env2 sock_errno loc peer cb c = Inr c1"
    using assms(1,3) r(1,4) c1(1)
    by (auto simp: Connector_handleWrite_def awaiting_def Connector_reStart_def r'_def)
  moreover have "run_loop_task (\<lambda>n. Inr (resetEvent n)) c1 = Inr ?c2" using c1(5) by (simp add: run_loop_task_def)
  moreover have "cn_state ?c2 = CnConnecting" "cn_event ?c2 = None" "length (objs r') \<in> set (deleted ?c2)"
    "fdEventMaps ?c2 (env_fd env2) = Some (length (objs r'))"
    using c1(2-4) by (simp_all add: resetEvent_def delete_event_def awaiting_def)
  moreover from this(1,2) have "Connector_stop ?c2 = Inl Undefined"
    by (simp add: Connector_stop_def removeAndResetChannel_def)
  ultimately show ?thesis using c1(2) by blast
qed

lemma sample_awaiting:
  "\<exists>c. Connector_start (sample_env 9) sample_client = Inr (True, c) \<and> awaiting (sample_env 9) c \<and> loop_tasks c = [] \<and>
     connectable (sample_env 10) c"
proof -
  from Connector_start_ok [OF sample_client_ok(1,4) sample_client_ok(5) [of 9]] sample_client_ok(8) obtain c where
    c: "Connector_start (sample_env 9) sample_client = Inr (True, c)" "awaiting (sample_env 9) c" "loop_tasks c = []"
      "fdEventMaps c = (fdEventMaps sample_client)(env_fd (sample_env 9) \<mapsto> length (objs sample_client))" by auto
  moreover have "connectable (sample_env 10) c"
    using c(4) sample_client_ok(5) [of 10] by (simp add: connectable_def sample_env_def)
  ultimately show ?thesis by blast
qed

theorem retry_loses_event_witness:
  "\<exists>c c1 c2 e. Connector_start (sample_env 9) sample_client = Inr (True, c) \<and>
     Connector_handleWrite (sample_env 10) 111 None None None c = Inr c1 \<and>
     run_loop_task (\<lambda>n. Inr (resetEvent n)) c1 = Inr c2 \<and> fdEventMaps c2 10 = Some e \<and> e \<in> set (deleted c2)"
proof -
  from sample_awaiting obtain c where c: "Connector_start (sample_env 9) sample_client = Inr (True, c)"
    "awaiting (sample_env 9) c" "loop_tasks c = []" "connectable (sample_env 10) c" by blast
  have "env_fd (sample_env 10) = 10" "(111 :: int) \<noteq> 0" by (simp_all add: sample_env_def)
  with c(1) retry_loses_event [OF c(2,3) this(2) c(4), of None None None] show ?thesis by metis
qed

text \<open>\<open>stop\<close> of a connecting connector unregisters its event but leaves the state \<open>Connecting\<close>, so
  the next \<open>stop\<close>, at the latest that of the destructor, dereferences the event that the queued task
  has reset in the meantime.\<close>
theorem second_stop_crashes:
  assumes "awaiting env c" "loop_tasks c = []"
  shows "\<exists>c1 c2. Connector_stop c = Inr c1 \<and> cn_state c1 = CnConnecting \<and> fdEventMaps c1 (env_fd env) = None \<and>
     run_loop_task (\<lambda>n. Inr (resetEvent n)) c1 = Inr c2 \<and> Connector_stop c2 = Inl Undefined"
proof -
  define c0 where "c0 = c\<lparr>cn_connect := False\<rparr>"
  have aw: "awaiting env c0"
    using assms(1) poller_inv_more [of c0 c] by (simp add: c0_def awaiting_def ev_at_def)
  from handleWrite_remove [OF aw] obtain c1 where
    c1: "removeAndResetChannel c0 = Inr c1" "fdEventMaps c1 = (fdEventMaps c0)(env_fd env := None)"
      "poller.more c1 = poller.more (c0\<lparr>loop_tasks := loop_tasks c0 @ [TResetEvent]\<rparr>)" by blast
  let ?c2 = "resetEvent (c1\<lparr>loop_tasks := []\<rparr>)"
  have st: "cn_state c1 = CnConnecting" "loop_tasks c1 = [TResetEvent]" "Connector_stop c = Inr c1"
    using aw c1(1) assms(2) more_net(2) [OF c1(3)] more_connector(1) [OF c1(3)]
    by (simp_all add: awaiting_def c0_def Connector_stop_def)
  moreover have "run_loop_task (\<lambda>n. Inr (resetEvent n)) c1 = Inr ?c2" using st(2) by (simp add: run_loop_task_def)
  moreover have "Connector_stop ?c2 = Inl Undefined"
    using st(1) by (simp add: Connector_stop_def removeAndResetChannel_def resetEvent_def delete_event_def)
  ultimately show ?thesis using c1(2) by (intro exI [of _ c1] exI [of _ ?c2]) simp
qed

theorem second_stop_crashes_witness:
  "\<exists>c c1 c2. Connector_start (sample_env 9) sample_client = Inr (True, c) \<and> Connector_stop c = Inr c1 \<and>
     run_loop_task (\<lambda>n. Inr (resetEvent n)) c1 = Inr c2 \<and> Connector_stop c2 = Inl Undefined"
proof -
  from sample_awaiting obtain c where c: "Connector_start (sample_env 9) sample_client = Inr (True, c)"
    "awaiting (sample_env 9) c" "loop_tasks c = []" by blast
  from second_stop_crashes [OF c(2,3)] c(1) show ?thesis by blast
qed

section \<open>The end of a client's connection\<close>

lemma tc_disconnect_ok:
  assumes "tc_inv i n"
  shows "\<exists>n'. tc_disconnect i n = Inr n' \<and> poller_inv n' \<and>
     fdEventMaps n' = (fdEventMaps n)(ev_fd (ev_at (tc_event (conn_at i n)) n) := None) \<and>
     loop_tasks n' = loop_tasks n \<and> net.more n' = net.more n"
proof -
  let ?e = "tc_event (conn_at i n)" and ?n0 = "set_state i CsConnecting n"
  have n: "poller_inv n" "i < length (conns n)" "?e < length (objs n)" "ev_index (ev_at ?e n) \<noteq> kNew"
    "tc_state (conn_at i n) = CsConnected" using assms by (simp_all add: tc_inv_def)
  have inv0: "poller_inv ?n0" using n(1) by (subst poller_inv_more) (simp_all add: set_state_def)
  from event_update_ok [OF inv0, of ?e "\<lambda>w. kNoneEvent"] n(3,4) obtain q where
    q: "EpollFdEvent_update ?e (with_events ?e (\<lambda>w. kNoneEvent) ?n0) = Inr q" "poller_inv q"
      "length (objs q) = length (objs n)" "ev_index (ev_at ?e q) \<noteq> kNew" "ev_events (ev_at ?e q) = kNoneEvent"
      "ev_fd (ev_at ?e q) = ev_fd (ev_at ?e n)" "poller.more q = poller.more ?n0"
    by (auto simp: set_state_def)
  have maps: "fdEventMaps q = (fdEventMaps n)(ev_fd (ev_at ?e n) \<mapsto> ?e)"
    using event_update_maps [OF inv0 _ q(1)] n(3) by (simp add: set_state_def)
  from event_remove_ok [OF q(2) _ q(4,5)] q(3) n(3) obtain r where
    r: "EpollFdEvent_remove ?e q = Inr r" "poller_inv r"
      "fdEventMaps r = (fdEventMaps q)(ev_fd (ev_at ?e q) := None)" "poller.more r = poller.more q" by auto
  have "tc_event (conn_at i q) = ?e"
    using more_net(1) [OF q(7)] n(2) by (simp add: conn_at_def set_state_def upd_conn_def)
  then have "tc_disconnect i n = Inr r"
    using n(5) q(1) r(1) by (simp add: tc_disconnect_def disableAll_def)
  moreover have "poller.more r = poller.more ?n0" using r(4) q(7) by simp
  from more_net(2) [OF this] more_net_more [OF this]
  have "loop_tasks r = loop_tasks n" "net.more r = net.more n" by (simp_all add: set_state_def upd_conn_def)
  ultimately show ?thesis using r(2,3) q(6) maps by (intro exI [of _ r]) simp
qed

text \<open>A connected client that is stopped takes its connection out of the poller without failure;
  but it cannot be started again: the connector stays \<open>Connected\<close>, so every later \<open>start\<close> returns
  false and does nothing but set the client's state to \<open>Connecting\<close>.\<close>
theorem stopped_client_stays_down:
  assumes "tc_inv i c" "cl_state c = ClConnected" "cn_state c = CnConnected" "connection c = Some i"
  shows "\<exists>c1. client_stop c = Inr c1 \<and> cl_state c1 = ClInited \<and>
     fdEventMaps c1 (ev_fd (ev_at (tc_event (conn_at i c)) c)) = None \<and>
     (\<forall>env. client_start env c1 = Inr (False, c1\<lparr>cl_state := ClConnecting\<rparr>))"
proof -
  let ?c0 = "c\<lparr>cn_connect := False\<rparr>"
  have same: "conn_at i ?c0 = conn_at i c" "ev_at e ?c0 = ev_at e c" for e by (simp_all add: conn_at_def ev_at_def)
  have "tc_inv i ?c0" using assms(1) by (subst tc_inv_frame) simp_all
  from tc_disconnect_ok [OF this] obtain c1 where
    c1: "tc_disconnect i ?c0 = Inr c1" "net.more c1 = net.more ?c0"
      "fdEventMaps c1 = (fdEventMaps c)(ev_fd (ev_at (tc_event (conn_at i c)) c) := None)"
    by (auto simp: same)
  let ?c2 = "c1\<lparr>cl_state := ClInited\<rparr>"
  have "client_stop c = Inr ?c2"
    using assms(2-4) c1(1) by (simp add: client_stop_def Connector_stop_def)
  moreover have "cn_state ?c2 = CnConnected" using more_connector_net(1) [OF c1(2)] assms(3) by simp
  then have "client_start env ?c2 = Inr (False, ?c2\<lparr>cl_state := ClConnecting\<rparr>)" for env
    by (simp add: client_start_def Connector_start_def)
  ultimately show ?thesis using c1(3) by (intro exI [of _ ?c2]) simp
qed

lemma sample_connected:
  "\<exists>c. tc_inv 0 c \<and> cl_state c = ClConnected \<and> cn_state c = CnConnected \<and> connection (c :: tcp_client) = Some 0"
proof -
  from connect_succeeds [OF sample_client_ok(1-4) sample_client_ok(5) [of 9] sample_client_ok(6,7,8),
      of "sample_env 10" None None "\<lambda>i. ''c''"] sample_client_ok(9) show ?thesis by force
qed

theorem stopped_client_stays_down_witness:
  "\<exists>(c :: tcp_client) c1. tc_inv 0 c \<and> client_stop c = Inr c1 \<and>
     client_start (sample_env 9) c1 = Inr (False, c1\<lparr>cl_state := ClConnecting\<rparr>)"
proof -
  from sample_connected obtain c :: tcp_client where c: "tc_inv 0 c" "cl_state c = ClConnected"
    "cn_state c = CnConnected" "connection c = Some 0" by blast
  from stopped_client_stays_down [OF c] c(1) show ?thesis by blast
qed

text \<open>The peer closes the connection: the client forgets it, queues its \<open>disconnect\<close> and starts the connector
  again.\<close>

lemma peer_closed_restarts:
  fixes c :: "'a tcp_client_scheme"
  assumes "tc_inv i c" "recon_enable c" "cl_state c = ClConnected"
  obtains c0 where "poller_inv c0" "cn_state c0 = CnDisconnected" "connection c0 = None" "fdEventMaps c0 = fdEventMaps c"
    "loop_tasks c0 = loop_tasks c @ [TDisconnect i]" "user_log c0 = user_log c"
    "\<And>started c1. Connector_start env c0 = Inr (started, c1) \<Longrightarrow> connection c1 = None \<Longrightarrow>
       tc_handleRead (client_removeConnection env) EndOfStream i c = Inr (c1\<lparr>user_log := user_log c1 @ [UClosed None]\<rparr>)"
proof -
  let ?e = "tc_event (conn_at i c)" and ?n0 = "set_state i CsDisconnected c"
  have n: "poller_inv c" "?e < length (objs c)" "ev_index (ev_at ?e c) \<noteq> kNew" "tc_state (conn_at i c) = CsConnected"
    using assms(1) by (simp_all add: tc_inv_def)
  have inv0: "poller_inv ?n0" using n(1) by (subst poller_inv_more) (simp_all add: set_state_def)
  from event_update_ok [OF inv0, of ?e "\<lambda>w. kNoneEvent"] n(2,3) obtain q where
    q: "EpollFdEvent_update ?e (with_events ?e (\<lambda>w. kNoneEvent) ?n0) = Inr q" "poller_inv q"
      "poller.more q = poller.more ?n0" by (auto simp: set_state_def)
  have maps: "fdEventMaps q = (fdEventMaps c)(ev_fd (ev_at ?e c) \<mapsto> ?e)"
    using event_update_maps [OF inv0 _ q(1)] n(2) by (simp add: set_state_def)
  then have maps: "fdEventMaps q = fdEventMaps c" using poller_invD(3) [OF n(1-3)] by (simp add: fun_upd_idem)
  have same: "loop_tasks q = loop_tasks c" "user_log q = user_log c" "net.more q = net.more c"
    using more_net [OF q(3)] more_net_more [OF q(3)] by (simp_all add: set_state_def upd_conn_def)
  note cl = more_client [OF more_connector_net(7) [OF same(3)]]
  define c0 where "c0 = q\<lparr>connection := None, loop_tasks := loop_tasks q @ [TDisconnect i],
      cn_state := CnDisconnected, cn_connect := True\<rparr>"
  show ?thesis
  proof (rule that [of c0])
    show "poller_inv c0" using q(2) by (subst poller_inv_more) (simp_all add: c0_def)
    fix started c1 assume "Connector_start env c0 = Inr (started, c1)" "connection c1 = None"
    then show "tc_handleRead (client_removeConnection env) EndOfStream i c = Inr (c1\<lparr>user_log := user_log c1 @ [UClosed None]\<rparr>)"
      using q(1) n(4) assms(2,3) cl(1,4)
      by (simp add: tc_handleRead_eq tc_handleClose_def disableAll_def client_removeConnection_def
          Connector_reStart_def c0_def Let_def)
  qed (use same maps in \<open>simp_all add: c0_def\<close>)
qed

text \<open>A connect that the kernel refuses.\<close>

lemma Connector_start_refused:
  assumes "cn_state c = CnDisconnected" "env_fd env = - 1 \<or> env_ret env \<noteq> 0"
  shows "Connector_start env c = Inr (False, c)"
  using assms
  by (auto simp: Connector_start_def CreateTcpSocket_def newSocket_def isInvalid_def Socket_connect_def Let_def split: option.splits)

text \<open>C20: When the peer closes the connection of a client that reconnects automatically, \<open>handleRead\<close>
  succeeds, forgets the connection, queues the task that will unregister it, and calls the user's close
  callback with a null connection. If the kernel accepts the new connect at once, on a descriptor that
  the poller does not know, the connector then waits for its socket to be writable; if the kernel has no
  descriptor or refuses the connect, nothing is registered for it and it is left disconnected: nothing
  tries again.\<close>
theorem client_reconnects:
  fixes c :: "'a tcp_client_scheme"
  assumes "tc_inv i c" "recon_enable c" "cl_state c = ClConnected" "connectable env c \<or> env_fd env = - 1 \<or> env_ret env \<noteq> 0"
  shows "\<exists>c1. tc_handleRead (client_removeConnection env) EndOfStream i c = Inr c1 \<and>
     connection c1 = None \<and> loop_tasks c1 = loop_tasks c @ [TDisconnect i] \<and> user_log c1 = user_log c @ [UClosed None] \<and>
     (if connectable env c then awaiting env c1 else cn_state c1 = CnDisconnected \<and> fdEventMaps c1 = fdEventMaps c)"
proof -
  obtain c0 :: "'a tcp_client_scheme" where c0: "poller_inv c0" "cn_state c0 = CnDisconnected" "connection c0 = None"
    "fdEventMaps c0 = fdEventMaps c" "loop_tasks c0 = loop_tasks c @ [TDisconnect i]" "user_log c0 = user_log c"
    "\<And>started c1. Connector_start env c0 = Inr (started, c1) \<Longrightarrow> connection c1 = None \<Longrightarrow>
       tc_handleRead (client_removeConnection env) EndOfStream i c = Inr (c1\<lparr>user_log := user_log c1 @ [UClosed None]\<rparr>)"
    by (rule peer_closed_restarts [OF assms(1-3), of env]) blast
  show ?thesis
  proof (cases "connectable env c")
    case True
    with c0(4) have "connectable env c0" by (simp add: connectable_def)
    from Connector_start_ok [OF c0(1,2) this] obtain c1 where c1: "Connector_start env c0 = Inr (True, c1)" "awaiting env c1"
      "loop_tasks c1 = loop_tasks c0" "user_log c1 = user_log c0" "connector.more c1 = connector.more c0" by blast
    let ?c2 = "c1\<lparr>user_log := user_log c1 @ [UClosed None]\<rparr>"
    have "awaiting env ?c2" using c1(2) poller_inv_more [of ?c2 c1] by (simp add: awaiting_def ev_at_def)
    with c0(3,5,6) c0(7) [OF c1(1)] c1(3,4) more_client(3) [OF c1(5)] True show ?thesis by (intro exI [of _ ?c2]) simp
  next
    case False
    with assms(4) have "Connector_start env c0 = Inr (False, c0)" using Connector_start_refused [OF c0(2)] by blast
    with c0 False show ?thesis by (intro exI [of _ "c0\<lparr>user_log := user_log c0 @ [UClosed None]\<rparr>"]) simp
  qed
qed

theorem client_reconnects_witness:
  "\<exists>(c :: tcp_client) c1. tc_inv 0 c \<and> tc_handleRead (client_removeConnection (sample_env 12)) EndOfStream 0 c = Inr c1 \<and>
     awaiting (sample_env 12) c1 \<and> connection c1 = None \<and>
     (\<exists>c2. tc_handleRead (client_removeConnection (sample_env (- 1))) EndOfStream 0 c = Inr c2 \<and> cn_state c2 = CnDisconnected)"
proof -
  let ?c = "client_setAutoReconnect True sample_client"
  have c: "poller_inv ?c" "fdEventMaps ?c f = None" "conns ?c = []" "objs ?c = []" for f
    using sample_client_ok(1,9) poller_inv_more [of ?c sample_client]
    by (simp_all add: client_setAutoReconnect_def sample_client_def TcpClient_new_def Connector_new_def net.defs
        connector.defs tcp_client.defs net_new_def)
  have "isConnected (sample_socket 9)" by (simp add: sample_socket_def isConnected_def)
  from client_newConnection_ok [OF c(1,2) this, of "\<lambda>i. ''c''"] obtain c2 :: tcp_client where
    c2: "tc_inv 0 c2" "fdEventMaps c2 = (fdEventMaps ?c)(getFd (sample_socket 9) \<mapsto> 0)" "cl_state c2 = ClConnected"
      "recon_enable c2 = recon_enable ?c" unfolding c(3,4) list.size by blast
  have "connectable (sample_env 12) c2"
    using c2(2) c(2) by (simp add: connectable_def sample_env_def sample_socket_def getFd_def)
  moreover have "\<not> connectable (sample_env (- 1)) c2" "env_fd (sample_env (- 1)) = - 1"
    by (simp_all add: connectable_def sample_env_def)
  moreover have re: "recon_enable c2" using c2(4) by (simp add: client_setAutoReconnect_def)
  ultimately show ?thesis
    using client_reconnects [OF c2(1) re c2(3), of "sample_env 12"] client_reconnects [OF c2(1) re c2(3), of "sample_env (- 1)"] c2(1)
    by auto
qed

end
