(* ===== verification/Acceptor.thy ===== *)
theory Acceptor
  imports TcpConnection
begin

text \<open>
  The class \<open>Acceptor\<close> of \<open>gwcpp/net/Acceptor.h\<close> and \<open>Acceptor.cpp\<close>, and \<open>TcpServer::start\<close>, on top
  of the state \<open>net\<close>. The answers of the kernel are arguments; the new-connection callback is a
  function of the socket and the state.
\<close>

datatype acceptor_state = AcInited | AcStarted | AcStoped

record acceptor = net +
  ac_state :: acceptor_state
  ac_event :: "nat option"
  ac_sock :: "socket option"
  srv_started :: bool

definition Acceptor_new :: "net \<Rightarrow> acceptor" where
  "Acceptor_new n = net.extend n (acceptor.fields AcInited None None False)"

text \<open>\<open>fd\<close>, \<open>bind_ret\<close> and \<open>listen_ret\<close> are the answers to \<open>::socket\<close>, \<open>::bind\<close> and \<open>::listen\<close>.\<close>

definition Acceptor_start ::
    "(sockopt \<Rightarrow> int \<Rightarrow> bool) \<Rightarrow> int \<Rightarrow> int \<Rightarrow> address option \<Rightarrow> int \<Rightarrow> 'a acceptor_scheme \<Rightarrow>
     (bool \<times> 'a acceptor_scheme) result" where
  "Acceptor_start so fd bind_ret loc listen_ret a =
     (case ac_state a of
        AcInited \<Rightarrow>
          let new_socket = CreateTcpSocket so fd
          in if isInvalid new_socket then Inr (False, a)
          else let (bound, s1) = Socket_bind bind_ret loc new_socket
          in if \<not> bound then Inr (False, a)
          else let (listening, s2) = Socket_listen listen_ret s1
          in if \<not> listening then Inr (False, a)
          else let e = length (objs a);
                   a1 = upd_ev e (\<lambda>ev. ev\<lparr>ev_reader := True\<rparr>)
                          (EpollFdEvent_init e (getFd s2) KPersist
                            (EpollFdEvent_new 0 (a\<lparr>ac_sock := Some s2, ac_event := Some e\<rparr>)))
          in r_bind (enableReading e a1) (\<lambda>a2. Inr (True, a2\<lparr>ac_state := AcStarted\<rparr>))
      | AcStarted \<Rightarrow> Inr (True, a)
      | AcStoped \<Rightarrow>
          (case ac_event a of
             Some e \<Rightarrow> r_bind (enableReading e a) (\<lambda>a1. Inr (True, a1\<lparr>ac_state := AcStarted\<rparr>))
           | None \<Rightarrow> Inr (False, a)))"

text \<open>\<open>stop\<close> compares the state with \<open>Stoped\<close> where it means to assign it.\<close>

definition Acceptor_stop :: "'a acceptor_scheme \<Rightarrow> 'a acceptor_scheme result" where
  "Acceptor_stop a =
     (if ac_state a = AcStarted
      then (case ac_event a of None \<Rightarrow> Inl Undefined | Some e \<Rightarrow> disableReading e a)
      else Inr a)"

definition Acceptor_handleRead ::
    "(sockopt \<Rightarrow> int \<Rightarrow> bool) \<Rightarrow> int \<Rightarrow> address option \<Rightarrow> address option \<Rightarrow>
     (socket \<Rightarrow> 'a acceptor_scheme \<Rightarrow> 'a acceptor_scheme result) option \<Rightarrow>
     'a acceptor_scheme \<Rightarrow> 'a acceptor_scheme result" where
  "Acceptor_handleRead so accept_ret loc peer new_cb a =
     (if ac_event a = None then Inr a
      else case ac_sock a of
        None \<Rightarrow> Inl Undefined
      | Some ls \<Rightarrow>
          (case Socket_accept so loc peer accept_ret ls of
             None \<Rightarrow> Inr a
           | Some s \<Rightarrow>
               if getFd s > 0 then (case new_cb of Some cb \<Rightarrow> cb s a | None \<Rightarrow> Inr a) else Inr a))"

definition server_start ::
    "(sockopt \<Rightarrow> int \<Rightarrow> bool) \<Rightarrow> int \<Rightarrow> int \<Rightarrow> address option \<Rightarrow> int \<Rightarrow> 'a acceptor_scheme \<Rightarrow>
     (bool \<times> 'a acceptor_scheme) result" where
  "server_start so fd bind_ret loc listen_ret a =
     r_bind (Acceptor_start so fd bind_ret loc listen_ret a) (\<lambda>(ok, a1).
     if \<not> ok then Inr (False, a1) else Inr (True, a1\<lparr>srv_started := True\<rparr>))"

text \<open>The destructor calls \<open>cleanup\<close>.\<close>

definition Acceptor_cleanup :: "'a acceptor_scheme \<Rightarrow> 'a acceptor_scheme result" where
  "Acceptor_cleanup a = Acceptor_stop a"

end
