(* ===== verification/AcceptorLife.thy ===== *)
theory AcceptorLife
  imports ClientLife Acceptor
begin

text \<open>
  The life of an \<open>Acceptor\<close>: after \<open>start\<close> it listens, an accepted connection of the server is
  established beside it, and \<open>stop\<close> is final, because the state never becomes \<open>Stoped\<close>.
\<close>

text \<open>An acceptor that listens on \<open>fd\<close>: it is started on a socket with this descriptor, and its event is in
  the interest list of the poller, watched for reading, with the read callback bound.\<close>

definition accepting :: "int \<Rightarrow> 'a acceptor_scheme \<Rightarrow> bool" where
  "accepting fd a \<longleftrightarrow> poller_inv a \<and> ac_state a = AcStarted \<and>
     (\<exists>e s. ac_event a = Some e \<and> e < length (objs a) \<and> ev_fd (ev_at e a) = fd \<and>
        ev_index (ev_at e a) = kAdded \<and> isReading (ev_at e a) \<and> ev_reader (ev_at e a) \<and>
        ac_sock a = Some s \<and> getFd s = fd)"

lemma more_acceptor_net:
  assumes "net.more q = net.more (a :: 'a acceptor_scheme)"
  shows "ac_state q = ac_state a" "ac_event q = ac_event a" "ac_sock q = ac_sock a" "srv_started q = srv_started a"
  using assms by (cases q; cases a; simp)+

text \<open>What the first \<open>enableReading\<close> of an event does.\<close>

lemma enableReading_first:
  assumes "e < length (objs p)" "ev_index (ev_at e p) = kNew" "enableReading e p = Inr q"
  shows "\<forall>d. d \<noteq> e \<longrightarrow> ev_at d q = ev_at d p" "ev_flags (ev_at e q) = ev_flags (ev_at e p)"
    "length (objs q) = length (objs p)" "poller.more q = poller.more p" "buf_size q = buf_size p" "ev_index (ev_at e q) = kAdded"
proof -
  let ?p = "upd_ev e (\<lambda>ev. ev\<lparr>ev_added := True\<rparr>) (with_events e (\<lambda>w. w OR kReadEvent) p)"
  have "ev_index (ev_at e ?p) = kNew" using assms(1,2) by simp
  with assms(3) have q: "q = Poller_update CtlAdd e (setIndex_ev e kAdded (?p\<lparr>fdEventMaps := (fdEventMaps ?p)(ev_fd (ev_at e ?p) \<mapsto> e)\<rparr>))"
    by (auto simp: enableReading_def EpollFdEvent_update_def Poller_updateEvent_def Let_def r_bind_eq_Inr)
  show "\<forall>d. d \<noteq> e \<longrightarrow> ev_at d q = ev_at d p" "ev_flags (ev_at e q) = ev_flags (ev_at e p)"
    "length (objs q) = length (objs p)" "ev_index (ev_at e q) = kAdded"
    using assms(1) unfolding q by (simp_all add: setIndex_ev_def ev_flags_def)
  show "poller.more q = poller.more p" "buf_size q = buf_size p"
    unfolding q by (simp_all add: setIndex_ev_def Poller_update_def upd_ev_def with_events_def)
qed

lemma Acceptor_start_ok:
  assumes inv: "poller_inv a" and st: "ac_state a = AcInited" and free: "fdEventMaps a fd = None"
    and ok: "fd \<noteq> - 1" "0 \<le> bind_ret" "0 \<le> listen_ret"
  shows "\<exists>a1. Acceptor_start so fd bind_ret loc listen_ret a = Inr (True, a1) \<and> accepting fd a1 \<and>
     ac_event a1 = Some (length (objs a)) \<and> fdEventMaps a1 = (fdEventMaps a)(fd \<mapsto> length (objs a)) \<and>
     length (objs a1) = Suc (length (objs a)) \<and> conns a1 = conns a"
proof -
  let ?e = "length (objs a)"
  define s where "s = snd (getLocalAddress loc (CreateTcpSocket so fd))"
  have s: "getFd s = fd"
    by (simp add: s_def CreateTcpSocket_def newSocket_def Socket_new_def Let_def getLocalAddress_def getFd_def
        split: option.splits)
  define a0 where "a0 = a\<lparr>ac_sock := Some s, ac_event := Some ?e\<rparr>"
  have a0: "objs a0 = objs a" "fdEventMaps a0 = fdEventMaps a" "ctl_log a0 = ctl_log a" by (simp_all add: a0_def)
  have inv0: "poller_inv a0" using inv by (subst poller_inv_more) (simp_all add: a0)
  let ?p = "upd_ev ?e (\<lambda>ev. ev\<lparr>ev_reader := True\<rparr>) (EpollFdEvent_init ?e fd KPersist (EpollFdEvent_new 0 a0))"
  from event_register_ok [OF inv0, of fd "\<lambda>ev. ev\<lparr>ev_reader := True\<rparr>" "\<lambda>w. w OR kReadEvent" KPersist 0] free
  obtain q where q: "EpollFdEvent_update ?e (with_events ?e (\<lambda>w. w OR kReadEvent) ?p) = Inr q"
      "poller_inv q" "fdEventMaps q = (fdEventMaps a)(fd \<mapsto> ?e)" "length (objs q) = Suc ?e"
      "ev_fd (ev_at ?e q) = fd" "ev_index (ev_at ?e q) \<noteq> kNew" "poller.more q = poller.more a0"
    by (auto simp: a0)
  have pinv: "poller_inv ?p" using new_inv [OF inv0, of fd KPersist 0] a0(1)
    by (intro poller_inv_upd) (simp_all add: EpollFdEvent_init_def EpollFdEvent_new_def)
  have p: "?e < length (objs ?p)" "ev_fd (ev_at ?e ?p) = fd" "fdEventMaps ?p = fdEventMaps a"
    "ev_events (ev_at ?e ?p) = 0" "ev_reader (ev_at ?e ?p)" "ev_index (ev_at ?e ?p) = kNew"
    using a0 by (simp_all add: EpollFdEvent_init_def EpollFdEvent_new_def upd_ev_def ev_at_def kNew_def)
  have "ev_events (ev_at ?e q) = kReadEvent"
    using event_update_ok [OF pinv p(1), of "\<lambda>w. w OR kReadEvent"] p q(1) free by auto
  then have reading: "isReading (ev_at ?e q)" "kReadEvent \<noteq> kNoneEvent" by (simp_all add: isReading_def kReadEvent_def kNoneEvent_def)
  from q(1) have "enableReading ?e ?p = Inr q" by (simp add: enableReading_def)
  from enableReading_first(2,6) [OF p(1,6) this] p(5) have watched: "ev_index (ev_at ?e q) = kAdded" "ev_reader (ev_at ?e q)"
    by (simp_all add: ev_flags_def)
  let ?a1 = "q\<lparr>ac_state := AcStarted\<rparr>"
  have "\<not> isInvalid (CreateTcpSocket so fd)"
    using ok(1) by (simp add: CreateTcpSocket_def newSocket_def isInvalid_def Let_def)
  then have "Acceptor_start so fd bind_ret loc listen_ret a = Inr (True, ?a1)"
    using st ok(2,3) q(1) s
    by (simp add: Acceptor_start_def Socket_bind_def Socket_listen_def s_def [symmetric] Let_def a0_def [symmetric]
        enableReading_def)
  moreover have "poller_inv ?a1" using q(2) by (subst poller_inv_more) simp_all
  ultimately show ?thesis
    using q(3-6) reading watched s more_net(1) [OF q(7)] more_acceptor_net [OF more_net_more [OF q(7)]]
    by (intro exI [of _ ?a1]) (simp add: accepting_def a0_def ev_at_def)
qed

lemma TcpConnection_new_connections:
  "(TcpConnection_new s nm n)\<lparr>connections := x\<rparr> = TcpConnection_new s nm (n\<lparr>connections := x\<rparr>)"
  by (cases n) (simp add: TcpConnection_new_def Let_def EpollFdEvent_init_def EpollFdEvent_new_def upd_ev_def)

text \<open>A new connection has the socket, and leaves the events as they are that exist already.\<close>

lemma connectFinished_new:
  assumes q: "tc_connectFinished (length (conns n)) (TcpConnection_new s nm n) = Inr n'"
  shows "e < length (objs n) \<Longrightarrow> ev_at e n' = ev_at e n" "tc_socket (conn_at (length (conns n)) n') = s"
proof -
  let ?c = "length (conns n)" and ?e = "length (objs n)"
  define m2 where "m2 = set_state ?c CsConnected (TcpConnection_new s nm n)"
  note new = TcpConnection_new_frame [where s = s and name = nm and n = n]
  have m2: "?e < length (objs m2)" "ev_index (ev_at ?e m2) = kNew" "tc_socket (conns m2 ! ?c) = s"
    using new by (simp_all add: m2_def set_state_def upd_conn_def ev_at_def)
  have old: "ev_at e m2 = ev_at e n" if "e < length (objs n)"
    using that by (simp add: m2_def set_state_def upd_conn_def ev_at_def TcpConnection_new_def Let_def EpollFdEvent_init_def
        EpollFdEvent_new_def upd_ev_def nth_append)
  from q new(7) obtain q1 where q1: "enableReading ?e m2 = Inr q1" "n' = q1\<lparr>user_log := user_log q1 @ [UConnected ?c]\<rparr>"
    by (auto simp: tc_connectFinished_def m2_def conn_at_def r_bind_eq_Inr)
  note first = enableReading_first [OF m2(1,2) q1(1)]
  from first(1) old show "e < length (objs n) \<Longrightarrow> ev_at e n' = ev_at e n"
    by (simp add: q1(2) ev_at_def)
  from more_net(1) [OF first(4)] m2(3) show "tc_socket (conn_at ?c n') = s" by (simp add: q1(2) conn_at_def)
qed

text \<open>A listening acceptor and a connection on a descriptor that the poller does not know.\<close>

lemma accepted_ok:
  assumes acc: "accepting fd b" and fd': "0 < fd'" "fdEventMaps b fd' = None"
  shows "\<exists>b'. Acceptor_handleRead so fd' loc peer (Some (server_newConnection name)) b = Inr b' \<and> accepting fd b' \<and>
     tc_inv (length (conns b)) b' \<and> getFd (tc_socket (conn_at (length (conns b)) b')) = fd' \<and>
     connections b' (name (connId b)) = Some (length (conns b))"
proof -
  let ?i = "length (conns b)"
  from acc obtain e ls where ls: "ac_event b = Some e" "ac_sock b = Some ls" "e < length (objs b)" "ev_fd (ev_at e b) = fd"
    "ev_index (ev_at e b) = kAdded" "isReading (ev_at e b)" "ev_reader (ev_at e b)" "getFd ls = fd" "ac_state b = AcStarted" "poller_inv b"
    by (auto simp: accepting_def)
  define s where "s = (snd (Socket_init so loc peer fd' (Socket_new (sock_protocol ls) (sock_type ls))))\<lparr>sock_connected := True\<rparr>"
  have s: "getFd s = fd'" "isConnected s"
    by (simp_all add: s_def Socket_init_def Let_def getFd_def isConnected_def getPeerAddress_def getLocalAddress_def
        Socket_new_def split: option.splits)
  have run: "Acceptor_handleRead so fd' loc peer (Some (server_newConnection name)) b = server_newConnection name s b"
    using fd'(1) ls(1,2) s(1) by (simp add: Acceptor_handleRead_def Socket_accept_def s_def [symmetric])
  define n where "n = b\<lparr>connections := (connections b)(name (connId b) \<mapsto> ?i)\<rparr>"
  have n: "poller_inv n" "fdEventMaps n (getFd s) = None" "conns n = conns b" "objs n = objs b"
    using ls(10) fd'(2) s(1) by (simp_all add: n_def) (subst poller_inv_more, simp_all)
  have new: "server_newConnection name s b = tc_connectFinished ?i (TcpConnection_new s (name (connId b)) n)"
    by (simp add: server_newConnection_def Let_def n_def TcpConnection_new_frame
        TcpConnection_new_connections [symmetric])
  with tc_connect_ok [OF n(1,2) s(2), of "name (connId b)"] connection_made [OF n(2), of "name (connId b)"] n(3) obtain b' where
    b': "server_newConnection name s b = Inr b'" "tc_inv ?i b'" "net.more b' = net.more n"
      "length (objs b') = Suc (length (objs n))" by auto
  have "ev_at e b' = ev_at e b"
    using connectFinished_new(1) [of n s "name (connId b)" b' e] new b'(1) n(3,4) ls(3) by (simp add: ev_at_def)
  then have "accepting fd b'"
    using b'(2,4) ls n(4) more_acceptor_net [OF b'(3)] by (simp add: accepting_def tc_inv_def n_def)
  moreover note server_newConnection_ok [of b s name, unfolded s(1), OF fd'(2)]
  moreover have "tc_socket (conn_at ?i b') = s"
    using connectFinished_new(2) [of n s "name (connId b)" b'] new b'(1) n(3) by simp
  ultimately show ?thesis using run b'(1,2) s(1) by auto
qed

text \<open>C16: A server whose \<open>start\<close> the kernel accepts listens: its acceptor is started, and its event is in the
  interest list and watched for reading. And each time a listening acceptor of a server is reported
  readable and \<open>accept\<close> returns a positive descriptor that the poller does not know, a connection on this
  descriptor is established and takes its name in the server's map, and the acceptor keeps listening.\<close>
theorem server_accepts:
  fixes a :: "'a acceptor_scheme"
  assumes "poller_inv a" "ac_state a = AcInited" "fdEventMaps a fd = None" "fd \<noteq> - 1" "0 \<le> bind_ret" "0 \<le> listen_ret"
  shows "(\<exists>a1. server_start so fd bind_ret loc listen_ret a = Inr (True, a1) \<and> srv_started a1 \<and> accepting fd a1) \<and>
    (\<forall>(b :: 'a acceptor_scheme) fd'. accepting fd b \<longrightarrow> 0 < fd' \<longrightarrow> fdEventMaps b fd' = None \<longrightarrow>
       (\<exists>b'. Acceptor_handleRead so fd' loc' peer' (Some (server_newConnection name)) b = Inr b' \<and> accepting fd b' \<and>
          tc_inv (length (conns b)) b' \<and> getFd (tc_socket (conn_at (length (conns b)) b')) = fd' \<and>
          connections b' (name (connId b)) = Some (length (conns b))))"
proof -
  from Acceptor_start_ok [OF assms, of so loc] obtain a0 where
    a0: "Acceptor_start so fd bind_ret loc listen_ret a = Inr (True, a0)" "accepting fd a0" by blast
  define a1 where "a1 = a0\<lparr>srv_started := True\<rparr>"
  have "accepting fd a1" using a0(2) poller_inv_more [of a1 a0] by (simp add: a1_def accepting_def ev_at_def)
  then have "server_start so fd bind_ret loc listen_ret a = Inr (True, a1) \<and> srv_started a1 \<and> accepting fd a1"
    using a0(1) by (simp add: server_start_def a1_def)
  then show ?thesis using accepted_ok [of fd _ _ so loc' peer' name] by blast
qed

text \<open>\<open>stop\<close> of a listening acceptor withdraws its interest in reading, and \<open>start\<close> does not bring
  it back: it returns true and changes nothing, so the server reports that it runs and accepts no
  connection any more.\<close>
theorem stopped_acceptor_stays_deaf:
  assumes "accepting fd a"
  shows "\<exists>a1 e. Acceptor_stop a = Inr a1 \<and> ac_event a1 = Some e \<and> \<not> isReading (ev_at e a1) \<and>
     (\<forall>so f b l. Acceptor_start so f b loc l a1 = Inr (True, a1))"
proof -
  from assms obtain e where e: "poller_inv a" "ac_event a = Some e" "e < length (objs a)"
    "ev_index (ev_at e a) \<noteq> kNew" "ac_state a = AcStarted" by (auto simp: accepting_def kAdded_def kNew_def)
  from event_update_ok [OF e(1,3), of "\<lambda>w. w AND NOT kReadEvent"] e(4) obtain q where
    q: "EpollFdEvent_update e (with_events e (\<lambda>w. w AND NOT kReadEvent) a) = Inr q"
      "ev_events (ev_at e q) = ev_events (ev_at e a) AND NOT kReadEvent" "poller.more q = poller.more a" by auto
  have "\<not> isReading (ev_at e q)" using q(2) by (auto simp: isReading_def bit_eq_iff bit_simps)
  moreover note more_acceptor_net [OF more_net_more [OF q(3)]]
  ultimately show ?thesis
    using q(1) e(2,5) by (intro exI [of _ q] exI [of _ e]) (simp add: Acceptor_stop_def disableReading_def Acceptor_start_def)
qed

lemma sample_accepting:
  "poller_inv (Acceptor_new net_new)" "ac_state (Acceptor_new net_new) = AcInited"
  "fdEventMaps (Acceptor_new net_new) f = None" "conns (Acceptor_new net_new) = []"
  by (simp_all add: Acceptor_new_def net.defs acceptor.defs net_new_def poller_inv_def interest_def)

theorem server_accepts_witness:
  "\<exists>a1 a2. server_start (\<lambda>opt v. True) 4 0 None 0 (Acceptor_new net_new) = Inr (True, a1) \<and>
     Acceptor_handleRead (\<lambda>opt v. True) 9 None None (Some (server_newConnection (\<lambda>i. ''c''))) a1 = Inr a2 \<and>
     accepting 4 a2 \<and> tc_inv 0 a2"
proof -
  from Acceptor_start_ok [OF sample_accepting(1,2) sample_accepting(3) [of 4], of 0 0 "\<lambda>opt v. True" None] obtain a where
    "Acceptor_start (\<lambda>opt v. True) 4 0 None 0 (Acceptor_new net_new) = Inr (True, a)" "conns a = []"
      "fdEventMaps a = (fdEventMaps (Acceptor_new net_new))(4 \<mapsto> length (objs (Acceptor_new net_new)))"
    using sample_accepting(4) by auto
  then have a: "server_start (\<lambda>opt v. True) 4 0 None 0 (Acceptor_new net_new) = Inr (True, a\<lparr>srv_started := True\<rparr>)" "conns a = []"
      "fdEventMaps a 9 = None"
    using sample_accepting(3) by (simp_all add: server_start_def)
  let ?a = "a\<lparr>srv_started := True\<rparr>"
  note acc = server_accepts [OF sample_accepting(1,2) sample_accepting(3) [of 4], of 0 0 "\<lambda>opt v. True" None None None "\<lambda>i. ''c''"]
  from conjunct1 [OF acc] a(1) have listens: "accepting 4 ?a" by simp
  from conjunct2 [OF acc, rule_format, of ?a 9] listens a(2,3) obtain a2 where
    "Acceptor_handleRead (\<lambda>opt v. True) 9 None None (Some (server_newConnection (\<lambda>i. ''c''))) ?a = Inr a2" "accepting 4 a2" "tc_inv 0 a2"
    by (simp del: sample_accepting) blast
  with a(1) show ?thesis by blast
qed

theorem stopped_acceptor_stays_deaf_witness:
  "\<exists>a a1 e. Acceptor_start (\<lambda>opt v. True) 4 0 None 0 (Acceptor_new net_new) = Inr (True, a) \<and> Acceptor_stop a = Inr a1 \<and>
     \<not> isReading (ev_at e a1) \<and> Acceptor_start (\<lambda>opt v. True) 4 0 None 0 a1 = Inr (True, a1)"
proof -
  from Acceptor_start_ok [OF sample_accepting(1,2) sample_accepting(3) [of 4], of 0 0 "\<lambda>opt v. True" None] obtain a where
    a: "Acceptor_start (\<lambda>opt v. True) 4 0 None 0 (Acceptor_new net_new) = Inr (True, a)" "accepting 4 a" by auto
  from stopped_acceptor_stays_deaf [OF a(2), of None] a(1) show ?thesis by blast
qed

end
