(* ===== verification/ServerRun.thy ===== *)
theory ServerRun
  imports TcpLife
begin

text \<open>
  A whole run of a \<open>TcpServer\<close>: connections are accepted, read, written, closed by the peer or by the
  user, and the queued tasks are run, in any interleaving that the kernel and the user can produce. An
  invariant shows that no assertion of the poller or of a connection can fail on the way.
\<close>

section \<open>Operations\<close>

datatype srv_op =
    SAccept socket | SRead nat recv | SHangup nat | SWritable nat int | SSend nat bytes | SDisconnect nat | STask

fun srv_step :: "(int \<Rightarrow> string) \<Rightarrow> srv_op \<Rightarrow> 'a net_scheme \<Rightarrow> 'a net_scheme result" where
  "srv_step name (SAccept s) n = server_newConnection name s n"
| "srv_step name (SRead c r) n = tc_handleRead server_removeConnection r c n"
| "srv_step name (SHangup c) n = tc_handleClose server_removeConnection c n"
| "srv_step name (SWritable c ret) n = tc_handleWrite ret c n"
| "srv_step name (SSend c m) n = tc_send m (int (length m)) c n"
| "srv_step name (SDisconnect c) n = tc_disconnect c n"
| "srv_step name STask n = run_loop_task Inr n"

text \<open>When an operation can happen. The kernel accepts a connection on a descriptor that is not in use,
  and reports reading or a hang-up only for an event in the interest list; the user
  calls \<open>disconnect\<close> on a connected connection; and the buffers have room for the bytes.\<close>

definition watched :: "nat \<Rightarrow> 'a net_scheme \<Rightarrow> bool" where
  "watched c n \<longleftrightarrow> c < length (conns n) \<and> ev_index (ev_at (tc_event (conn_at c n)) n) = kAdded"

fun srv_can :: "srv_op \<Rightarrow> 'a net_scheme \<Rightarrow> bool" where
  "srv_can (SAccept s) n \<longleftrightarrow> fdEventMaps n (getFd s) = None"
| "srv_can (SRead c r) n \<longleftrightarrow> watched c n \<and> (\<forall>b. r = Got b \<longrightarrow> length (stored c n) + length b < 2 ^ 31)"
| "srv_can (SHangup c) n \<longleftrightarrow> watched c n"
| "srv_can (SWritable c ret) n \<longleftrightarrow> c < length (conns n)"
| "srv_can (SSend c m) n \<longleftrightarrow> c < length (conns n) \<and> used c n + length m < 2 ^ 31"
| "srv_can (SDisconnect c) n \<longleftrightarrow> c < length (conns n) \<and> tc_state (conn_at c n) = CsConnected"
| "srv_can STask n \<longleftrightarrow> True"

inductive srv_reach :: "(int \<Rightarrow> string) \<Rightarrow> net \<Rightarrow> bool" for name where
  srv_start: "srv_reach name net_new"
| srv_next: "srv_reach name n \<Longrightarrow> srv_can x n \<Longrightarrow> srv_step name x n = Inr n' \<Longrightarrow> srv_reach name n'"

section \<open>The invariant\<close>

text \<open>A connection in each of its states: whether its event is registered, and whether its
  \<open>disconnect\<close> waits in the loop.\<close>

definition conn_ok :: "'a net_scheme \<Rightarrow> nat \<Rightarrow> bool" where
  "conn_ok n c \<longleftrightarrow>
     (let t = conn_at c n; ev = ev_at (tc_event t) n; waits = (TDisconnect c \<in> set (loop_tasks n))
      in tc_event t < length (objs n) \<and> read_ready c n \<and>
         (case tc_state t of
            CsConnected \<Rightarrow> ev_index ev = kAdded \<and> isReading ev \<and> bb_open (write_buffer t) \<and> \<not> waits
          | CsDisconnected \<Rightarrow> ev_events ev = kNoneEvent \<and> ev_index ev = (if waits then kDeleted else kNew)
          | CsConnecting \<Rightarrow> ev_index ev = kNew \<and> \<not> waits
          | CsDisconnecting \<Rightarrow> False))"

definition srv_inv :: "'a net_scheme \<Rightarrow> bool" where
  "srv_inv n \<longleftrightarrow> poller_inv n \<and> (\<forall>c < length (conns n). conn_ok n c) \<and>
     (\<forall>c < length (conns n). \<forall>d < length (conns n). tc_event (conn_at c n) = tc_event (conn_at d n) \<longrightarrow> c = d) \<and>
     distinct (loop_tasks n) \<and> (\<forall>t \<in> set (loop_tasks n). \<exists>c < length (conns n). t = TDisconnect c)"

lemma srv_inv_new: "srv_inv net_new"
  using poller_inv_net_new by (simp add: srv_inv_def) (simp add: net_new_def)

lemma isReading_interest:
  assumes "isReading ev"
  shows "ev_events ev \<noteq> kNoneEvent" "ev_events ev OR kWriteEvent \<noteq> kNoneEvent"
    "ev_events ev AND NOT kWriteEvent \<noteq> kNoneEvent"
    "ev_events ev' = ev_events ev OR kWriteEvent \<Longrightarrow> isReading ev'"
    "ev_events ev' = ev_events ev AND NOT kWriteEvent \<Longrightarrow> isReading ev'"
proof -
  have keep: "(ev_events ev OR kWriteEvent) AND kReadEvent = ev_events ev AND kReadEvent"
    "(ev_events ev AND NOT kWriteEvent) AND kReadEvent = ev_events ev AND kReadEvent"
    by (simp_all add: kWriteEvent_def kReadEvent_def and.assoc bit.conj_disj_distrib2)
  show "ev_events ev \<noteq> kNoneEvent" "ev_events ev OR kWriteEvent \<noteq> kNoneEvent"
    "ev_events ev AND NOT kWriteEvent \<noteq> kNoneEvent"
    using assms keep by (auto simp: isReading_def kNoneEvent_def)
  show "ev_events ev' = ev_events ev OR kWriteEvent \<Longrightarrow> isReading ev'"
    "ev_events ev' = ev_events ev AND NOT kWriteEvent \<Longrightarrow> isReading ev'"
    using assms keep by (auto simp: isReading_def)
qed

text \<open>A step that changes one connection and its event.\<close>

lemma srv_inv_update:
  fixes n :: "'a net_scheme"
  assumes inv: "srv_inv n" and c: "c < length (conns n)"
    and q: "poller_inv q" "conns q = (conns n)[c := t]" "tc_event t = tc_event (conn_at c n)"
      "length (objs q) = length (objs n)" "\<And>d. d \<noteq> tc_event t \<Longrightarrow> ev_at d q = ev_at d n"
    and tasks: "distinct (loop_tasks q)" "set (loop_tasks q) - {TDisconnect c} = set (loop_tasks n) - {TDisconnect c}"
    and ok: "conn_ok q c"
  shows "srv_inv q"
proof -
  have at: "conn_at d q = (if d = c then t else conn_at d n)" if "d < length (conns n)" for d
    using q(2) that by (simp add: conn_at_def)
  have ev: "tc_event (conn_at d q) = tc_event (conn_at d n)" if "d < length (conns n)" for d
    using at [OF that] q(3) by simp
  have "conn_ok q d" if d: "d < length (conns q)" for d
  proof (cases "d = c")
    case False
    have d': "d < length (conns n)" using d q(2) by simp
    have "tc_event (conn_at d n) \<noteq> tc_event t" using inv c d' False q(3) by (auto simp: srv_inv_def)
    then have "ev_at (tc_event (conn_at d n)) q = ev_at (tc_event (conn_at d n)) n" by (rule q(5))
    moreover have "TDisconnect d \<in> set (loop_tasks q) \<longleftrightarrow> TDisconnect d \<in> set (loop_tasks n)"
      using tasks(2) False by blast
    moreover have "conn_ok n d" using inv d' by (simp add: srv_inv_def)
    ultimately show ?thesis using False at [OF d'] q(2,4)
      by (cases "tc_state (conn_at d n)") (simp_all add: conn_ok_def read_ready_def Let_def)
  qed (use ok in simp)
  moreover have "\<exists>d < length (conns q). x = TDisconnect d" if "x \<in> set (loop_tasks q)" for x
  proof (cases "x = TDisconnect c")
    case False
    with that tasks(2) have "x \<in> set (loop_tasks n)" by blast
    with inv q(2) show ?thesis by (auto simp: srv_inv_def)
  qed (use c q(2) in auto)
  ultimately show ?thesis using inv q(1,2) tasks(1) ev unfolding srv_inv_def by simp
qed

lemma srv_touch:
  fixes n :: "'a net_scheme"
  assumes inv: "srv_inv n" and c: "c < length (conns n)" and e: "e = tc_event (conn_at c n)"
    and m: "objs m = objs n" "fdEventMaps m = fdEventMaps n" "ctl_log m = ctl_log n"
    and reg: "ev_index (ev_at e n) = kAdded"
  shows "\<exists>q :: 'a net_scheme. EpollFdEvent_update e (with_events e g m) = Inr q \<and> poller_inv q \<and> length (objs q) = length (objs n) \<and>
     ev_index (ev_at e q) = (if g (ev_events (ev_at e n)) = kNoneEvent then kDeleted else kAdded) \<and> ev_events (ev_at e q) = g (ev_events (ev_at e n)) \<and>
     (\<forall>d. d \<noteq> e \<longrightarrow> ev_at d q = ev_at d n) \<and> conns q = conns m \<and> loop_tasks q = loop_tasks m"
proof -
  have "poller_inv m" using inv poller_inv_more [of m n] m by (simp add: srv_inv_def)
  moreover have "e < length (objs m)" using inv c e m(1) by (auto simp: srv_inv_def conn_ok_def Let_def)
  moreover have at: "ev_at d m = ev_at d n" for d using m(1) by (simp add: ev_at_def)
  ultimately obtain q where q: "EpollFdEvent_update e (with_events e g m) = Inr q" "poller_inv q"
    "length (objs q) = length (objs m)" "ev_events (ev_at e q) = g (ev_events (ev_at e n))"
    "\<forall>d. d \<noteq> e \<longrightarrow> ev_at d q = ev_at d n" "poller.more q = poller.more m"
    using event_update_ok [of m e g] reg by auto
  have "ev_index (ev_at e q) = (if g (ev_events (ev_at e n)) = kNoneEvent then kDeleted else kAdded)"
    using event_update_index(1) [OF \<open>poller_inv m\<close> \<open>e < length (objs m)\<close> q(1)] reg at by simp
  with q more_net [of q m] m(1) show ?thesis by (intro exI [of _ q]) simp
qed

section \<open>Each operation\<close>

lemma conn_okD:
  fixes n :: "'a net_scheme"
  assumes "srv_inv n" "c < length (conns n)"
  shows "tc_event (conn_at c n) < length (objs n)" "read_ready c n"
    "tc_state (conn_at c n) = CsConnected \<Longrightarrow> ev_index (ev_at (tc_event (conn_at c n)) n) = kAdded \<and>
       isReading (ev_at (tc_event (conn_at c n)) n) \<and> bb_open (write_buffer (conn_at c n)) \<and> TDisconnect c \<notin> set (loop_tasks n)"
    "tc_state (conn_at c n) = CsDisconnected \<Longrightarrow> ev_events (ev_at (tc_event (conn_at c n)) n) = kNoneEvent \<and>
       ev_index (ev_at (tc_event (conn_at c n)) n) = (if TDisconnect c \<in> set (loop_tasks n) then kDeleted else kNew)"
    "tc_state (conn_at c n) = CsConnecting \<Longrightarrow> ev_index (ev_at (tc_event (conn_at c n)) n) = kNew \<and>
       TDisconnect c \<notin> set (loop_tasks n)"
    "tc_state (conn_at c n) \<noteq> CsDisconnecting"
  using assms by (auto simp: srv_inv_def conn_ok_def Let_def split: if_splits)

text \<open>An event that is watched belongs to a connected connection.\<close>

lemma watched_connected: "srv_inv n \<Longrightarrow> watched c n \<Longrightarrow> tc_state (conn_at c n) = CsConnected"
  using conn_okD(4-6) [of n c] by (cases "tc_state (conn_at c n)") (auto simp: watched_def split: if_splits)

lemma conn_upd_at: "c < length (conns n) \<Longrightarrow> conns (upd_conn c f n) = (conns n)[c := f (conn_at c n)]"
  by (simp add: upd_conn_def conn_at_def)

lemma srv_send:
  fixes n :: "'a net_scheme"
  assumes inv: "srv_inv n" and c: "c < length (conns n)" and room: "used c n + length m < 2 ^ 31"
  shows "\<exists>n'. tc_send m (int (length m)) c n = Inr n' \<and> srv_inv n'"
proof (cases "tc_state (conn_at c n) = CsConnected")
  case False
  with inv show ?thesis by (simp add: tc_send_def tc_send_with_def)
next
  case True
  let ?e = "tc_event (conn_at c n)"
  note ok = conn_okD(3) [OF inv c True]
  obtain n1 :: "'a net_scheme" where n1: "(if \<not> isWriting (ev_at ?e n) then enableWriting ?e n else Inr n) = Inr n1"
    "poller_inv n1" "length (objs n1) = length (objs n)" "ev_index (ev_at ?e n1) = kAdded \<and> isReading (ev_at ?e n1)"
    "\<forall>d. d \<noteq> ?e \<longrightarrow> ev_at d n1 = ev_at d n" "conns n1 = conns n" "loop_tasks n1 = loop_tasks n"
  proof (cases "isWriting (ev_at ?e n)")
    case True
    with ok inv that [of n] show ?thesis by (simp add: srv_inv_def)
  next
    case False
    from srv_touch [OF inv c refl refl refl refl, of "\<lambda>w. w OR kWriteEvent"] ok obtain q :: "'a net_scheme" where
      q: "EpollFdEvent_update ?e (with_events ?e (\<lambda>w. w OR kWriteEvent) n) = Inr q" "poller_inv q"
      "length (objs q) = length (objs n)" "ev_index (ev_at ?e q) = kAdded"
      "ev_events (ev_at ?e q) = ev_events (ev_at ?e n) OR kWriteEvent"
      "\<forall>d. d \<noteq> ?e \<longrightarrow> ev_at d q = ev_at d n" "conns q = conns n" "loop_tasks q = loop_tasks n"
      by (auto simp: isReading_interest(2))
    have "isReading (ev_at ?e q)" by (rule isReading_interest(4) [OF _ q(5)]) (use ok in blast)
    with False that [of q] q show ?thesis by (simp add: enableWriting_def)
  qed
  from writeData_open [of "write_buffer (conn_at c n)" m] ok room obtain wb where
    wb: "writeData m (write_buffer (conn_at c n)) = Inr wb" "bb_open wb" by (auto simp: used_def)
  let ?t = "(conn_at c n)\<lparr>write_buffer := wb\<rparr>"
  let ?n' = "upd_conn c (\<lambda>t. t\<lparr>write_buffer := wb\<rparr>) n1"
  have at: "conn_at c n1 = conn_at c n" using n1(6) by (simp add: conn_at_def)
  have "length m < 2 ^ 31" using room by simp
  then have "tc_send m (int (length m)) c n = Inr ?n'"
    using True n1(1) wb(1) at by (simp add: tc_send_def tc_send_with_def writeBytes_mem_ok)
  moreover have "srv_inv ?n'"
  proof (rule srv_inv_update [OF inv c])
    show "poller_inv ?n'" using n1(2) by (subst poller_inv_more) simp_all
    show "conns ?n' = (conns n)[c := ?t]" using n1(6) at c by (simp add: conn_upd_at)
    show "conn_ok ?n' c"
      using True ok wb(2) n1(3,4,6,7) at c conn_okD(1,2) [OF inv c] by (simp add: conn_ok_def Let_def read_ready_def)
  qed (use n1 inv in \<open>auto simp: srv_inv_def\<close>)
  ultimately show ?thesis by blast
qed

lemma srv_writable:
  fixes n :: "'a net_scheme"
  assumes inv: "srv_inv n" and c: "c < length (conns n)"
  shows "\<exists>n'. tc_handleWrite ret c n = Inr n' \<and> srv_inv n'"
proof (cases "tc_state (conn_at c n) = CsConnected")
  case False
  let ?n' = "upd_conn c (\<lambda>t. t\<lparr>write_buffer := ByteBuf_clear (write_buffer t)\<rparr>) n"
  have "srv_inv ?n'"
  proof (rule srv_inv_update [OF inv c])
    show "poller_inv ?n'" using inv poller_inv_more [of ?n' n] by (simp add: srv_inv_def)
    show "conns ?n' = (conns n)[c := (conn_at c n)\<lparr>write_buffer := ByteBuf_clear (write_buffer (conn_at c n))\<rparr>]"
      using c by (simp add: conn_upd_at)
    have "conn_ok n c" using inv c by (simp add: srv_inv_def)
    then show "conn_ok ?n' c"
      using False c by (cases "tc_state (conn_at c n)") (simp_all add: conn_ok_def read_ready_def Let_def)
  qed (use inv in \<open>auto simp: srv_inv_def\<close>)
  with False show ?thesis by (simp add: tc_handleWrite_def)
next
  case True
  let ?e = "tc_event (conn_at c n)" and ?wb = "write_buffer (conn_at c n)"
  note ok = conn_okD(3) [OF inv c True]
  show ?thesis
  proof (cases "isWriting (ev_at ?e n)")
    case False
    with True inv show ?thesis by (simp add: tc_handleWrite_def)
  next
    case writing: True
    define s where "s = bb_content ?wb"
    let ?wb' = "?wb\<lparr>readerIndex := readerIndex ?wb + int (length s)\<rparr>"
    let ?buf = "ByteBufData_new\<lparr>originData := s, writerIndex := int (length s)\<rparr>"
    have s: "length s < 2 ^ 31" "readableBytes ?wb = Inr (int (length s))"
      using ok bb_open_readable [of ?wb] by (auto simp: s_def bb_content_def bb_open_def bb_wf_def)
    have "readBytes (int (length s)) ?wb = (Inr ?buf, ?wb')"
      using readBytes_eq [of ?wb "int (length s)"] ok s(1)
      by (simp add: bb_open_def Let_def s_def bb_content_def ByteBuf_str_ok)
    moreover have "readableBytes ?buf = Inr (int (length s))"
      using s(1) by (simp add: readableBytes_def ByteBufData_new_def i32_sub_def i32_def)
    moreover have "str_of_mem (ByteBuf_data ?buf) (size_of_i32 (int (length s))) = Inr s"
      using s(1) by (simp add: ByteBuf_data_def str_data_def size_of_i32_nonneg max_size_def)
    moreover have open': "bb_open ?wb'" "bb_content ?wb' = []"
      using ok by (auto simp: bb_open_def bb_wf_def bb_content_def s_def)
    moreover have "readableBytes ?wb' = Inr 0" using bb_open_readable [OF open'(1)] open'(2) by simp
    ultimately obtain log where step: "tc_handleWrite ret c n =
        disableWriting ?e ((upd_conn c (\<lambda>t. t\<lparr>write_buffer := ?wb'\<rparr>) n)\<lparr>sent_log := log\<rparr>)"
      using True writing c s(2)
      by (cases "Socket_send ret s (tc_socket (conn_at c n))") (simp add: tc_handleWrite_def Let_def conn_at_def upd_conn_def)
    let ?m = "(upd_conn c (\<lambda>t. t\<lparr>write_buffer := ?wb'\<rparr>) n)\<lparr>sent_log := log\<rparr>"
    from srv_touch [OF inv c refl, of ?m "\<lambda>w. w AND NOT kWriteEvent"] ok obtain q :: "'a net_scheme" where
      q: "EpollFdEvent_update ?e (with_events ?e (\<lambda>w. w AND NOT kWriteEvent) ?m) = Inr q" "poller_inv q"
      "length (objs q) = length (objs n)" "ev_index (ev_at ?e q) = kAdded"
      "\<forall>d. d \<noteq> ?e \<longrightarrow> ev_at d q = ev_at d n" "conns q = conns ?m" "loop_tasks q = loop_tasks n"
      "ev_events (ev_at ?e q) = ev_events (ev_at ?e n) AND NOT kWriteEvent"
      by (auto simp: isReading_interest(3))
    have reading: "isReading (ev_at ?e q)" using isReading_interest(5) ok q(8) by blast
    let ?t = "(conn_at c n)\<lparr>write_buffer := ?wb'\<rparr>"
    have cq: "conns q = (conns n)[c := ?t]" using q(6) c by (simp add: conn_upd_at)
    have "srv_inv q"
    proof (rule srv_inv_update [OF inv c q(2) cq])
      show "conn_ok q c"
        using True ok open'(1) q(3,4,7) reading cq c conn_okD(1,2) [OF inv c] by (simp add: conn_ok_def Let_def read_ready_def conn_at_def)
    qed (use q inv in \<open>auto simp: srv_inv_def\<close>)
    with step q(1) show ?thesis by (simp add: disableWriting_def)
  qed
qed

lemma srv_close:
  fixes n :: "'a net_scheme"
  assumes inv: "srv_inv n" and c: "c < length (conns n)" and st: "tc_state (conn_at c n) = CsConnected"
  shows "\<exists>n'. tc_handleClose server_removeConnection c n = Inr n' \<and> srv_inv n'"
proof -
  let ?e = "tc_event (conn_at c n)" and ?m = "set_state c CsDisconnected n"
  note ok = conn_okD(3) [OF inv c st]
  from srv_touch [OF inv c refl, of ?m "\<lambda>w. kNoneEvent"] ok obtain q :: "'a net_scheme" where
    q: "EpollFdEvent_update ?e (with_events ?e (\<lambda>w. kNoneEvent) ?m) = Inr q" "poller_inv q"
    "length (objs q) = length (objs n)" "ev_index (ev_at ?e q) = kDeleted" "ev_events (ev_at ?e q) = kNoneEvent"
    "\<forall>d. d \<noteq> ?e \<longrightarrow> ev_at d q = ev_at d n" "conns q = conns ?m" "loop_tasks q = loop_tasks n"
    by (auto simp: set_state_def)
  let ?t = "(conn_at c n)\<lparr>tc_state := CsDisconnected\<rparr>"
  have cq: "conns q = (conns n)[c := ?t]" using q(7) c by (simp add: set_state_def conn_upd_at)
  let ?n' = "q\<lparr>connections := (connections q)(tc_name (conn_at c q) := None), loop_tasks := loop_tasks q @ [TDisconnect c],
      user_log := user_log q @ [UClosed (Some c)]\<rparr>"
  have "tc_handleClose server_removeConnection c n = Inr ?n'"
    using st q(1) by (simp add: tc_handleClose_def disableAll_def server_removeConnection_def)
  moreover have "srv_inv ?n'"
  proof (rule srv_inv_update [OF inv c])
    show "poller_inv ?n'" using q(2) by (subst poller_inv_more) simp_all
    show "conns ?n' = (conns n)[c := ?t]" using cq by simp
    have "ev_at d ?n' = ev_at d q" for d by (simp add: ev_at_def)
    then show "conn_ok ?n' c" "\<And>d. d \<noteq> tc_event ?t \<Longrightarrow> ev_at d ?n' = ev_at d n"
      using q(3-6) cq c conn_okD(1,2) [OF inv c] by (simp_all add: conn_ok_def Let_def read_ready_def conn_at_def)
  qed (use q(3,8) inv ok in \<open>auto simp: srv_inv_def\<close>)
  ultimately show ?thesis by blast
qed

lemma srv_read:
  fixes n :: "'a net_scheme"
  assumes inv: "srv_inv n" and can: "srv_can (SRead c r) n"
  shows "\<exists>n'. tc_handleRead server_removeConnection r c n = Inr n' \<and> srv_inv n'"
proof (cases r)
  case (Got b)
  have c: "c < length (conns n)" and room: "length (stored c n) + length b < 2 ^ 31"
    using can Got by (auto simp: watched_def)
  let ?rb = "read_buffer (conn_at c n)"
  let ?rb' = "?rb\<lparr>originData := b @ originData ?rb, writerIndex := int (length b)\<rparr>"
  let ?n' = "(upd_conn c (\<lambda>t. t\<lparr>read_buffer := ByteBuf_clear ?rb'\<rparr>) n)
      \<lparr>user_log := user_log n @ [UReceived c (ByteBuf_data ?rb') (int (length b))]\<rparr>"
  have rr: "bb_wf ?rb" "readerIndex ?rb = 0" "writerIndex ?rb = 0"
    using conn_okD(2) [OF inv c] by (simp_all add: read_ready_def)
  have "writeData b ?rb = Inr ?rb'"
    using writeData_wf [OF rr(1), of b] room rr(3) by (simp add: stored_def)
  moreover have "readableBytes ?rb' = Inr (int (length b))"
    using room rr(2) by (simp add: readableBytes_def i32_sub_def i32_def)
  ultimately have "tc_handleRead server_removeConnection r c n = Inr ?n'"
    using room Got by (simp add: tc_handleRead_eq writeBytes_mem_ok)
  moreover have "srv_inv ?n'"
  proof (rule srv_inv_update [OF inv c])
    show "poller_inv ?n'" using inv poller_inv_more [of ?n' n] by (simp add: srv_inv_def)
    show "conns ?n' = (conns n)[c := (conn_at c n)\<lparr>read_buffer := ByteBuf_clear ?rb'\<rparr>]"
      using c by (simp add: conn_upd_at)
    have "ev_at d ?n' = ev_at d n" for d by (simp add: ev_at_def)
    moreover have "bb_wf (ByteBuf_clear ?rb')" "readerIndex (ByteBuf_clear ?rb') = 0" "writerIndex (ByteBuf_clear ?rb') = 0"
      using rr(1) room by (simp_all add: ByteBuf_clear_def bb_wf_def stored_def)
    moreover have "conn_ok n c" using inv c by (simp add: srv_inv_def)
    moreover have "conn_at c ?n' = (conn_at c n)\<lparr>read_buffer := ByteBuf_clear ?rb'\<rparr>"
      using c by (simp add: conn_at_def upd_conn_def)
    ultimately show "conn_ok ?n' c"
      using c by (cases "tc_state (conn_at c n)") (simp_all add: conn_ok_def read_ready_def Let_def)
  qed (use inv in \<open>auto simp: srv_inv_def ev_at_def\<close>)
  ultimately show ?thesis by blast
next
  case EndOfStream
  with can inv have "c < length (conns n)" "tc_state (conn_at c n) = CsConnected"
    using watched_connected by (auto simp: watched_def)
  from srv_close [OF inv this] EndOfStream show ?thesis by (simp add: tc_handleRead_eq)
qed (use inv in \<open>simp add: tc_handleRead_eq\<close>)

text \<open>A connection whose event is removed: by the queued task after a close, or by the user.\<close>

lemma srv_remove:
  fixes n :: "'a net_scheme"
  assumes inv: "srv_inv n" and c: "c < length (conns n)"
    and m: "poller_inv m" "conns m = (conns n)[c := t]" "tc_event t = tc_event (conn_at c n)"
      "length (objs m) = length (objs n)" "\<And>d. d \<noteq> tc_event t \<Longrightarrow> ev_at d m = ev_at d n"
      "ev_index (ev_at (tc_event t) m) \<noteq> kNew" "ev_events (ev_at (tc_event t) m) = kNoneEvent"
    and tasks: "distinct (loop_tasks m)" "set (loop_tasks m) = set (loop_tasks n) - {TDisconnect c}"
    and t: "tc_state t = CsDisconnected \<or> tc_state t = CsConnecting" "read_buffer t = read_buffer (conn_at c n)"
  shows "\<exists>q :: 'a net_scheme. EpollFdEvent_remove (tc_event t) m = Inr q \<and> srv_inv q"
proof -
  let ?e = "tc_event t"
  have e: "?e < length (objs m)" using conn_okD(1) [OF inv c] m(3,4) by simp
  from event_remove_ok [OF m(1) e m(6,7)] obtain q where
    q: "EpollFdEvent_remove ?e m = Inr q" "poller_inv q" "length (objs q) = length (objs m)"
    "ev_index (ev_at ?e q) = kNew" "ev_events (ev_at ?e q) = kNoneEvent" "poller.more q = poller.more m"
    "\<forall>d. d \<noteq> ?e \<longrightarrow> ev_at d q = ev_at d m" by blast
  note more = more_net [OF q(6)]
  have other: "\<And>d. d \<noteq> ?e \<Longrightarrow> ev_at d q = ev_at d n" using m(5) q(7) by simp
  have cq: "conns q = (conns n)[c := t]" using more(1) m(2) by simp
  have "srv_inv q"
  proof (rule srv_inv_update [OF inv c q(2) cq m(3) _ other])
    have at: "conn_at c q = t" "length (conns q) = length (conns n)" using cq c by (simp_all add: conn_at_def)
    have "TDisconnect c \<notin> set (loop_tasks q)" using more(2) tasks(2) by simp
    moreover have "read_ready c q" using conn_okD(2) [OF inv c] at t(2) by (simp add: read_ready_def)
    ultimately show "conn_ok q c"
      using t(1) q(3-5) e at(1) by (elim disjE) (simp_all add: conn_ok_def Let_def)
  qed (use q(3) m(4) more(2) tasks in auto)
  with q(1) show ?thesis by blast
qed

lemma srv_task:
  fixes n :: "'a net_scheme"
  assumes inv: "srv_inv n"
  shows "\<exists>n'. run_loop_task Inr n = Inr n' \<and> srv_inv n'"
proof (cases "loop_tasks n")
  case Nil
  with inv show ?thesis by (simp add: run_loop_task_def)
next
  case (Cons t ts)
  with inv obtain c where t: "t = TDisconnect c" "c < length (conns n)" by (auto simp: srv_inv_def)
  let ?m = "n\<lparr>loop_tasks := ts\<rparr>"
  have waits: "TDisconnect c \<in> set (loop_tasks n)" using Cons t(1) by simp
  have st: "tc_state (conn_at c n) = CsDisconnected"
    using conn_okD(3,5,6) [OF inv t(2)] waits by (cases "tc_state (conn_at c n)") auto
  have at: "conn_at d ?m = conn_at d n" "ev_at d ?m = ev_at d n" for d by (simp_all add: conn_at_def ev_at_def)
  have "\<exists>q :: 'a net_scheme. EpollFdEvent_remove (tc_event (conn_at c n)) ?m = Inr q \<and> srv_inv q"
  proof (rule srv_remove [OF inv t(2)])
    show "poller_inv ?m" using inv poller_inv_more [of ?m n] by (simp add: srv_inv_def)
    show "conns ?m = (conns n)[c := conn_at c n]" by (simp add: conn_at_def)
  qed (use conn_okD(4) [OF inv t(2) st] waits inv Cons t(1) st in \<open>auto simp: srv_inv_def at\<close>)
  moreover have "run_loop_task Inr n = EpollFdEvent_remove (tc_event (conn_at c n)) ?m"
    using Cons t(1) st at by (simp add: run_loop_task_def tc_disconnect_def)
  ultimately show ?thesis by simp
qed

lemma srv_disconnect:
  fixes n :: "'a net_scheme"
  assumes inv: "srv_inv n" and c: "c < length (conns n)" and st: "tc_state (conn_at c n) = CsConnected"
  shows "\<exists>n'. tc_disconnect c n = Inr n' \<and> srv_inv n'"
proof -
  let ?e = "tc_event (conn_at c n)" and ?m = "set_state c CsConnecting n"
  note ok = conn_okD(3) [OF inv c st]
  from srv_touch [OF inv c refl, of ?m "\<lambda>w. kNoneEvent"] ok obtain q :: "'a net_scheme" where
    q: "EpollFdEvent_update ?e (with_events ?e (\<lambda>w. kNoneEvent) ?m) = Inr q" "poller_inv q"
    "length (objs q) = length (objs n)" "ev_index (ev_at ?e q) = kDeleted" "ev_events (ev_at ?e q) = kNoneEvent"
    "\<forall>d. d \<noteq> ?e \<longrightarrow> ev_at d q = ev_at d n" "conns q = conns ?m" "loop_tasks q = loop_tasks n"
    by (auto simp: set_state_def)
  let ?t = "(conn_at c n)\<lparr>tc_state := CsConnecting\<rparr>"
  have cq: "conns q = (conns n)[c := ?t]" using q(7) c by (simp add: set_state_def conn_upd_at)
  have "\<exists>r :: 'a net_scheme. EpollFdEvent_remove (tc_event ?t) q = Inr r \<and> srv_inv r"
    by (rule srv_remove [OF inv c q(2) cq]) (use q ok inv in \<open>auto simp: srv_inv_def\<close>)
  moreover have "tc_disconnect c n = EpollFdEvent_remove (tc_event ?t) q"
    using st q(1) cq c by (simp add: tc_disconnect_def disableAll_def conn_at_def)
  ultimately show ?thesis by simp
qed

lemma srv_accept:
  fixes n :: "'a net_scheme"
  assumes inv: "srv_inv n" and free: "fdEventMaps n (getFd s) = None"
  shows "\<exists>n'. server_newConnection name s n = Inr n' \<and> srv_inv n'"
proof -
  let ?c = "length (conns n)" and ?e = "length (objs n)"
  define m0 where "m0 = TcpConnection_new s (name (connId n)) n"
  define m where "m = set_state ?c CsConnected (m0\<lparr>connections := (connections n)(name (connId n) \<mapsto> ?c)\<rparr>)"
  note frame = TcpConnection_new_frame [where s = s and name = "name (connId n)" and n = n, folded m0_def]
  let ?g = "\<lambda>ev. ev\<lparr>ev_reader := True, ev_writer := True, ev_closer := True, ev_catcher := True\<rparr>"
  let ?p = "EpollFdEvent_init ?e (getFd s) KPersist (EpollFdEvent_new 0 n)"
  have pinv: "poller_inv n" using inv by (simp add: srv_inv_def)
  have p: "length (objs ?p) = Suc ?e" by (simp add: EpollFdEvent_init_def EpollFdEvent_new_def)
  have "poller_inv (upd_ev ?e ?g ?p)" by (rule poller_inv_upd [OF new_inv [OF pinv]]) (simp_all add: p)
  moreover have objs: "objs m0 = objs (upd_ev ?e ?g ?p)" "ctl_log m0 = ctl_log n" "loop_tasks m0 = loop_tasks n"
    by (simp_all add: m0_def TcpConnection_new_def Let_def EpollFdEvent_init_def EpollFdEvent_new_def upd_ev_def)
  ultimately have "poller_inv m0"
    using poller_inv_more [of m0 "upd_ev ?e ?g ?p"] frame(3)
    by (simp add: EpollFdEvent_init_def EpollFdEvent_new_def)
  then have minv: "poller_inv m" using poller_inv_more [of m m0] by (simp add: m_def set_state_def)
  have old: "ev_at d m = ev_at d n" if "d < ?e" for d
    using that objs(1) by (simp add: m_def set_state_def ev_at_def upd_ev_def EpollFdEvent_init_def EpollFdEvent_new_def nth_append)
  have m: "?e < length (objs m)" "length (objs m) = Suc ?e" "fdEventMaps m = fdEventMaps n" "ev_fd (ev_at ?e m) = getFd s"
    "loop_tasks m = loop_tasks n" "ev_events (ev_at ?e m) = 0"
    using frame(3-6) objs(1,3)
    by (simp_all add: m_def set_state_def ev_at_def upd_ev_def EpollFdEvent_init_def EpollFdEvent_new_def)
  let ?t = "\<lparr>tc_state = CsConnected, tc_socket = s, tc_name = name (connId n), tc_event = ?e,
      read_buffer = ByteBuf_new, write_buffer = ByteBuf_new\<rparr>"
  have mc: "conns m = conns n @ [?t]" by (simp add: m_def set_state_def upd_conn_def frame(7))
  from event_update_ok [OF minv m(1), of "\<lambda>w. w OR kReadEvent"] free m obtain q :: "'a net_scheme" where
    q: "EpollFdEvent_update ?e (with_events ?e (\<lambda>w. w OR kReadEvent) m) = Inr q" "poller_inv q"
    "length (objs q) = Suc ?e" "\<forall>d. d \<noteq> ?e \<longrightarrow> ev_at d q = ev_at d m"
    "poller.more q = poller.more m" "ev_events (ev_at ?e q) = kReadEvent" by auto
  have reading: "ev_index (ev_at ?e q) = kAdded" "isReading (ev_at ?e q)"
    using event_update_index(1) [OF minv m(1) q(1)] q(6) m(6)
    by (auto simp: isReading_def kReadEvent_def kNoneEvent_def)
  let ?n' = "q\<lparr>user_log := user_log q @ [UConnected ?c]\<rparr>"
  have "server_newConnection name s n = Inr ?n'"
    using q(1) frame(1,2,7)
    by (simp add: server_newConnection_def Let_def m0_def [symmetric] tc_connectFinished_def conn_at_def m_def enableReading_def)
  moreover have "srv_inv ?n'"
  proof -
    have c': "conns ?n' = conns n @ [?t]" "loop_tasks ?n' = loop_tasks n" "length (objs ?n') = Suc ?e"
      using more_net [OF q(5)] mc m(5) q(3) by simp_all
    have ev: "ev_at d ?n' = (if d < ?e then ev_at d n else ev_at d q)" for d
      using q(4) old [of d] by (auto simp: ev_at_def)
    have at: "conn_at d ?n' = (if d < ?c then conn_at d n else ?t)" if "d \<le> ?c" for d
      using c'(1) that by (auto simp: conn_at_def nth_append)
    have ok: "conn_ok ?n' d" if "d < ?c" for d
    proof -
      have "conn_ok n d" using inv that by (simp add: srv_inv_def)
      moreover have "tc_event (conn_at d n) < ?e" by (rule conn_okD(1) [OF inv that])
      ultimately show ?thesis
        using at [of d] that c' ev [of "tc_event (conn_at d n)"]
        by (cases "tc_state (conn_at d n)") (simp_all add: conn_ok_def read_ready_def Let_def)
    qed
    have "TDisconnect ?c \<notin> set (loop_tasks n)" using inv by (force simp: srv_inv_def)
    then have "conn_ok ?n' ?c"
      using at [of ?c] c' ev [of ?e] reading
      by (simp add: conn_ok_def read_ready_def Let_def ByteBuf_new_def ByteBufData_new_def bb_wf_def bb_open_def)
    with ok have all: "\<forall>d < length (conns ?n'). conn_ok ?n' d" using c'(1) by (auto simp: less_Suc_eq)
    have "poller_inv ?n'" using q(2) poller_inv_more [of ?n' q] by simp
    moreover have "tc_event (conn_at d ?n') = tc_event (conn_at d' ?n') \<longrightarrow> d = d'"
      if "d < length (conns ?n')" "d' < length (conns ?n')" for d d'
      using that at [of d] at [of d'] conn_okD(1) [OF inv, of d] conn_okD(1) [OF inv, of d'] inv c'(1)
      by (auto simp: srv_inv_def less_Suc_eq)
    ultimately show ?thesis using all c'(1,2) inv unfolding srv_inv_def by (metis length_append_singleton less_SucI)
  qed
  ultimately show ?thesis by blast
qed

lemma srv_progress:
  fixes n :: "'a net_scheme"
  assumes "srv_inv n" "srv_can x n"
  shows "\<exists>n'. srv_step name x n = Inr n' \<and> srv_inv n'"
proof (cases x)
  case (SAccept s)
  with assms srv_accept show ?thesis by simp
next
  case (SRead c r)
  with assms srv_read [of n c r] show ?thesis by simp
next
  case (SHangup c)
  with assms srv_close [of n c] watched_connected [of n c] show ?thesis by (auto simp: watched_def)
next
  case (SWritable c ret)
  with assms srv_writable [of n c ret] show ?thesis by simp
next
  case (SSend c m)
  with assms srv_send [of n c m] show ?thesis by simp
next
  case (SDisconnect c)
  with assms srv_disconnect [of n c] show ?thesis by simp
next
  case STask
  with assms srv_task [of n] show ?thesis by simp
qed

lemma registered_iff:
  "poller_inv p \<Longrightarrow> e < length (objs p) \<Longrightarrow> fdEventMaps p (ev_fd (ev_at e p)) = Some e \<longleftrightarrow> ev_index (ev_at e p) \<noteq> kNew"
  using poller_invD(1,3) by blast

lemma srv_reach_inv: "srv_reach name n \<Longrightarrow> srv_inv n"
proof (induction rule: srv_reach.induct)
  case (srv_next n x n')
  with srv_progress [of n x name] show ?case by auto
qed (rule srv_inv_new)

section \<open>Properties\<close>

text \<open>In every state that a server can reach, whatever the order of the events, each operation that
  can happen succeeds: no assertion of the poller or of a connection fails and nothing undefined
  happens. The \<open>epoll_ctl\<close> calls so far were legal, and a connection's descriptor is registered with
  its event exactly while the connection is connected or its \<open>disconnect\<close> waits in the loop.\<close>
theorem server_run_safe:
  assumes "srv_reach name n"
  shows "(\<forall>x. srv_can x n \<longrightarrow> (\<exists>n'. srv_step name x n = Inr n')) \<and> ctl_legal (ctl_log n) {} \<and>
     (\<forall>c < length (conns n). fdEventMaps n (ev_fd (ev_at (tc_event (conn_at c n)) n)) = Some (tc_event (conn_at c n)) \<longleftrightarrow>
        tc_state (conn_at c n) = CsConnected \<or> TDisconnect c \<in> set (loop_tasks n))"
proof -
  have inv: "srv_inv n" by (rule srv_reach_inv [OF assms])
  then have pinv: "poller_inv n" by (simp add: srv_inv_def)
  have "fdEventMaps n (ev_fd (ev_at (tc_event (conn_at c n)) n)) = Some (tc_event (conn_at c n)) \<longleftrightarrow>
      tc_state (conn_at c n) = CsConnected \<or> TDisconnect c \<in> set (loop_tasks n)" if c: "c < length (conns n)" for c
    unfolding registered_iff [OF pinv conn_okD(1) [OF inv c]]
    using conn_okD(3-6) [OF inv c] by (cases "tc_state (conn_at c n)") auto
  moreover have "\<exists>n'. srv_step name x n = Inr n'" if "srv_can x n" for x
    using srv_progress [OF inv that, of name] by blast
  ultimately show ?thesis using poller_invD(5) [OF pinv] by simp
qed

theorem server_run_safe_witness:
  "\<exists>n. server_newConnection (\<lambda>i. ''s'') (sample_socket 9) net_new = Inr n \<and> ctl_legal (ctl_log n) {} \<and>
     (\<exists>n'. srv_step (\<lambda>i. ''s'') (SSend 0 [1, 2]) n = Inr n')"
proof -
  have free: "srv_can (SAccept (sample_socket 9)) net_new" by (simp add: net_new_def)
  from srv_progress [OF srv_inv_new this, of "\<lambda>i. ''s''"] obtain n where
    n: "srv_step (\<lambda>i. ''s'') (SAccept (sample_socket 9)) net_new = Inr n" by blast
  have reach: "srv_reach (\<lambda>i. ''s'') n" by (rule srv_next [OF srv_start free n])
  have "0 < length (conns n) \<and> used 0 n = 0"
    using n
    by (auto simp: server_newConnection_def tc_connectFinished_def TcpConnection_new_def net_new_def poll_run conn_at_def
        set_state_def upd_conn_def sample_socket_def getFd_def Socket_new_def used_def ByteBuf_new_def ByteBufData_new_def)
  then have "srv_can (SSend 0 [1, 2]) n" by simp
  with server_run_safe [OF reach] have "\<exists>n'. srv_step (\<lambda>i. ''s'') (SSend 0 [1, 2]) n = Inr n'" "ctl_legal (ctl_log n) {}"
    by blast+
  with n show ?thesis by (intro exI [of _ n]) simp
qed

end
