(* ===== verification/ServerLoop.thy ===== *)
theory ServerLoop
  imports Loop PollerView AcceptorLife ServerRun
begin

text \<open>
  A \<open>TcpServer\<close> on its \<open>Loop\<close>: the objects of \<open>gwcpp/net/TcpServer.h\<close> and of \<open>gwcpp/event/Loop.h\<close> in one
  state, with the handlers of the server as the callbacks of \<open>Loop.loop_turn\<close>. A turn polls, runs one
  queued task and dispatches the events that were reported, in this order.

  \<open>app_of\<close> and \<open>with_app\<close> read and write the part of the state that the operations of \<open>net\<close> know;
  \<open>server_turn_view\<close> shows that a turn of the loop is the same sequence of steps on that part.
\<close>

section \<open>State\<close>

record server = "loop_task loop" +
  s_conns :: "tcp_conn list"
  s_sent_log :: "(nat \<times> bytes) list"
  s_user_log :: "user_call list"
  s_connections :: "string \<Rightarrow> nat option"
  s_connId :: int
  s_ac_state :: acceptor_state
  s_ac_event :: "nat option"
  s_ac_sock :: "socket option"
  s_started :: bool

definition app_of :: "server \<Rightarrow> acceptor" where
  "app_of l = \<lparr>objs = objs l, fdEventMaps = fdEventMaps l, buf_size = buf_size l, ctl_log = ctl_log l,
      activeEvents = activeEvents l, conns = s_conns l, loop_tasks = taskQueue l, sent_log = s_sent_log l,
      user_log = s_user_log l, connections = s_connections l, connId = s_connId l, ac_state = s_ac_state l,
      ac_event = s_ac_event l, ac_sock = s_ac_sock l, srv_started = s_started l\<rparr>"

definition with_app :: "acceptor \<Rightarrow> server \<Rightarrow> server" where
  "with_app a l = l\<lparr>objs := objs a, fdEventMaps := fdEventMaps a, buf_size := buf_size a, ctl_log := ctl_log a,
      activeEvents := activeEvents a, s_conns := conns a, taskQueue := loop_tasks a, s_sent_log := sent_log a,
      s_user_log := user_log a, s_connections := connections a, s_connId := connId a, s_ac_state := ac_state a,
      s_ac_event := ac_event a, s_ac_sock := ac_sock a, s_started := srv_started a\<rparr>"

definition on_app :: "(acceptor \<Rightarrow> acceptor result) \<Rightarrow> server \<Rightarrow> server result" where
  "on_app f l = r_bind (f (app_of l)) (\<lambda>a. Inr (with_app a l))"

text \<open>The constructor: an acceptor that is not started, no connection, and the number \<open>1\<close> for all
  connections to come.\<close>

definition TcpServer_new :: "loop_task loop \<Rightarrow> server" where
  "TcpServer_new l = loop.extend l (server.fields [] [] [] (\<lambda>_. None) 1 AcInited None None False)"

definition TcpServer_start ::
    "(sockopt \<Rightarrow> int \<Rightarrow> bool) \<Rightarrow> int \<Rightarrow> int \<Rightarrow> address option \<Rightarrow> int \<Rightarrow> server \<Rightarrow> (bool \<times> server) result" where
  "TcpServer_start so fd bind_ret loc listen_ret l =
     r_bind (server_start so fd bind_ret loc listen_ret (app_of l)) (\<lambda>(ok, a). Inr (ok, with_app a l))"

section \<open>One turn\<close>

text \<open>What the outside does in one turn: the events that \<open>epoll_wait\<close> reports; what \<open>recv\<close> and \<open>send\<close>
  answer for each connection; what \<open>accept\<close> and the calls it makes answer; and what the user's receive
  callback does with the bytes it is given, a sequence of calls on the same connection.\<close>

datatype user_act = USend bytes | UDisconnect

record turn_in =
  t_ready :: "(nat \<times> 32 word) list option"
  t_recv :: "nat \<Rightarrow> recv"
  t_sent :: "nat \<Rightarrow> int"
  t_accept :: int
  t_opt :: "sockopt \<Rightarrow> int \<Rightarrow> bool"
  t_local :: "address option"
  t_peer :: "address option"
  t_react :: "nat \<Rightarrow> bytes \<Rightarrow> user_act list"

fun user_run :: "nat \<Rightarrow> user_act \<Rightarrow> 'a net_scheme \<Rightarrow> 'a net_scheme result" where
  "user_run c (USend m) n = tc_send m (int (length m)) c n"
| "user_run c UDisconnect n = tc_disconnect c n"

definition user_receive ::
    "(nat \<Rightarrow> bytes \<Rightarrow> user_act list) \<Rightarrow> nat \<Rightarrow> bytes \<Rightarrow> int \<Rightarrow> 'a net_scheme \<Rightarrow> 'a net_scheme result" where
  "user_receive react c mem k n = r_fold (user_run c) (react c (take (nat k) mem)) n"

text \<open>The callbacks that are bound to an event: those of the acceptor, or of the connection that owns it.
  \<open>handleError\<close> writes a log line.\<close>

definition conn_of :: "nat \<Rightarrow> 'a net_scheme \<Rightarrow> nat option" where
  "conn_of e n = find (\<lambda>c. tc_event (conn_at c n) = e) [0..<length (conns n)]"

definition conn_cb :: "turn_in \<Rightarrow> cb \<Rightarrow> nat \<Rightarrow> 'a net_scheme \<Rightarrow> 'a net_scheme result" where
  "conn_cb i x c n =
     (case x of
        CbClose \<Rightarrow> tc_handleClose server_removeConnection c n
      | CbError \<Rightarrow> Inr n
      | CbRead \<Rightarrow> tc_handleRead_with (user_receive (t_react i)) server_removeConnection (t_recv i c) c n
      | CbWrite \<Rightarrow> tc_handleWrite (t_sent i c) c n)"

definition server_cb :: "(int \<Rightarrow> string) \<Rightarrow> turn_in \<Rightarrow> cb \<Rightarrow> nat \<Rightarrow> acceptor \<Rightarrow> acceptor result" where
  "server_cb name i x e a =
     (if ac_event a = Some e then
        if x = CbRead
        then Acceptor_handleRead (t_opt i) (t_accept i) (t_local i) (t_peer i) (Some (server_newConnection name)) a
        else Inr a
      else case conn_of e a of Some c \<Rightarrow> conn_cb i x c a | None \<Rightarrow> Inr a)"

fun server_task :: "loop_task \<Rightarrow> acceptor \<Rightarrow> acceptor result" where
  "server_task (TDisconnect c) a = tc_disconnect c a"
| "server_task TResetEvent a = Inr a"

definition server_turn :: "(int \<Rightarrow> string) \<Rightarrow> turn_in \<Rightarrow> server \<Rightarrow> server result" where
  "server_turn name i l =
     loop_turn (\<lambda>x e. on_app (server_cb name i x e)) (\<lambda>t. on_app (server_task t)) (t_ready i) l"

definition server_runLoop :: "(int \<Rightarrow> string) \<Rightarrow> (nat \<Rightarrow> turn_in) \<Rightarrow> loop_mode \<Rightarrow> server \<Rightarrow> server result option" where
  "server_runLoop name i mode l =
     runLoop (\<lambda>n x e. on_app (server_cb name (i n) x e)) (\<lambda>n t. on_app (server_task t)) (\<lambda>n. t_ready (i n)) mode l"

section \<open>The turn on the server's part of the state\<close>

definition turn_prefix :: "turn_in \<Rightarrow> acceptor \<Rightarrow> acceptor result" where
  "turn_prefix i a = r_bind (Poller_poll (t_ready i) (a\<lparr>activeEvents := []\<rparr>)) (run_loop_task Inr)"

definition app_turn :: "(int \<Rightarrow> string) \<Rightarrow> turn_in \<Rightarrow> acceptor \<Rightarrow> acceptor result" where
  "app_turn name i a =
     r_bind (turn_prefix i a) (\<lambda>a2. r_fold (handleEvent (server_cb name i)) (activeEvents a2) a2)"

lemma app_of_with [simp]: "app_of (with_app a l) = a"
  by (simp add: app_of_def with_app_def)

lemma with_app_simps [simp]:
  "taskQueue (with_app a l) = loop_tasks a" "keepRunning (with_app a l) = keepRunning l"
  "eventHandling (with_app a l) = eventHandling l"
  by (simp_all add: with_app_def)

lemma app_of_simps [simp]:
  "objs (app_of l) = objs l" "activeEvents (app_of l) = activeEvents l" "loop_tasks (app_of l) = taskQueue l"
  "app_of (l\<lparr>activeEvents := es\<rparr>) = (app_of l)\<lparr>activeEvents := es\<rparr>"
  "app_of (l\<lparr>taskQueue := q\<rparr>) = (app_of l)\<lparr>loop_tasks := q\<rparr>"
  "app_of (l\<lparr>currentActiveEvent := c\<rparr>) = app_of l" "app_of (l\<lparr>ran := r\<rparr>) = app_of l"
  "app_of (l\<lparr>keepRunning := k\<rparr>) = app_of l" "app_of (l\<lparr>threadPool := p\<rparr>) = app_of l"
  by (simp_all add: app_of_def)

interpretation app: poller_projection app_of
  by unfold_locales (simp_all add: app_of_def)

interpretation tasks: poller_view "\<lambda>n. n\<lparr>loop_tasks := ts\<rparr>" for ts
  by unfold_locales simp_all

lemma on_app_view: "r_map app_of (on_app f l) = f (app_of l)"
  by (cases "f (app_of l)") (simp_all add: on_app_def)

lemma tc_disconnect_tasks:
  "tc_disconnect c (n\<lparr>loop_tasks := ts\<rparr>) = r_map (\<lambda>n'. n'\<lparr>loop_tasks := ts\<rparr>) (tc_disconnect c n)"
proof -
  have "set_state c st (n\<lparr>loop_tasks := ts\<rparr>) = (set_state c st n)\<lparr>loop_tasks := ts\<rparr>" for st
    by (simp add: set_state_def upd_conn_def)
  moreover have "conn_at c (m\<lparr>loop_tasks := ts\<rparr>) = conn_at c m" for m :: "'a net_scheme"
    by (simp add: conn_at_def)
  ultimately show ?thesis
    by (simp add: tc_disconnect_def r_map_bind r_bind_map tasks.view_interest tasks.view_remove)
qed

lemma server_task_tasks:
  "server_task t (n\<lparr>loop_tasks := ts\<rparr>) = r_map (\<lambda>n'. n'\<lparr>loop_tasks := ts\<rparr>) (server_task t n)"
  by (cases t) (simp_all add: tc_disconnect_tasks)

lemma app_of_handleTaskFun:
  "r_map app_of (handleTaskFun (\<lambda>t. on_app (server_task t)) l) = run_loop_task Inr (app_of l)"
proof (cases "taskQueue l")
  case (Cons t ts)
  let ?l = "l\<lparr>ran := ran l @ [t]\<rparr>"
  have q: "(app_of l)\<lparr>loop_tasks := t # ts\<rparr> = app_of l" using Cons by (simp add: app_of_def)
  show ?thesis
  proof (cases "server_task t (app_of l)")
    case (Inl e)
    then show ?thesis
      using Cons server_task_tasks [of t ts "app_of l"]
      by (cases t) (simp_all add: handleTaskFun_def on_app_def run_loop_task_def)
  next
    case (Inr a)
    have "loop_tasks a = t # ts"
      using server_task_tasks [of t "t # ts" "app_of l"] Inr unfolding q
      by simp (metis (no_types, lifting) net.select_convs(2) net.surjective net.update_convs(2))
    with Inr Cons server_task_tasks [of t ts "app_of l"] show ?thesis
      by (cases t) (simp_all add: handleTaskFun_def on_app_def run_loop_task_def)
  qed
qed (simp add: handleTaskFun_def run_loop_task_def)

lemma server_turn_view: "r_map app_of (server_turn name i l) = app_turn name i (app_of l)"
proof -
  have dispatch: "r_map app_of (r_fold (\<lambda>e l. handleEvent (\<lambda>x e. on_app (server_cb name i x e)) e
        (l\<lparr>currentActiveEvent := Some e\<rparr>)) es l) = r_fold (handleEvent (server_cb name i)) es (app_of l)" for es l
    by (rule r_map_fold) (simp add: app.view_handleEvent [where g = "server_cb name i"] on_app_view)
  show ?thesis
    by (simp add: server_turn_def app_turn_def turn_prefix_def loop_turn_def r_bind_assoc r_map_bind dispatch app_of_simps(4) [symmetric]
        app.view_poll [symmetric] r_bind_map app_of_handleTaskFun [symmetric] del: app_of_simps(4))
qed

end
