(* ===== verification/ServerFrame.thy ===== *)
theory ServerFrame
  imports ServerLoop
begin

text \<open>
  What one callback of the composed server changes and what it leaves alone: \<open>conn_only\<close> for the
  callbacks of a connection and the calls of the user on it, \<open>one_more\<close> for an accepted connection; and
  that the callbacks of one reported event, taken together, succeed.
\<close>

section \<open>Frames\<close>

definition conn_only :: "nat \<Rightarrow> 'a net_scheme \<Rightarrow> 'a net_scheme \<Rightarrow> bool" where
  "conn_only c n n' \<longleftrightarrow> length (objs n') = length (objs n) \<and> length (conns n') = length (conns n) \<and>
     tc_event (conn_at c n') = tc_event (conn_at c n) \<and> (\<forall>d. d \<noteq> c \<longrightarrow> conn_at d n' = conn_at d n) \<and>
     (\<forall>e. e \<noteq> tc_event (conn_at c n) \<longrightarrow> ev_at e n' = ev_at e n) \<and>
     ev_flags (ev_at (tc_event (conn_at c n)) n') = ev_flags (ev_at (tc_event (conn_at c n)) n) \<and>
     (\<forall>f. fdEventMaps n f = None \<longrightarrow> fdEventMaps n' f = None) \<and> net.more n' = net.more n \<and>
     connId n' = connId n \<and> buf_size n' = buf_size n \<and>
     tc_name (conn_at c n') = tc_name (conn_at c n) \<and> tc_socket (conn_at c n') = tc_socket (conn_at c n) \<and>
     (connections n' = connections n \<and> (tc_state (conn_at c n') = CsConnected \<longrightarrow> tc_state (conn_at c n) = CsConnected) \<or>
      connections n' = (connections n)(tc_name (conn_at c n) := None) \<and> tc_state (conn_at c n) = CsConnected \<and>
        tc_state (conn_at c n') \<noteq> CsConnected)"

lemma conn_only_len:
  assumes "conn_only c n n'"
  shows "length (conns n') = length (conns n)" "length (objs n') = length (objs n)"
  using assms unfolding conn_only_def by blast+

lemma conn_only_refl [simp]: "conn_only c n n"
  by (simp add: conn_only_def)

lemma conn_only_trans [trans]: "conn_only c n m \<Longrightarrow> conn_only c m n' \<Longrightarrow> conn_only c n n'"
  unfolding conn_only_def by (elim conjE disjE) simp_all

lemma conn_only_upd:
  "(\<And>t. tc_event (f t) = tc_event t \<and> tc_name (f t) = tc_name t \<and> tc_socket (f t) = tc_socket t \<and>
     (tc_state (f t) = CsConnected \<longrightarrow> tc_state t = CsConnected)) \<Longrightarrow> conn_only c n (upd_conn c f n)"
  by (cases "c < length (conns n)")
    (auto simp: conn_only_def upd_conn_def conn_at_def ev_at_def nth_list_update list_update_beyond)

lemma conn_only_log:
  "conn_only c n (n\<lparr>sent_log := s\<rparr>)" "conn_only c n (n\<lparr>user_log := u\<rparr>)" "conn_only c n (n\<lparr>loop_tasks := t\<rparr>)"
  by (simp_all add: conn_only_def conn_at_def ev_at_def)

lemma conn_only_event:
  assumes inv: "poller_inv n" and e: "e = tc_event (conn_at c n)" "e < length (objs n)"
    and reg: "ev_index (ev_at e n) \<noteq> kNew" and q: "EpollFdEvent_update e (with_events e f n) = Inr q"
  shows "conn_only c n q"
proof -
  from event_update_ok [OF inv e(2), of f] reg q
  have ok: "length (objs q) = length (objs n)" "\<forall>d. d \<noteq> e \<longrightarrow> ev_at d q = ev_at d n" "poller.more q = poller.more n"
    by auto
  have "fdEventMaps q = fdEventMaps n"
    using event_update_maps [OF inv e(2) q] poller_invD(3) [OF inv e(2) reg] by (auto simp: fun_eq_iff)
  with ok event_update_index(2) [OF inv e(2) q] event_buf_size(1) [OF q] more_net [OF ok(3)] more_net_more [OF ok(3)] e(1) show ?thesis
    by (simp add: conn_only_def conn_at_def)
qed

lemma conn_only_remove:
  assumes inv: "poller_inv n" and e: "e = tc_event (conn_at c n)" "e < length (objs n)"
    and reg: "ev_index (ev_at e n) \<noteq> kNew" "ev_events (ev_at e n) = kNoneEvent" and q: "EpollFdEvent_remove e n = Inr q"
  shows "conn_only c n q"
proof -
  from event_remove_ok [OF inv e(2) reg] q
  have ok: "length (objs q) = length (objs n)" "\<forall>d. d \<noteq> e \<longrightarrow> ev_at d q = ev_at d n" "poller.more q = poller.more n"
    "fdEventMaps q = (fdEventMaps n)(ev_fd (ev_at e n) := None)"
    by auto
  with event_remove_flags [OF e(2) q] event_buf_size(2) [OF q] more_net [OF ok(3)] more_net_more [OF ok(3)] e(1) show ?thesis
    by (simp add: conn_only_def conn_at_def)
qed

lemma close_only:
  assumes inv: "srv_inv n" and c: "c < length (conns n)" and st: "tc_state (conn_at c n) = CsConnected"
    and q: "tc_handleClose server_removeConnection c n = Inr n'"
  shows "conn_only c n n'" "tc_state (conn_at c n') = CsDisconnected"
proof -
  let ?m = "set_state c CsDisconnected n" and ?e = "tc_event (conn_at c n)"
  from q st obtain q1 where q1: "EpollFdEvent_update ?e (with_events ?e (\<lambda>w. kNoneEvent) ?m) = Inr q1"
    and n': "n' = q1\<lparr>connections := (connections q1)(tc_name (conn_at c q1) := None), loop_tasks := loop_tasks q1 @ [TDisconnect c],
      user_log := user_log q1 @ [UClosed (Some c)]\<rparr>"
    by (auto simp: tc_handleClose_def r_bind_eq_Inr disableAll_def server_removeConnection_def)
  have m: "poller_inv ?m" "conn_only c n ?m" "ev_at ?e ?m = ev_at ?e n" "conn_at c ?m = (conn_at c n)\<lparr>tc_state := CsDisconnected\<rparr>"
    using inv poller_inv_more [of ?m n] conn_only_upd [of "\<lambda>t. t\<lparr>tc_state := CsDisconnected\<rparr>"] c
    by (simp_all add: srv_inv_def set_state_def)
  have "conn_only c ?m q1"
    by (rule conn_only_event [OF m(1) _ _ _ q1]) (use m conn_okD(1,3) [OF inv c] st in \<open>auto simp: set_state_def\<close>)
  moreover have more: "poller.more q1 = poller.more ?m"
    using event_update_ok [OF m(1), of ?e "\<lambda>w. kNoneEvent"] q1 conn_okD(1,3) [OF inv c] st m(3) by (auto simp: set_state_def)
  then have at: "conn_at c q1 = conn_at c ?m" using more_net(1) [of q1 ?m] by (simp add: conn_at_def)
  ultimately have "conn_only c n q1" using m(2) conn_only_trans by blast
  moreover have "connections q1 = connections n" using more_net(5) [OF more] by (simp add: set_state_def upd_conn_def)
  ultimately show "conn_only c n n'" unfolding n' using at m(4) st by (simp add: conn_only_def conn_at_def ev_at_def)
  show "tc_state (conn_at c n') = CsDisconnected" using at m(4) by (simp add: n' conn_at_def)
qed


lemma disconnect_only:
  assumes inv: "srv_inv n" and c: "c < length (conns n)" and st: "tc_state (conn_at c n) = CsConnected"
    and q: "tc_disconnect c n = Inr n'"
  shows "conn_only c n n'" "conn_at c n' = (conn_at c n)\<lparr>tc_state := CsConnecting\<rparr>"
proof -
  let ?m = "set_state c CsConnecting n" and ?e = "tc_event (conn_at c n)"
  note reg = conn_okD(3) [OF inv c st]
  have m: "poller_inv ?m" "conn_only c n ?m" "ev_at ?e ?m = ev_at ?e n" "conn_at c ?m = (conn_at c n)\<lparr>tc_state := CsConnecting\<rparr>"
    "objs ?m = objs n"
    using inv poller_inv_more [of ?m n] conn_only_upd [of "\<lambda>t. t\<lparr>tc_state := CsConnecting\<rparr>"] c
    by (simp_all add: srv_inv_def set_state_def)
  from q st obtain q1 where q1: "EpollFdEvent_update ?e (with_events ?e (\<lambda>w. kNoneEvent) ?m) = Inr q1"
      and n': "EpollFdEvent_remove (tc_event (conn_at c q1)) q1 = Inr n'"
    by (auto simp: tc_disconnect_def r_bind_eq_Inr disableAll_def)
  have e: "?e < length (objs ?m)" using conn_okD(1) [OF inv c] m(5) by simp
  from event_update_ok [OF m(1) e, of "\<lambda>w. kNoneEvent"] q1 reg m(3) have
    q2: "poller_inv q1" "ev_index (ev_at ?e q1) \<noteq> kNew" "ev_events (ev_at ?e q1) = kNoneEvent"
      "poller.more q1 = poller.more ?m" "length (objs q1) = length (objs ?m)" by auto
  have "conn_only c ?m q1" by (rule conn_only_event [OF m(1) _ _ _ q1]) (use m e reg in auto)
  moreover have at: "conn_at c q1 = conn_at c ?m" using more_net(1) [OF q2(4)] by (simp add: conn_at_def)
  moreover have "conn_only c q1 n'"
    by (rule conn_only_remove [OF q2(1) refl _ _ _ n']) (use q2 at m(4) e in auto)
  ultimately show "conn_only c n n'" using m(2) conn_only_trans by blast
  have "poller.more n' = poller.more q1"
    using event_remove_ok [OF q2(1), of ?e] q2 n' at m(4) e by auto
  then show "conn_at c n' = (conn_at c n)\<lparr>tc_state := CsConnecting\<rparr>"
    using more_net(1) [of n' q1] at m(4) by (simp add: conn_at_def)
qed

lemma send_only:
  assumes inv: "srv_inv n" and c: "c < length (conns n)" and room: "used c n + length m < 2 ^ 31"
    and q: "tc_send m (int (length m)) c n = Inr n'"
  shows "conn_only c n n'" "tc_state (conn_at c n') = tc_state (conn_at c n)" "used c n' \<le> used c n + length m"
    "read_buffer (conn_at c n') = read_buffer (conn_at c n)"
proof -
  let ?e = "tc_event (conn_at c n)"
  have "conn_only c n n' \<and> tc_state (conn_at c n') = tc_state (conn_at c n) \<and> used c n' \<le> used c n + length m \<and>
      read_buffer (conn_at c n') = read_buffer (conn_at c n)"
  proof (cases "tc_state (conn_at c n) = CsConnected")
    case True
    note reg = conn_okD(3) [OF inv c True]
    have pinv: "poller_inv n" using inv by (simp add: srv_inv_def)
    from q True obtain n1 where n1: "(if \<not> isWriting (ev_at ?e n) then enableWriting ?e n else Inr n) = Inr n1"
      and q1: "r_bind (writeBytes_mem m (int (length m)) (write_buffer (conn_at c n1)))
          (\<lambda>b. Inr (upd_conn c (\<lambda>t. t\<lparr>write_buffer := b\<rparr>) n1)) = Inr n'"
      by (auto simp: tc_send_def tc_send_with_def r_bind_eq_Inr)
    have step: "conn_only c n n1 \<and> conns n1 = conns n"
    proof (cases "isWriting (ev_at ?e n)")
      case False
      with n1 have u: "EpollFdEvent_update ?e (with_events ?e (\<lambda>w. w OR kWriteEvent) n) = Inr n1" by (simp add: enableWriting_def)
      have "conn_only c n n1" by (rule conn_only_event [OF pinv refl _ _ u]) (use conn_okD(1) [OF inv c] reg in auto)
      moreover have "poller.more n1 = poller.more n"
        using event_update_ok [OF pinv conn_okD(1) [OF inv c], of "\<lambda>w. w OR kWriteEvent"] u reg by auto
      ultimately show ?thesis using more_net(1) by blast
    qed (use n1 in simp)
    then have at: "conn_at c n1 = conn_at c n" by (simp add: conn_at_def)
    from writeData_open [of "write_buffer (conn_at c n)" m] reg room obtain wb where
      wb: "writeData m (write_buffer (conn_at c n)) = Inr wb" "originData wb = originData (write_buffer (conn_at c n)) @ m"
      by (auto simp: used_def)
    have "length m < 2 ^ 31" using room by simp
    with q1 wb(1) at have n': "n' = upd_conn c (\<lambda>t. t\<lparr>write_buffer := wb\<rparr>) n1" by (simp add: writeBytes_mem_ok)
    have "conn_only c n1 n'" unfolding n' by (rule conn_only_upd) simp
    then have "conn_only c n n'" using step conn_only_trans by blast
    moreover have "conn_at c n' = (conn_at c n)\<lparr>write_buffer := wb\<rparr>" using n' at c step by simp
    ultimately show ?thesis using wb(2) by (simp add: used_def)
  qed (use q in \<open>simp add: tc_send_def tc_send_with_def\<close>)
  then show "conn_only c n n'" "tc_state (conn_at c n') = tc_state (conn_at c n)" "used c n' \<le> used c n + length m"
    "read_buffer (conn_at c n') = read_buffer (conn_at c n)" by auto
qed


lemma handleWrite_cases:
  assumes "tc_handleWrite ret c n = Inr n'"
  obtains (idle) "n' = n" | (cleared) b where "n' = upd_conn c (\<lambda>t. t\<lparr>write_buffer := b\<rparr>) n"
  | (sent) wb s where "tc_state (conn_at c n) = CsConnected" "\<exists>xs. s = sent_log n @ xs \<and> (\<forall>x \<in> set xs. fst x = c)"
      "n' = (upd_conn c (\<lambda>t. t\<lparr>write_buffer := wb\<rparr>) n)\<lparr>sent_log := s\<rparr> \<or>
       disableWriting (tc_event (conn_at c ((upd_conn c (\<lambda>t. t\<lparr>write_buffer := wb\<rparr>) n)\<lparr>sent_log := s\<rparr>)))
         ((upd_conn c (\<lambda>t. t\<lparr>write_buffer := wb\<rparr>) n)\<lparr>sent_log := s\<rparr>) = Inr n'"
proof (cases "tc_state (conn_at c n) = CsConnected")
  case False
  have "upd_conn c (\<lambda>t. t\<lparr>write_buffer := ByteBuf_clear (write_buffer t)\<rparr>) n =
      upd_conn c (\<lambda>t. t\<lparr>write_buffer := ByteBuf_clear (write_buffer (conn_at c n))\<rparr>) n"
    by (simp add: upd_conn_def conn_at_def)
  with assms False have "n' = upd_conn c (\<lambda>t. t\<lparr>write_buffer := ByteBuf_clear (write_buffer (conn_at c n))\<rparr>) n"
    by (simp add: tc_handleWrite_def)
  then show ?thesis by (rule cleared)
next
  case True
  show ?thesis
  proof (cases "isWriting (ev_at (tc_event (conn_at c n)) n)")
    case False
    with assms True idle show ?thesis by (simp add: tc_handleWrite_def)
  next
    case writing: True
    from assms True writing obtain k where k: "readableBytes (write_buffer (conn_at c n)) = Inr k"
      by (auto simp: tc_handleWrite_def r_bind_eq_Inr)
    obtain r wb where rb: "readBytes k (write_buffer (conn_at c n)) = (r, wb)" by (cases "readBytes k (write_buffer (conn_at c n))")
    from assms True writing k rb obtain buf m out where
      b: "r = Inr buf" "readableBytes buf = Inr m" "str_of_mem (ByteBuf_data buf) (size_of_i32 m) = Inr out"
      by (auto simp: tc_handleWrite_def r_bind_eq_Inr)
    obtain call w where call: "Socket_send ret out (tc_socket (conn_at c n)) = (call, w)"
      by (cases "Socket_send ret out (tc_socket (conn_at c n))")
    from assms True writing k rb b call show ?thesis
      by (intro sent [OF True, where wb = wb and s = "sent_log n @ (case call of None \<Rightarrow> [] | Some b \<Rightarrow> [(c, b)])"])
        (auto simp: tc_handleWrite_def r_bind_eq_Inr Let_def split: if_splits option.splits)
  qed
qed

lemma write_only:
  assumes inv: "srv_inv n" and c: "c < length (conns n)" and q: "tc_handleWrite ret c n = Inr n'"
  shows "conn_only c n n'" "tc_state (conn_at c n') = tc_state (conn_at c n)"
    "read_buffer (conn_at c n') = read_buffer (conn_at c n)"
proof -
  have "conn_only c n n' \<and> tc_state (conn_at c n') = tc_state (conn_at c n) \<and>
      read_buffer (conn_at c n') = read_buffer (conn_at c n)"
    using q
  proof (cases rule: handleWrite_cases)
    case (cleared b)
    with c show ?thesis by (simp add: conn_only_upd)
  next
    case (sent wb s)
    let ?m = "(upd_conn c (\<lambda>t. t\<lparr>write_buffer := wb\<rparr>) n)\<lparr>sent_log := s\<rparr>" and ?e = "tc_event (conn_at c n)"
    have "conn_only c n (upd_conn c (\<lambda>t. t\<lparr>write_buffer := wb\<rparr>) n)" by (rule conn_only_upd) simp
    then have m: "conn_only c n ?m" using conn_only_log(1) conn_only_trans by blast
    have at: "conn_at c ?m = (conn_at c n)\<lparr>write_buffer := wb\<rparr>" "objs ?m = objs n" "ev_at ?e ?m = ev_at ?e n"
      using c by (simp_all add: conn_at_def upd_conn_def ev_at_def)
    have minv: "poller_inv ?m" using inv poller_inv_more [of ?m n] by (simp add: srv_inv_def)
    note reg = conn_okD(1) [OF inv c] conn_okD(3) [OF inv c sent(1)]
    from sent(3) show ?thesis
    proof
      assume "disableWriting (tc_event (conn_at c ?m)) ?m = Inr n'"
      then have u: "EpollFdEvent_update ?e (with_events ?e (\<lambda>w. w AND NOT kWriteEvent) ?m) = Inr n'"
        using at(1) by (simp add: disableWriting_def)
      have "conn_only c ?m n'" by (rule conn_only_event [OF minv _ _ _ u]) (use reg at in auto)
      moreover have "poller.more n' = poller.more ?m"
        using event_update_ok [OF minv, of ?e "\<lambda>w. w AND NOT kWriteEvent"] u reg at by auto
      then have "conn_at c n' = conn_at c ?m" using more_net(1) [of n' ?m] by (simp add: conn_at_def)
      ultimately show ?thesis using m conn_only_trans at(1) by simp blast
    qed (use m at in simp)
  qed simp
  then show "conn_only c n n'" "tc_state (conn_at c n') = tc_state (conn_at c n)"
    "read_buffer (conn_at c n') = read_buffer (conn_at c n)" by auto
qed

section \<open>The receive callback\<close>

text \<open>The calls of a user on one connection do not look at its read buffer.\<close>

interpretation rbuf: poller_view "upd_conn c f" for c f
  by unfold_locales (simp_all add: upd_conn_def)

lemma upd_conn_swap:
  assumes "\<And>t. f (g t) = g (f t)"
  shows "upd_conn c f (upd_conn c g n) = upd_conn c g (upd_conn c f n)"
  using assms by (cases "c < length (conns n)") (simp_all add: upd_conn_def list_update_beyond)

lemma user_run_read_buffer:
  fixes n :: "'a net_scheme" and b :: bytebuf and c :: nat
  defines "h \<equiv> upd_conn c (\<lambda>t. t\<lparr>read_buffer := b\<rparr>) :: 'a net_scheme \<Rightarrow> 'a net_scheme"
  shows "r_map h (user_run c x n) = user_run c x (h n)"
proof -
  have at: "tc_state (conn_at c (h m)) = tc_state (conn_at c m) \<and> tc_event (conn_at c (h m)) = tc_event (conn_at c m) \<and>
      write_buffer (conn_at c (h m)) = write_buffer (conn_at c m)" for m :: "'a net_scheme"
    by (cases "c < length (conns m)") (simp_all add: h_def upd_conn_def conn_at_def list_update_beyond)
  have wb: "upd_conn c (\<lambda>t. t\<lparr>write_buffer := w\<rparr>) (h m) = h (upd_conn c (\<lambda>t. t\<lparr>write_buffer := w\<rparr>) m)"
    and st: "set_state c s (h m) = h (set_state c s m)" for w s and m :: "'a net_scheme"
    unfolding h_def set_state_def by (rule upd_conn_swap; simp)+
  have view: "enableWriting e (h m) = r_map h (enableWriting e m)" "disableAll e (h m) = r_map h (disableAll e m)"
    "EpollFdEvent_remove e (h m) = r_map h (EpollFdEvent_remove e m)" "ev_at e (h m) = ev_at e m" for e m
    unfolding h_def by (rule rbuf.view_interest rbuf.view_remove rbuf.view_at)+
  show ?thesis
    by (cases x) (simp_all add: tc_send_def tc_send_with_def tc_disconnect_def at wb st view r_map_bind r_bind_map)
qed


lemma read_then_user:
  fixes n :: "'a net_scheme"
  assumes r: "read_ready c n" and room: "length (stored c n) + length b < 2 ^ 31"
  obtains n0 :: "'a net_scheme" where "tc_handleRead oc (Got b) c n = Inr n0" "conn_only c n n0"
    "tc_handleRead_with (user_receive react) oc (Got b) c n = r_fold (user_run c) (react c b) n0"
    "tc_state (conn_at c n0) = tc_state (conn_at c n)" "write_buffer (conn_at c n0) = write_buffer (conn_at c n)"
proof -
  let ?rb = "read_buffer (conn_at c n)"
  let ?rb' = "?rb\<lparr>originData := b @ originData ?rb, writerIndex := int (length b)\<rparr>"
  let ?log = "user_log n @ [UReceived c (ByteBuf_data ?rb') (int (length b))]"
  let ?h = "\<lambda>x. upd_conn c (\<lambda>t. t\<lparr>read_buffer := x\<rparr>) :: 'a net_scheme \<Rightarrow> 'a net_scheme"
  define n0 where "n0 = (?h (ByteBuf_clear ?rb') n)\<lparr>user_log := ?log\<rparr>"
  have rr: "c < length (conns n)" "bb_wf ?rb" "readerIndex ?rb = 0" "writerIndex ?rb = 0"
    using r by (simp_all add: read_ready_def)
  have "writeData b ?rb = Inr ?rb'"
    using writeData_wf [OF rr(2), of b] room rr(4) by (simp add: stored_def)
  moreover have k: "readableBytes ?rb' = Inr (int (length b))"
    using room rr(3) by (simp add: readableBytes_def i32_sub_def i32_def)
  ultimately have w: "writeBytes_mem b (int (length b)) ?rb = Inr ?rb'" using room by (simp add: writeBytes_mem_ok)
  have over: "?h x (?h y m) = ?h x m" for x y and m :: "'a net_scheme"
    by (cases "c < length (conns m)") (simp_all add: upd_conn_def list_update_beyond)
  have comm: "(?h x m)\<lparr>user_log := u\<rparr> = ?h x (m\<lparr>user_log := u\<rparr>)" for x u and m :: "'a net_scheme"
    by (simp add: upd_conn_def)
  then have n1: "(?h ?rb' n)\<lparr>user_log := ?log\<rparr> = ?h ?rb' n0" by (simp add: n0_def over)
  have folded: "r_fold (user_run c) xs (?h x n0) = r_map (?h x) (r_fold (user_run c) xs n0)" for x xs
    by (rule r_map_fold [symmetric]) (rule user_run_read_buffer)
  have back_eq: "?h (ByteBuf_clear ?rb') n0 = n0" by (simp add: n0_def comm over)
  have kept: "?h (ByteBuf_clear ?rb') m = m" if "r_fold (user_run c) xs n0 = Inr m" for xs m
    using folded [of xs "ByteBuf_clear ?rb'"] that unfolding back_eq by simp
  have clr: "upd_conn c (\<lambda>t. t\<lparr>read_buffer := ByteBuf_clear (read_buffer t)\<rparr>) (?h ?rb' m) = ?h (ByteBuf_clear ?rb') m"
    for m :: "'a net_scheme"
    by (cases "c < length (conns m)") (simp_all add: upd_conn_def list_update_beyond)
  have bytes: "take (nat (int (length b))) (ByteBuf_data ?rb') = b" by (simp add: ByteBuf_data_def str_data_def)
  have "tc_handleRead_with (user_receive react) oc (Got b) c n =
      r_bind (r_map (?h ?rb') (r_fold (user_run c) (react c b) n0))
        (\<lambda>m. Inr (upd_conn c (\<lambda>t. t\<lparr>read_buffer := ByteBuf_clear (read_buffer t)\<rparr>) m))"
    unfolding tc_handleRead_with_def w recv.case r_bind_simps k n1 user_receive_def bytes folded ..
  also have "\<dots> = r_fold (user_run c) (react c b) n0"
    by (cases "r_fold (user_run c) (react c b) n0") (simp_all add: clr kept)
  finally have eq2: "tc_handleRead_with (user_receive react) oc (Got b) c n = r_fold (user_run c) (react c b) n0" .
  have eq1: "tc_handleRead oc (Got b) c n = Inr n0" by (simp add: tc_handleRead_eq w k n0_def)
  have "conn_only c n (?h (ByteBuf_clear ?rb') n)" by (rule conn_only_upd) simp
  then have eq3: "conn_only c n n0" unfolding n0_def using conn_only_log(2) conn_only_trans by blast
  have "conn_at c n0 = (conn_at c n)\<lparr>read_buffer := ByteBuf_clear ?rb'\<rparr>"
    using rr(1) by (simp add: n0_def conn_at_def upd_conn_def)
  then show ?thesis using that [OF eq1 eq3 eq2] by simp
qed

definition sends :: "user_act list \<Rightarrow> nat" where
  "sends xs = sum_list (map (\<lambda>x. case x of USend m \<Rightarrow> length m | UDisconnect \<Rightarrow> 0) xs)"

definition disconnects :: "user_act list \<Rightarrow> nat" where
  "disconnects xs = length (filter (\<lambda>x. x = UDisconnect) xs)"

lemma user_acts_safe:
  fixes n :: "'a net_scheme"
  assumes "srv_inv n" "c < length (conns n)" "used c n + sends xs < 2 ^ 31"
    "disconnects xs \<le> (if tc_state (conn_at c n) = CsConnected then 1 else 0)"
  shows "\<exists>n'. r_fold (user_run c) xs n = Inr n' \<and> srv_inv n' \<and> conn_only c n n'"
  using assms
proof (induction xs arbitrary: n)
  case (Cons x xs)
  show ?case
  proof (cases x)
    case (USend m)
    have room: "used c n + length m < 2 ^ 31" using Cons.prems(3) USend by (simp add: sends_def)
    from srv_send [OF Cons.prems(1,2) room] obtain n1 where
      n1: "tc_send m (int (length m)) c n = Inr n1" "srv_inv n1" by blast
    note only = send_only [OF Cons.prems(1,2) room n1(1)]
    have "\<exists>n'. r_fold (user_run c) xs n1 = Inr n' \<and> srv_inv n' \<and> conn_only c n1 n'"
      by (rule Cons.IH [OF n1(2)])
        (use Cons.prems USend only in \<open>auto simp: conn_only_def sends_def disconnects_def\<close>)
    with USend n1(1) only(1) conn_only_trans show ?thesis by fastforce
  next
    case UDisconnect
    with Cons.prems(4) have st: "tc_state (conn_at c n) = CsConnected" and none: "disconnects xs = 0"
      by (auto simp: disconnects_def split: if_splits)
    from srv_disconnect [OF Cons.prems(1,2) st] obtain n1 where n1: "tc_disconnect c n = Inr n1" "srv_inv n1" by blast
    note only = disconnect_only [OF Cons.prems(1,2) st n1(1)]
    have "\<exists>n'. r_fold (user_run c) xs n1 = Inr n' \<and> srv_inv n' \<and> conn_only c n1 n'"
      by (rule Cons.IH [OF n1(2)])
        (use Cons.prems UDisconnect only none in \<open>auto simp: conn_only_def sends_def disconnects_def used_def\<close>)
    with UDisconnect n1(1) only(1) conn_only_trans show ?thesis by fastforce
  qed
qed simp


section \<open>The callbacks of a connection\<close>

text \<open>What is assumed of one turn: the kernel reports a hang-up without readable data alone (a TCP socket
  that hung up is readable, so a hang-up comes with \<open>EPOLLIN\<close> or after reading was switched off); the
  buffers have room for what arrives and for what the user sends; and the user's callback disconnects
  at most once.\<close>

definition report_ok :: "32 word \<Rightarrow> bool" where
  "report_ok re \<longleftrightarrow> (re AND EPOLLHUP \<noteq> 0 \<and> re AND EPOLLIN = 0 \<longrightarrow> re AND (EPOLLIN OR EPOLLPRI OR EPOLLRDHUP) = 0)"

definition room :: "turn_in \<Rightarrow> nat \<Rightarrow> 'a net_scheme \<Rightarrow> bool" where
  "room i c n \<longleftrightarrow> (case t_recv i c of
     Got b \<Rightarrow> length (stored c n) + length b < 2 ^ 31 \<and> used c n + sends (t_react i c b) < 2 ^ 31 \<and>
              disconnects (t_react i c b) \<le> 1
   | _ \<Rightarrow> True)"

lemma conn_of_event:
  assumes "srv_inv n" "c < length (conns n)"
  shows "conn_of (tc_event (conn_at c n)) n = Some c"
proof -
  have inj: "\<forall>c < length (conns n). \<forall>d < length (conns n). tc_event (conn_at c n) = tc_event (conn_at d n) \<longrightarrow> c = d"
    using assms(1) unfolding srv_inv_def by blast
  have "tc_event (conn_at d n) \<noteq> tc_event (conn_at c n)" if "d < c" for d
    using inj [rule_format, OF assms(2), of d] that assms(2) by auto
  then show ?thesis using assms(2) unfolding conn_of_def find_Some_iff by (intro exI [of _ c]) simp
qed

lemma conn_read_safe:
  fixes n :: "'a net_scheme"
  assumes inv: "srv_inv n" and c: "c < length (conns n)" and st: "tc_state (conn_at c n) = CsConnected" and room: "room i c n"
  shows "\<exists>n'. conn_cb i CbRead c n = Inr n' \<and> srv_inv n' \<and> conn_only c n n'"
proof (cases "t_recv i c")
  case (Got b)
  with room have r: "length (stored c n) + length b < 2 ^ 31" "used c n + sends (t_react i c b) < 2 ^ 31"
    "disconnects (t_react i c b) \<le> 1" by (simp_all add: room_def)
  from read_then_user [OF conn_okD(2) [OF inv c] r(1), where oc = server_removeConnection and react = "t_react i"]
  obtain n0 :: "'a net_scheme" where n0: "tc_handleRead server_removeConnection (Got b) c n = Inr n0" "conn_only c n n0"
    "tc_handleRead_with (user_receive (t_react i)) server_removeConnection (Got b) c n = r_fold (user_run c) (t_react i c b) n0"
    "tc_state (conn_at c n0) = tc_state (conn_at c n)" "write_buffer (conn_at c n0) = write_buffer (conn_at c n)" by blast
  have "watched c n" using c conn_okD(3) [OF inv c st] by (simp add: watched_def)
  with srv_read [OF inv, of c "Got b"] r(1) n0(1) have inv0: "srv_inv n0" by simp
  have "\<exists>n'. r_fold (user_run c) (t_react i c b) n0 = Inr n' \<and> srv_inv n' \<and> conn_only c n0 n'"
    by (rule user_acts_safe [OF inv0]) (use n0(2,4,5) c r st in \<open>auto simp: conn_only_def used_def\<close>)
  with n0(2,3) Got conn_only_trans show ?thesis by (fastforce simp: conn_cb_def)
next
  case EndOfStream
  from srv_close [OF inv c st] obtain n' where "tc_handleClose server_removeConnection c n = Inr n'" "srv_inv n'" by blast
  with close_only(1) [OF inv c st this(1)] EndOfStream show ?thesis by (simp add: conn_cb_def tc_handleRead_with_def)
next
  case Failed
  with inv show ?thesis by (simp add: conn_cb_def tc_handleRead_with_def)
qed

text \<open>The callbacks of one report, in the order of \<open>handleLockEvent\<close>: closing, then reading if the connection
  was not closed, then writing.\<close>

definition conn_steps :: "turn_in \<Rightarrow> nat \<Rightarrow> 'a net_scheme \<Rightarrow> 'a net_scheme \<Rightarrow> bool" where
  "conn_steps i c n n' \<longleftrightarrow> (\<exists>n1 n2.
     (n1 = n \<or> tc_handleClose server_removeConnection c n = Inr n1) \<and>
     (n2 = n1 \<or> n1 = n \<and> conn_cb i CbRead c n = Inr n2) \<and>
     (n' = n2 \<or> srv_inv n2 \<and> conn_only c n n2 \<and> tc_handleWrite (t_sent i c) c n2 = Inr n'))"

lemma conn_dispatch_steps:
  assumes inv: "srv_inv a" and c: "c < length (conns a)" and st: "tc_state (conn_at c a) = CsConnected"
    and room: "room i c a" and e: "e = tc_event (conn_at c a)" "ac_event a \<noteq> Some e"
    and ev: "\<not> ev_oneshot (ev_at e a)" "report_ok (ev_revents (ev_at e a))"
  shows "\<exists>a'. handleEvent (server_cb name i) e a = Inr a' \<and> srv_inv a' \<and> conn_only c a a' \<and> conn_steps i c a a' \<and>
    (cb_due CbWrite (ev_at e a) \<and> \<not> ev_locked (ev_at e a) \<longrightarrow>
       (\<exists>a2. conn_steps i c a a2 \<and> srv_inv a2 \<and> conn_only c a a2 \<and> tc_handleWrite (t_sent i c) c a2 = Inr a' \<and>
         (\<not> cb_due CbClose (ev_at e a) \<and> \<not> cb_due CbRead (ev_at e a) \<longrightarrow> a2 = a)))"
proof (cases "ev_locked (ev_at e a)")
  case False
  let ?ev = "ev_at e a"
  have cb: "server_cb name i x e n = conn_cb i x c n" if "srv_inv n" "conn_only c a n" for x n
  proof -
    from that(2) have "ac_event n = ac_event a" "conn_of e n = Some c"
      using conn_of_event [OF that(1), of c] c e(1) more_acceptor_net(2) [of n a] by (auto simp: conn_only_def)
    then show ?thesis using e(2) by (simp add: server_cb_def)
  qed
  have flags: "ev_flags (ev_at e n) = ev_flags ?ev" if "conn_only c a n" for n
    using that e(1) by (simp add: conn_only_def)
  have due: "cb_due x (ev_at e n) = cb_due x ?ev" if "conn_only c a n" for x n
    using flags [OF that] by (cases x) (simp_all add: ev_flags_def cb_due_def)
  have len: "c < length (conns n)" if "conn_only c a n" for n using conn_only_len [OF that] c by simp
  obtain a1 where a1: "(if cb_due CbClose ?ev then server_cb name i CbClose e a else Inr a) = Inr a1" "srv_inv a1" "conn_only c a a1"
    "\<not> cb_due CbClose ?ev \<longrightarrow> a1 = a" "a1 = a \<or> tc_handleClose server_removeConnection c a = Inr a1"
  proof (cases "cb_due CbClose ?ev")
    case True
    from srv_close [OF inv c st] obtain n' where n': "tc_handleClose server_removeConnection c a = Inr n'" "srv_inv n'" by blast
    with True close_only(1) [OF inv c st n'(1)] that [of n'] cb [OF inv] show ?thesis by (simp add: conn_cb_def)
  qed (use that inv in simp)
  have error: "server_cb name i CbError e a1 = Inr a1" using cb [OF a1(2,3)] by (simp add: conn_cb_def)
  obtain a2 where a2: "(if cb_due CbRead ?ev then server_cb name i CbRead e a1 else Inr a1) = Inr a2" "srv_inv a2" "conn_only c a a2"
    "a2 = a1 \<or> a1 = a \<and> conn_cb i CbRead c a = Inr a2" "\<not> cb_due CbRead ?ev \<longrightarrow> a2 = a1"
  proof (cases "cb_due CbRead ?ev")
    case True
    with ev(2) have "\<not> cb_due CbClose ?ev" by (auto simp: cb_due_def report_ok_def)
    with a1(4) have "a1 = a" by simp
    with conn_read_safe [OF inv c st room] True cb [OF inv] that show ?thesis by auto
  qed (use that a1 in simp)
  obtain a3 where a3: "(if cb_due CbWrite ?ev then server_cb name i CbWrite e a2 else Inr a2) = Inr a3" "srv_inv a3" "conn_only c a a3"
    "a3 = a2 \<or> tc_handleWrite (t_sent i c) c a2 = Inr a3" "cb_due CbWrite ?ev \<longrightarrow> tc_handleWrite (t_sent i c) c a2 = Inr a3"
  proof (cases "cb_due CbWrite ?ev")
    case True
    from srv_writable [OF a2(2) len [OF a2(3)], of "t_sent i c"] obtain n' where
      n': "tc_handleWrite (t_sent i c) c a2 = Inr n'" "srv_inv n'" by blast
    with True write_only(1) [OF a2(2) len [OF a2(3)] n'(1)] conn_only_trans [OF a2(3)] that [of n'] cb [OF a2(2,3)]
    show ?thesis by (simp add: conn_cb_def)
  qed (use that a2 in simp)
  have "\<not> ev_oneshot (ev_at e a3)" using ev(1) flags [OF a3(3)] by (simp add: ev_flags_def)
  then have "handleEvent (server_cb name i) e a = Inr a3"
    using a1(1) a2(1) a3(1) error False due [OF a1(3)] due [OF a2(3)] by (simp add: handleEvent_def handleLockEvent_def)
  moreover have "conn_steps i c a a3" "conn_steps i c a a2" using a1(5) a2(2-4) a3(4) unfolding conn_steps_def by blast+
  ultimately show ?thesis using a1(4) a2(2,3,5) a3(2,3,5) by blast
qed (use inv in \<open>auto simp: handleEvent_def conn_steps_def\<close>)

lemma conn_dispatch_safe:
  assumes "srv_inv a" "c < length (conns a)" "tc_state (conn_at c a) = CsConnected" "room i c a" "e = tc_event (conn_at c a)"
    "ac_event a \<noteq> Some e" "\<not> ev_oneshot (ev_at e a)" "report_ok (ev_revents (ev_at e a))"
  shows "\<exists>a'. handleEvent (server_cb name i) e a = Inr a' \<and> srv_inv a' \<and> conn_only c a a'"
  using conn_dispatch_steps [OF assms, of name] by blast


section \<open>Accepting\<close>

text \<open>A state with one more connection, whose event is the newest object.\<close>

definition one_more :: "'a net_scheme \<Rightarrow> 'a net_scheme \<Rightarrow> bool" where
  "one_more n n' \<longleftrightarrow> length (objs n') = Suc (length (objs n)) \<and> length (conns n') = Suc (length (conns n)) \<and>
     tc_event (conn_at (length (conns n)) n') = length (objs n) \<and> (\<forall>d < length (conns n). conn_at d n' = conn_at d n) \<and>
     (\<forall>e < length (objs n). ev_at e n' = ev_at e n) \<and> \<not> ev_oneshot (ev_at (length (objs n)) n') \<and>
     net.more n' = net.more n \<and> buf_size n' = buf_size n"

lemma accept_one_more:
  assumes q: "server_newConnection name s n = Inr n'"
  shows "one_more n n'"
proof -
  let ?c = "length (conns n)" and ?e = "length (objs n)"
  define m where "m = (TcpConnection_new s (name (connId n)) n)
      \<lparr>connections := (connections n)(name (connId n) \<mapsto> ?c)\<rparr>"
  define m2 where "m2 = set_state ?c CsConnected m"
  note frame = TcpConnection_new_frame [where s = s and name = "name (connId n)" and n = n]
  have m: "conn_at ?c m = \<lparr>tc_state = CsConnecting, tc_socket = s, tc_name = name (connId n), tc_event = ?e,
      read_buffer = ByteBuf_new, write_buffer = ByteBuf_new\<rparr>"
    "server_newConnection name s n = tc_connectFinished ?c m"
    by (simp_all add: conn_at_def m_def frame server_newConnection_def Let_def)
  with q obtain q1 where q1: "enableReading ?e m2 = Inr q1" and n': "n' = q1\<lparr>user_log := user_log q1 @ [UConnected ?c]\<rparr>"
    by (auto simp: tc_connectFinished_def m2_def r_bind_eq_Inr)
  have objs: "objs m2 = objs n @ [ev_at ?e m2]"
    by (simp add: m2_def m_def set_state_def TcpConnection_new_def Let_def EpollFdEvent_init_def EpollFdEvent_new_def
        upd_ev_def ev_at_def)
  have m2: "?e < length (objs m2)" "ev_index (ev_at ?e m2) = kNew" "\<not> ev_oneshot (ev_at ?e m2)"
    "length (conns m2) = Suc ?c" "tc_event (conns m2 ! ?c) = ?e" "\<forall>d < ?c. conns m2 ! d = conns n ! d"
    "net.more m2 = net.more n" "buf_size m2 = buf_size n"
    using frame objs
    by (simp_all add: m2_def m_def set_state_def upd_conn_def ev_at_def nth_append)
      (simp_all add: TcpConnection_new_def Let_def EpollFdEvent_init_def EpollFdEvent_new_def upd_ev_def ev_at_def)
  note only = enableReading_first [OF m2(1,2) q1]
  have "ev_at d q1 = ev_at d n" if "d < ?e" for d
    using only(1) that arg_cong [OF objs, of "\<lambda>x. x ! d"] by (simp add: ev_at_def nth_append)
  moreover have "\<not> ev_oneshot (ev_at ?e q1)" using only(2) m2(3) by (simp add: ev_flags_def)
  moreover have "length (objs q1) = Suc ?e" using only(3) arg_cong [OF objs, of length] by simp
  moreover have "conns q1 = conns m2" "net.more q1 = net.more n" "buf_size q1 = buf_size n"
    using more_net(1) [OF only(4)] more_net_more [OF only(4)] only(5) m2(7,8) by simp_all
  ultimately show ?thesis using m2(4-6) unfolding one_more_def n' by (simp add: conn_at_def ev_at_def)
qed

end
