(* ===== verification/ServerLoopSafe.thy ===== *)
theory ServerLoopSafe
  imports ServerFrame
begin

text \<open>
  The properties of the composed server: \<open>app_inv\<close>, the invariant between two turns of the loop;
  \<open>reports_ok\<close>, what the kernel and the user may do in a turn; that a turn then succeeds and keeps the
  invariant when a descriptor that is accepted is not registered; and two inputs that end the program.
  Here connections are never destroyed; \<open>ServerLife\<close> adds the lifetimes.
\<close>

section \<open>The invariant and the outside\<close>

definition listening :: "acceptor \<Rightarrow> bool" where
  "listening a \<longleftrightarrow> (case (ac_event a, ac_sock a) of
     (Some e, Some s) \<Rightarrow> e < length (objs a) \<and> ev_index (ev_at e a) = kAdded \<and> isReading (ev_at e a) \<and>
       (\<forall>c < length (conns a). tc_event (conn_at c a) \<noteq> e)
   | _ \<Rightarrow> False)"

definition app_inv :: "acceptor \<Rightarrow> bool" where
  "app_inv a \<longleftrightarrow> srv_inv a \<and> listening a \<and> 0 < buf_size a \<and>
     (\<forall>e < length (objs a). \<not> ev_oneshot (ev_at e a) \<and>
        (ac_event a = Some e \<or> (\<exists>c < length (conns a). tc_event (conn_at c a) = e)))"

text \<open>What is assumed of the outside in one turn, on the state in which the turn begins. The kernel reports
  each event at most once and only events in the interest list, each report is \<open>report_ok\<close>, and what is
  received has \<open>room\<close>. That a descriptor which is accepted is not registered when the events are dispatched is
  a premise of the lemmas here; \<open>ServerLife\<close> derives it from the descriptor not being open.\<close>

definition reports_ok :: "turn_in \<Rightarrow> acceptor \<Rightarrow> bool" where
  "reports_ok i a \<longleftrightarrow>
     (case t_ready i of
        None \<Rightarrow> True
      | Some r \<Rightarrow> distinct (map fst r) \<and> length r \<le> buf_size a \<and>
          (\<forall>(e, re) \<in> set r. e < length (objs a) \<and> ev_index (ev_at e a) = kAdded \<and> report_ok re)) \<and>
     (\<forall>c < length (conns a). room i c a)"

lemma listeningE:
  assumes "listening a"
  obtains e s where "ac_event a = Some e" "ac_sock a = Some s" "e < length (objs a)" "ev_index (ev_at e a) = kAdded"
    "isReading (ev_at e a)" "\<forall>c < length (conns a). tc_event (conn_at c a) \<noteq> e"
  using assms by (auto simp: listening_def split: option.splits)

lemma app_inv_conn_only:
  assumes inv: "app_inv a" and only: "conn_only c a a'" and c: "c < length (conns a)" and srv: "srv_inv a'"
  shows "app_inv a'"
proof -
  from inv obtain e s where l: "ac_event a = Some e" "ac_sock a = Some s" "e < length (objs a)" "ev_index (ev_at e a) = kAdded"
    "isReading (ev_at e a)" "\<forall>c < length (conns a). tc_event (conn_at c a) \<noteq> e"
    by (auto simp: app_inv_def elim: listeningE)
  note len = conn_only_len [OF only]
  have more: "ac_event a' = ac_event a" "ac_sock a' = ac_sock a" "buf_size a' = buf_size a"
    using only more_acceptor_net [of a' a] by (simp_all add: conn_only_def)
  have ev: "tc_event (conn_at d a') = tc_event (conn_at d a)" for d using only by (cases "d = c") (simp_all add: conn_only_def)
  have "ev_at e a' = ev_at e a" using only l(6) c by (auto simp: conn_only_def)
  with l len more ev have "listening a'" by (simp add: listening_def)
  moreover have "\<not> ev_oneshot (ev_at d a')" if "d < length (objs a)" for d
  proof (cases "d = tc_event (conn_at c a)")
    case True
    with only inv that show ?thesis by (simp add: conn_only_def ev_flags_def app_inv_def)
  next
    case False
    with only have "ev_at d a' = ev_at d a" by (simp add: conn_only_def)
    with inv that show ?thesis by (simp add: app_inv_def)
  qed
  ultimately show ?thesis using inv srv len more ev unfolding app_inv_def by simp
qed

lemma app_inv_one_more:
  assumes inv: "app_inv a" and more: "one_more a a'" and srv: "srv_inv a'"
  shows "app_inv a'"
proof -
  from inv obtain e s where l: "ac_event a = Some e" "ac_sock a = Some s" "e < length (objs a)" "ev_index (ev_at e a) = kAdded"
    "isReading (ev_at e a)" "\<forall>c < length (conns a). tc_event (conn_at c a) \<noteq> e"
    by (auto simp: app_inv_def elim: listeningE)
  have m: "length (objs a') = Suc (length (objs a))" "length (conns a') = Suc (length (conns a))"
    "tc_event (conn_at (length (conns a)) a') = length (objs a)" "\<forall>d < length (conns a). conn_at d a' = conn_at d a"
    "\<forall>e < length (objs a). ev_at e a' = ev_at e a" "\<not> ev_oneshot (ev_at (length (objs a)) a')"
    using more by (simp_all add: one_more_def)
  have acc: "ac_event a' = ac_event a" "ac_sock a' = ac_sock a" "buf_size a' = buf_size a"
    using more more_acceptor_net [of a' a] by (simp_all add: one_more_def)
  have "listening a'" using l m acc by (auto simp: listening_def less_Suc_eq)
  moreover have "\<not> ev_oneshot (ev_at d a') \<and> (ac_event a' = Some d \<or> (\<exists>c < length (conns a'). tc_event (conn_at c a') = d))"
    if "d < length (objs a')" for d
  proof (cases "d = length (objs a)")
    case True
    with m show ?thesis by (intro conjI disjI2 exI [of _ "length (conns a)"]) simp_all
  next
    case False
    with that m(1) have d: "d < length (objs a)" by simp
    with inv have "\<not> ev_oneshot (ev_at d a)" "ac_event a = Some d \<or> (\<exists>c < length (conns a). tc_event (conn_at c a) = d)"
      by (auto simp: app_inv_def)
    with d m acc show ?thesis by (metis less_SucI)
  qed
  moreover have "0 < buf_size a'" using inv acc(3) by (simp add: app_inv_def)
  ultimately show ?thesis using srv unfolding app_inv_def by blast
qed


section \<open>Dispatching\<close>

definition due_ok :: "turn_in \<Rightarrow> nat \<Rightarrow> acceptor \<Rightarrow> bool" where
  "due_ok i e a \<longleftrightarrow> e < length (objs a) \<and> report_ok (ev_revents (ev_at e a)) \<and>
     (ac_event a = Some e \<or>
      (\<exists>c < length (conns a). tc_event (conn_at c a) = e \<and> tc_state (conn_at c a) = CsConnected \<and> room i c a))"

lemma room_cong: "conn_at c n' = conn_at c n \<Longrightarrow> room i c n' = room i c n"
  by (simp add: room_def stored_def used_def split: recv.split)

lemma due_ok_conn_only:
  assumes d: "due_ok i d a" and only: "conn_only c a a1" and ne: "d \<noteq> tc_event (conn_at c a)" and acc: "ac_event a1 = ac_event a"
  shows "due_ok i d a1"
proof -
  have ev: "ev_at d a1 = ev_at d a" using only ne by (simp add: conn_only_def)
  have other: "conn_at b a1 = conn_at b a" if "tc_event (conn_at b a) = d" for b
    using that ne only by (auto simp: conn_only_def)
  show ?thesis using d ev other room_cong conn_only_len [OF only] acc unfolding due_ok_def by metis
qed

lemma accepted_fd: "Socket_accept so loc peer ret ls = Some s \<Longrightarrow> getFd s = ret"
  by (auto simp: Socket_accept_def Socket_init_def Let_def getFd_def getPeerAddress_def getLocalAddress_def
      Socket_new_def split: option.splits if_splits)

lemma accept_dispatch:
  assumes inv: "app_inv a" and e: "ac_event a = Some e" and free: "0 < t_accept i \<Longrightarrow> fdEventMaps a (t_accept i) = None"
  shows "\<exists>a'. handleEvent (server_cb name i) e a = Inr a' \<and> srv_inv a' \<and>
    (if cb_due CbRead (ev_at e a) \<and> \<not> ev_locked (ev_at e a) \<and> 0 < t_accept i
     then \<exists>s. getFd s = t_accept i \<and> isConnected s \<and> server_newConnection name s a = Inr a' else a' = a)"
proof (cases "ev_locked (ev_at e a)")
  case False
  have srv: "srv_inv a" and el: "e < length (objs a)" and ev: "\<not> ev_oneshot (ev_at e a)"
    using inv e by (auto simp: app_inv_def elim: listeningE)
  from inv obtain ls where ls: "ac_sock a = Some ls" by (auto simp: app_inv_def elim: listeningE)
  have other: "server_cb name i x e n = Inr n" if "x \<noteq> CbRead" "ac_event n = Some e" for x n
    using that by (simp add: server_cb_def)
  have "\<exists>a'. server_cb name i CbRead e a = Inr a' \<and> srv_inv a' \<and>
      (if 0 < t_accept i then \<exists>s. getFd s = t_accept i \<and> isConnected s \<and> server_newConnection name s a = Inr a' else a' = a)"
  proof (cases "Socket_accept (t_opt i) (t_local i) (t_peer i) (t_accept i) ls")
    case None
    with srv e ls show ?thesis by (simp add: server_cb_def Acceptor_handleRead_def Socket_accept_def split: if_splits)
  next
    case (Some s)
    then have s: "getFd s = t_accept i" "isConnected s"
      using accepted_fd by (auto simp: Socket_accept_def isConnected_def split: if_splits)
    show ?thesis
    proof (cases "0 < t_accept i")
      case True
      from srv_accept [OF srv, of s name] free [OF True] s obtain a' where
        "server_newConnection name s a = Inr a'" "srv_inv a'" by auto
      with True Some e ls srv s show ?thesis by (auto simp: server_cb_def Acceptor_handleRead_def)
    qed (use Some e ls srv s in \<open>simp add: server_cb_def Acceptor_handleRead_def\<close>)
  qed
  then obtain a2 where a2: "server_cb name i CbRead e a = Inr a2" "srv_inv a2"
    "if 0 < t_accept i then \<exists>s. getFd s = t_accept i \<and> isConnected s \<and> server_newConnection name s a = Inr a2 else a2 = a" by blast
  from a2(3) have "a2 = a \<or> one_more a a2" using accept_one_more by (auto split: if_splits)
  then have at: "ev_at e a2 = ev_at e a" "ac_event a2 = Some e"
    using el e more_acceptor_net(2) [of a2 a] by (auto simp: one_more_def)
  show ?thesis
  proof (cases "cb_due CbRead (ev_at e a)")
    case True
    then have "handleEvent (server_cb name i) e a = Inr a2"
      using False ev a2(1) at e other by (simp add: handleEvent_def handleLockEvent_def)
    with a2(2,3) True False show ?thesis by simp
  next
    case False': False
    then have "handleEvent (server_cb name i) e a = Inr a"
      using False ev e other by (simp add: handleEvent_def handleLockEvent_def)
    with srv False' show ?thesis by simp
  qed
qed (use inv in \<open>simp add: handleEvent_def app_inv_def\<close>)

text \<open>Dispatching the reported events keeps the invariant, and with it every property that is kept by the
  callbacks of one connection and by an accepted connection.\<close>

lemma dispatch_run:
  assumes "app_inv a" "distinct es" "\<forall>e \<in> set es. due_ok i e a" "fdEventMaps a (t_accept i) = None \<or> (\<forall>e \<in> set es. ac_event a \<noteq> Some e)" "P a"
    and conn: "\<And>a c a1. P a \<Longrightarrow> srv_inv a \<Longrightarrow> c < length (conns a) \<Longrightarrow> tc_state (conn_at c a) = CsConnected \<Longrightarrow>
      room i c a \<Longrightarrow> srv_inv a1 \<Longrightarrow> conn_only c a a1 \<Longrightarrow> conn_steps i c a a1 \<Longrightarrow> P a1"
    and accept: "\<And>a s a1. P a \<Longrightarrow> srv_inv a \<Longrightarrow> fdEventMaps a (getFd s) = None \<Longrightarrow> isConnected s \<Longrightarrow>
      server_newConnection name s a = Inr a1 \<Longrightarrow> P a1"
  shows "\<exists>a'. r_fold (handleEvent (server_cb name i)) es a = Inr a' \<and> app_inv a' \<and> P a'"
  using assms(1-5)
proof (induction es arbitrary: a)
  case (Cons e es)
  have e: "due_ok i e a" "e \<notin> set es" and rest: "\<forall>d \<in> set es. due_ok i d a" using Cons.prems by auto
  have srv: "srv_inv a" using Cons.prems(1) by (simp add: app_inv_def)
  show ?case
  proof (cases "ac_event a = Some e")
    case True
    with Cons.prems(4) have free: "fdEventMaps a (t_accept i) = None" by auto
    from accept_dispatch [OF Cons.prems(1) True, of i name] free obtain a1 where
      a1: "handleEvent (server_cb name i) e a = Inr a1" "srv_inv a1" "a1 = a \<or>
        (\<exists>s. getFd s = t_accept i \<and> isConnected s \<and> server_newConnection name s a = Inr a1)" by (auto split: if_splits)
    then have P1: "P a1" using accept [OF Cons.prems(5) srv] Cons.prems(5) free by metis
    from a1(3) accept_one_more have more: "a1 = a \<or> one_more a a1" by blast
    have acc: "ac_event a1 = Some e" using more True more_acceptor_net(2) [of a1 a] by (auto simp: one_more_def)
    have "due_ok i d a1" if "d \<in> set es" for d
      using more
    proof
      assume m: "one_more a a1"
      from rest that have d: "due_ok i d a" by simp
      have "d \<noteq> e" using that e(2) by blast
      with d True obtain c where c: "c < length (conns a)" "tc_event (conn_at c a) = d" "tc_state (conn_at c a) = CsConnected" "room i c a"
        by (auto simp: due_ok_def)
      have "conn_at c a1 = conn_at c a" "ev_at d a1 = ev_at d a" "length (objs a1) = Suc (length (objs a))" "length (conns a1) = Suc (length (conns a))"
        using m c(1) d by (simp_all add: one_more_def due_ok_def)
      with c d room_cong [of c a1 a i] show ?thesis unfolding due_ok_def by (metis less_SucI)
    qed (use rest that in simp)
    moreover have "app_inv a1" using a1(2) more Cons.prems(1) app_inv_one_more by blast
    ultimately have "\<exists>a'. r_fold (handleEvent (server_cb name i)) es a1 = Inr a' \<and> app_inv a' \<and> P a'"
      using Cons.prems(2) acc e(2) P1 by (intro Cons.IH) auto
    with a1(1) show ?thesis by simp
  next
    case False
    with e(1) obtain c where c: "c < length (conns a)" "e = tc_event (conn_at c a)" "tc_state (conn_at c a) = CsConnected" "room i c a"
      and el: "e < length (objs a)" "report_ok (ev_revents (ev_at e a))" by (auto simp: due_ok_def)
    have "\<not> ev_oneshot (ev_at e a)" using Cons.prems(1) el(1) by (simp add: app_inv_def)
    from conn_dispatch_steps [OF srv c(1,3,4,2) False this el(2), of name] obtain a1 where
      a1: "handleEvent (server_cb name i) e a = Inr a1" "srv_inv a1" "conn_only c a a1" "conn_steps i c a a1" by blast
    have P1: "P a1" by (rule conn [OF Cons.prems(5) srv c(1,3,4) a1(2-4)])
    have acc: "ac_event a1 = ac_event a" using a1(3) more_acceptor_net(2) [of a1 a] by (simp add: conn_only_def)
    have "due_ok i d a1" if d: "d \<in> set es" for d
      by (rule due_ok_conn_only [OF _ a1(3) _ acc]) (use rest d e(2) c(2) in auto)
    moreover have "fdEventMaps a1 (t_accept i) = None \<or> (\<forall>d \<in> set es. ac_event a1 \<noteq> Some d)"
      using Cons.prems(4) a1(3) acc by (auto simp: conn_only_def)
    moreover have "app_inv a1" by (rule app_inv_conn_only [OF Cons.prems(1) a1(3) c(1) a1(2)])
    ultimately have "\<exists>a'. r_fold (handleEvent (server_cb name i)) es a1 = Inr a' \<and> app_inv a' \<and> P a'"
      using Cons.prems(2) P1 by (intro Cons.IH) auto
    with a1(1) show ?thesis by simp
  qed
qed simp

lemma dispatch_safe:
  assumes "app_inv a" "distinct es" "\<forall>e \<in> set es. due_ok i e a" "fdEventMaps a (t_accept i) = None \<or> (\<forall>e \<in> set es. ac_event a \<noteq> Some e)"
  shows "\<exists>a'. r_fold (handleEvent (server_cb name i)) es a = Inr a' \<and> app_inv a'"
  using dispatch_run [OF assms, of "\<lambda>_. True" name] by simp


section \<open>Polling and the task\<close>

lemma srv_inv_cong:
  fixes n m :: "'a net_scheme"
  assumes inv: "srv_inv n" and same: "conns m = conns n" "loop_tasks m = loop_tasks n" "length (objs m) = length (objs n)"
      "fdEventMaps m = fdEventMaps n" "ctl_log m = ctl_log n"
    and ev: "\<And>e. e < length (objs n) \<Longrightarrow> ev_fd (ev_at e m) = ev_fd (ev_at e n) \<and> ev_index (ev_at e m) = ev_index (ev_at e n) \<and>
      ev_events (ev_at e m) = ev_events (ev_at e n)"
  shows "srv_inv m"
proof -
  have "poller_inv n" using inv by (simp add: srv_inv_def)
  then have "poller_inv m" by (rule poller_inv_cong) (use same ev in auto)
  moreover have "conn_ok m c" if c: "c < length (conns n)" for c
  proof -
    have at: "conn_at c m = conn_at c n" using same(1) by (simp add: conn_at_def)
    have "conn_ok n c" using inv c by (simp add: srv_inv_def)
    then show ?thesis
      using same ev [of "tc_event (conn_at c n)"] conn_okD(1) [OF inv c] at
      by (cases "tc_state (conn_at c n)") (simp_all add: conn_ok_def Let_def read_ready_def isReading_def)
  qed
  moreover have "conn_at c m = conn_at c n" for c using same(1) by (simp add: conn_at_def)
  ultimately show ?thesis using inv same(1,2) unfolding srv_inv_def by simp
qed

text \<open>What polling leaves alone.\<close>

definition polled :: "turn_in \<Rightarrow> acceptor \<Rightarrow> acceptor \<Rightarrow> bool" where
  "polled i a a1 \<longleftrightarrow> fdEventMaps a1 = fdEventMaps a \<and> conns a1 = conns a \<and> connections a1 = connections a \<and>
     loop_tasks a1 = loop_tasks a \<and> ac_event a1 = ac_event a \<and> ac_sock a1 = ac_sock a \<and> connId a1 = connId a \<and>
     length (objs a1) = length (objs a) \<and> (\<forall>e. ev_fd (ev_at e a1) = ev_fd (ev_at e a) \<and>
       ev_reader (ev_at e a1) = ev_reader (ev_at e a) \<and> ev_locked (ev_at e a1) = ev_locked (ev_at e a)) \<and>
     activeEvents a1 = (case t_ready i of None \<Rightarrow> [] | Some r \<Rightarrow> map fst r) \<and>
     (\<forall>(e, re) \<in> set (case t_ready i of None \<Rightarrow> [] | Some r \<Rightarrow> r). ev_revents (ev_at e a1) = re)"

lemma poll_safe:
  assumes inv: "app_inv a" and ok: "reports_ok i a"
  obtains a1 where "Poller_poll (t_ready i) (a\<lparr>activeEvents := []\<rparr>) = Inr a1" "app_inv a1" "distinct (activeEvents a1)"
    "\<forall>e \<in> set (activeEvents a1). due_ok i e a1" "polled i a a1"
proof -
  define r where "r = (case t_ready i of None \<Rightarrow> [] | Some r \<Rightarrow> r)"
  have r: "distinct (map fst r)" "\<forall>(e, re) \<in> set r. e < length (objs a) \<and> ev_index (ev_at e a) = kAdded \<and> report_ok re"
      "length r \<le> buf_size a" and free: "\<forall>c < length (conns a). room i c a"
    using ok by (auto simp: reports_ok_def r_def split: option.splits)
  let ?a0 = "a\<lparr>activeEvents := []\<rparr>"
  have "\<forall>(e, re) \<in> set r. e < length (objs ?a0)" using r(2) by auto
  from fill_result [OF this r(1)] obtain q where
    q: "fold (\<lambda>(e, re) p. let p' = upd_ev e (\<lambda>ev. ev\<lparr>ev_revents := re\<rparr>) p
        in p'\<lparr>activeEvents := activeEvents p' @ [e]\<rparr>) r ?a0 = q"
      "length (objs q) = length (objs a)" "activeEvents q = map fst r" "fdEventMaps q = fdEventMaps a"
      "ctl_log q = ctl_log a" "buf_size q = buf_size a" "poller.more q = poller.more a"
      "\<forall>e re. (e, re) \<in> set r \<longrightarrow> ev_at e q = (ev_at e a)\<lparr>ev_revents := re\<rparr>"
      "\<forall>e. e \<notin> fst ` set r \<longrightarrow> ev_at e q = ev_at e a" by (auto simp: ev_at_def)
  have ev: "ev_fd (ev_at e q) = ev_fd (ev_at e a) \<and> ev_index (ev_at e q) = ev_index (ev_at e a) \<and>
      ev_events (ev_at e q) = ev_events (ev_at e a) \<and> ev_oneshot (ev_at e q) = ev_oneshot (ev_at e a) \<and>
      ev_reader (ev_at e q) = ev_reader (ev_at e a) \<and> ev_locked (ev_at e q) = ev_locked (ev_at e a)" for e
  proof (cases "e \<in> fst ` set r")
    case True
    then obtain re where "(e, re) \<in> set r" by auto
    with q(8) show ?thesis by simp
  qed (use q(9) in simp)
  note more = more_net [OF q(7)] more_acceptor_net [OF more_net_more [OF q(7)]]
  have at: "conn_at c q = conn_at c a" for c using more(1) by (simp add: conn_at_def)
  define a1 where "a1 = (if r \<noteq> [] \<and> length r = buf_size a then q\<lparr>buf_size := buf_size q * 2\<rparr> else q)"
  have a1: "objs a1 = objs q" "fdEventMaps a1 = fdEventMaps q" "ctl_log a1 = ctl_log q" "activeEvents a1 = activeEvents q"
    "conns a1 = conns q" "loop_tasks a1 = loop_tasks q" "ac_event a1 = ac_event q" "ac_sock a1 = ac_sock q"
    "connections a1 = connections q" "connId a1 = connId q" "0 < buf_size a1"
    using inv q(6) by (simp_all add: a1_def app_inv_def)
  have at1: "ev_at e a1 = ev_at e q" "conn_at c a1 = conn_at c a" for e c
    using a1 at by (simp_all add: ev_at_def conn_at_def)
  have "Poller_poll (t_ready i) ?a0 = Inr a1"
    using q(1,6) r(3) by (cases "t_ready i") (auto simp: Poller_poll_def fillActiveEvents_def a1_def r_def)
  moreover have "srv_inv a1"
    by (rule srv_inv_cong [of a]) (use inv a1 more q ev at1 in \<open>simp_all add: app_inv_def\<close>)
  then have inv1: "app_inv a1"
    using inv a1 more q(2) ev at1 by (auto simp: app_inv_def listening_def isReading_def split: option.splits)
  moreover have "distinct (activeEvents a1)" using a1(4) q(3) r(1) by simp
  moreover have "due_ok i e a1" if "e \<in> set (activeEvents a1)" for e
  proof -
    from that a1(4) q(3) obtain re where re: "(e, re) \<in> set r" by auto
    with r(2) have e: "e < length (objs a)" "ev_index (ev_at e a) = kAdded" "report_ok re" by auto
    have "ev_revents (ev_at e a1) = re" using q(8) re at1 by simp
    moreover have "ac_event a = Some e \<or>
        (\<exists>c < length (conns a). tc_event (conn_at c a) = e \<and> tc_state (conn_at c a) = CsConnected \<and> room i c a)"
    proof (cases "ac_event a = Some e")
      case False
      with inv e(1) obtain c where c: "c < length (conns a)" "tc_event (conn_at c a) = e" by (auto simp: app_inv_def)
      with e(2) inv watched_connected [of a c] free show ?thesis by (auto simp: watched_def app_inv_def)
    qed simp
    ultimately show ?thesis
      using e a1 more q(2) at1 room_cong [of _ a1 a i] by (auto simp: due_ok_def)
  qed
  moreover have "polled i a a1"
    using a1 q(2-4,8) more ev at1 by (cases "t_ready i") (auto simp: polled_def r_def)
  ultimately show ?thesis by (intro that [of a1]) simp_all
qed

lemma remove_active: "EpollFdEvent_remove e p = Inr q \<Longrightarrow> activeEvents q = activeEvents p"
  by (auto simp: EpollFdEvent_remove_def Poller_removeEvent_def Let_def setIndex_ev_def upd_ev_def Poller_update_def)

lemma task_only:
  fixes n :: "'a net_scheme"
  assumes inv: "srv_inv n" and q: "run_loop_task Inr n = Inr n'"
  shows "n' = n \<or> (activeEvents n' = activeEvents n \<and>
    (\<exists>c < length (conns n). tc_state (conn_at c n) = CsDisconnected \<and> tc_state (conn_at c n') = CsDisconnected \<and>
       conn_only c n n'))"
proof (cases "loop_tasks n")
  case Nil
  with q show ?thesis by (simp add: run_loop_task_def)
next
  case (Cons t ts)
  with inv obtain c where t: "t = TDisconnect c" "c < length (conns n)" by (auto simp: srv_inv_def)
  let ?m = "n\<lparr>loop_tasks := ts\<rparr>" and ?e = "tc_event (conn_at c n)"
  have waits: "TDisconnect c \<in> set (loop_tasks n)" using Cons t(1) by simp
  have st: "tc_state (conn_at c n) = CsDisconnected"
    using conn_okD(3,5,6) [OF inv t(2)] waits by (cases "tc_state (conn_at c n)") auto
  have m: "conn_at d ?m = conn_at d n" "ev_at d ?m = ev_at d n" "objs ?m = objs n" for d by (simp_all add: conn_at_def ev_at_def)
  have r: "EpollFdEvent_remove ?e ?m = Inr n'"
    using q Cons t(1) st m by (simp add: run_loop_task_def tc_disconnect_def)
  have minv: "poller_inv ?m" using inv poller_inv_more [of ?m n] by (simp add: srv_inv_def)
  have reg: "?e < length (objs ?m)" "ev_index (ev_at ?e ?m) \<noteq> kNew" "ev_events (ev_at ?e ?m) = kNoneEvent"
    using m conn_okD(1) [OF inv t(2)] conn_okD(4) [OF inv t(2) st] waits by auto
  have "conn_only c ?m n'" by (rule conn_only_remove [OF minv _ reg(1) _ _ r]) (use m reg in auto)
  then have "conn_only c n n'" using conn_only_log(3) conn_only_trans by blast
  moreover have "activeEvents n' = activeEvents n" using remove_active [OF r] by simp
  moreover have "poller.more n' = poller.more ?m" using event_remove_ok [OF minv reg] r by auto
  then have "tc_state (conn_at c n') = CsDisconnected" using more_net(1) [of n' ?m] st by (simp add: conn_at_def)
  ultimately show ?thesis using t(2) st by blast
qed


section \<open>A turn\<close>

lemma prefix_safe:
  assumes inv: "app_inv a" and ok: "reports_ok i a"
  obtains a1 a2 where "turn_prefix i a = Inr a2" "polled i a a1" "app_inv a1" "app_inv a2" "distinct (activeEvents a2)"
    "\<forall>e \<in> set (activeEvents a2). due_ok i e a2" "activeEvents a2 = activeEvents a1" "run_loop_task Inr a1 = Inr a2"
proof -
  from poll_safe [OF inv ok] obtain a1 where a1: "Poller_poll (t_ready i) (a\<lparr>activeEvents := []\<rparr>) = Inr a1" "app_inv a1"
    "distinct (activeEvents a1)" "\<forall>e \<in> set (activeEvents a1). due_ok i e a1" "polled i a a1" .
  have srv: "srv_inv a1" using a1(2) by (simp add: app_inv_def)
  from srv_task [OF srv] obtain a2 where a2: "run_loop_task Inr a1 = Inr a2" "srv_inv a2" by blast
  have "activeEvents a2 = activeEvents a1 \<and> app_inv a2 \<and> (\<forall>e \<in> set (activeEvents a1). due_ok i e a2)"
  proof (cases "a2 = a1")
    case True
    with a1 show ?thesis by simp
  next
    case False
    with task_only [OF srv a2(1)] obtain c where c: "activeEvents a2 = activeEvents a1" "c < length (conns a1)"
      "tc_state (conn_at c a1) = CsDisconnected" "conn_only c a1 a2" by blast
    have acc: "ac_event a2 = ac_event a1" using c(4) more_acceptor_net(2) [of a2 a1] by (simp add: conn_only_def)
    from a1(2) obtain ae where ae: "ac_event a1 = Some ae" "\<forall>c < length (conns a1). tc_event (conn_at c a1) \<noteq> ae"
      by (auto simp: app_inv_def elim: listeningE)
    have "due_ok i e a2" if "e \<in> set (activeEvents a1)" for e
    proof -
      from a1(4) that have d: "due_ok i e a1" by simp
      have ne: "e \<noteq> tc_event (conn_at c a1)"
      proof
        assume e: "e = tc_event (conn_at c a1)"
        with d ae c(2) obtain b where "b < length (conns a1)" "tc_event (conn_at b a1) = tc_event (conn_at c a1)"
          "tc_state (conn_at b a1) = CsConnected" by (auto simp: due_ok_def)
        with srv c(2,3) show False by (auto simp: srv_inv_def)
      qed
      then show ?thesis by (rule due_ok_conn_only [OF d c(4) _ acc])
    qed
    then show ?thesis using c(1) app_inv_conn_only [OF a1(2) c(4,2) a2(2)] by blast
  qed
  with a1 a2(1) show ?thesis by (intro that [of a2 a1]) (simp_all add: turn_prefix_def)
qed

lemma app_turn_safe:
  assumes inv: "app_inv a" and ok: "reports_ok i a"
    and free: "\<And>a2. turn_prefix i a = Inr a2 \<Longrightarrow> fdEventMaps a2 (t_accept i) = None"
  shows "\<exists>a'. app_turn name i a = Inr a' \<and> app_inv a'"
proof -
  from prefix_safe [OF inv ok] obtain a1 a2 where a2: "turn_prefix i a = Inr a2" "app_inv a2" "distinct (activeEvents a2)"
    "\<forall>e \<in> set (activeEvents a2). due_ok i e a2" by metis
  with free [OF a2(1)] dispatch_safe [of a2 "activeEvents a2" i name] show ?thesis by (simp add: app_turn_def)
qed

text \<open>A turn leaves the flag \<open>keepRunning_\<close> alone: the operations of the server change only its own part
  of the state.\<close>

interpretation lift: poller_projection "\<lambda>a. with_app a l" for l
  by unfold_locales (simp_all add: with_app_def)

lemma with_app_same [simp]: "with_app (app_of l) l = l"
  by (simp add: app_of_def with_app_def)

lemma with_app_with [simp]: "with_app a (with_app b l) = with_app a l"
  by (simp add: with_app_def)

lemma handleEvent_keeps:
  assumes "handleEvent (\<lambda>x e. on_app (server_cb name i x e)) e l = Inr l'"
  shows "keepRunning l' = keepRunning l"
proof -
  have "r_map (\<lambda>a. with_app a l) (handleEvent (server_cb name i) e (app_of l)) =
      handleEvent (\<lambda>x e. on_app (server_cb name i x e)) e (with_app (app_of l) l)"
    by (rule lift.view_handleEvent) (simp add: on_app_def r_map_def)
  with assms show ?thesis by (auto simp: r_map_eq_Inr)
qed

lemma server_turn_keeps:
  assumes "server_turn name i l = Inr l'"
  shows "keepRunning l' = keepRunning l"
proof -
  let ?l = "l\<lparr>activeEvents := []\<rparr>" and ?cb = "\<lambda>x e. on_app (server_cb name i x e)"
  from assms obtain l1 l2 where l1: "Poller_poll (t_ready i) ?l = Inr l1" and l2: "handleTaskFun (\<lambda>t. on_app (server_task t)) l1 = Inr l2"
    and l': "r_fold (\<lambda>e l. handleEvent ?cb e (l\<lparr>currentActiveEvent := Some e\<rparr>)) (activeEvents l2) l2 = Inr l'"
    by (auto simp: server_turn_def loop_turn_def r_bind_eq_Inr)
  have "keepRunning l1 = keepRunning l"
    using l1 lift.view_poll [of ?l "t_ready i" "app_of ?l"] unfolding with_app_same by (auto simp: r_map_eq_Inr)
  moreover have "keepRunning l2 = keepRunning l1"
    using l2 by (auto simp: handleTaskFun_def on_app_def r_bind_eq_Inr split: if_splits)
  moreover have "keepRunning k' = keepRunning k"
    if "r_fold (\<lambda>e l. handleEvent ?cb e (l\<lparr>currentActiveEvent := Some e\<rparr>)) es k = Inr k'" for es k k'
    using that by (induction es arbitrary: k) (auto simp: r_bind_eq_Inr dest!: handleEvent_keeps)
  ultimately show ?thesis using l' by simp
qed

section \<open>From the start\<close>

lemma started_state:
  assumes loop: "Loop_new me efd = Inr l0" and start: "TcpServer_start so fd bind_ret loc listen_ret (TcpServer_new l0) = Inr (True, l)"
  obtains s where "objs l = [\<lparr>ev_fd = getFd s, ev_added = True, ev_oneshot = False, ev_revents = 0, ev_index = kAdded,
      ev_events = kReadEvent, ev_locked = False, ev_reader = True, ev_writer = False, ev_closer = False, ev_catcher = False\<rparr>]"
    "fdEventMaps l = [getFd s \<mapsto> 0]" "ctl_log l = [(CtlAdd, getFd s, kReadEvent, 0)]" "s_conns l = []" "taskQueue l = []"
    "s_ac_event l = Some 0" "s_ac_sock l = Some s" "buf_size l = 256" "s_sent_log l = []" "s_user_log l = []"
proof -
  have a0: "app_of (TcpServer_new l0) = \<lparr>objs = [], fdEventMaps = (\<lambda>_. None), buf_size = 256, ctl_log = [], activeEvents = [],
      conns = [], loop_tasks = [], sent_log = [], user_log = [], connections = (\<lambda>_. None), connId = 1, ac_state = AcInited,
      ac_event = None, ac_sock = None, srv_started = False\<rparr>"
    using loop by (auto simp: Loop_new_def r_bind_eq_Inr Poller_new_def app_of_def TcpServer_new_def loop.defs server.defs)
  from start obtain a where a: "server_start so fd bind_ret loc listen_ret (app_of (TcpServer_new l0)) = Inr (True, a)" "l = with_app a (TcpServer_new l0)"
    by (auto simp: TcpServer_start_def r_bind_eq_Inr)
  have "\<exists>s. objs a = [\<lparr>ev_fd = getFd s, ev_added = True, ev_oneshot = False, ev_revents = 0, ev_index = kAdded,
      ev_events = kReadEvent, ev_locked = False, ev_reader = True, ev_writer = False, ev_closer = False, ev_catcher = False\<rparr>] \<and>
      fdEventMaps a = [getFd s \<mapsto> 0] \<and> ctl_log a = [(CtlAdd, getFd s, kReadEvent, 0)] \<and> conns a = [] \<and> loop_tasks a = [] \<and>
      ac_event a = Some 0 \<and> ac_sock a = Some s \<and> buf_size a = 256 \<and> sent_log a = [] \<and> user_log a = []"
    using a(1) unfolding a0
    by (auto simp: server_start_def Acceptor_start_def r_bind_eq_Inr Let_def poll_run split: if_splits prod.splits)
  then show ?thesis using that a(2) by (auto simp: with_app_def)
qed

lemma started:
  assumes loop: "Loop_new me efd = Inr l0" and start: "TcpServer_start so fd bind_ret loc listen_ret (TcpServer_new l0) = Inr (True, l)"
  shows "app_inv (app_of l)"
proof -
  from started_state [OF assms] obtain s where s: "objs l = [\<lparr>ev_fd = getFd s, ev_added = True, ev_oneshot = False,
      ev_revents = 0, ev_index = kAdded, ev_events = kReadEvent, ev_locked = False, ev_reader = True, ev_writer = False,
      ev_closer = False, ev_catcher = False\<rparr>]"
    "fdEventMaps l = [getFd s \<mapsto> 0]" "ctl_log l = [(CtlAdd, getFd s, kReadEvent, 0)]" "s_conns l = []" "taskQueue l = []"
    "s_ac_event l = Some 0" "s_ac_sock l = Some s" "buf_size l = 256" by metis
  then have "poller_inv (app_of l)" by (auto simp: app_of_def poller_inv_def interest_def ev_at_def split: if_splits)
  then show ?thesis
    using s by (simp add: app_of_def app_inv_def srv_inv_def listening_def ev_at_def isReading_def kReadEvent_def)
qed

section \<open>The loop\<close>

fun after_turns :: "(int \<Rightarrow> string) \<Rightarrow> (nat \<Rightarrow> turn_in) \<Rightarrow> nat \<Rightarrow> server \<Rightarrow> server result" where
  "after_turns name i 0 l = Inr l"
| "after_turns name i (Suc n) l = r_bind (after_turns name i n l) (server_turn name (i n))"

lemma loop_while_None:
  assumes inv: "\<And>n k. I n k \<Longrightarrow> \<exists>k'. loop_turn (cb n) (run n) (wait n) k = Inr k' \<and> keepRunning k' \<and> I (Suc n) k'"
    and start: "I n k"
  shows "loop_while cb run wait n k = None"
proof (rule ccontr)
  assume "loop_while cb run wait n k \<noteq> None"
  then obtain r where "loop_while cb run wait n k = Some r" by blast
  then have "cb = cb \<and> run = run \<and> wait = wait \<longrightarrow> \<not> I n k"
  proof (rule loop_while.raw_induct [where P = "\<lambda>cb' run' wait' n k r. cb' = cb \<and> run' = run \<and> wait' = wait \<longrightarrow> \<not> I n k", rotated])
    fix loop cb' run' wait' n k r
    assume hyp: "\<And>cb' run' wait' n k r. loop cb' run' wait' n k = Some r \<Longrightarrow> cb' = cb \<and> run' = run \<and> wait' = wait \<longrightarrow> \<not> I n k"
      and body: "(case loop_turn (cb' n) (run' n) (wait' n) k of Inl e \<Rightarrow> Some (Inl e)
        | Inr l' \<Rightarrow> if keepRunning l' then loop cb' run' wait' (Suc n) l' else Some (Inr l')) = Some r"
    show "cb' = cb \<and> run' = run \<and> wait' = wait \<longrightarrow> \<not> I n k"
    proof (intro impI notI)
      assume eq: "cb' = cb \<and> run' = run \<and> wait' = wait" and "I n k"
      from inv [OF this(2)] obtain k' where "loop_turn (cb n) (run n) (wait n) k = Inr k'" "keepRunning k'" "I (Suc n) k'" by blast
      with eq body hyp show False by auto
    qed
  qed
  with start show False by blast
qed

section \<open>Two inputs that end the program\<close>

text \<open>The task of a turn runs between the poll and the dispatch, and nothing takes the event of a
  connection that it disconnects out of \<open>activeEvents_\<close>. When a \<open>disconnect\<close> that the user queued runs in
  the turn in which the peer's close is reported, \<open>handleRead\<close> still runs, on a connection that is no
  longer connected, and the assertion of \<open>handleClose\<close> ends the program.\<close>
theorem queued_disconnect_races_with_close:
  assumes "app_inv a" "c < length (conns a)" "tc_state (conn_at c a) = CsConnected" "e = tc_event (conn_at c a)"
    "ev_reader (ev_at e a)" "\<not> ev_locked (ev_at e a)" "t_ready i = Some [(e, EPOLLIN)]" "t_recv i c = EndOfStream"
  shows "app_turn name i (a\<lparr>loop_tasks := [TDisconnect c]\<rparr>) = Inl AssertFailed"
proof -
  let ?a = "a\<lparr>loop_tasks := [TDisconnect c], activeEvents := []\<rparr>"
  have srv: "srv_inv a" using assms(1) by (simp add: app_inv_def)
  have e: "e < length (objs a)" using conn_okD(1) [OF srv assms(2)] assms(4) by simp
  define a0 where "a0 = upd_ev e (\<lambda>ev. ev\<lparr>ev_revents := EPOLLIN\<rparr>) (a\<lparr>activeEvents := []\<rparr>)"
  define a1 where "a1 = (if buf_size a = 1 then a0\<lparr>activeEvents := [e], buf_size := 2\<rparr> else a0\<lparr>activeEvents := [e]\<rparr>)"
  have poll: "Poller_poll (t_ready i) ?a = Inr (a1\<lparr>loop_tasks := [TDisconnect c]\<rparr>)"
    using assms(1,7) by (auto simp: app_inv_def Poller_poll_def fillActiveEvents_def Let_def a1_def a0_def upd_ev_def)
  have at: "conn_at d a1 = conn_at d a" "ev_at e a1 = (ev_at e a)\<lparr>ev_revents := EPOLLIN\<rparr>" "d \<noteq> e \<Longrightarrow> ev_at d a1 = ev_at d a"
    "activeEvents a1 = [e]" "length (objs a1) = length (objs a)" "conns a1 = conns a" "loop_tasks a1 = loop_tasks a"
    "ac_event a1 = ac_event a" for d
    using e by (auto simp: a1_def a0_def conn_at_def ev_at_def upd_ev_def)
  have srv1: "srv_inv a1"
  proof (rule srv_inv_cong [OF srv])
    show "ev_fd (ev_at d a1) = ev_fd (ev_at d a) \<and> ev_index (ev_at d a1) = ev_index (ev_at d a) \<and> ev_events (ev_at d a1) = ev_events (ev_at d a)" for d
      using at(2) at(3) [of d] by (cases "d = e") simp_all
  qed (simp_all add: a1_def a0_def upd_ev_def)
  have c1: "c < length (conns a1)" "tc_state (conn_at c a1) = CsConnected" "e = tc_event (conn_at c a1)" using assms(2,3,4) at by simp_all
  from srv_disconnect [OF srv1 c1(1,2)] obtain a2 where a2: "tc_disconnect c a1 = Inr a2" "srv_inv a2" by blast
  note only = disconnect_only [OF srv1 c1(1,2) a2(1)]
  define a3 where "a3 = a2\<lparr>loop_tasks := []\<rparr>"
  have task: "run_loop_task Inr (a1\<lparr>loop_tasks := [TDisconnect c]\<rparr>) = Inr a3"
    using a2(1) tc_disconnect_tasks [of c "[]" a1] by (simp add: run_loop_task_def a3_def)
  have "ev_flags (ev_at e a3) = ev_flags (ev_at e a1)" using only(1) c1(3) by (simp add: conn_only_def a3_def ev_at_def)
  then have flags: "\<not> ev_locked (ev_at e a3)" "ev_revents (ev_at e a3) = EPOLLIN" "ev_reader (ev_at e a3)"
    using assms(5,6) at(2) by (simp_all add: ev_flags_def)
  have st: "tc_state (conn_at c a3) = CsConnecting" using only(2) by (simp add: a3_def conn_at_def)
  have active: "activeEvents a3 = [e]"
  proof -
    from a2(1) c1(2) obtain q where q: "disableAll (tc_event (conn_at c a1)) (set_state c CsConnecting a1) = Inr q"
      "EpollFdEvent_remove (tc_event (conn_at c q)) q = Inr a2" by (auto simp: tc_disconnect_def r_bind_eq_Inr)
    have "activeEvents q = activeEvents a1"
      using q(1) by (auto simp: disableAll_def EpollFdEvent_update_def with_events_def Poller_updateEvent_def Let_def
          r_bind_eq_Inr setIndex_ev_def upd_ev_def Poller_update_def set_state_def upd_conn_def split: if_splits)
    with remove_active [OF q(2)] at(4) show ?thesis by (simp add: a3_def)
  qed
  have own: "ac_event a3 \<noteq> Some e" "conn_of e a3 = Some c"
  proof -
    have "ac_event a3 = ac_event a" using only(1) more_acceptor_net(2) [of a2 a1] at(8) by (simp add: conn_only_def a3_def)
    with assms(1,2,4) show "ac_event a3 \<noteq> Some e" by (auto simp: app_inv_def elim!: listeningE)
    have "conn_of e a2 = Some c"
      using conn_of_event [OF a2(2), of c] only(1,2) c1 by (simp add: conn_only_def)
    then show "conn_of e a3 = Some c" by (simp add: conn_of_def a3_def conn_at_def)
  qed
  have "server_cb name i CbRead e a3 = Inl AssertFailed"
    using own assms(8) st by (simp add: server_cb_def conn_cb_def tc_handleRead_with_def tc_handleClose_def)
  moreover have "\<not> cb_due CbClose (ev_at e a3)" "\<not> cb_due CbError (ev_at e a3)" "cb_due CbRead (ev_at e a3)"
    using flags by (simp_all add: cb_due_def EPOLLIN_def EPOLLHUP_def EPOLLERR_def EPOLLPRI_def EPOLLRDHUP_def)
  ultimately have "handleEvent (server_cb name i) e a3 = Inl AssertFailed"
    using flags(1) by (simp add: handleEvent_def handleLockEvent_def)
  with poll task active show ?thesis by (simp add: app_turn_def turn_prefix_def)
qed

text \<open>A report of a hang-up with urgent data and no ordinary data runs the close callback and then the read
  callback; if \<open>recv\<close> finds the end of the stream, the second \<open>handleClose\<close> fails its assertion.\<close>
theorem hangup_then_read_fails:
  assumes "app_inv a" "c < length (conns a)" "tc_state (conn_at c a) = CsConnected" "e = tc_event (conn_at c a)"
    "ev_reader (ev_at e a)" "ev_closer (ev_at e a)" "\<not> ev_locked (ev_at e a)" "ev_revents (ev_at e a) = EPOLLHUP OR EPOLLPRI"
    "t_recv i c = EndOfStream"
  shows "handleEvent (server_cb name i) e a = Inl AssertFailed"
proof -
  have srv: "srv_inv a" using assms(1) by (simp add: app_inv_def)
  from srv_close [OF srv assms(2,3)] obtain a1 where a1: "tc_handleClose server_removeConnection c a = Inr a1" "srv_inv a1" by blast
  note only = close_only [OF srv assms(2,3) a1(1)]
  have own: "ac_event a \<noteq> Some e" using assms(1,2,4) by (auto simp: app_inv_def elim!: listeningE)
  have acc: "ac_event a1 = ac_event a" using only(1) more_acceptor_net(2) [of a1 a] by (simp add: conn_only_def)
  have of: "conn_of e a = Some c" "conn_of e a1 = Some c"
    using conn_of_event [OF srv assms(2)] conn_of_event [OF a1(2), of c] only(1) assms(2,4) by (simp_all add: conn_only_def)
  have "ev_flags (ev_at e a1) = ev_flags (ev_at e a)" using only(1) assms(4) by (simp add: conn_only_def)
  then have flags: "ev_reader (ev_at e a1)" "ev_revents (ev_at e a1) = EPOLLHUP OR EPOLLPRI"
    using assms(5,8) by (simp_all add: ev_flags_def)
  have "cb_due CbClose (ev_at e a)" "\<not> cb_due CbError (ev_at e a1)" "cb_due CbRead (ev_at e a1)"
    using assms(6,8) flags by (simp_all add: cb_due_def EPOLLIN_def EPOLLHUP_def EPOLLERR_def EPOLLPRI_def EPOLLRDHUP_def)
  moreover have "server_cb name i CbClose e a = Inr a1" using own of(1) a1(1) by (simp add: server_cb_def conn_cb_def)
  moreover have "server_cb name i CbRead e a1 = Inl AssertFailed"
    using own acc of(2) assms(9) only(2) by (simp add: server_cb_def conn_cb_def tc_handleRead_with_def tc_handleClose_def)
  ultimately show ?thesis using assms(7) by (simp add: handleEvent_def handleLockEvent_def)
qed

section \<open>Samples\<close>

definition sample_in :: "(nat \<times> 32 word) list \<Rightarrow> int \<Rightarrow> recv \<Rightarrow> turn_in" where
  "sample_in r fd rx = \<lparr>t_ready = Some r, t_recv = (\<lambda>_. rx), t_sent = (\<lambda>_. 0), t_accept = fd, t_opt = (\<lambda>_ _. True),
     t_local = None, t_peer = None, t_react = (\<lambda>_ b. [USend b])\<rparr>"

lemma sample_in_accept [simp]: "t_accept (sample_in r f x) = f"
  by (simp add: sample_in_def)

definition sample_app :: acceptor where
  "sample_app = \<lparr>objs = [\<lparr>ev_fd = 4, ev_added = True, ev_oneshot = False, ev_revents = 0, ev_index = kAdded,
      ev_events = kReadEvent, ev_locked = False, ev_reader = True, ev_writer = False, ev_closer = False, ev_catcher = False\<rparr>],
     fdEventMaps = [4 \<mapsto> 0], buf_size = 256, ctl_log = [(CtlAdd, 4, kReadEvent, 0)], activeEvents = [], conns = [],
     loop_tasks = [], sent_log = [], user_log = [], connections = (\<lambda>_. None), connId = 1, ac_state = AcStarted,
     ac_event = Some 0, ac_sock = Some (CreateTcpSocket (\<lambda>_ _. True) 4), srv_started = True\<rparr>"

lemma sample_boot:
  "\<exists>l0 l. Loop_new 0 3 = Inr l0 \<and> TcpServer_start (\<lambda>_ _. True) 4 0 None 0 (TcpServer_new l0) = Inr (True, l) \<and>
     app_of l = sample_app \<and> epollFd l = 3 \<and> ThreadPool_init (threadPool l) = ThreadPool_init (threadPool l0)"
  by (simp add: Loop_new_def ThreadPool_new_def MAX_THREAD_NUM_def TcpServer_new_def loop.defs server.defs app_of_def
      TcpServer_start_def server_start_def Acceptor_start_def poll_run CreateTcpSocket_def newSocket_def Socket_new_def
      isInvalid_def Socket_bind_def Socket_listen_def getLocalAddress_def getFd_def with_app_def sample_app_def epollFd_def
      ThreadPool_init_def)


lemma sample_accept:
  "\<exists>a. app_turn (\<lambda>_. ''s'') (sample_in [(0, EPOLLIN)] 9 rx) sample_app = Inr a \<and> length (conns a) = 1 \<and>
     tc_state (conn_at 0 a) = CsConnected \<and> tc_event (conn_at 0 a) = 1 \<and> buf_size a = 256 \<and> loop_tasks a = [] \<and> fdEventMaps a (- 1) = None \<and>
     length (objs a) = 2 \<and> ev_at 1 a = \<lparr>ev_fd = 9, ev_added = True, ev_oneshot = False, ev_revents = 0, ev_index = kAdded, ev_events = kReadEvent,
       ev_locked = False, ev_reader = True, ev_writer = True, ev_closer = True, ev_catcher = True\<rparr>"
  by (simp add: app_turn_def turn_prefix_def sample_in_def sample_app_def Poller_poll_def fillActiveEvents_def run_loop_task_def
      handleEvent_def handleLockEvent_def cb_due_def EPOLLIN_def EPOLLHUP_def EPOLLERR_def EPOLLPRI_def EPOLLRDHUP_def
      server_cb_def Acceptor_handleRead_def Socket_accept_def CreateTcpSocket_def newSocket_def Socket_new_def Socket_init_def
      getPeerAddress_def getLocalAddress_def getFd_def server_newConnection_def TcpConnection_new_def tc_connectFinished_def
      poll_run conn_at_def set_state_def upd_conn_def)

lemma sample_app_inv: "app_inv sample_app" "fdEventMaps sample_app 9 = None"
proof -
  from sample_boot obtain l0 l where "Loop_new 0 3 = Inr l0"
    "TcpServer_start (\<lambda>_ _. True) 4 0 None 0 (TcpServer_new l0) = Inr (True, l)" "app_of l = sample_app" by blast
  from started [OF this(1,2)] this(3) show "app_inv sample_app" by simp
qed (simp add: sample_app_def)

lemma sample_turn_ok:
  "reports_ok (sample_in [(0, EPOLLIN)] 9 rx) sample_app"
  "turn_prefix (sample_in [(0, EPOLLIN)] 9 rx) sample_app = Inr a \<Longrightarrow> fdEventMaps a 9 = None"
  by (auto simp: reports_ok_def turn_prefix_def Poller_poll_def fillActiveEvents_def run_loop_task_def Let_def upd_ev_def sample_in_def
      sample_app_def ev_at_def report_ok_def EPOLLIN_def EPOLLHUP_def)

lemma sample_served:
  obtains a where "app_turn (\<lambda>_. ''s'') (sample_in [(0, EPOLLIN)] 9 EndOfStream) sample_app = Inr a" "app_inv a"
    "0 < length (conns a)" "tc_state (conn_at 0 a) = CsConnected" "tc_event (conn_at 0 a) = 1" "0 < buf_size a"
    "ev_reader (ev_at 1 a)" "ev_closer (ev_at 1 a)" "\<not> ev_locked (ev_at 1 a)" "1 < length (objs a)"
    "loop_tasks a = []" "fdEventMaps a (- 1) = None"
proof -
  from sample_accept [of EndOfStream] obtain a where a: "app_turn (\<lambda>_. ''s'') (sample_in [(0, EPOLLIN)] 9 EndOfStream) sample_app = Inr a"
    "length (conns a) = 1" "tc_state (conn_at 0 a) = CsConnected" "tc_event (conn_at 0 a) = 1" "buf_size a = 256" "loop_tasks a = []"
    "fdEventMaps a (- 1) = None" "length (objs a) = 2" "ev_reader (ev_at 1 a)" "ev_closer (ev_at 1 a)" "\<not> ev_locked (ev_at 1 a)"
    by auto
  from app_turn_safe [OF sample_app_inv(1) sample_turn_ok(1), of EndOfStream "\<lambda>_. ''s''"] sample_turn_ok(2) a(1)
  have "app_inv a" by auto
  with a show ?thesis by (intro that [of a]) simp_all
qed

theorem queued_disconnect_races_with_close_witness:
  "\<exists>a. app_inv a \<and> app_turn (\<lambda>_. ''s'') (sample_in [(1, EPOLLIN)] (- 1) EndOfStream) (a\<lparr>loop_tasks := [TDisconnect 0]\<rparr>) = Inl AssertFailed"
proof -
  obtain a where a: "app_inv a" "0 < length (conns a)" "tc_state (conn_at 0 a) = CsConnected" "1 = tc_event (conn_at 0 a)"
    "ev_reader (ev_at 1 a)" "\<not> ev_locked (ev_at 1 a)" using sample_served by metis
  from queued_disconnect_races_with_close [OF a, of "sample_in [(1, EPOLLIN)] (- 1) EndOfStream" "\<lambda>_. ''s''"] a(1)
  show ?thesis by (auto simp: sample_in_def)
qed

theorem hangup_then_read_fails_witness:
  "\<exists>a. app_inv a \<and> handleEvent (server_cb (\<lambda>_. ''s'') (sample_in [] (- 1) EndOfStream)) 1 a = Inl AssertFailed"
proof -
  obtain b where b: "app_inv b" "0 < length (conns b)" "tc_state (conn_at 0 b) = CsConnected" "1 = tc_event (conn_at 0 b)"
    "ev_reader (ev_at 1 b)" "ev_closer (ev_at 1 b)" "\<not> ev_locked (ev_at 1 b)" "1 < length (objs b)" using sample_served by metis
  let ?a = "upd_ev 1 (\<lambda>ev. ev\<lparr>ev_revents := EPOLLHUP OR EPOLLPRI\<rparr>) b"
  have at: "conn_at c ?a = conn_at c b" "conns ?a = conns b" "ac_event ?a = ac_event b" "ac_sock ?a = ac_sock b"
    "loop_tasks ?a = loop_tasks b" "buf_size ?a = buf_size b" for c by (simp_all add: upd_ev_def conn_at_def)
  have "srv_inv ?a" by (rule srv_inv_cong [of b]) (use b(1,8) at in \<open>auto simp: app_inv_def\<close>)
  then have inv: "app_inv ?a"
    using b(1,8) at by (auto simp: app_inv_def listening_def isReading_def split: option.splits)
  have "handleEvent (server_cb (\<lambda>_. ''s'') (sample_in [] (- 1) EndOfStream)) 1 ?a = Inl AssertFailed"
    by (rule hangup_then_read_fails [OF inv, of 0]) (use b at in \<open>simp_all add: sample_in_def\<close>)
  with inv show ?thesis by blast
qed

end
