(* ===== verification/ServerLife.thy ===== *)
theory ServerLife
  imports ServerLoopSafe
begin

text \<open>
  How long a connection of a server lives, and what its end does to the descriptors and to the events.

  A \<open>TcpConnection\<close> is held by the server's map and by the task that will call \<open>disconnect\<close>; when both
  are gone it is destroyed, with its \<open>EpollFdEvent\<close> and its \<open>Socket\<close>, which closes the descriptor. (A user
  who keeps a copy of the \<open>shared_ptr\<close> prolongs its life; here nobody does.) \<open>life_turn\<close> is the turn of
  \<open>ServerLoop\<close> in which using an event after its destruction is undefined. With one client at a time the
  two turns agree (\<open>life_turn_safe\<close>, \<open>server_turn_life\<close>), so that what is proved of \<open>server_reach\<close>, the states
  of the server on its loop, holds of the program with its destructors; with two clients they do not.
\<close>

section \<open>Lifetimes\<close>

definition live :: "nat \<Rightarrow> 'a net_scheme \<Rightarrow> bool" where
  "live c n \<longleftrightarrow> connections n (tc_name (conn_at c n)) = Some c \<or> TDisconnect c \<in> set (loop_tasks n)"

text \<open>The destructor of \<open>Socket\<close> closes its descriptor: those of the acceptor and of the living connections
  are open.\<close>

definition open_fds :: "acceptor \<Rightarrow> int set" where
  "open_fds a =
     set ((case ac_sock a of Some s \<Rightarrow> [getFd s] | None \<Rightarrow> []) @
          map (\<lambda>c. getFd (tc_socket (conn_at c a))) (filter (\<lambda>c. live c a) [0..<length (conns a)]))"

text \<open>The event object of a connection that was destroyed.\<close>

definition dangling :: "nat \<Rightarrow> 'a net_scheme \<Rightarrow> bool" where
  "dangling e n \<longleftrightarrow> (\<exists>c \<in> set [0..<length (conns n)]. tc_event (conn_at c n) = e \<and> \<not> live c n)"

definition life_event :: "(int \<Rightarrow> string) \<Rightarrow> turn_in \<Rightarrow> nat \<Rightarrow> acceptor \<Rightarrow> acceptor result" where
  "life_event name i e a = (if dangling e a then Inl Undefined else handleEvent (server_cb name i) e a)"

definition life_turn :: "(int \<Rightarrow> string) \<Rightarrow> turn_in \<Rightarrow> acceptor \<Rightarrow> acceptor result" where
  "life_turn name i a =
     (if \<exists>r \<in> set (case t_ready i of None \<Rightarrow> [] | Some r \<Rightarrow> r). dangling (fst r) a then Inl Undefined
      else r_bind (turn_prefix i a) (\<lambda>a2. r_fold (life_event name i) (activeEvents a2) a2))"

section \<open>The invariant\<close>

text \<open>All connections have the same name; the descriptor of an event is that of its socket; and the acceptor's
  event is ready to be dispatched. While one client at a time is served, a connected connection is also the
  one that the map has.\<close>

definition base_inv :: "(int \<Rightarrow> string) \<Rightarrow> acceptor \<Rightarrow> bool" where
  "base_inv name a \<longleftrightarrow> app_inv a \<and>
     (\<forall>c < length (conns a). tc_name (conn_at c a) = name (connId a) \<and>
        ev_fd (ev_at (tc_event (conn_at c a)) a) = getFd (tc_socket (conn_at c a))) \<and>
     (\<forall>e s. ac_event a = Some e \<longrightarrow> ac_sock a = Some s \<longrightarrow>
        ev_fd (ev_at e a) = getFd s \<and> ev_reader (ev_at e a) \<and> \<not> ev_locked (ev_at e a))"

definition life_inv :: "(int \<Rightarrow> string) \<Rightarrow> acceptor \<Rightarrow> bool" where
  "life_inv name a \<longleftrightarrow> base_inv name a \<and>
     (\<forall>c < length (conns a). tc_state (conn_at c a) = CsConnected \<longrightarrow> connections a (tc_name (conn_at c a)) = Some c)"

lemma base_invD:
  assumes "base_inv name a"
  shows "app_inv a" "srv_inv a" "poller_inv a"
    "c < length (conns a) \<Longrightarrow> tc_name (conn_at c a) = name (connId a)"
    "c < length (conns a) \<Longrightarrow> ev_fd (ev_at (tc_event (conn_at c a)) a) = getFd (tc_socket (conn_at c a))"
    "ac_event a = Some e \<Longrightarrow> ac_sock a = Some s \<Longrightarrow> ev_fd (ev_at e a) = getFd s \<and> ev_reader (ev_at e a) \<and> \<not> ev_locked (ev_at e a)"
  using assms by (auto simp: base_inv_def app_inv_def srv_inv_def)

lemma life_invD:
  assumes "life_inv name a"
  shows "base_inv name a" "app_inv a" "srv_inv a"
    "c < length (conns a) \<Longrightarrow> tc_state (conn_at c a) = CsConnected \<Longrightarrow> connections a (tc_name (conn_at c a)) = Some c"
  using assms base_invD(1,2) by (auto simp: life_inv_def)

lemma acceptorE:
  assumes "app_inv a"
  obtains e s where "ac_event a = Some e" "ac_sock a = Some s" "e < length (objs a)" "ev_index (ev_at e a) = kAdded"
    "\<forall>c < length (conns a). tc_event (conn_at c a) \<noteq> e"
  using assms by (auto simp: app_inv_def elim!: listeningE)

lemma not_dangling:
  assumes "srv_inv n" "c < length (conns n)" "live c n"
  shows "\<not> dangling (tc_event (conn_at c n)) n"
  using assms unfolding dangling_def srv_inv_def by (metis atLeastLessThan_iff set_upt)

lemma acceptor_not_dangling:
  assumes "app_inv a" "ac_event a = Some e"
  shows "\<not> dangling e a"
  using assms by (auto simp: dangling_def elim!: acceptorE)

lemma live_open: "c < length (conns a) \<Longrightarrow> live c a \<Longrightarrow> getFd (tc_socket (conn_at c a)) \<in> open_fds a"
  by (auto simp: open_fds_def)

text \<open>What the poller has registered is alive, and its descriptor is open.\<close>

lemma registered_live:
  assumes inv: "life_inv name a" and reg: "fdEventMaps a f = Some e"
  shows "f \<in> open_fds a" "\<not> dangling e a"
proof -
  note base = life_invD(1) [OF inv] and app = life_invD(2) [OF inv] and srv = life_invD(3) [OF inv]
  have e: "e < length (objs a)" "ev_fd (ev_at e a) = f" "ev_index (ev_at e a) \<noteq> kNew"
    using poller_invD(1) [OF base_invD(3) [OF base] reg] by blast+
  have "f \<in> open_fds a \<and> \<not> dangling e a"
  proof (cases "ac_event a = Some e")
    case True
    from app obtain s where "ac_sock a = Some s" by (rule acceptorE)
    with True base_invD(6) [OF base] acceptor_not_dangling [OF app] e(2) show ?thesis by (auto simp: open_fds_def)
  next
    case False
    with app e(1) obtain c where c: "c < length (conns a)" "tc_event (conn_at c a) = e" by (auto simp: app_inv_def)
    then have "live c a"
      using conn_okD(4-6) [OF srv c(1)] life_invD(4) [OF inv c(1)] e(3)
      by (cases "tc_state (conn_at c a)") (auto simp: live_def split: if_splits)
    with c base_invD(5) [OF base c(1)] not_dangling [OF srv c(1)] e(2) show ?thesis by (auto simp: open_fds_def)
  qed
  then show "f \<in> open_fds a" "\<not> dangling e a" by blast+
qed

lemma base_inv_conn_only:
  assumes inv: "base_inv name a" and only: "conn_only c a a'" and c: "c < length (conns a)" and srv: "srv_inv a'"
  shows "base_inv name a'"
proof -
  note len = conn_only_len [OF only]
  have app: "app_inv a'" by (rule app_inv_conn_only [OF base_invD(1) [OF inv] only c srv])
  have acc: "ac_event a' = ac_event a" "ac_sock a' = ac_sock a"
    using only more_acceptor_net [of a' a] by (simp_all add: conn_only_def)
  have self: "tc_event (conn_at c a') = tc_event (conn_at c a)" "tc_name (conn_at c a') = tc_name (conn_at c a)"
      "tc_socket (conn_at c a') = tc_socket (conn_at c a)" "connId a' = connId a"
      "ev_flags (ev_at (tc_event (conn_at c a)) a') = ev_flags (ev_at (tc_event (conn_at c a)) a)"
    and other: "\<And>d. d \<noteq> c \<Longrightarrow> conn_at d a' = conn_at d a"
    and ev: "\<And>e. e \<noteq> tc_event (conn_at c a) \<Longrightarrow> ev_at e a' = ev_at e a"
    using only by (simp_all add: conn_only_def)
  have fd: "ev_fd (ev_at e a') = ev_fd (ev_at e a)" for e
    using self(5) ev [of e] by (cases "e = tc_event (conn_at c a)") (simp_all add: ev_flags_def)
  have "tc_name (conn_at d a') = name (connId a') \<and> ev_fd (ev_at (tc_event (conn_at d a')) a') = getFd (tc_socket (conn_at d a'))"
    if "d < length (conns a')" for d
    using base_invD(4,5) [OF inv, of d] that len fd self other [of d] by (cases "d = c") simp_all
  moreover have "ev_at e a' = ev_at e a" if "ac_event a' = Some e" for e
    by (rule ev) (use that acc(1) base_invD(1) [OF inv] c in \<open>auto elim!: acceptorE\<close>)
  ultimately show ?thesis using app acc base_invD(6) [OF inv] unfolding base_inv_def by metis
qed

lemma life_inv_conn_only:
  assumes inv: "life_inv name a" and only: "conn_only c a a'" and c: "c < length (conns a)" and srv: "srv_inv a'"
  shows "life_inv name a'"
proof -
  have base: "base_inv name a'" by (rule base_inv_conn_only [OF life_invD(1) [OF inv] only c srv])
  have self: "tc_name (conn_at c a') = tc_name (conn_at c a)"
    and other: "\<And>d. d \<noteq> c \<Longrightarrow> conn_at d a' = conn_at d a"
    and conns: "connections a' = connections a \<and> (tc_state (conn_at c a') = CsConnected \<longrightarrow> tc_state (conn_at c a) = CsConnected) \<or>
      connections a' = (connections a)(tc_name (conn_at c a) := None) \<and> tc_state (conn_at c a) = CsConnected \<and>
        tc_state (conn_at c a') \<noteq> CsConnected"
    using only by (simp_all add: conn_only_def)
  have "connections a' (tc_name (conn_at d a')) = Some d" if d: "d < length (conns a')" "tc_state (conn_at d a') = CsConnected" for d
  proof (cases "d = c")
    case True
    with conns d self life_invD(4) [OF inv c] show ?thesis by auto
  next
    case False
    with d conn_only_len(1) [OF only] other [OF False] have "connections a (tc_name (conn_at d a)) = Some d"
      using life_invD(4) [OF inv, of d] by simp
    with conns False life_invD(4) [OF inv c] other [OF False] show ?thesis by auto
  qed
  with base show ?thesis by (simp add: life_inv_def)
qed

lemma base_inv_polled: "base_inv name a \<Longrightarrow> polled i a a1 \<Longrightarrow> app_inv a1 \<Longrightarrow> base_inv name a1"
  unfolding base_inv_def polled_def by (auto simp: conn_at_def)

text \<open>A new connection: it takes the place of the one that the map had under the same name.\<close>

lemma new_connection:
  fixes n :: "'a net_scheme"
  assumes q: "server_newConnection name s n = Inr n'" and free: "fdEventMaps n (getFd s) = None"
  defines "c \<equiv> length (conns n)" and "e \<equiv> length (objs n)"
  shows "conn_at c n' = \<lparr>tc_state = CsConnected, tc_socket = s, tc_name = name (connId n), tc_event = e,
      read_buffer = ByteBuf_new, write_buffer = ByteBuf_new\<rparr>"
    and "connections n' = (connections n)(name (connId n) \<mapsto> c)" "loop_tasks n' = loop_tasks n" "connId n' = connId n"
    and "fdEventMaps n' = (fdEventMaps n)(getFd s \<mapsto> e)"
proof -
  define m where "m = (TcpConnection_new s (name (connId n)) n)\<lparr>connections := (connections n)(name (connId n) \<mapsto> c)\<rparr>"
  define m2 where "m2 = set_state c CsConnected m"
  note frame = TcpConnection_new_frame [where s = s and name = "name (connId n)" and n = n, folded c_def e_def]
  have tasks: "loop_tasks (TcpConnection_new s (name (connId n)) n) = loop_tasks n"
    by (simp add: TcpConnection_new_def Let_def EpollFdEvent_init_def EpollFdEvent_new_def upd_ev_def)
  have m: "conn_at c m = \<lparr>tc_state = CsConnecting, tc_socket = s, tc_name = name (connId n), tc_event = e,
      read_buffer = ByteBuf_new, write_buffer = ByteBuf_new\<rparr>"
    "server_newConnection name s n = tc_connectFinished c m"
    by (simp_all add: conn_at_def m_def frame server_newConnection_def Let_def c_def)
  with q obtain q1 where q1: "enableReading e m2 = Inr q1" and n': "n' = q1\<lparr>user_log := user_log q1 @ [UConnected c]\<rparr>"
    by (auto simp: tc_connectFinished_def m2_def r_bind_eq_Inr)
  have m2: "e < length (objs m2)" "ev_index (ev_at e m2) = kNew" "ev_fd (ev_at e m2) = getFd s" "fdEventMaps m2 = fdEventMaps n"
    "connections m2 = (connections n)(name (connId n) \<mapsto> c)" "loop_tasks m2 = loop_tasks n" "connId m2 = connId n"
    using frame tasks by (simp_all add: m2_def m_def set_state_def upd_conn_def ev_at_def e_def)
  have at: "conns m2 ! c = (conn_at c m)\<lparr>tc_state := CsConnected\<rparr>"
    using frame(7) by (simp add: m2_def m_def set_state_def upd_conn_def conn_at_def c_def)
  from enableReading_new [OF m2(1,2)] m2(3,4) free q1 have r: "fdEventMaps q1 = (fdEventMaps n)(getFd s \<mapsto> e)"
    "poller.more q1 = poller.more m2" by auto
  note more = more_net [OF r(2)]
  show "conn_at c n' = \<lparr>tc_state = CsConnected, tc_socket = s, tc_name = name (connId n), tc_event = e,
      read_buffer = ByteBuf_new, write_buffer = ByteBuf_new\<rparr>"
    using more(1) at m(1) by (simp add: n' conn_at_def)
  show "connections n' = (connections n)(name (connId n) \<mapsto> c)" "loop_tasks n' = loop_tasks n" "connId n' = connId n"
    "fdEventMaps n' = (fdEventMaps n)(getFd s \<mapsto> e)"
    using more m2(5-7) r(1) by (simp_all add: n')
qed

lemma base_inv_accept:
  assumes inv: "base_inv name a" and q: "server_newConnection name s a = Inr a'" and free: "fdEventMaps a (getFd s) = None"
    and srv: "srv_inv a'"
  shows "base_inv name a'"
proof -
  note new = new_connection [OF q free] and one = accept_one_more [OF q]
  let ?c = "length (conns a)" and ?e = "length (objs a)"
  have app: "app_inv a'" by (rule app_inv_one_more [OF base_invD(1) [OF inv] one srv])
  have acc: "ac_event a' = ac_event a" "ac_sock a' = ac_sock a"
    using one more_acceptor_net [of a' a] by (simp_all add: one_more_def)
  have len: "length (conns a') = Suc ?c" and old: "\<And>d. d < ?c \<Longrightarrow> conn_at d a' = conn_at d a"
    and ev: "\<And>d. d < ?e \<Longrightarrow> ev_at d a' = ev_at d a" using one by (simp_all add: one_more_def)
  have "poller_inv a'" using srv by (simp add: srv_inv_def)
  from poller_invD(1) [OF this, of "getFd s" ?e] have fd: "ev_fd (ev_at ?e a') = getFd s" using new(5) by simp
  have "tc_name (conn_at d a') = name (connId a') \<and> ev_fd (ev_at (tc_event (conn_at d a')) a') = getFd (tc_socket (conn_at d a'))"
    if d: "d < length (conns a')" for d
  proof (cases "d = ?c")
    case True
    with new(1,4) fd show ?thesis by simp
  next
    case False
    with d len have d': "d < ?c" by simp
    with old ev new(4) conn_okD(1) [OF base_invD(2) [OF inv] d'] base_invD(4,5) [OF inv d'] show ?thesis by simp
  qed
  moreover have "ev_at e a' = ev_at e a" if "ac_event a = Some e" for e
    by (rule ev) (use that base_invD(1) [OF inv] in \<open>auto elim!: acceptorE\<close>)
  ultimately show ?thesis using app acc base_invD(6) [OF inv] unfolding base_inv_def by metis
qed

lemma life_inv_accept:
  assumes inv: "life_inv name a" and q: "server_newConnection name s a = Inr a'" and free: "fdEventMaps a (getFd s) = None"
    and srv: "srv_inv a'" and alone: "\<forall>c < length (conns a). tc_state (conn_at c a) \<noteq> CsConnected"
  shows "life_inv name a'"
proof -
  note new = new_connection [OF q free] and one = accept_one_more [OF q]
  have "connections a' (tc_name (conn_at d a')) = Some d" if "d < length (conns a')" "tc_state (conn_at d a') = CsConnected" for d
    using that alone new(1,2) one by (cases "d = length (conns a)") (auto simp: one_more_def less_Suc_eq)
  with base_inv_accept [OF life_invD(1) [OF inv] q free srv] show ?thesis by (simp add: life_inv_def)
qed

section \<open>A turn\<close>

text \<open>What the kernel may do in a turn: it reports what is in the interest list, and accepts a connection on a
  descriptor that is not open. \<open>one_client\<close>: a connection is accepted only in a turn that begins with
  no other connected.\<close>

definition kernel_ok :: "turn_in \<Rightarrow> acceptor \<Rightarrow> bool" where
  "kernel_ok i a \<longleftrightarrow> reports_ok i a \<and>
     (case turn_prefix i a of Inl e \<Rightarrow> True | Inr a2 \<Rightarrow> t_accept i \<notin> open_fds a2)"

definition one_client :: "turn_in \<Rightarrow> acceptor \<Rightarrow> bool" where
  "one_client i a \<longleftrightarrow> (0 < t_accept i \<longrightarrow> (\<forall>c < length (conns a). tc_state (conn_at c a) \<noteq> CsConnected))"

lemma one_client_conn_only:
  assumes "one_client i a" "conn_only c a a'"
  shows "one_client i a'"
proof -
  have "tc_state (conn_at d a') = CsConnected \<Longrightarrow> tc_state (conn_at d a) = CsConnected" for d
    using assms(2) by (cases "d = c") (auto simp: conn_only_def)
  with assms(1) conn_only_len(1) [OF assms(2)] show ?thesis unfolding one_client_def by auto
qed

lemma life_dispatch:
  assumes "life_inv name a" "distinct es" "\<forall>e \<in> set es. due_ok i e a" "one_client i a"
    "fdEventMaps a (t_accept i) = None \<or> (\<forall>e \<in> set es. ac_event a \<noteq> Some e)"
  shows "\<exists>a'. r_fold (life_event name i) es a = Inr a' \<and> r_fold (handleEvent (server_cb name i)) es a = Inr a' \<and> life_inv name a'"
  using assms
proof (induction es arbitrary: a)
  case (Cons e es)
  note inv = Cons.prems(1)
  have e: "due_ok i e a" "e \<notin> set es" and rest: "\<forall>d \<in> set es. due_ok i d a" using Cons.prems by auto
  note app = life_invD(2) [OF inv] and srv = life_invD(3) [OF inv]
  have "\<exists>a1. handleEvent (server_cb name i) e a = Inr a1 \<and> \<not> dangling e a \<and>
      (\<exists>a'. r_fold (life_event name i) es a1 = Inr a' \<and> r_fold (handleEvent (server_cb name i)) es a1 = Inr a' \<and> life_inv name a')"
  proof (cases "ac_event a = Some e")
    case True
    with Cons.prems(5) have free: "fdEventMaps a (t_accept i) = None" by auto
    from accept_dispatch [OF app True, of i name] free obtain a1 where a1: "handleEvent (server_cb name i) e a = Inr a1" "srv_inv a1"
      "a1 = a \<or> 0 < t_accept i \<and> (\<exists>s. getFd s = t_accept i \<and> server_newConnection name s a = Inr a1)"
      by (auto split: if_splits)
    from a1(3) have "\<exists>a'. r_fold (life_event name i) es a1 = Inr a' \<and> r_fold (handleEvent (server_cb name i)) es a1 = Inr a' \<and> life_inv name a'"
    proof
      assume "a1 = a"
      with Cons.prems e(2) rest show ?thesis by (intro Cons.IH) auto
    next
      assume "0 < t_accept i \<and> (\<exists>s. getFd s = t_accept i \<and> server_newConnection name s a = Inr a1)"
      then obtain s where s: "0 < t_accept i" "getFd s = t_accept i" "server_newConnection name s a = Inr a1" by blast
      have alone: "\<forall>c < length (conns a). tc_state (conn_at c a) \<noteq> CsConnected" using Cons.prems(4) s(1) by (simp add: one_client_def)
      have "es = []"
      proof (rule ccontr)
        assume "es \<noteq> []"
        then obtain d where "d \<in> set es" by (cases es) auto
        with rest e(2) True alone show False by (auto simp: due_ok_def)
      qed
      with life_inv_accept [OF inv s(3) _ a1(2) alone] free s(2) show ?thesis by simp
    qed
    with a1(1) acceptor_not_dangling [OF app True] show ?thesis by blast
  next
    case False
    with e(1) obtain c where c: "c < length (conns a)" "e = tc_event (conn_at c a)" "tc_state (conn_at c a) = CsConnected" "room i c a"
      and el: "e < length (objs a)" "report_ok (ev_revents (ev_at e a))" by (auto simp: due_ok_def)
    have live: "live c a" using life_invD(4) [OF inv c(1,3)] by (simp add: live_def)
    have none: "\<not> 0 < t_accept i" using Cons.prems(4) c(1,3) by (auto simp: one_client_def)
    have "\<not> ev_oneshot (ev_at e a)" using app el(1) by (simp add: app_inv_def)
    from conn_dispatch_safe [OF srv c(1,3,4,2) False this el(2), of name] obtain a1 where
      a1: "handleEvent (server_cb name i) e a = Inr a1" "srv_inv a1" "conn_only c a a1" by blast
    have acc: "ac_event a1 = ac_event a" using a1(3) more_acceptor_net(2) [of a1 a] by (simp add: conn_only_def)
    have "due_ok i d a1" if d: "d \<in> set es" for d
      by (rule due_ok_conn_only [OF _ a1(3) _ acc]) (use rest d e(2) c(2) in auto)
    moreover have "fdEventMaps a1 (t_accept i) = None \<or> (\<forall>d \<in> set es. ac_event a1 \<noteq> Some d)"
      using Cons.prems(5) a1(3) acc by (auto simp: conn_only_def)
    ultimately have "\<exists>a'. r_fold (life_event name i) es a1 = Inr a' \<and> r_fold (handleEvent (server_cb name i)) es a1 = Inr a' \<and> life_inv name a'"
      using Cons.prems(2) life_inv_conn_only [OF inv a1(3) c(1) a1(2)] one_client_conn_only [OF Cons.prems(4) a1(3)]
      by (intro Cons.IH) auto
    with a1(1) not_dangling [OF srv c(1) live] c(2) show ?thesis by blast
  qed
  then show ?case by (auto simp: life_event_def [of name i e])
qed simp

lemma base_prefix:
  assumes inv: "base_inv name a" and ok: "reports_ok i a"
  obtains a2 where "turn_prefix i a = Inr a2" "base_inv name a2" "distinct (activeEvents a2)" "\<forall>e \<in> set (activeEvents a2). due_ok i e a2"
    "activeEvents a2 = (case t_ready i of None \<Rightarrow> [] | Some r \<Rightarrow> map fst r)"
    "\<forall>(e, re) \<in> set (case t_ready i of None \<Rightarrow> [] | Some r \<Rightarrow> r). ev_revents (ev_at e a2) = re"
    "ac_event a2 = ac_event a" "length (conns a2) = length (conns a)" "connections a2 = connections a" "connId a2 = connId a"
    "\<forall>c < length (conns a). tc_state (conn_at c a2) = tc_state (conn_at c a) \<and> tc_name (conn_at c a2) = tc_name (conn_at c a) \<and>
       tc_event (conn_at c a2) = tc_event (conn_at c a) \<and> tc_socket (conn_at c a2) = tc_socket (conn_at c a)"
proof -
  from prefix_safe [OF base_invD(1) [OF inv] ok] obtain a1 a2 where a2: "turn_prefix i a = Inr a2" "polled i a a1" "app_inv a1" "app_inv a2"
    "distinct (activeEvents a2)" "\<forall>e \<in> set (activeEvents a2). due_ok i e a2" "activeEvents a2 = activeEvents a1"
    "run_loop_task Inr a1 = Inr a2" .
  have inv1: "base_inv name a1" by (rule base_inv_polled [OF inv a2(2,3)])
  have "base_inv name a2 \<and> (\<forall>e. ev_revents (ev_at e a2) = ev_revents (ev_at e a1)) \<and> ac_event a2 = ac_event a1 \<and>
      length (conns a2) = length (conns a1) \<and> connections a2 = connections a1 \<and> connId a2 = connId a1 \<and>
      (\<forall>c < length (conns a1). tc_state (conn_at c a2) = tc_state (conn_at c a1) \<and> tc_name (conn_at c a2) = tc_name (conn_at c a1) \<and>
       tc_event (conn_at c a2) = tc_event (conn_at c a1) \<and> tc_socket (conn_at c a2) = tc_socket (conn_at c a1))"
  proof (cases "a2 = a1")
    case False
    with task_only [OF base_invD(2) [OF inv1] a2(8)] obtain c where c: "c < length (conns a1)"
      "tc_state (conn_at c a1) = CsDisconnected" "tc_state (conn_at c a2) = CsDisconnected" "conn_only c a1 a2" by blast
    have "srv_inv a2" using a2(4) by (simp add: app_inv_def)
    from base_inv_conn_only [OF inv1 c(4,1) this] have "base_inv name a2" .
    moreover have "ac_event a2 = ac_event a1" using c(4) more_acceptor_net(2) [of a2 a1] by (simp add: conn_only_def)
    moreover have "tc_state (conn_at d a2) = tc_state (conn_at d a1) \<and> tc_name (conn_at d a2) = tc_name (conn_at d a1) \<and>
       tc_event (conn_at d a2) = tc_event (conn_at d a1) \<and> tc_socket (conn_at d a2) = tc_socket (conn_at d a1)" for d
      using c(2-4) by (cases "d = c") (simp_all add: conn_only_def)
    moreover have "ev_revents (ev_at e a2) = ev_revents (ev_at e a1)" for e
      using c(4) by (cases "e = tc_event (conn_at c a1)") (simp_all add: conn_only_def ev_flags_def)
    moreover have "connections a2 = connections a1" "connId a2 = connId a1" using c(2,4) by (auto simp: conn_only_def)
    ultimately show ?thesis using conn_only_len(1) [OF c(4)] by simp
  qed (use inv1 in simp)
  with a2 show ?thesis by (intro that [of a2]) (auto simp: polled_def conn_at_def split: option.splits)
qed

lemma life_prefix:
  assumes inv: "life_inv name a" and ok: "reports_ok i a"
  obtains a2 where "turn_prefix i a = Inr a2" "life_inv name a2" "distinct (activeEvents a2)" "\<forall>e \<in> set (activeEvents a2). due_ok i e a2"
    "one_client i a \<longrightarrow> one_client i a2"
proof -
  from base_prefix [OF life_invD(1) [OF inv] ok] obtain a2 where a2: "turn_prefix i a = Inr a2" "base_inv name a2"
    "distinct (activeEvents a2)" "\<forall>e \<in> set (activeEvents a2). due_ok i e a2" "length (conns a2) = length (conns a)"
    "connections a2 = connections a"
    "\<forall>c < length (conns a). tc_state (conn_at c a2) = tc_state (conn_at c a) \<and> tc_name (conn_at c a2) = tc_name (conn_at c a) \<and>
       tc_event (conn_at c a2) = tc_event (conn_at c a) \<and> tc_socket (conn_at c a2) = tc_socket (conn_at c a)" .
  then have "life_inv name a2" "one_client i a \<longrightarrow> one_client i a2"
    using inv by (simp_all add: life_inv_def one_client_def)
  with a2 show ?thesis by (intro that)
qed

lemma reported_live:
  assumes inv: "life_inv name a" and ok: "reports_ok i a"
  shows "\<not> (\<exists>r \<in> set (case t_ready i of None \<Rightarrow> [] | Some r \<Rightarrow> r). dangling (fst r) a)"
proof -
  have pinv: "poller_inv a" using base_invD(3) [OF life_invD(1) [OF inv]] .
  have "\<not> dangling e a" if "(e, re) \<in> set (case t_ready i of None \<Rightarrow> [] | Some r \<Rightarrow> r)" for e re
  proof -
    from that ok have "e < length (objs a)" "ev_index (ev_at e a) = kAdded" by (auto simp: reports_ok_def split: option.splits)
    then have "fdEventMaps a (ev_fd (ev_at e a)) = Some e" using poller_invD(3) [OF pinv] by simp
    then show ?thesis by (rule registered_live(2) [OF inv])
  qed
  then show ?thesis by auto
qed

lemma closed_not_registered:
  assumes "life_inv name a" "f \<notin> open_fds a"
  shows "fdEventMaps a f = None"
  using assms registered_live(1) by (metis not_Some_eq)

lemma life_turn_safe:
  assumes inv: "life_inv name a" and ok: "kernel_ok i a" and one: "one_client i a"
  shows "\<exists>a'. life_turn name i a = Inr a' \<and> app_turn name i a = Inr a' \<and> life_inv name a'"
proof -
  have rep: "reports_ok i a" using ok by (simp add: kernel_ok_def)
  from life_prefix [OF inv rep] obtain a2 where a2: "turn_prefix i a = Inr a2" "life_inv name a2" "distinct (activeEvents a2)"
    "\<forall>e \<in> set (activeEvents a2). due_ok i e a2" "one_client i a2" using one by metis
  have "fdEventMaps a2 (t_accept i) = None" using closed_not_registered [OF a2(2)] ok a2(1) by (simp add: kernel_ok_def)
  with life_dispatch [OF a2(2-5)] a2(1) reported_live [OF inv rep] show ?thesis by (simp add: life_turn_def app_turn_def)
qed

section \<open>Runs\<close>

text \<open>The states of a started server that is turned by a loop, with one client at a time.\<close>

inductive life_reach :: "(int \<Rightarrow> string) \<Rightarrow> acceptor \<Rightarrow> bool" for name where
  life_start: "Loop_new me efd = Inr l0 \<Longrightarrow> TcpServer_start so fd bind_ret loc listen_ret (TcpServer_new l0) = Inr (True, l) \<Longrightarrow>
    life_reach name (app_of l)"
| life_next: "life_reach name a \<Longrightarrow> kernel_ok i a \<Longrightarrow> one_client i a \<Longrightarrow> life_turn name i a = Inr a' \<Longrightarrow> life_reach name a'"

lemma life_reach_inv: "life_reach name a \<Longrightarrow> life_inv name a"
proof (induction rule: life_reach.induct)
  case (life_start me efd l0 so fd bind_ret loc listen_ret l)
  from started_state [OF life_start] obtain s where "objs l = [\<lparr>ev_fd = getFd s, ev_added = True, ev_oneshot = False,
      ev_revents = 0, ev_index = kAdded, ev_events = kReadEvent, ev_locked = False, ev_reader = True, ev_writer = False,
      ev_closer = False, ev_catcher = False\<rparr>]" "s_conns l = []" "s_ac_event l = Some 0" "s_ac_sock l = Some s" by metis
  with started [OF life_start] show ?case by (simp add: life_inv_def base_inv_def app_of_def ev_at_def)
next
  case (life_next a i a')
  from life_turn_safe [OF life_next.IH life_next.hyps(2,3)] life_next.hyps(4) show ?case by auto
qed

text \<open>The whole server on its loop, each turn with one client at a time: its states are those of \<open>life_reach\<close>.\<close>

inductive server_reach :: "(int \<Rightarrow> string) \<Rightarrow> server \<Rightarrow> bool" for name where
  boot: "Loop_new me efd = Inr l0 \<Longrightarrow> TcpServer_start so fd bind_ret loc listen_ret (TcpServer_new l0) = Inr (True, l) \<Longrightarrow>
    server_reach name l"
| turn: "server_reach name l \<Longrightarrow> kernel_ok i (app_of l) \<Longrightarrow> one_client i (app_of l) \<Longrightarrow> server_turn name i l = Inr l' \<Longrightarrow>
    server_reach name l'"

lemma server_turn_life:
  assumes "life_inv name (app_of l)" "kernel_ok i (app_of l)" "one_client i (app_of l)"
  shows "\<exists>l'. server_turn name i l = Inr l' \<and> life_turn name i (app_of l) = Inr (app_of l') \<and> life_inv name (app_of l')"
proof -
  from life_turn_safe [OF assms] obtain a' where
    a': "life_turn name i (app_of l) = Inr a'" "app_turn name i (app_of l) = Inr a'" "life_inv name a'" by blast
  with server_turn_view [of name i l] show ?thesis by (cases "server_turn name i l") auto
qed

lemma server_reach_life: "server_reach name l \<Longrightarrow> life_reach name (app_of l)"
proof (induction rule: server_reach.induct)
  case (boot me efd l0 so fd bind_ret loc listen_ret l)
  then show ?case by (rule life_start)
next
  case (turn l i l')
  from server_turn_life [OF life_reach_inv [OF turn.IH] turn.hyps(2,3)] turn.hyps(4)
  have "life_turn name i (app_of l) = Inr (app_of l')" by auto
  with turn show ?case by (metis life_next)
qed

lemma registered_while_connected:
  assumes inv: "srv_inv a" and c: "c < length (conns a)"
  shows "fdEventMaps a (ev_fd (ev_at (tc_event (conn_at c a)) a)) = Some (tc_event (conn_at c a)) \<longleftrightarrow>
    tc_state (conn_at c a) = CsConnected \<or> TDisconnect c \<in> set (loop_tasks a)"
proof -
  have "poller_inv a" using inv by (simp add: srv_inv_def)
  from registered_iff [OF this conn_okD(1) [OF inv c]] conn_okD(3-6) [OF inv c] show ?thesis
    by (cases "tc_state (conn_at c a)") (auto split: if_splits)
qed

section \<open>Evicted connections\<close>

text \<open>A turn in which the acceptor is reported first and the kernel has a connection for it.\<close>

lemma accepting_turn:
  assumes inv: "life_inv name a" and e: "ac_event a = Some e" and i: "t_ready i = Some ((e, EPOLLIN) # r)" "0 < t_accept i"
    and ok: "kernel_ok i a"
  obtains a2 s a1 where "turn_prefix i a = Inr a2" "life_inv name a2" "activeEvents a2 = e # map fst r"
    "\<not> dangling e a2" "life_event name i e a2 = Inr a1" "getFd s = t_accept i" "fdEventMaps a2 (getFd s) = None"
    "server_newConnection name s a2 = Inr a1" "srv_inv a1" "t_accept i \<notin> open_fds a2"
    "\<forall>c < length (conns a). tc_state (conn_at c a2) = tc_state (conn_at c a) \<and>
       tc_event (conn_at c a2) = tc_event (conn_at c a) \<and> tc_socket (conn_at c a2) = tc_socket (conn_at c a)"
    "length (conns a2) = length (conns a)" "ac_event a1 = Some e" "base_inv name a1"
proof -
  have rep: "reports_ok i a" using ok by (simp add: kernel_ok_def)
  from base_prefix [OF life_invD(1) [OF inv] rep] obtain a2 where p: "turn_prefix i a = Inr a2" "base_inv name a2"
    "activeEvents a2 = (case t_ready i of None \<Rightarrow> [] | Some r \<Rightarrow> map fst r)"
    "\<forall>(e, re) \<in> set (case t_ready i of None \<Rightarrow> [] | Some r \<Rightarrow> r). ev_revents (ev_at e a2) = re"
    "ac_event a2 = ac_event a" "length (conns a2) = length (conns a)" "connections a2 = connections a"
    "\<forall>c < length (conns a). tc_state (conn_at c a2) = tc_state (conn_at c a) \<and> tc_name (conn_at c a2) = tc_name (conn_at c a) \<and>
       tc_event (conn_at c a2) = tc_event (conn_at c a) \<and> tc_socket (conn_at c a2) = tc_socket (conn_at c a)" by metis
  have a2: "turn_prefix i a = Inr a2" "base_inv name a2" "activeEvents a2 = e # map fst r" "ev_revents (ev_at e a2) = EPOLLIN"
    "ac_event a2 = Some e" "length (conns a2) = length (conns a)"
    "\<forall>c < length (conns a). tc_state (conn_at c a2) = tc_state (conn_at c a) \<and>
       tc_event (conn_at c a2) = tc_event (conn_at c a) \<and> tc_socket (conn_at c a2) = tc_socket (conn_at c a)"
    using p i(1) e by simp_all
  from life_prefix [OF inv rep] a2(1) have inv2: "life_inv name a2" by auto
  have closed: "t_accept i \<notin> open_fds a2" using ok a2(1) by (simp add: kernel_ok_def)
  have free: "fdEventMaps a2 (t_accept i) = None" by (rule closed_not_registered [OF inv2 closed])
  from base_invD(1) [OF a2(2)] obtain ls where ls: "ac_sock a2 = Some ls" by (rule acceptorE)
  have due: "cb_due CbRead (ev_at e a2)" "\<not> ev_locked (ev_at e a2)"
    using base_invD(6) [OF a2(2,5) ls] a2(4)
    by (simp_all add: cb_due_def EPOLLIN_def EPOLLPRI_def EPOLLRDHUP_def)
  from accept_dispatch [OF base_invD(1) [OF a2(2)] a2(5), of i name] free due i(2) obtain a1 s where
    "handleEvent (server_cb name i) e a2 = Inr a1" "srv_inv a1" "getFd s = t_accept i" "server_newConnection name s a2 = Inr a1"
    by auto
  note a1 = this
  have "fdEventMaps a2 (getFd s) = None" using free a1(3) by simp
  then have "base_inv name a1" by (rule base_inv_accept [OF a2(2) a1(4) _ a1(2)])
  moreover have "ac_event a1 = Some e"
    using accept_one_more [OF a1(4)] more_acceptor_net(2) [of a1 a2] a2(5) by (simp add: one_more_def)
  ultimately show ?thesis using a1 a2 inv2 closed free acceptor_not_dangling [OF base_invD(1) [OF a2(2)] a2(5)]
    by (intro that [of a2 a1 s]) (simp_all add: life_event_def)
qed

text \<open>The connection that the map held is destroyed by it, although it is connected.\<close>

lemma evicted:
  assumes inv: "life_inv name a" and c: "c < length (conns a)" "tc_state (conn_at c a) = CsConnected"
    and q: "server_newConnection name s a = Inr a'" "fdEventMaps a (getFd s) = None"
  shows "conn_at c a' = conn_at c a" "\<not> live c a'" "dangling (tc_event (conn_at c a)) a'"
proof -
  note new = new_connection [OF q] and one = accept_one_more [OF q(1)]
  show at: "conn_at c a' = conn_at c a" using one c(1) by (simp add: one_more_def)
  have "TDisconnect c \<notin> set (loop_tasks a)" using conn_okD(3) [OF life_invD(3) [OF inv] c] by blast
  then show dead: "\<not> live c a'"
    using at new(2,3) base_invD(4) [OF life_invD(1) [OF inv] c(1)] c(1) by (simp add: live_def)
  show "dangling (tc_event (conn_at c a)) a'" using at dead c(1) one by (auto simp: dangling_def one_more_def)
qed

lemma closed_by_eviction:
  assumes inv: "base_inv name a" and c: "c < length (conns a)" "tc_state (conn_at c a) = CsConnected"
    and held: "connections a (name (connId a)) = Some d" "d \<noteq> c" "getFd (tc_socket (conn_at d a)) \<noteq> getFd (tc_socket (conn_at c a))"
  shows "getFd (tc_socket (conn_at c a)) \<notin> open_fds a"
proof
  let ?f = "getFd (tc_socket (conn_at c a))" and ?e = "tc_event (conn_at c a)"
  note srv = base_invD(2) [OF inv] and pinv = base_invD(3) [OF inv]
  have reg: "fdEventMaps a ?f = Some ?e"
    using poller_invD(3) [OF pinv conn_okD(1) [OF srv c(1)]] conn_okD(3) [OF srv c] base_invD(5) [OF inv c(1)] by simp
  assume "?f \<in> open_fds a"
  then consider (listen) s where "ac_sock a = Some s" "getFd s = ?f"
    | (conn) b where "b < length (conns a)" "live b a" "getFd (tc_socket (conn_at b a)) = ?f"
    by (cases "ac_sock a") (auto simp: open_fds_def)
  then show False
  proof cases
    case listen
    from base_invD(1) [OF inv] obtain ae as where ae: "ac_event a = Some ae" "ac_sock a = Some as" "ae < length (objs a)"
      "ev_index (ev_at ae a) = kAdded" "\<forall>c < length (conns a). tc_event (conn_at c a) \<noteq> ae" by (rule acceptorE)
    have "fdEventMaps a (ev_fd (ev_at ae a)) = Some ae" using poller_invD(3) [OF pinv ae(3)] ae(4) by simp
    with base_invD(6) [OF inv ae(1,2)] listen ae(2,5) c(1) reg show False by auto
  next
    case conn
    from conn(2) have "TDisconnect b \<in> set (loop_tasks a)"
      using base_invD(4) [OF inv conn(1)] held conn(3) by (auto simp: live_def)
    then have "ev_index (ev_at (tc_event (conn_at b a)) a) = kDeleted" "b \<noteq> c"
      using conn_okD(3-6) [OF srv conn(1)] conn_okD(3) [OF srv c] by (cases "tc_state (conn_at b a)"; auto)+
    then have "fdEventMaps a (ev_fd (ev_at (tc_event (conn_at b a)) a)) = Some (tc_event (conn_at b a))"
      using poller_invD(3) [OF pinv conn_okD(1) [OF srv conn(1)]] by simp
    with reg base_invD(5) [OF inv conn(1)] conn(3) have "tc_event (conn_at b a) = ?e" by simp
    with srv conn(1) c(1) \<open>b \<noteq> c\<close> show False unfolding srv_inv_def by blast
  qed
qed

text \<open>A connection on a descriptor that the poller still has fails the assertion of \<open>updateEvent\<close>.\<close>

lemma new_connection_clash:
  fixes n :: "'a net_scheme"
  assumes clash: "fdEventMaps n (getFd s) \<noteq> None"
  shows "server_newConnection name s n = Inl AssertFailed"
proof -
  let ?c = "length (conns n)" and ?e = "length (objs n)"
  define m where "m = (TcpConnection_new s (name (connId n)) n)\<lparr>connections := (connections n)(name (connId n) \<mapsto> ?c)\<rparr>"
  define m2 where "m2 = set_state ?c CsConnected m"
  note frame = TcpConnection_new_frame [where s = s and name = "name (connId n)" and n = n]
  have m: "conn_at ?c m = \<lparr>tc_state = CsConnecting, tc_socket = s, tc_name = name (connId n), tc_event = ?e,
      read_buffer = ByteBuf_new, write_buffer = ByteBuf_new\<rparr>"
    "server_newConnection name s n = tc_connectFinished ?c m"
    by (simp_all add: conn_at_def m_def frame server_newConnection_def Let_def)
  have m2: "?e < length (objs m2)" "ev_index (ev_at ?e m2) = kNew" "ev_fd (ev_at ?e m2) = getFd s" "fdEventMaps m2 = fdEventMaps n"
    using frame by (simp_all add: m2_def m_def set_state_def upd_conn_def ev_at_def)
  from clash obtain d where "fdEventMaps n (getFd s) = Some d" by auto
  with m2 have "enableReading ?e m2 = Inl AssertFailed"
    by (simp add: enableReading_def EpollFdEvent_update_def Poller_updateEvent_def Let_def with_events_def)
  then show ?thesis using m by (simp add: tc_connectFinished_def m2_def)
qed

lemma accept_clash:
  assumes inv: "base_inv name a" and e: "ac_event a = Some e" "ev_revents (ev_at e a) = EPOLLIN" and pos: "0 < t_accept i"
    and clash: "fdEventMaps a (t_accept i) \<noteq> None"
  shows "life_event name i e a = Inl AssertFailed"
proof -
  from base_invD(1) [OF inv] obtain ls where ls: "ac_sock a = Some ls" by (rule acceptorE)
  from pos obtain s where s: "Socket_accept (t_opt i) (t_local i) (t_peer i) (t_accept i) ls = Some s" by (simp add: Socket_accept_def)
  note fd = accepted_fd [OF s]
  have "server_cb name i CbRead e a = Inl AssertFailed"
    using s fd e ls pos clash new_connection_clash [of a s name] by (simp add: server_cb_def Acceptor_handleRead_def)
  moreover have "server_cb name i x e a = Inr a" if "x \<noteq> CbRead" for x using that e(1) by (simp add: server_cb_def)
  ultimately have "handleEvent (server_cb name i) e a = Inl AssertFailed"
    using base_invD(6) [OF inv e(1) ls] e(2)
    by (simp add: handleEvent_def handleLockEvent_def cb_due_def EPOLLIN_def EPOLLPRI_def EPOLLRDHUP_def EPOLLHUP_def EPOLLERR_def)
  then show ?thesis using acceptor_not_dangling [OF base_invD(1) [OF inv] e(1)] by (simp add: life_event_def)
qed

text \<open>A turn in which \<open>accept\<close> returns the descriptor of a connection that is connected but no longer held.\<close>

lemma stale_descriptor_turn:
  assumes inv: "base_inv name a" and e: "ac_event a = Some e" and c: "c < length (conns a)" "tc_state (conn_at c a) = CsConnected"
    and held: "connections a (name (connId a)) = Some d" "d < length (conns a)" "d \<noteq> c"
      "getFd (tc_socket (conn_at d a)) \<noteq> getFd (tc_socket (conn_at c a))"
    and j: "t_ready j = Some [(e, EPOLLIN)]" "t_accept j = getFd (tc_socket (conn_at c a))" "0 < t_accept j" "t_recv j = (\<lambda>_. Failed)"
  shows "kernel_ok j a" "life_turn name j a = Inl AssertFailed"
proof -
  let ?f = "t_accept j"
  note app = base_invD(1) [OF inv]
  have rep: "reports_ok j a"
    using app e j(1,4) by (auto simp: reports_ok_def room_def report_ok_def EPOLLIN_def EPOLLHUP_def app_inv_def elim!: listeningE)
  from base_prefix [OF inv rep] obtain b where b: "turn_prefix j a = Inr b" "base_inv name b"
    "activeEvents b = (case t_ready j of None \<Rightarrow> [] | Some r \<Rightarrow> map fst r)"
    "\<forall>(e, re) \<in> set (case t_ready j of None \<Rightarrow> [] | Some r \<Rightarrow> r). ev_revents (ev_at e b) = re"
    "ac_event b = ac_event a" "length (conns b) = length (conns a)" "connections b = connections a" "connId b = connId a"
    "\<forall>c < length (conns a). tc_state (conn_at c b) = tc_state (conn_at c a) \<and> tc_name (conn_at c b) = tc_name (conn_at c a) \<and>
       tc_event (conn_at c b) = tc_event (conn_at c a) \<and> tc_socket (conn_at c b) = tc_socket (conn_at c a)" by metis
  have cb: "c < length (conns b)" "tc_state (conn_at c b) = CsConnected" "getFd (tc_socket (conn_at c b)) = ?f"
    using b(6,9) c j(2) by simp_all
  have "?f \<notin> open_fds b"
    using closed_by_eviction [OF b(2) cb(1,2), of d] held b(7-9) cb(3) j(2) by simp
  with rep b(1) show "kernel_ok j a" by (simp add: kernel_ok_def)
  have "fdEventMaps b ?f \<noteq> None"
    using poller_invD(3) [OF base_invD(3) [OF b(2)] conn_okD(1) [OF base_invD(2) [OF b(2)] cb(1)]]
      conn_okD(3) [OF base_invD(2) [OF b(2)] cb(1,2)] base_invD(5) [OF b(2) cb(1)] cb(3) by simp
  then have "life_event name j e b = Inl AssertFailed"
    using accept_clash [OF b(2)] b(4,5) e j(1,3) by simp
  then show "life_turn name j a = Inl AssertFailed"
    using b(1,3) j(1) acceptor_not_dangling [OF app e] by (simp add: life_turn_def)
qed

section \<open>Properties\<close>

text \<open>C4: A started server on its loop that has one client at a time (a connection is accepted only in a turn
  that begins with none connected): in every state that its turns reach the next turn succeeds, so that no
  assertion of the poller or of a connection fails, and is the turn in which destroyed connections are
  really gone. The calls of \<open>epoll_ctl\<close> stay legal, the acceptor keeps listening, and every connection is
  registered with its own event exactly while it is connected or its \<open>disconnect\<close> waits in the loop's
  queue. Assumed of a turn: the kernel reports only events in the interest list, each once; a hang-up
  comes with \<open>EPOLLIN\<close>, as from a TCP socket, or without \<open>EPOLLPRI\<close> and \<open>EPOLLRDHUP\<close>; a descriptor that
  \<open>accept\<close> returns is not open; the user's receive callback calls \<open>send\<close> any number of times and \<open>disconnect\<close>
  at most once; and the buffers of a connection stay below \<open>2 ^ 31\<close> bytes.\<close>
theorem server_loop_safe:
  assumes "server_reach name l" "kernel_ok i (app_of l)" "one_client i (app_of l)"
  shows "(\<exists>l'. server_turn name i l = Inr l' \<and> life_turn name i (app_of l) = Inr (app_of l')) \<and>
    ctl_legal (ctl_log l) {} \<and> listening (app_of l) \<and>
    (\<forall>c < length (s_conns l). let t = s_conns l ! c; e = tc_event t in
       fdEventMaps l (ev_fd (ev_at e l)) = Some e \<longleftrightarrow> tc_state t = CsConnected \<or> TDisconnect c \<in> set (taskQueue l))"
proof -
  have inv: "life_inv name (app_of l)" by (rule life_reach_inv [OF server_reach_life [OF assms(1)]])
  note app = life_invD(2) [OF inv] and srv = life_invD(3) [OF inv]
  have view: "fdEventMaps (app_of l) = fdEventMaps l" "ctl_log (app_of l) = ctl_log l" "conns (app_of l) = s_conns l"
    "conn_at c (app_of l) = s_conns l ! c" "ev_at e (app_of l) = ev_at e l" "loop_tasks (app_of l) = taskQueue l" for c e
    by (simp_all add: app_of_def conn_at_def ev_at_def)
  have "ctl_legal (ctl_log l) {}" using poller_invD(5) [OF base_invD(3) [OF life_invD(1) [OF inv]]] view(2) by auto
  with server_turn_life [OF inv assms(2,3)] app registered_while_connected [OF srv] show ?thesis
    by (auto simp: app_inv_def Let_def view)
qed

text \<open>C5: \<open>runLoop\<close> of a started server serves for ever: if in every turn that is reached the outside is as C4
  assumes it and one client at a time is served, then the call neither fails nor returns, and all its
  turns, each the turn in which destroyed connections are really gone, succeed one after the other.\<close>
theorem server_serves_for_ever:
  assumes "server_reach name l" "0 \<le> epollFd l" "ThreadPool_init (threadPool l) = Inr pool"
    "\<And>n k. after_turns name i n (l\<lparr>keepRunning := True, threadPool := pool\<rparr>) = Inr k \<Longrightarrow>
      kernel_ok (i n) (app_of k) \<and> one_client (i n) (app_of k)"
  shows "server_runLoop name i KForever l = None \<and>
    (\<forall>n. \<exists>k k'. after_turns name i n (l\<lparr>keepRunning := True, threadPool := pool\<rparr>) = Inr k \<and>
       server_turn name (i n) k = Inr k' \<and> life_turn name (i n) (app_of k) = Inr (app_of k'))"
proof -
  let ?l = "l\<lparr>keepRunning := True, threadPool := pool\<rparr>"
  let ?I = "\<lambda>n k. after_turns name i n ?l = Inr k \<and> life_inv name (app_of k) \<and> keepRunning k"
  have start: "?I 0 ?l" using life_reach_inv [OF server_reach_life [OF assms(1)]] by simp
  have step: "\<exists>k'. server_turn name (i n) k = Inr k' \<and> life_turn name (i n) (app_of k) = Inr (app_of k') \<and> ?I (Suc n) k'"
    if k: "?I n k" for n k
  proof -
    from k assms(4) have "kernel_ok (i n) (app_of k)" "one_client (i n) (app_of k)" by blast+
    from server_turn_life [OF _ this, of name] k obtain k' where
      k': "server_turn name (i n) k = Inr k'" "life_turn name (i n) (app_of k) = Inr (app_of k')" "life_inv name (app_of k')" by blast
    with k server_turn_keeps [OF k'(1)] show ?thesis by simp
  qed
  have "loop_while (\<lambda>n x e. on_app (server_cb name (i n) x e)) (\<lambda>n t. on_app (server_task t)) (\<lambda>n. t_ready (i n)) 0 ?l = None"
  proof (rule loop_while_None [where I = ?I, OF _ start])
    fix n k assume "?I n k"
    from step [OF this] show "\<exists>k'. loop_turn (\<lambda>x e. on_app (server_cb name (i n) x e)) (\<lambda>t. on_app (server_task t)) (t_ready (i n)) k = Inr k' \<and>
        keepRunning k' \<and> ?I (Suc n) k'" by (auto simp: server_turn_def)
  qed
  moreover have "\<exists>k. ?I n k" for n
  proof (induction n)
    case (Suc n)
    then obtain k where "?I n k" by blast
    from step [OF this] show ?case by blast
  qed (use start in blast)
  ultimately show ?thesis using assms(2,3) step by (simp add: server_runLoop_def runLoop_def) blast
qed

text \<open>C7: A server that has one client at a time uses no object after its destruction: in every state that its
  loop reaches the next turn succeeds, does what it does when connections are never destroyed, and every
  event that the poller has registered belongs to an object that is alive and to a descriptor that is
  open. All that is assumed of \<open>accept\<close> is that the descriptor it returns is not open; the reports and the
  room in the buffers are as in C4.\<close>
theorem one_client_server_safe:
  assumes "life_reach name a" "kernel_ok i a" "one_client i a"
  shows "(\<exists>a'. life_turn name i a = Inr a' \<and> app_turn name i a = Inr a') \<and>
    (\<forall>f e. fdEventMaps a f = Some e \<longrightarrow> f \<in> open_fds a \<and> \<not> dangling e a)"
proof -
  have inv: "life_inv name a" by (rule life_reach_inv [OF assms(1)])
  from life_turn_safe [OF this assms(2,3)] registered_live [OF inv] show ?thesis by blast
qed

text \<open>C8: Two clients at a time are enough to end the server. All connections have the same name: the second
  evicts the first, whose descriptor is closed while its event stays in the poller's map. When the next
  \<open>accept\<close> returns this descriptor, as the kernel may since it is not open, the assertion of
  \<open>updateEvent\<close> fails.\<close>
theorem third_connection_fails:
  assumes "life_reach name a" "c < length (conns a)" "tc_state (conn_at c a) = CsConnected" "ac_event a = Some e"
    "t_ready i = Some [(e, EPOLLIN)]" "0 < t_accept i" "kernel_ok i a"
    "t_ready j = Some [(e, EPOLLIN)]" "t_accept j = getFd (tc_socket (conn_at c a))" "0 < t_accept j" "t_recv j = (\<lambda>_. Failed)"
  shows "\<exists>a'. life_turn name i a = Inr a' \<and> t_accept j \<notin> open_fds a' \<and> kernel_ok j a' \<and> life_turn name j a' = Inl AssertFailed"
proof -
  let ?f = "t_accept j"
  have inv: "life_inv name a" by (rule life_reach_inv [OF assms(1)])
  obtain a2 s a1 where a2: "turn_prefix i a = Inr a2" "life_inv name a2"
    "activeEvents a2 = e # map fst ([] :: (nat \<times> 32 word) list)" "\<not> dangling e a2" "life_event name i e a2 = Inr a1" "getFd s = t_accept i"
    "fdEventMaps a2 (getFd s) = None" "server_newConnection name s a2 = Inr a1" "srv_inv a1" "t_accept i \<notin> open_fds a2"
    "\<forall>c < length (conns a). tc_state (conn_at c a2) = tc_state (conn_at c a) \<and>
       tc_event (conn_at c a2) = tc_event (conn_at c a) \<and> tc_socket (conn_at c a2) = tc_socket (conn_at c a)"
    "length (conns a2) = length (conns a)" "ac_event a1 = Some e" "base_inv name a1" by (rule accepting_turn [OF inv assms(4,5,6,7)])
  let ?d = "length (conns a2)"
  have c2: "c < ?d" "tc_state (conn_at c a2) = CsConnected" "getFd (tc_socket (conn_at c a2)) = ?f"
    using a2(11,12) assms(2,3,9) by simp_all
  have "live c a2" using life_invD(4) [OF a2(2) c2(1,2)] by (simp add: live_def)
  with live_open [OF c2(1)] have other: "t_accept i \<noteq> ?f" using a2(10) c2(3) by auto
  have rep: "reports_ok i a" using assms(7) by (simp add: kernel_ok_def)
  have turn: "life_turn name i a = Inr a1"
    using a2(1,3,5) reported_live [OF inv rep] unfolding life_turn_def by simp
  note new = new_connection [OF a2(8,7)] and evict = evicted [OF a2(2) c2(1,2) a2(8,7)] and app = base_invD(1) [OF a2(14)]
  have c1: "c < length (conns a1)" "tc_state (conn_at c a1) = CsConnected" "getFd (tc_socket (conn_at c a1)) = ?f" "?d < length (conns a1)"
    using c2 evict(1) accept_one_more [OF a2(8)] by (simp_all add: one_more_def)
  have held: "connections a1 (name (connId a1)) = Some ?d" "getFd (tc_socket (conn_at ?d a1)) = t_accept i"
    using new(1,2,4) a2(6) by simp_all
  have closed: "?f \<notin> open_fds a1"
    using closed_by_eviction [OF a2(14) c1(1,2) held(1)] held(2) c1(3) c2(1) other by simp
  from stale_descriptor_turn [OF a2(14,13) c1(1,2) held(1) c1(4), of j] held(2) c1(3) c2(1) other assms(8-11) turn closed
  show ?thesis by auto
qed

text \<open>C11: The order of the reports matters as well: when the acceptor comes before a connected connection in the
  same turn, the connection that it accepts destroys the connected one, and the loop then calls
  \<open>handleEvent\<close> of an event that no longer exists.\<close>
theorem evicted_event_used:
  assumes "life_reach name a" "c < length (conns a)" "tc_state (conn_at c a) = CsConnected" "ac_event a = Some e"
    "t_ready i = Some [(e, EPOLLIN), (tc_event (conn_at c a), re)]" "0 < t_accept i" "kernel_ok i a"
  shows "life_turn name i a = Inl Undefined"
proof -
  have inv: "life_inv name a" by (rule life_reach_inv [OF assms(1)])
  obtain a2 s a1 where a2: "turn_prefix i a = Inr a2" "life_inv name a2"
    "activeEvents a2 = e # map fst [(tc_event (conn_at c a), re)]" "\<not> dangling e a2" "life_event name i e a2 = Inr a1" "getFd s = t_accept i"
    "fdEventMaps a2 (getFd s) = None" "server_newConnection name s a2 = Inr a1" "srv_inv a1" "t_accept i \<notin> open_fds a2"
    "\<forall>c < length (conns a). tc_state (conn_at c a2) = tc_state (conn_at c a) \<and>
       tc_event (conn_at c a2) = tc_event (conn_at c a) \<and> tc_socket (conn_at c a2) = tc_socket (conn_at c a)"
    "length (conns a2) = length (conns a)" "ac_event a1 = Some e" "base_inv name a1" by (rule accepting_turn [OF inv assms(4,5,6,7)])
  have c2: "c < length (conns a2)" "tc_state (conn_at c a2) = CsConnected" "tc_event (conn_at c a2) = tc_event (conn_at c a)"
    using a2(11,12) assms(2,3) by simp_all
  have "dangling (tc_event (conn_at c a)) a1" using evicted(3) [OF a2(2) c2(1,2) a2(8,7)] c2(3) by simp
  moreover have "reports_ok i a" using assms(7) by (simp add: kernel_ok_def)
  ultimately show ?thesis
    using a2(1,3,5) reported_live [OF inv] by (simp add: life_turn_def life_event_def [of _ _ "tc_event (conn_at c a)"])
qed

section \<open>Samples\<close>

definition sample_served :: acceptor where
  "sample_served = \<lparr>objs = [\<lparr>ev_fd = 4, ev_added = True, ev_oneshot = False, ev_revents = EPOLLIN, ev_index = kAdded,
      ev_events = kReadEvent, ev_locked = False, ev_reader = True, ev_writer = False, ev_closer = False, ev_catcher = False\<rparr>,
      \<lparr>ev_fd = 9, ev_added = True, ev_oneshot = False, ev_revents = 0, ev_index = kAdded, ev_events = kReadEvent,
       ev_locked = False, ev_reader = True, ev_writer = True, ev_closer = True, ev_catcher = True\<rparr>],
     fdEventMaps = [4 \<mapsto> 0, 9 \<mapsto> 1], buf_size = 256, ctl_log = [(CtlAdd, 4, kReadEvent, 0), (CtlAdd, 9, kReadEvent, 1)],
     activeEvents = [0], conns = [\<lparr>tc_state = CsConnected, tc_socket = \<lparr>sock_fd = 9, sock_connected = True, sock_type = TCP,
       sock_protocol = IPv4, localAddress = None, remoteAddress = None\<rparr>, tc_name = ''s'', tc_event = 1,
       read_buffer = ByteBuf_new, write_buffer = ByteBuf_new\<rparr>],
     loop_tasks = [], sent_log = [], user_log = [UConnected 0], connections = [''s'' \<mapsto> 0], connId = 1, ac_state = AcStarted,
     ac_event = Some 0, ac_sock = Some (CreateTcpSocket (\<lambda>_ _. True) 4), srv_started = True\<rparr>"

lemma sample_life_turn:
  "life_turn (\<lambda>_. ''s'') (sample_in [(0, EPOLLIN)] 9 rx) sample_app = Inr sample_served"
  by (simp add: life_turn_def life_event_def dangling_def turn_prefix_def sample_in_def sample_app_def sample_served_def Poller_poll_def
      fillActiveEvents_def run_loop_task_def
      handleEvent_def handleLockEvent_def cb_due_def EPOLLIN_def EPOLLHUP_def EPOLLERR_def EPOLLPRI_def EPOLLRDHUP_def
      server_cb_def Acceptor_handleRead_def Socket_accept_def CreateTcpSocket_def newSocket_def Socket_new_def Socket_init_def
      getPeerAddress_def getLocalAddress_def getFd_def server_newConnection_def TcpConnection_new_def tc_connectFinished_def
      poll_run conn_at_def set_state_def upd_conn_def)

lemma sample_kernel_ok:
  "kernel_ok (sample_in [(0, EPOLLIN)] 9 rx) sample_app" "one_client (sample_in [(0, EPOLLIN)] 9 rx) sample_app"
  "kernel_ok (sample_in [(0, EPOLLIN)] 10 Failed) sample_served"
  "kernel_ok (sample_in [(0, EPOLLIN), (1, EPOLLIN)] 10 Failed) sample_served"
  by (simp_all add: kernel_ok_def one_client_def open_fds_def live_def reports_ok_def turn_prefix_def Poller_poll_def fillActiveEvents_def
      run_loop_task_def Let_def upd_ev_def sample_in_def sample_app_def sample_served_def ev_at_def report_ok_def EPOLLIN_def EPOLLHUP_def room_def
      CreateTcpSocket_def newSocket_def Socket_new_def getFd_def conn_at_def)

lemma sample_life: "life_reach (\<lambda>_. ''s'') sample_app" "life_reach (\<lambda>_. ''s'') sample_served"
proof -
  from sample_boot obtain l0 l where "Loop_new 0 3 = Inr l0"
    "TcpServer_start (\<lambda>_ _. True) 4 0 None 0 (TcpServer_new l0) = Inr (True, l)" "app_of l = sample_app" by blast
  then show "life_reach (\<lambda>_. ''s'') sample_app" using life_start by metis
  then show "life_reach (\<lambda>_. ''s'') sample_served"
    by (rule life_next [OF _ sample_kernel_ok(1,2) sample_life_turn])
qed

text \<open>A server that is booted, accepts a client and is idle afterwards.\<close>

lemma sample_server:
  obtains l where "server_reach (\<lambda>_. ''s'') l" "app_of l = sample_app" "epollFd l = 3"
    "\<exists>pool. ThreadPool_init (threadPool l) = Inr pool"
proof -
  from sample_boot obtain l0 l where l: "Loop_new 0 3 = Inr l0" "epollFd l = 3"
    "TcpServer_start (\<lambda>_ _. True) 4 0 None 0 (TcpServer_new l0) = Inr (True, l)" "app_of l = sample_app"
    "ThreadPool_init (threadPool l) = ThreadPool_init (threadPool l0)" by blast
  have "\<exists>pool. ThreadPool_init (threadPool l) = Inr pool"
    using l(1,5) by (auto simp: Loop_new_def ThreadPool_new_def MAX_THREAD_NUM_def ThreadPool_init_def)
  then show ?thesis by (rule that [OF boot [OF l(1,3)] l(4,2)])
qed

lemma sample_first_turn:
  assumes "app_of l = sample_app" "server_turn (\<lambda>_. ''s'') (sample_in [(0, EPOLLIN)] 9 rx) l = Inr l'"
  shows "app_of l' = sample_served"
proof -
  have "app_turn (\<lambda>_. ''s'') (sample_in [(0, EPOLLIN)] 9 rx) sample_app = Inr sample_served"
    using life_turn_safe [OF life_reach_inv [OF sample_life(1)] sample_kernel_ok(1,2), of rx] sample_life_turn by auto
  with assms server_turn_view [of "\<lambda>_. ''s''" "sample_in [(0, EPOLLIN)] 9 rx" l] show ?thesis by simp
qed

definition idle_served :: "acceptor \<Rightarrow> bool" where
  "idle_served a \<longleftrightarrow> a\<lparr>activeEvents := []\<rparr> = sample_served\<lparr>activeEvents := []\<rparr>"

lemma idle_kernel_ok:
  assumes "idle_served a"
  shows "kernel_ok (sample_in [] (- 1) EndOfStream) a" "one_client (sample_in [] (- 1) EndOfStream) a"
proof -
  have "turn_prefix (sample_in [] (- 1) EndOfStream) a = Inr (sample_served\<lparr>activeEvents := []\<rparr>)"
    using assms by (simp add: idle_served_def turn_prefix_def sample_in_def Poller_poll_def run_loop_task_def sample_served_def)
  then show "kernel_ok (sample_in [] (- 1) EndOfStream) a"
    by (simp add: kernel_ok_def reports_ok_def open_fds_def live_def room_def conn_at_def getFd_def sample_served_def
        CreateTcpSocket_def newSocket_def Socket_new_def Let_def) (simp add: sample_in_def)
qed (simp add: one_client_def)

lemma idle_served_turn:
  assumes "idle_served (app_of l)" "server_turn (\<lambda>_. ''s'') (sample_in [] (- 1) EndOfStream) l = Inr l'"
  shows "idle_served (app_of l')"
proof -
  have "app_turn (\<lambda>_. ''s'') (sample_in [] (- 1) EndOfStream) (app_of l) = Inr (sample_served\<lparr>activeEvents := []\<rparr>)"
    using assms(1) by (simp add: idle_served_def app_turn_def turn_prefix_def sample_in_def Poller_poll_def run_loop_task_def sample_served_def)
  with assms(2) server_turn_view [of "\<lambda>_. ''s''" "sample_in [] (- 1) EndOfStream" l] show ?thesis by (simp add: idle_served_def)
qed

theorem server_loop_safe_witness:
  "\<exists>l l'. server_reach (\<lambda>_. ''s'') l \<and> server_turn (\<lambda>_. ''s'') (sample_in [(0, EPOLLIN)] 9 EndOfStream) l = Inr l' \<and>
     length (s_conns l') = 1 \<and> listening (app_of l)"
proof -
  obtain l where l: "server_reach (\<lambda>_. ''s'') l" "app_of l = sample_app" by (rule sample_server)
  have "kernel_ok (sample_in [(0, EPOLLIN)] 9 EndOfStream) (app_of l)" "one_client (sample_in [(0, EPOLLIN)] 9 EndOfStream) (app_of l)"
    using sample_kernel_ok(1,2) l(2) by simp_all
  from server_loop_safe [OF l(1) this] obtain l' where
    l': "server_turn (\<lambda>_. ''s'') (sample_in [(0, EPOLLIN)] 9 EndOfStream) l = Inr l'" "listening (app_of l)" by blast
  have "length (conns (app_of l')) = 1" using sample_first_turn [OF l(2) l'(1)] by (simp add: sample_served_def)
  with l(1) l' show ?thesis by (auto simp: app_of_def)
qed

theorem server_serves_for_ever_witness:
  "\<exists>l. server_reach (\<lambda>_. ''s'') l \<and>
     server_runLoop (\<lambda>_. ''s'') (\<lambda>n. if n = 0 then sample_in [(0, EPOLLIN)] 9 EndOfStream else sample_in [] (- 1) EndOfStream)
       KForever l = None"
proof -
  let ?i = "\<lambda>n :: nat. if n = 0 then sample_in [(0, EPOLLIN)] 9 EndOfStream else sample_in [] (- 1) EndOfStream"
  obtain l where l: "server_reach (\<lambda>_. ''s'') l" "app_of l = sample_app" "epollFd l = 3"
    "\<exists>pool. ThreadPool_init (threadPool l) = Inr pool" by (rule sample_server)
  then obtain pool where pool: "ThreadPool_init (threadPool l) = Inr pool" by blast
  let ?l = "l\<lparr>keepRunning := True, threadPool := pool\<rparr>"
  have later: "idle_served (app_of k)" if "after_turns (\<lambda>_. ''s'') ?i (Suc n) ?l = Inr k" for n k
    using that
  proof (induction n arbitrary: k)
    case 0
    then have "server_turn (\<lambda>_. ''s'') (sample_in [(0, EPOLLIN)] 9 EndOfStream) ?l = Inr k" by simp
    from sample_first_turn [OF _ this] l(2) show ?case by (simp add: idle_served_def)
  next
    case (Suc n)
    then obtain k1 where "after_turns (\<lambda>_. ''s'') ?i (Suc n) ?l = Inr k1"
      "server_turn (\<lambda>_. ''s'') (sample_in [] (- 1) EndOfStream) k1 = Inr k"
      unfolding after_turns.simps(2) [of _ _ "Suc n"] r_bind_eq_Inr by auto
    with Suc.IH [of k1] idle_served_turn show ?case by blast
  qed
  have "kernel_ok (?i n) (app_of k) \<and> one_client (?i n) (app_of k)" if "after_turns (\<lambda>_. ''s'') ?i n ?l = Inr k" for n k
  proof (cases n)
    case 0
    with that have "k = ?l" by simp
    then have "app_of k = sample_app" using l(2) by simp
    with 0 sample_kernel_ok(1,2) show ?thesis by simp
  next
    case (Suc m)
    with later [of m k] that idle_kernel_ok show ?thesis by simp
  qed
  with server_serves_for_ever [OF l(1) _ pool, of ?i] l(1,3) show ?thesis by auto
qed

theorem one_client_server_safe_witness:
  "\<exists>a. life_turn (\<lambda>_. ''s'') (sample_in [(0, EPOLLIN)] 9 EndOfStream) sample_app = Inr a \<and> 4 \<in> open_fds sample_app \<and>
     \<not> dangling 0 sample_app"
  using one_client_server_safe [OF sample_life(1) sample_kernel_ok(1,2), of EndOfStream] by (auto simp: sample_app_def)

theorem third_connection_fails_witness:
  "\<exists>a. life_turn (\<lambda>_. ''s'') (sample_in [(0, EPOLLIN)] 10 Failed) sample_served = Inr a \<and> 9 \<notin> open_fds a \<and>
     life_turn (\<lambda>_. ''s'') (sample_in [(0, EPOLLIN)] 9 Failed) a = Inl AssertFailed"
proof -
  have "t_accept (sample_in [(0, EPOLLIN)] 9 Failed) = 9" by (simp add: sample_in_def)
  moreover have "length (conns sample_served) = 1" "tc_state (conn_at 0 sample_served) = CsConnected"
    "ac_event sample_served = Some 0" "getFd (tc_socket (conn_at 0 sample_served)) = 9"
    by (simp_all add: sample_served_def conn_at_def getFd_def)
  ultimately show ?thesis
    using third_connection_fails [OF sample_life(2), of 0 0 "sample_in [(0, EPOLLIN)] 10 Failed" "sample_in [(0, EPOLLIN)] 9 Failed"]
      sample_kernel_ok(3) by (auto simp: sample_in_def)
qed

theorem evicted_event_used_witness:
  "life_turn (\<lambda>_. ''s'') (sample_in [(0, EPOLLIN), (1, EPOLLIN)] 10 Failed) sample_served = Inl Undefined"
  by (rule evicted_event_used [OF sample_life(2), of 0 0 _ EPOLLIN])
    (use sample_kernel_ok(4) in \<open>simp_all add: sample_served_def sample_in_def conn_at_def\<close>)

end
