(* ===== verification/ServerAnswers.thy ===== *)
theory ServerAnswers
  imports ServerLife
begin

text \<open>
  What a server that has one client at a time sends. The user's receive callback is a function of the
  bytes of one \<open>recv\<close>, the same in every turn; \<open>replies\<close> are the bytes that it asks to send in answer to all
  that a connection has received. The bytes that were passed to \<open>::send\<close> for a connection (\<open>handed\<close>) are a
  beginning of its replies, and while it is connected what is missing is exactly what waits in its write
  buffer. What \<open>::send\<close> does with the bytes is not part of this: \<open>handleWrite\<close> takes all of them out of the
  buffer even when \<open>::send\<close> accepted fewer or failed.
\<close>

section \<open>Replies\<close>

fun act_bytes :: "user_act \<Rightarrow> bytes" where
  "act_bytes (USend m) = m"
| "act_bytes UDisconnect = []"

definition acts_bytes :: "user_act list \<Rightarrow> bytes" where
  "acts_bytes xs = concat (map act_bytes xs)"

definition replies :: "(nat \<Rightarrow> bytes \<Rightarrow> user_act list) \<Rightarrow> nat \<Rightarrow> 'a net_scheme \<Rightarrow> bytes" where
  "replies react c n = concat (map (\<lambda>b. acts_bytes (react c b)) (received c n))"

definition answered :: "bytes \<Rightarrow> nat \<Rightarrow> 'a net_scheme \<Rightarrow> bool" where
  "answered rs c n \<longleftrightarrow> (\<exists>rest. rs = handed c n @ rest) \<and>
     (tc_state (conn_at c n) = CsConnected \<longrightarrow> isConnected (tc_socket (conn_at c n)) \<and> handed c n @ pending c n = rs \<and>
        (pending c n \<noteq> [] \<longrightarrow> isWriting (ev_at (tc_event (conn_at c n)) n)) \<and>
        ev_writer (ev_at (tc_event (conn_at c n)) n) \<and> \<not> ev_locked (ev_at (tc_event (conn_at c n)) n))"

definition answers :: "(nat \<Rightarrow> bytes \<Rightarrow> user_act list) \<Rightarrow> 'a net_scheme \<Rightarrow> bool" where
  "answers react n \<longleftrightarrow> (\<forall>c < length (conns n). answered (replies react c n) c n) \<and>
     (\<forall>c \<ge> length (conns n). handed c n = [] \<and> received c n = [])"

text \<open>What the operations of connection \<open>c\<close> do to the history of the others.\<close>

definition logs_only :: "nat \<Rightarrow> 'a net_scheme \<Rightarrow> 'a net_scheme \<Rightarrow> bool" where
  "logs_only c n n' \<longleftrightarrow> (\<forall>d. d \<noteq> c \<longrightarrow> handed d n' = handed d n \<and> received d n' = received d n)"

lemma logs_only_trans: "logs_only c n m \<Longrightarrow> logs_only c m n' \<Longrightarrow> logs_only c n n'"
  by (simp add: logs_only_def)

lemma same_logs:
  assumes "sent_log n' = sent_log n" "user_log n' = user_log n"
  shows "handed d n' = handed d n" "received d n' = received d n" "logs_only c n n'" "replies react d n' = replies react d n"
  using assms by (simp_all add: handed_def received_def logs_only_def replies_def)

section \<open>The history of each operation\<close>

lemma update_more: "EpollFdEvent_update e p = Inr q \<Longrightarrow> poller.more q = poller.more p"
  by (auto simp: EpollFdEvent_update_def Poller_updateEvent_def Let_def r_bind_eq_Inr setIndex_ev_def Poller_update_def
      upd_ev_def split: if_splits)

lemma remove_more: "EpollFdEvent_remove e p = Inr q \<Longrightarrow> poller.more q = poller.more p"
  by (auto simp: EpollFdEvent_remove_def Poller_removeEvent_def Let_def r_bind_eq_Inr setIndex_ev_def Poller_update_def
      upd_ev_def split: if_splits)

lemma with_events_more: "poller.more (with_events e f p) = poller.more p"
  by (simp add: with_events_def upd_ev_def)

lemma interest_more:
  assumes "EpollFdEvent_update e (with_events e f p) = Inr q"
  shows "poller.more q = poller.more p"
  using update_more [OF assms] by (simp add: with_events_more)

lemma send_logs:
  assumes "tc_send m k c n = Inr n'"
  shows "sent_log n' = sent_log n \<and> user_log n' = user_log n"
proof (cases "tc_state (conn_at c n) = CsConnected")
  case True
  with assms obtain n1 b where n1: "(if \<not> isWriting (ev_at (tc_event (conn_at c n)) n) then enableWriting (tc_event (conn_at c n)) n
      else Inr n) = Inr n1" and n': "n' = upd_conn c (\<lambda>t. t\<lparr>write_buffer := b\<rparr>) n1"
    by (auto simp: tc_send_def tc_send_with_def r_bind_eq_Inr)
  from n1 have "poller.more n1 = poller.more n"
    using interest_more by (auto simp: enableWriting_def split: if_splits)
  with n' more_net [of n1 n] show ?thesis by simp
qed (use assms in \<open>simp add: tc_send_def tc_send_with_def\<close>)

lemma disconnect_logs:
  assumes "tc_disconnect c n = Inr n'"
  shows "sent_log n' = sent_log n \<and> user_log n' = user_log n"
proof -
  from assms obtain n1 where n1: "(if tc_state (conn_at c n) = CsConnected
      then disableAll (tc_event (conn_at c n)) (set_state c CsConnecting n) else Inr n) = Inr n1"
    and n': "EpollFdEvent_remove (tc_event (conn_at c n1)) n1 = Inr n'" by (auto simp: tc_disconnect_def r_bind_eq_Inr)
  from n1 have "poller.more n1 = poller.more (if tc_state (conn_at c n) = CsConnected then set_state c CsConnecting n else n)"
    using interest_more by (auto simp: disableAll_def split: if_splits)
  with remove_more [OF n'] have "poller.more n' = poller.more (if tc_state (conn_at c n) = CsConnected then set_state c CsConnecting n else n)"
    by simp
  from more_net(3,4) [OF this] show ?thesis by (simp add: set_state_def)
qed

lemma close_logs:
  assumes "tc_handleClose server_removeConnection c n = Inr n'"
  shows "sent_log n' = sent_log n" "received d n' = received d n" "handed d n' = handed d n"
proof -
  from assms obtain q where q: "EpollFdEvent_update (tc_event (conn_at c n)) (with_events (tc_event (conn_at c n)) (\<lambda>w. kNoneEvent)
      (set_state c CsDisconnected n)) = Inr q" and n': "server_removeConnection c q = Inr n'"
    by (auto simp: tc_handleClose_def r_bind_eq_Inr disableAll_def split: if_splits)
  from more_net(3,4) [OF interest_more [OF q]] n' show "sent_log n' = sent_log n" "received d n' = received d n"
    by (auto simp: set_state_def server_removeConnection_def received_def)
  then show "handed d n' = handed d n" by (simp add: handed_def)
qed

lemma write_logs:
  assumes q: "tc_handleWrite ret c n = Inr n'"
  shows "logs_only c n n'" "received d n' = received d n" "tc_state (conn_at c n) \<noteq> CsConnected \<Longrightarrow> handed d n' = handed d n"
proof -
  have "user_log n' = user_log n \<and> (\<exists>xs. sent_log n' = sent_log n @ xs \<and> (\<forall>x \<in> set xs. fst x = c) \<and>
      (tc_state (conn_at c n) \<noteq> CsConnected \<longrightarrow> xs = []))"
    using q
  proof (cases rule: handleWrite_cases)
    case (sent wb s)
    let ?m = "(upd_conn c (\<lambda>t. t\<lparr>write_buffer := wb\<rparr>) n)\<lparr>sent_log := s\<rparr>"
    from sent(3) have "poller.more n' = poller.more ?m" using interest_more by (auto simp: disableWriting_def)
    from more_net(3,4) [OF this] sent(1,2) show ?thesis by auto
  qed simp_all
  then obtain xs where xs: "user_log n' = user_log n" "sent_log n' = sent_log n @ xs" "\<forall>x \<in> set xs. fst x = c"
    "tc_state (conn_at c n) \<noteq> CsConnected \<longrightarrow> xs = []" by blast
  have "filter (\<lambda>x. fst x = d) xs = []" if "d \<noteq> c" for d using that xs(3) by (auto simp: filter_empty_conv)
  with xs show "logs_only c n n'" "received d n' = received d n" "tc_state (conn_at c n) \<noteq> CsConnected \<Longrightarrow> handed d n' = handed d n"
    by (simp_all add: logs_only_def handed_def received_def)
qed

section \<open>A connection\<close>

lemma answered_inv:
  assumes "srv_inv n" "c < length (conns n)" "tc_state (conn_at c n) = CsConnected" "answered rs c n"
  shows "tc_inv c n"
  using assms conn_okD(1,3) [OF assms(1,2)] by (simp add: tc_inv_def answered_def srv_inv_def kAdded_def kNew_def)

lemma event_kept:
  assumes "conn_only c n n'"
  shows "ev_writer (ev_at (tc_event (conn_at c n')) n') = ev_writer (ev_at (tc_event (conn_at c n)) n)"
    "ev_locked (ev_at (tc_event (conn_at c n')) n') = ev_locked (ev_at (tc_event (conn_at c n)) n)"
  using assms by (simp_all add: conn_only_def ev_flags_def)

lemma answered_gone:
  assumes "answered rs c n" "handed c n' = handed c n" "tc_state (conn_at c n') \<noteq> CsConnected"
  shows "answered rs c n'"
  using assms by (auto simp: answered_def)

lemma send_answered:
  assumes inv: "srv_inv n" and c: "c < length (conns n)" and room: "used c n + length m < 2 ^ 31"
    and ans: "answered rs c n" and q: "tc_send m (int (length m)) c n = Inr n'"
  shows "answered (rs @ m) c n'"
proof (cases "tc_state (conn_at c n) = CsConnected")
  case True
  from tc_send_ok [OF answered_inv [OF inv c True ans] room] q have n': "tc_inv c n'" "pending c n' = pending c n @ m"
    "handed c n' = handed c n" by auto
  have "handed c n @ pending c n = rs" using ans True by (simp add: answered_def)
  with n' ans True event_kept [OF send_only(1) [OF inv c room q]] show ?thesis by (auto simp: answered_def tc_inv_def)
next
  case False
  with q have "n' = n" by (simp add: tc_send_def tc_send_with_def)
  with ans False show ?thesis by (auto simp: answered_def)
qed

text \<open>The user's reaction to what was received.\<close>

lemma acts_answered:
  fixes n :: "'a net_scheme"
  assumes "srv_inv n" "c < length (conns n)" "used c n + sends xs < 2 ^ 31"
    "disconnects xs \<le> (if tc_state (conn_at c n) = CsConnected then 1 else 0)" "answered rs c n"
    "r_fold (user_run c) xs n = Inr n'"
  shows "answered (rs @ acts_bytes xs) c n' \<and> sent_log n' = sent_log n \<and> user_log n' = user_log n"
  using assms
proof (induction xs arbitrary: n rs)
  case (Cons x xs)
  from Cons.prems(6) obtain n1 where n1: "user_run c x n = Inr n1" "r_fold (user_run c) xs n1 = Inr n'"
    by (auto simp: r_bind_eq_Inr)
  show ?case
  proof (cases x)
    case (USend m)
    have room: "used c n + length m < 2 ^ 31" using Cons.prems(3) USend by (simp add: sends_def)
    have q: "tc_send m (int (length m)) c n = Inr n1" using n1(1) USend by simp
    note only = send_only [OF Cons.prems(1,2) room q] and inv = srv_send [OF Cons.prems(1,2) room]
    have "answered ((rs @ m) @ acts_bytes xs) c n' \<and> sent_log n' = sent_log n1 \<and> user_log n' = user_log n1"
      by (rule Cons.IH [OF _ _ _ _ send_answered [OF Cons.prems(1,2) room Cons.prems(5) q] n1(2)])
        (use inv q Cons.prems(2-4) USend only conn_only_len(1) [OF only(1)] in \<open>auto simp: sends_def disconnects_def\<close>)
    with USend send_logs [OF q] show ?thesis by (simp add: acts_bytes_def)
  next
    case UDisconnect
    with Cons.prems(4) have st: "tc_state (conn_at c n) = CsConnected" and none: "disconnects xs = 0"
      by (auto simp: disconnects_def split: if_splits)
    have q: "tc_disconnect c n = Inr n1" using n1(1) UDisconnect by simp
    note only = disconnect_only [OF Cons.prems(1,2) st q] and logs = disconnect_logs [OF q]
    have inv: "srv_inv n1" using srv_disconnect [OF Cons.prems(1,2) st] q by auto
    have ans: "answered rs c n1"
      by (rule answered_gone [OF Cons.prems(5)]) (use only(2) logs in \<open>simp_all add: handed_def\<close>)
    have "answered (rs @ acts_bytes xs) c n' \<and> sent_log n' = sent_log n1 \<and> user_log n' = user_log n1"
      by (rule Cons.IH [OF inv _ _ _ ans n1(2)])
        (use Cons.prems(2,3) UDisconnect only(2) none conn_only_len(1) [OF only(1)] in \<open>auto simp: sends_def used_def\<close>)
    with UDisconnect logs show ?thesis by (simp add: acts_bytes_def)
  qed
qed (simp add: acts_bytes_def)

lemma close_answered:
  assumes "srv_inv n" "c < length (conns n)" "tc_state (conn_at c n) = CsConnected" "answered rs c n"
    "tc_handleClose server_removeConnection c n = Inr n'"
  shows "answered rs c n'" "logs_only c n n'" "received c n' = received c n"
  using answered_gone [OF assms(4) close_logs(3) [OF assms(5)]] close_only(2) [OF assms(1-3,5)] close_logs [OF assms(5)]
  by (simp_all add: logs_only_def)

lemma write_answered:
  assumes inv: "srv_inv n" and c: "c < length (conns n)" and ans: "answered rs c n" and q: "tc_handleWrite ret c n = Inr n'"
  shows "answered rs c n'"
proof (cases "tc_state (conn_at c n) = CsConnected")
  case True
  from tc_handleWrite_ok [OF answered_inv [OF inv c True ans], of ret] q have "tc_inv c n'" "pending c n' = []"
    "handed c n' = handed c n @ pending c n" by auto
  with ans True event_kept [OF write_only(1) [OF inv c q]] show ?thesis by (auto simp: answered_def tc_inv_def)
next
  case False
  then show ?thesis by (intro answered_gone [OF ans]) (use write_logs(3) [OF q] write_only(2) [OF inv c q] in simp_all)
qed

lemma handleRead_log:
  assumes "tc_handleRead oc (Got b) c n = Inr n'"
  obtains rb mem k where "n' = (upd_conn c (\<lambda>t. t\<lparr>read_buffer := rb\<rparr>) n)\<lparr>user_log := user_log n @ [UReceived c mem k]\<rparr>"
  using assms by (auto simp: tc_handleRead_eq r_bind_eq_Inr)

lemma read_reacts:
  fixes n :: "'a net_scheme"
  assumes inv: "srv_inv n" and c: "c < length (conns n)" and st: "tc_state (conn_at c n) = CsConnected" and room: "room i c n"
    and ans: "answered rs c n" and q: "conn_cb i CbRead c n = Inr n'"
  shows "\<exists>bs. received c n' = received c n @ bs \<and> answered (rs @ concat (map (\<lambda>b. acts_bytes (t_react i c b)) bs)) c n' \<and>
     logs_only c n n'"
proof (cases "t_recv i c")
  case (Got b)
  with room have r: "length (stored c n) + length b < 2 ^ 31" "used c n + sends (t_react i c b) < 2 ^ 31"
    "disconnects (t_react i c b) \<le> 1" by (simp_all add: room_def)
  note ready = conn_okD(2) [OF inv c]
  from read_then_user [OF ready r(1), where oc = server_removeConnection and react = "t_react i"]
  obtain n0 :: "'a net_scheme" where n0: "tc_handleRead server_removeConnection (Got b) c n = Inr n0" "conn_only c n n0"
    "tc_handleRead_with (user_receive (t_react i)) server_removeConnection (Got b) c n = r_fold (user_run c) (t_react i c b) n0"
    "tc_state (conn_at c n0) = tc_state (conn_at c n)" "write_buffer (conn_at c n0) = write_buffer (conn_at c n)" by blast
  have run: "r_fold (user_run c) (t_react i c b) n0 = Inr n'" using q Got n0(3) by (simp add: conn_cb_def)
  have "watched c n" using c conn_okD(3) [OF inv c st] by (simp add: watched_def)
  with srv_read [OF inv, of c "Got b"] r(1) n0(1) have inv0: "srv_inv n0" by simp
  from n0(1) obtain rb mem k where
    log: "n0 = (upd_conn c (\<lambda>t. t\<lparr>read_buffer := rb\<rparr>) n)\<lparr>user_log := user_log n @ [UReceived c mem k]\<rparr>" by (rule handleRead_log)
  have same: "handed d n0 = handed d n" "ev_at e n0 = ev_at e n" "tc_event (conn_at c n0) = tc_event (conn_at c n)"
    "tc_socket (conn_at c n0) = tc_socket (conn_at c n)" for d e
    using n0(2) unfolding log by (simp_all add: handed_def ev_at_def upd_conn_def conn_only_def)
  have others: "logs_only c n n0" unfolding log by (simp add: logs_only_def handed_def received_def)
  have got: "received c n0 = received c n @ [b]" using handleRead_Got [OF ready r(1), of server_removeConnection] n0(1) by auto
  have "answered rs c n0"
    using ans n0(4,5) same by (simp add: answered_def pending_def)
  from acts_answered [OF inv0 _ _ _ this run] n0(4,5) st c r(2,3) conn_only_len(1) [OF n0(2)]
  have acts: "answered (rs @ acts_bytes (t_react i c b)) c n'" "sent_log n' = sent_log n0" "user_log n' = user_log n0"
    by (simp_all add: used_def)
  note logs = same_logs [OF acts(2,3)]
  have "received c n' = received c n @ [b]" using logs(2) got by simp
  with acts(1) logs_only_trans [OF others logs(3)] show ?thesis by (intro exI [of _ "[b]"]) simp
next
  case EndOfStream
  with q have "tc_handleClose server_removeConnection c n = Inr n'" by (simp add: conn_cb_def tc_handleRead_with_def)
  from close_answered [OF inv c st ans this] show ?thesis by simp
next
  case Failed
  with q ans show ?thesis by (simp add: conn_cb_def tc_handleRead_with_def logs_only_def)
qed

lemma read_answered:
  fixes n :: "'a net_scheme"
  assumes "srv_inv n" "c < length (conns n)" "tc_state (conn_at c n) = CsConnected" "room i c n"
    "answered (replies (t_react i) c n) c n" "conn_cb i CbRead c n = Inr n'"
  shows "answered (replies (t_react i) c n') c n' \<and> logs_only c n n'"
  using read_reacts [OF assms] by (auto simp: replies_def)

lemma steps_answered:
  assumes inv: "srv_inv n" and c: "c < length (conns n)" and st: "tc_state (conn_at c n) = CsConnected" and room: "room i c n"
    and ans: "answered (replies (t_react i) c n) c n" and steps: "conn_steps i c n n'"
  shows "answered (replies (t_react i) c n') c n' \<and> logs_only c n n'"
proof -
  from steps obtain n1 n2 where n: "n1 = n \<or> tc_handleClose server_removeConnection c n = Inr n1"
    "n2 = n1 \<or> n1 = n \<and> conn_cb i CbRead c n = Inr n2"
    "n' = n2 \<or> srv_inv n2 \<and> conn_only c n n2 \<and> tc_handleWrite (t_sent i c) c n2 = Inr n'"
    unfolding conn_steps_def by blast
  have "answered (replies (t_react i) c n1) c n1 \<and> logs_only c n n1"
    using n(1) close_answered [OF inv c st ans] ans by (auto simp: replies_def logs_only_def)
  with n(2) read_answered [OF inv c st room ans] have two: "answered (replies (t_react i) c n2) c n2" "logs_only c n n2" by auto
  from n(3) show ?thesis
  proof
    assume "srv_inv n2 \<and> conn_only c n n2 \<and> tc_handleWrite (t_sent i c) c n2 = Inr n'"
    then have w: "srv_inv n2" "conn_only c n n2" "tc_handleWrite (t_sent i c) c n2 = Inr n'" by auto
    have "c < length (conns n2)" using c conn_only_len(1) [OF w(2)] by simp
    from write_answered [OF w(1) this two(1) w(3)] write_logs(1,2) [OF w(3)] logs_only_trans [OF two(2)]
    show ?thesis by (simp add: replies_def)
  qed (use two in simp)
qed

section \<open>The server\<close>

lemma answers_conn:
  assumes ans: "answers react n" and inv: "srv_inv n" and c: "c < length (conns n)" and only: "conn_only c n n'"
    and logs: "logs_only c n n'" and self: "answered (replies react c n') c n'"
  shows "answers react n'"
proof -
  have len: "length (conns n') = length (conns n)" by (rule conn_only_len(1) [OF only])
  have inj: "\<forall>c < length (conns n). \<forall>d < length (conns n). tc_event (conn_at c n) = tc_event (conn_at d n) \<longrightarrow> c = d"
    using inv unfolding srv_inv_def by blast
  have "answered (replies react d n') d n'" if d: "d < length (conns n)" "d \<noteq> c" for d
  proof -
    have "tc_event (conn_at d n) \<noteq> tc_event (conn_at c n)" using inj d c by blast
    moreover have "answered (replies react d n) d n" using ans d(1) by (simp add: answers_def)
    ultimately show ?thesis
      using only logs d(2) by (simp add: answered_def replies_def conn_only_def logs_only_def pending_def)
  qed
  with self ans len c logs show ?thesis by (auto simp: answers_def logs_only_def)
qed

definition kept :: "fd_event \<Rightarrow> 16 word \<times> bool \<times> bool" where
  "kept ev = (ev_events ev, ev_writer ev, ev_locked ev)"

lemma answers_cong:
  fixes n n' :: "'a net_scheme"
  assumes "answers react n" "conns n' = conns n" "sent_log n' = sent_log n" "user_log n' = user_log n"
    "\<And>e. kept (ev_at e n') = kept (ev_at e n)"
  shows "answers react n'"
  using assms(1) same_logs [OF assms(3,4)] assms(2,5)
  by (simp add: answers_def answered_def pending_def conn_at_def isWriting_def kept_def)

lemma new_connection_logs:
  assumes q: "server_newConnection name s n = Inr n'"
  shows "sent_log n' = sent_log n" "user_log n' = user_log n @ [UConnected (length (conns n))]"
    "ev_writer (ev_at (length (objs n)) n')" "\<not> ev_locked (ev_at (length (objs n)) n')"
proof -
  let ?c = "length (conns n)" and ?e = "length (objs n)"
  define m where "m = set_state ?c CsConnected
    ((TcpConnection_new s (name (connId n)) n)\<lparr>connections := (connections n)(name (connId n) \<mapsto> ?c)\<rparr>)"
  have m: "sent_log m = sent_log n" "user_log m = user_log n" "?e < length (objs m)" "ev_index (ev_at ?e m) = kNew"
    "ev_writer (ev_at ?e m)" "\<not> ev_locked (ev_at ?e m)"
    by (simp_all add: m_def set_state_def TcpConnection_new_def Let_def EpollFdEvent_init_def EpollFdEvent_new_def upd_ev_def ev_at_def
        kNew_def)
  have "\<exists>q1. enableReading ?e m = Inr q1 \<and> n' = q1\<lparr>user_log := user_log q1 @ [UConnected ?c]\<rparr>"
    using q by (auto simp: server_newConnection_def Let_def TcpConnection_new_frame tc_connectFinished_def conn_at_def r_bind_eq_Inr m_def)
  then obtain q1 where q1: "enableReading ?e m = Inr q1" "n' = q1\<lparr>user_log := user_log q1 @ [UConnected ?c]\<rparr>" by blast
  note first = enableReading_first [OF m(3,4) q1(1)]
  note more = more_net(3,4) [OF first(4)]
  have at: "ev_at ?e n' = ev_at ?e q1" by (simp add: q1(2) ev_at_def)
  show "sent_log n' = sent_log n" "user_log n' = user_log n @ [UConnected ?c]" using more m(1,2) q1(2) by simp_all
  show "ev_writer (ev_at ?e n')" "\<not> ev_locked (ev_at ?e n')" using first(2) m(5,6) at by (simp_all add: ev_flags_def)
qed

lemma answers_accept:
  fixes n :: "'a net_scheme"
  assumes ans: "answers react n" and inv: "srv_inv n" and free: "fdEventMaps n (getFd s) = None" and s: "isConnected s"
    and q: "server_newConnection name s n = Inr n'"
  shows "answers react n'"
proof -
  let ?c = "length (conns n)"
  note new = new_connection(1) [OF q free] and one = accept_one_more [OF q]
  note logs = new_connection_logs [OF q]
  have same: "handed d n' = handed d n" "received d n' = received d n" for d
    using logs(1,2) by (simp_all add: handed_def received_def)
  then have "handed ?c n' = []" "received ?c n' = []" using ans by (simp_all add: answers_def)
  then have "answered (replies react ?c n') ?c n'"
    using new s logs(3,4) by (simp add: answered_def replies_def pending_def ByteBuf_new_def ByteBufData_new_def bb_content_def)
  moreover have "answered (replies react d n') d n'" if d: "d < ?c" for d
  proof -
    have "answered (replies react d n) d n" using ans d by (simp add: answers_def)
    then show ?thesis
      using one d same conn_okD(1) [OF inv d] by (simp add: answered_def replies_def one_more_def pending_def)
  qed
  ultimately show ?thesis using ans same one by (auto simp: answers_def one_more_def less_Suc_eq)
qed

lemma poll_keeps:
  assumes "Poller_poll r p = Inr q"
  shows "poller.more q = poller.more p" "kept (ev_at e q) = kept (ev_at e p)"
proof -
  have upd: "kept (ev_at e (upd_ev d (\<lambda>ev. ev\<lparr>ev_revents := re\<rparr>) p)) = kept (ev_at e p)" for d re and p :: "'a poller_scheme"
    by (cases "d < length (objs p)") (auto simp: kept_def ev_at_def upd_ev_def nth_list_update list_update_beyond)
  have fill: "poller.more q = poller.more p \<and> kept (ev_at e q) = kept (ev_at e p)"
    if "q = fold (\<lambda>(e, re) p. let p' = upd_ev e (\<lambda>ev. ev\<lparr>ev_revents := re\<rparr>) p
        in p'\<lparr>activeEvents := activeEvents p' @ [e]\<rparr>) rs p" for rs and p q :: "'a poller_scheme"
    using that
  proof (induction rs arbitrary: p)
    case (Cons x rs)
    obtain d re where x: "x = (d, re)" by (cases x)
    let ?p = "(upd_ev d (\<lambda>ev. ev\<lparr>ev_revents := re\<rparr>) p)\<lparr>activeEvents := activeEvents (upd_ev d (\<lambda>ev. ev\<lparr>ev_revents := re\<rparr>) p) @ [d]\<rparr>"
    have "poller.more q = poller.more ?p \<and> kept (ev_at e q) = kept (ev_at e ?p)"
      by (rule Cons.IH) (use Cons.prems x in \<open>simp add: Let_def\<close>)
    moreover have "ev_at e ?p = ev_at e (upd_ev d (\<lambda>ev. ev\<lparr>ev_revents := re\<rparr>) p)" by (simp add: ev_at_def)
    moreover have "poller.more ?p = poller.more p" by (simp add: upd_ev_def)
    ultimately show ?case using upd by simp
  qed simp
  have "\<exists>rs p'. p' = fold (\<lambda>(e, re) p. let p' = upd_ev e (\<lambda>ev. ev\<lparr>ev_revents := re\<rparr>) p
      in p'\<lparr>activeEvents := activeEvents p' @ [e]\<rparr>) rs p \<and> (q = p' \<or> q = p'\<lparr>buf_size := buf_size p' * 2\<rparr>)"
  proof (cases "r = None \<or> r = Some []")
    case True
    with assms show ?thesis by (intro exI [of _ "[]"]) (auto simp: Poller_poll_def)
  next
    case False
    then obtain rs where "r = Some rs" "rs \<noteq> []" by auto
    with assms show ?thesis
      by (intro exI [of _ rs]) (auto simp: Poller_poll_def fillActiveEvents_def r_bind_eq_Inr split: if_splits)
  qed
  then obtain rs p' where p': "p' = fold (\<lambda>(e, re) p. let p' = upd_ev e (\<lambda>ev. ev\<lparr>ev_revents := re\<rparr>) p
      in p'\<lparr>activeEvents := activeEvents p' @ [e]\<rparr>) rs p" "q = p' \<or> q = p'\<lparr>buf_size := buf_size p' * 2\<rparr>" by blast
  from p'(2) have "poller.more q = poller.more p'" "ev_at e q = ev_at e p'" by (auto simp: ev_at_def)
  with fill [OF p'(1)] show "poller.more q = poller.more p" "kept (ev_at e q) = kept (ev_at e p)" by simp_all
qed

lemma task_logs:
  assumes "run_loop_task Inr n = Inr n'"
  shows "sent_log n' = sent_log n \<and> user_log n' = user_log n"
  using assms disconnect_logs by (fastforce simp: run_loop_task_def split: list.splits loop_task.splits)

lemma answers_task:
  fixes n :: "'a net_scheme"
  assumes ans: "answers react n" and inv: "srv_inv n" and q: "run_loop_task Inr n = Inr n'"
  shows "answers react n'"
  using task_only [OF inv q]
proof
  assume "activeEvents n' = activeEvents n \<and> (\<exists>c < length (conns n). tc_state (conn_at c n) = CsDisconnected \<and>
      tc_state (conn_at c n') = CsDisconnected \<and> conn_only c n n')"
  then obtain c where c: "c < length (conns n)" "tc_state (conn_at c n') = CsDisconnected" "conn_only c n n'" by blast
  from task_logs [OF q] have logs: "sent_log n' = sent_log n" "user_log n' = user_log n" by simp_all
  have "answered (replies react c n) c n" using ans c(1) by (simp add: answers_def)
  then have "answered (replies react c n') c n'"
    using answered_gone [of "replies react c n" c n n'] c(2) same_logs [OF logs] by simp
  with answers_conn [OF ans inv c(1,3) same_logs(3) [OF logs]] show ?thesis by simp
qed (use ans in simp)

lemma answers_prefix:
  assumes inv: "app_inv a" and ok: "reports_ok i a" and ans: "answers react a"
  obtains a2 where "turn_prefix i a = Inr a2" "app_inv a2" "answers react a2" "distinct (activeEvents a2)"
    "\<forall>e \<in> set (activeEvents a2). due_ok i e a2" "user_log a2 = user_log a"
    "activeEvents a2 = (case t_ready i of None \<Rightarrow> [] | Some r \<Rightarrow> map fst r)"
    "\<forall>(e, re) \<in> set (case t_ready i of None \<Rightarrow> [] | Some r \<Rightarrow> r). ev_revents (ev_at e a2) = re"
    "ac_event a2 = ac_event a" "\<forall>d. tc_event (conn_at d a2) = tc_event (conn_at d a)" "length (conns a2) = length (conns a)"
proof -
  from poll_safe [OF inv ok] obtain a1 where a1: "Poller_poll (t_ready i) (a\<lparr>activeEvents := []\<rparr>) = Inr a1" "app_inv a1"
    "polled i a a1" by metis
  from prefix_safe [OF inv ok] obtain a2 where a2: "turn_prefix i a = Inr a2" "app_inv a2" "distinct (activeEvents a2)"
    "\<forall>e \<in> set (activeEvents a2). due_ok i e a2" by metis
  note keeps = poll_keeps [OF a1(1)]
  have "poller.more a1 = poller.more a" using keeps(1) by simp
  note more = more_net [OF this]
  have ans1: "answers react a1"
    by (rule answers_cong [OF ans more(1,3,4)]) (use keeps(2) in \<open>simp add: ev_at_def\<close>)
  have task: "run_loop_task Inr a1 = Inr a2" using a1(1) a2(1) by (simp add: turn_prefix_def)
  have srv: "srv_inv a1" using a1(2) by (simp add: app_inv_def)
  have same: "activeEvents a2 = activeEvents a1 \<and> (\<forall>e. ev_revents (ev_at e a2) = ev_revents (ev_at e a1)) \<and>
      ac_event a2 = ac_event a1 \<and> (\<forall>d. tc_event (conn_at d a2) = tc_event (conn_at d a1)) \<and> length (conns a2) = length (conns a1)"
    using task_only [OF srv task]
  proof
    assume "activeEvents a2 = activeEvents a1 \<and> (\<exists>c < length (conns a1). tc_state (conn_at c a1) = CsDisconnected \<and>
        tc_state (conn_at c a2) = CsDisconnected \<and> conn_only c a1 a2)"
    then obtain c where c: "activeEvents a2 = activeEvents a1" "conn_only c a1 a2" by blast
    have "ev_revents (ev_at e a2) = ev_revents (ev_at e a1)" for e
      using c(2) by (cases "e = tc_event (conn_at c a1)") (simp_all add: conn_only_def ev_flags_def)
    moreover have "tc_event (conn_at d a2) = tc_event (conn_at d a1)" for d
      using c(2) by (cases "d = c") (simp_all add: conn_only_def)
    moreover have "ac_event a2 = ac_event a1" using c(2) more_acceptor_net(2) [of a2 a1] by (simp add: conn_only_def)
    ultimately show ?thesis using c(1) conn_only_len(1) [OF c(2)] by blast
  qed simp
  show ?thesis
    by (rule that [OF a2(1,2) answers_task [OF ans1 srv task] a2(3,4)])
      (use same a1(3) task_logs [OF task] more(4) in \<open>auto simp: polled_def conn_at_def split: option.splits\<close>)
qed

lemma answers_turn:
  assumes inv: "app_inv a" and rep: "reports_ok i a" and ans: "answers (t_react i) a"
    and unregistered: "\<And>a2. turn_prefix i a = Inr a2 \<Longrightarrow> fdEventMaps a2 (t_accept i) = None"
  shows "\<exists>a'. app_turn name i a = Inr a' \<and> answers (t_react i) a'"
proof -
  from answers_prefix [OF inv rep ans] obtain a2 where a2: "turn_prefix i a = Inr a2" "app_inv a2" "answers (t_react i) a2"
    "distinct (activeEvents a2)" "\<forall>e \<in> set (activeEvents a2). due_ok i e a2" by metis
  have free: "fdEventMaps a2 (t_accept i) = None" by (rule unregistered [OF a2(1)])
  have "\<exists>a'. r_fold (handleEvent (server_cb name i)) (activeEvents a2) a2 = Inr a' \<and> app_inv a' \<and> answers (t_react i) a'"
  proof (rule dispatch_run [where P = "answers (t_react i)", OF a2(2,4,5) _ a2(3)])
    fix b c b1
    assume b: "answers (t_react i) b" "srv_inv b" "c < length (conns b)" "tc_state (conn_at c b) = CsConnected" "room i c b"
      "conn_only c b b1" "conn_steps i c b b1"
    have "answered (replies (t_react i) c b) c b" using b(1,3) by (simp add: answers_def)
    from steps_answered [OF b(2-5) this b(7)] answers_conn [OF b(1-3,6)] show "answers (t_react i) b1" by simp
  qed (use free answers_accept in auto)
  with a2(1) show ?thesis by (auto simp: app_turn_def)
qed

section \<open>From the start\<close>

inductive answering :: "(nat \<Rightarrow> bytes \<Rightarrow> user_act list) \<Rightarrow> (int \<Rightarrow> string) \<Rightarrow> server \<Rightarrow> bool" for react name where
  answer_boot: "Loop_new me efd = Inr l0 \<Longrightarrow> TcpServer_start so fd bind_ret loc listen_ret (TcpServer_new l0) = Inr (True, l) \<Longrightarrow>
    answering react name l"
| answer_turn: "answering react name l \<Longrightarrow> kernel_ok i (app_of l) \<Longrightarrow> one_client i (app_of l) \<Longrightarrow> t_react i = react \<Longrightarrow>
    server_turn name i l = Inr l' \<Longrightarrow> answering react name l'"

lemma answering_reach: "answering react name l \<Longrightarrow> server_reach name l"
  by (induction rule: answering.induct) (auto intro: server_reach.intros)

lemma started_answers:
  assumes loop: "Loop_new me efd = Inr l0" and start: "TcpServer_start so fd bind_ret loc listen_ret (TcpServer_new l0) = Inr (True, l)"
  shows "answers react (app_of l)"
proof -
  from started_state [OF assms] have "s_conns l = [] \<and> s_sent_log l = [] \<and> s_user_log l = []" by metis
  then show ?thesis by (simp add: answers_def handed_def received_def app_of_def)
qed

lemma kernel_unregistered:
  assumes inv: "life_inv name a" and ok: "kernel_ok i a" and a2: "turn_prefix i a = Inr a2"
  shows "fdEventMaps a2 (t_accept i) = None"
proof -
  have "reports_ok i a" using ok by (simp add: kernel_ok_def)
  from life_prefix [OF inv this] a2 have "life_inv name a2" by auto
  then show ?thesis by (rule closed_not_registered) (use ok a2 in \<open>simp add: kernel_ok_def\<close>)
qed

lemma answering_inv: "answering react name l \<Longrightarrow> life_inv name (app_of l) \<and> answers react (app_of l)"
proof (induction rule: answering.induct)
  case (answer_boot me efd l0 so fd bind_ret loc listen_ret l)
  from started_answers [OF answer_boot] life_reach_inv [OF life_start [OF answer_boot]] show ?case by simp
next
  case (answer_turn l i l')
  then have inv: "life_inv name (app_of l)" and ans: "answers (t_react i) (app_of l)" and rep: "reports_ok i (app_of l)"
    by (simp_all add: kernel_ok_def)
  from answers_turn [OF life_invD(2) [OF inv] rep ans kernel_unregistered [OF inv answer_turn(2)], of name]
  obtain a' where a': "app_turn name i (app_of l) = Inr a'" "answers (t_react i) a'" by blast
  have "app_of l' = a'" using server_turn_view [of name i l] answer_turn(5) a'(1) by simp
  with a'(2) server_turn_life [OF inv answer_turn(2,3)] answer_turn(4,5) show ?case by auto
qed

section \<open>A writable connection\<close>

lemma acceptor_idle:
  assumes "app_inv a" "t_accept i \<le> 0" "\<forall>d \<in> set ds. ac_event a = Some d"
  shows "r_fold (handleEvent (server_cb name i)) ds a = Inr a"
  using assms(3)
proof (induction ds)
  case (Cons d ds)
  with accept_dispatch [OF assms(1), of d i name] assms(2) show ?case by auto
qed simp

text \<open>The one connected client, reported writable among others: its report and the acceptor's are the only ones.\<close>

lemma one_connected:
  assumes "life_inv name a" "c < length (conns a)" "tc_state (conn_at c a) = CsConnected"
    "d < length (conns a)" "tc_state (conn_at d a) = CsConnected"
  shows "d = c"
  using life_invD(4) [OF assms(1)] base_invD(4) [OF life_invD(1) [OF assms(1)]] assms(2-5) by (metis option.inject)

text \<open>The write callback, after the callbacks that may run before it.\<close>

lemma write_callback:
  fixes b :: "'a net_scheme"
  assumes inv: "srv_inv b" and c: "c < length (conns b)" and ans: "answered rs c b" and q: "tc_handleWrite ret c b = Inr b1"
  shows "received c b1 = received c b"
    "tc_state (conn_at c b1) = tc_state (conn_at c b)"
    "tc_state (conn_at c b) = CsConnected \<Longrightarrow> pending c b1 = [] \<and> handed c b1 = rs"
proof -
  show "received c b1 = received c b" by (rule write_logs(2) [OF q])
  show st: "tc_state (conn_at c b1) = tc_state (conn_at c b)" using write_only(2) [OF inv c q] by simp
  show "pending c b1 = [] \<and> handed c b1 = rs" if "tc_state (conn_at c b) = CsConnected"
    using tc_handleWrite_ok [OF answered_inv [OF inv c that ans], of ret] q ans that by (auto simp: answered_def)
qed

lemma writable_turn:
  assumes inv: "life_inv name a" and ans: "answers (t_react i) a" and c: "c < length (conns a)" "tc_state (conn_at c a) = CsConnected"
    and ok: "kernel_ok i a" and one: "one_client i a"
    and r: "t_ready i = Some r" "(tc_event (conn_at c a), re) \<in> set r" "re AND EPOLLOUT \<noteq> 0"
  shows "\<exists>a'. app_turn name i a = Inr a' \<and>
    (tc_state (conn_at c a') = CsConnected \<longrightarrow> pending c a' = [] \<and> handed c a' = replies (t_react i) c a') \<and>
    (re AND EPOLLHUP = 0 \<and> re AND (EPOLLIN OR EPOLLPRI OR EPOLLRDHUP) = 0 \<longrightarrow>
       tc_state (conn_at c a') = CsConnected \<and> received c a' = received c a)"
proof -
  let ?e = "tc_event (conn_at c a)"
  have rep: "reports_ok i a" using ok by (simp add: kernel_ok_def)
  obtain b where b: "turn_prefix i a = Inr b" "app_inv b" "answers (t_react i) b" "distinct (activeEvents b)"
    "\<forall>e \<in> set (activeEvents b). due_ok i e b" "user_log b = user_log a"
    "activeEvents b = (case t_ready i of None \<Rightarrow> [] | Some r \<Rightarrow> map fst r)"
    "\<forall>(e, re) \<in> set (case t_ready i of None \<Rightarrow> [] | Some r \<Rightarrow> r). ev_revents (ev_at e b) = re"
    "ac_event b = ac_event a" "\<forall>d. tc_event (conn_at d b) = tc_event (conn_at d a)" "length (conns b) = length (conns a)"
    by (rule answers_prefix [OF life_invD(2) [OF inv] rep ans, of thesis]) blast
  from life_prefix [OF inv rep] b(1) one have lb: "life_inv name b" "one_client i b" by auto
  have srv: "srv_inv b" and cb: "c < length (conns b)" "tc_event (conn_at c b) = ?e" and active: "?e \<in> set (activeEvents b)"
    and rev: "ev_revents (ev_at ?e b) = re" using b(2,7,8,10,11) c(1) r(1,2) by (force simp: app_inv_def)+
  have own: "ac_event b \<noteq> Some ?e" using b(2) cb by (auto simp: app_inv_def elim!: listeningE)
  have due: "due_ok i ?e b" using b(5) active by blast
  with own obtain d where d: "d < length (conns b)" "tc_event (conn_at d b) = ?e" "tc_state (conn_at d b) = CsConnected" "room i d b"
    by (auto simp: due_ok_def)
  moreover have "d = c" using srv d(1,2) cb by (auto simp: srv_inv_def)
  ultimately have st: "tc_state (conn_at c b) = CsConnected" "room i c b" by simp_all
  have none: "t_accept i \<le> 0" using lb(2) cb(1) st(1) by (auto simp: one_client_def)
  have others: "ac_event b = Some d" if "d \<in> set (activeEvents b)" "d \<noteq> ?e" for d
    using b(5) that one_connected [OF lb(1) cb(1) st(1)] cb(2) by (auto simp: due_ok_def)
  from split_list [OF active] obtain es1 es2 where es: "activeEvents b = es1 @ ?e # es2" by blast
  have "\<not> ev_oneshot (ev_at ?e b)" "report_ok (ev_revents (ev_at ?e b))" using due b(2) by (auto simp: due_ok_def app_inv_def)
  from conn_dispatch_steps [OF srv cb(1) st cb(2) [symmetric] own this, of name] obtain b1 where
    b1: "handleEvent (server_cb name i) ?e b = Inr b1" "srv_inv b1" "conn_only c b b1"
    "cb_due CbWrite (ev_at ?e b) \<and> \<not> ev_locked (ev_at ?e b) \<longrightarrow> (\<exists>b0. conn_steps i c b b0 \<and> srv_inv b0 \<and> conn_only c b b0 \<and>
       tc_handleWrite (t_sent i c) c b0 = Inr b1 \<and> (\<not> cb_due CbClose (ev_at ?e b) \<and> \<not> cb_due CbRead (ev_at ?e b) \<longrightarrow> b0 = b))"
    by blast
  have ansb: "answered (replies (t_react i) c b) c b" using b(3) cb(1) by (simp add: answers_def)
  then have "cb_due CbWrite (ev_at ?e b)" "\<not> ev_locked (ev_at ?e b)"
    using st(1) cb(2) rev r(3) by (simp_all add: answered_def cb_due_def)
  with b1(4) obtain b0 where b0: "conn_steps i c b b0" "srv_inv b0" "conn_only c b b0" "tc_handleWrite (t_sent i c) c b0 = Inr b1"
    "\<not> cb_due CbClose (ev_at ?e b) \<and> \<not> cb_due CbRead (ev_at ?e b) \<longrightarrow> b0 = b" by blast
  have c0: "c < length (conns b0)" using cb(1) conn_only_len(1) [OF b0(3)] by simp
  from steps_answered [OF srv cb(1) st ansb b0(1)] have "answered (replies (t_react i) c b0) c b0" by simp
  note w = write_callback [OF b0(2) c0 this b0(4)]
  have app1: "app_inv b1" by (rule app_inv_conn_only [OF b(2) b1(3) cb(1) b1(2)])
  have acc: "ac_event b1 = ac_event b" using b1(3) more_acceptor_net(2) [of b1 b] by (simp add: conn_only_def)
  have "?e \<notin> set es1" "?e \<notin> set es2" using b(4) es by auto
  then have "\<forall>d \<in> set es1. ac_event b = Some d" "\<forall>d \<in> set es2. ac_event b1 = Some d" using others es acc by auto
  then have "app_turn name i a = Inr b1"
    using b(1) b1(1) es acceptor_idle [OF b(2) none] acceptor_idle [OF app1 none] by (simp add: app_turn_def r_fold_append)
  moreover have "received c b = received c a" using b(6) by (simp add: received_def)
  moreover have "re AND EPOLLHUP = 0 \<and> re AND (EPOLLIN OR EPOLLPRI OR EPOLLRDHUP) = 0 \<longrightarrow> b0 = b"
    using b0(5) rev by (simp add: cb_due_def)
  ultimately show ?thesis using w st(1) by (auto simp: replies_def)
qed

section \<open>Properties\<close>

text \<open>C6: A server whose user answers with \<open>react\<close> and that has one client at a time, under the assumptions of C4,
  in every state and for each of its connections: the bytes that were passed to \<open>::send\<close> for the connection
  are a beginning of the answers to what it received, in order, without repetition and without bytes of
  another connection; and while it is connected the rest is exactly what waits in its write buffer, for
  which the poller then watches. (Bytes that \<open>::send\<close> did not accept count as passed: \<open>handleWrite\<close> ignores
  its result.)\<close>
theorem clients_answered:
  assumes "answering react name l" "c < length (s_conns l)"
  shows "(\<exists>rest. replies react c (app_of l) = handed c (app_of l) @ rest) \<and>
    (tc_state (s_conns l ! c) = CsConnected \<longrightarrow> replies react c (app_of l) = handed c (app_of l) @ pending c (app_of l) \<and>
       (pending c (app_of l) \<noteq> [] \<longrightarrow> isWriting (ev_at (tc_event (s_conns l ! c)) l)))"
proof -
  have view: "conn_at c (app_of l) = s_conns l ! c" "length (conns (app_of l)) = length (s_conns l)" "ev_at e (app_of l) = ev_at e l" for e
    by (simp_all add: app_of_def conn_at_def ev_at_def)
  have "answered (replies react c (app_of l)) c (app_of l)"
    using answering_inv [OF assms(1)] assms(2) view(2) by (simp add: answers_def)
  then show ?thesis by (auto simp: answered_def view)
qed

text \<open>C9: The same server, in a turn in which the socket of the connected client is reported writable, whatever
  else is reported with it: the turn succeeds, and if the client is still connected after it, then all
  answers to what it received, in this turn too, have been passed to \<open>::send\<close> and nothing waits. It is still
  connected if the report has no hang-up and nothing to read.\<close>
theorem writable_client_gets_all:
  assumes "answering react name l" "c < length (s_conns l)" "tc_state (s_conns l ! c) = CsConnected"
    "kernel_ok i (app_of l)" "one_client i (app_of l)" "t_react i = react"
    "t_ready i = Some r" "(tc_event (s_conns l ! c), re) \<in> set r" "re AND EPOLLOUT \<noteq> 0"
  shows "\<exists>l'. server_turn name i l = Inr l' \<and> life_turn name i (app_of l) = Inr (app_of l') \<and>
    (tc_state (s_conns l' ! c) = CsConnected \<longrightarrow> handed c (app_of l') = replies react c (app_of l') \<and> pending c (app_of l') = []) \<and>
    (re AND EPOLLHUP = 0 \<and> re AND (EPOLLIN OR EPOLLPRI OR EPOLLRDHUP) = 0 \<longrightarrow>
       tc_state (s_conns l' ! c) = CsConnected \<and> replies react c (app_of l') = replies react c (app_of l))"
proof -
  have view: "conn_at c (app_of k) = s_conns k ! c" "length (conns (app_of k)) = length (s_conns k)" for k
    by (simp_all add: app_of_def conn_at_def)
  from answering_inv [OF assms(1)] assms(2,3,6,8) view have inv: "life_inv name (app_of l)" "answers (t_react i) (app_of l)"
    "c < length (conns (app_of l))" "tc_state (conn_at c (app_of l)) = CsConnected" "(tc_event (conn_at c (app_of l)), re) \<in> set r"
    by simp_all
  from server_turn_life [OF inv(1) assms(4,5)] obtain l' where
    l': "server_turn name i l = Inr l'" "life_turn name i (app_of l) = Inr (app_of l')" by blast
  then have "app_turn name i (app_of l) = Inr (app_of l')" using server_turn_view [of name i l] by simp
  with writable_turn [OF inv(1-4) assms(4,5,7) inv(5) assms(9)] l' assms(6) view(1) show ?thesis by (auto simp: replies_def)
qed

section \<open>A sample: an echo server\<close>

definition sample_echo :: "nat \<Rightarrow> bytes \<Rightarrow> user_act list" where "sample_echo c b = [USend b]"

lemma sample_echo_in [simp]: "t_react (sample_in r f x) = sample_echo"
  by (simp add: sample_in_def sample_echo_def fun_eq_iff)

lemma sample_echo_ok:
  "kernel_ok (sample_in [(1, EPOLLIN)] (- 1) (Got [7, 8])) sample_served" "one_client (sample_in r (- 1) x) a"
proof -
  show "kernel_ok (sample_in [(1, EPOLLIN)] (- 1) (Got [7, 8])) sample_served"
    by (simp add: kernel_ok_def open_fds_def live_def reports_ok_def turn_prefix_def Poller_poll_def fillActiveEvents_def
        run_loop_task_def Let_def upd_ev_def sample_in_def sample_served_def ev_at_def report_ok_def EPOLLIN_def EPOLLHUP_def
        room_def stored_def used_def conn_at_def ByteBuf_new_def ByteBufData_new_def sends_def disconnects_def
        CreateTcpSocket_def newSocket_def Socket_new_def getFd_def)
qed (simp add: one_client_def)

lemma sample_answering:
  obtains l l' where "answering sample_echo (\<lambda>_. ''s'') l" "app_of l = sample_served"
    "server_turn (\<lambda>_. ''s'') (sample_in [(1, EPOLLIN)] (- 1) (Got [7, 8])) l = Inr l'" "answering sample_echo (\<lambda>_. ''s'') l'"
proof -
  from sample_boot obtain l0 l1 where l1: "Loop_new 0 3 = Inr l0"
    "TcpServer_start (\<lambda>_ _. True) 4 0 None 0 (TcpServer_new l0) = Inr (True, l1)" "app_of l1 = sample_app" by blast
  have one: "answering sample_echo (\<lambda>_. ''s'') l1" by (rule answer_boot [OF l1(1,2)])
  have ok1: "kernel_ok (sample_in [(0, EPOLLIN)] 9 Failed) (app_of l1)" "one_client (sample_in [(0, EPOLLIN)] 9 Failed) (app_of l1)"
    using sample_kernel_ok(1,2) l1(3) by simp_all
  from server_turn_life [OF _ ok1] answering_inv [OF one] obtain l where
    l: "server_turn (\<lambda>_. ''s'') (sample_in [(0, EPOLLIN)] 9 Failed) l1 = Inr l" by blast
  note served = sample_first_turn [OF l1(3) l]
  have two: "answering sample_echo (\<lambda>_. ''s'') l" by (rule answer_turn [OF one ok1 _ l]) simp
  let ?i = "sample_in [(1, EPOLLIN)] (- 1) (Got [7, 8])"
  have ok: "kernel_ok ?i (app_of l)" "one_client ?i (app_of l)" using sample_echo_ok served by simp_all
  from server_turn_life [OF _ ok] answering_inv [OF two] obtain l' where l': "server_turn (\<lambda>_. ''s'') ?i l = Inr l'" by blast
  have "answering sample_echo (\<lambda>_. ''s'') l'" by (rule answer_turn [OF two ok _ l']) simp
  with two served l' that show ?thesis by blast
qed

lemma sample_write:
  "writeBytes_mem [7, 8] 2 ByteBuf_new = Inr (ByteBuf_new\<lparr>originData := [7, 8], writerIndex := 2\<rparr>)"
  "readerIndex ByteBuf_new = 0"
proof -
  have wf: "bb_wf ByteBuf_new" "originData ByteBuf_new = []" "writerIndex ByteBuf_new = 0"
    by (simp_all add: ByteBuf_new_def ByteBufData_new_def bb_wf_def)
  from writeData_wf [OF wf(1), of "[7, 8]"] writeBytes_mem_ok [of "[7, 8]" ByteBuf_new] wf(2,3)
  show "writeBytes_mem [7, 8] 2 ByteBuf_new = Inr (ByteBuf_new\<lparr>originData := [7, 8], writerIndex := 2\<rparr>)" by simp
qed (simp add: ByteBuf_new_def ByteBufData_new_def)

lemma sample_received:
  "\<exists>a. app_turn (\<lambda>_. ''s'') (sample_in [(1, EPOLLIN)] (- 1) (Got [7, 8])) sample_served = Inr a \<and> length (conns a) = 1 \<and>
     tc_state (conn_at 0 a) = CsConnected \<and> tc_event (conn_at 0 a) = 1 \<and> received 0 a = [[7, 8]] \<and> sent_log a = [] \<and>
     buf_size a = 256 \<and> loop_tasks a = [] \<and> length (objs a) = 2 \<and> ev_index (ev_at 1 a) = kAdded \<and>
     getFd (tc_socket (conn_at 0 a)) = 9 \<and> map_option getFd (ac_sock a) = Some 4"
  by (simp add: app_turn_def turn_prefix_def sample_in_def sample_served_def Poller_poll_def fillActiveEvents_def run_loop_task_def
      handleEvent_def handleLockEvent_def cb_due_def EPOLLIN_def EPOLLHUP_def EPOLLERR_def EPOLLPRI_def EPOLLRDHUP_def EPOLLOUT_def
      server_cb_def conn_of_def conn_cb_def tc_handleRead_with_def user_receive_def tc_send_def tc_send_with_def sample_write
      readableBytes_def i32_sub_def i32_def ByteBuf_data_def str_data_def ByteBuf_clear_def isWriting_def
      received_def poll_run conn_at_def upd_conn_def CreateTcpSocket_def newSocket_def Socket_new_def Let_def getFd_def)

lemma sample_view:
  assumes "app_of l = sample_served" "server_turn (\<lambda>_. ''s'') (sample_in [(1, EPOLLIN)] (- 1) (Got [7, 8])) l = Inr l'"
  shows "length (s_conns l') = 1" "tc_state (s_conns l' ! 0) = CsConnected" "received 0 (app_of l') = [[7, 8]]"
    "tc_event (s_conns l' ! 0) = 1" "handed 0 (app_of l') = []" "replies sample_echo 0 (app_of l') = [7, 8]"
    "kernel_ok (sample_in [(1, EPOLLOUT)] (- 1) Failed) (app_of l')"
proof -
  have "app_turn (\<lambda>_. ''s'') (sample_in [(1, EPOLLIN)] (- 1) (Got [7, 8])) sample_served = Inr (app_of l')"
    using server_turn_view [of "\<lambda>_. ''s''" "sample_in [(1, EPOLLIN)] (- 1) (Got [7, 8])" l] assms by simp
  with sample_received have a: "length (conns (app_of l')) = 1" "tc_state (conn_at 0 (app_of l')) = CsConnected"
    "tc_event (conn_at 0 (app_of l')) = 1" "received 0 (app_of l') = [[7, 8]]" "sent_log (app_of l') = []" "buf_size (app_of l') = 256"
    "loop_tasks (app_of l') = []" "length (objs (app_of l')) = 2" "ev_index (ev_at 1 (app_of l')) = kAdded"
    "getFd (tc_socket (conn_at 0 (app_of l'))) = 9" "map_option getFd (ac_sock (app_of l')) = Some 4"
    by auto
  from a(1-4) show "length (s_conns l') = 1" "tc_state (s_conns l' ! 0) = CsConnected" "received 0 (app_of l') = [[7, 8]]"
    "tc_event (s_conns l' ! 0) = 1" by (simp_all add: app_of_def conn_at_def)
  from a(4,5) show "handed 0 (app_of l') = []" "replies sample_echo 0 (app_of l') = [7, 8]"
    by (simp_all add: handed_def replies_def acts_bytes_def sample_echo_def)
  have "turn_prefix (sample_in [(1, EPOLLOUT)] (- 1) Failed) (app_of l') =
      Inr (upd_ev 1 (\<lambda>ev. ev\<lparr>ev_revents := EPOLLOUT\<rparr>) ((app_of l')\<lparr>activeEvents := [1]\<rparr>))"
    using a(6,7) by (simp add: turn_prefix_def sample_in_def Poller_poll_def fillActiveEvents_def run_loop_task_def Let_def upd_ev_def)
  then show "kernel_ok (sample_in [(1, EPOLLOUT)] (- 1) Failed) (app_of l')"
    using a by (auto simp: kernel_ok_def open_fds_def reports_ok_def report_ok_def room_def EPOLLOUT_def EPOLLHUP_def upd_ev_def
        conn_at_def) (simp_all add: sample_in_def report_ok_def EPOLLHUP_def)
qed

theorem clients_answered_witness:
  "\<exists>l. answering sample_echo (\<lambda>_. ''s'') l \<and> length (s_conns l) = 1 \<and> [7, 8] = handed 0 (app_of l) @ pending 0 (app_of l)"
proof -
  obtain l l' where l: "app_of l = sample_served" "server_turn (\<lambda>_. ''s'') (sample_in [(1, EPOLLIN)] (- 1) (Got [7, 8])) l = Inr l'"
    "answering sample_echo (\<lambda>_. ''s'') l'" using sample_answering by blast
  note view = sample_view [OF l(1,2)]
  from clients_answered [OF l(3), of 0] view l(3) show ?thesis by (intro exI [of _ l']) simp
qed

theorem writable_client_gets_all_witness:
  "\<exists>l l'. answering sample_echo (\<lambda>_. ''s'') l \<and> received 0 (app_of l) = [[7, 8]] \<and>
     server_turn (\<lambda>_. ''s'') (sample_in [(1, EPOLLOUT)] (- 1) Failed) l = Inr l' \<and> handed 0 (app_of l') = [7, 8]"
proof -
  obtain l l' where l: "app_of l = sample_served" "server_turn (\<lambda>_. ''s'') (sample_in [(1, EPOLLIN)] (- 1) (Got [7, 8])) l = Inr l'"
    "answering sample_echo (\<lambda>_. ''s'') l'" using sample_answering by blast
  note view = sample_view [OF l(1,2)]
  have "t_ready (sample_in [(1, EPOLLOUT)] (- 1) Failed) = Some [(1, EPOLLOUT)]"
    "(tc_event (s_conns l' ! 0), EPOLLOUT) \<in> set [(1, EPOLLOUT)]"
    using view(4) by (simp_all add: sample_in_def)
  from writable_client_gets_all [OF l(3) _ view(2,7) sample_echo_ok(2) _ this] view l(3) show ?thesis
    by (auto simp: EPOLLOUT_def EPOLLIN_def EPOLLHUP_def EPOLLPRI_def EPOLLRDHUP_def)
qed

end
