(* ===== verification/ClientLoop.thy ===== *)
theory ClientLoop
  imports ServerAnswers
begin

text \<open>
  A \<open>TcpClient\<close> on its \<open>Loop\<close> (\<open>gwcpp/net/TcpClient.h\<close>, \<open>Connector.h\<close>, \<open>TcpConnection.h\<close> and
  \<open>gwcpp/event/Loop.h\<close>): a turn polls, runs the first queued task and dispatches the reported events to the
  connector or to the connection, whose callbacks are those that the client binds. Then the frame of these
  steps, and the connection that \<open>handleWrite\<close> of the connector makes, as a step of the invariant
  \<open>srv_inv\<close> that connections keep whoever owns them.
\<close>

section \<open>A turn\<close>

definition client_conn_cb ::
    "connect_env \<Rightarrow> turn_in \<Rightarrow> cb \<Rightarrow> nat \<Rightarrow> 'a tcp_client_scheme \<Rightarrow> 'a tcp_client_scheme result" where
  "client_conn_cb env i x d c =
     (case x of
        CbClose \<Rightarrow> tc_handleClose (client_removeConnection env) d c
      | CbError \<Rightarrow> Inr c
      | CbRead \<Rightarrow> tc_handleRead_with (user_receive (t_react i)) (client_removeConnection env) (t_recv i d) d c
      | CbWrite \<Rightarrow> tc_handleWrite (t_sent i d) d c)"

text \<open>The event of the connector has a write callback only. \<open>env\<close> is what the kernel answers if the
  connector starts again, \<open>sock_errno\<close> the pending error of the socket.\<close>

definition client_cb ::
    "(int \<Rightarrow> string) \<Rightarrow> connect_env \<Rightarrow> int \<Rightarrow> turn_in \<Rightarrow> cb \<Rightarrow> nat \<Rightarrow> 'a tcp_client_scheme \<Rightarrow> 'a tcp_client_scheme result" where
  "client_cb name env sock_errno i x e c =
     (if cn_event c = Some e then
        if x = CbWrite
        then Connector_handleWrite env sock_errno (t_local i) (t_peer i) (Some (client_newConnection name)) c
        else Inr c
      else case conn_of e c of Some d \<Rightarrow> client_conn_cb env i x d c | None \<Rightarrow> Inr c)"

definition client_task :: "'a tcp_client_scheme \<Rightarrow> 'a tcp_client_scheme result" where
  "client_task c = run_loop_task (\<lambda>n. Inr (resetEvent n)) c"

definition client_turn ::
    "(int \<Rightarrow> string) \<Rightarrow> connect_env \<Rightarrow> int \<Rightarrow> turn_in \<Rightarrow> 'a tcp_client_scheme \<Rightarrow> 'a tcp_client_scheme result" where
  "client_turn name env sock_errno i c =
     r_bind (Poller_poll (t_ready i) (c\<lparr>activeEvents := []\<rparr>)) (\<lambda>c1.
     r_bind (client_task c1) (\<lambda>c2.
     r_fold (handleEvent (client_cb name env sock_errno i)) (activeEvents c2) c2))"

text \<open>Between two turns the user, who got the connection in the connect callback, may send and disconnect.\<close>

datatype client_op = CTurn connect_env int turn_in | CUser user_act

fun client_step :: "(int \<Rightarrow> string) \<Rightarrow> client_op \<Rightarrow> 'a tcp_client_scheme \<Rightarrow> 'a tcp_client_scheme result" where
  "client_step name (CTurn env sock_errno i) c = client_turn name env sock_errno i c"
| "client_step name (CUser x) c = (case connection c of Some d \<Rightarrow> user_run d x c | None \<Rightarrow> Inr c)"

section \<open>Changes that the operations do not see\<close>

interpretation netv: poller_view "\<lambda>n. n\<lparr>connections := m, loop_tasks := ts\<rparr>" for m ts
  by unfold_locales simp_all

lemma conn_at_netv [simp]: "conn_at c (n\<lparr>connections := m, loop_tasks := ts\<rparr>) = conn_at c n"
  by (simp add: conn_at_def)

lemma set_state_netv:
  "set_state c s (n\<lparr>connections := m, loop_tasks := ts\<rparr>) = (set_state c s n)\<lparr>connections := m, loop_tasks := ts\<rparr>"
  by (simp add: set_state_def upd_conn_def)

lemma connectFinished_netv:
  "tc_connectFinished c (n\<lparr>connections := m, loop_tasks := ts\<rparr>) =
     r_map (\<lambda>n. n\<lparr>connections := m, loop_tasks := ts\<rparr>) (tc_connectFinished c n)"
proof -
  have log: "(k\<lparr>connections := m, loop_tasks := ts\<rparr>)\<lparr>user_log := u\<rparr> = (k\<lparr>user_log := u\<rparr>)\<lparr>connections := m, loop_tasks := ts\<rparr>"
    for k :: "'a net_scheme" and u by simp
  show ?thesis
    by (simp add: tc_connectFinished_def set_state_netv netv.view_interest r_bind_map r_map_bind log)
qed

lemma new_netv:
  "TcpConnection_new s nm (n\<lparr>connections := m, loop_tasks := ts\<rparr>) =
     (TcpConnection_new s nm n)\<lparr>connections := m, loop_tasks := ts\<rparr>"
  by (simp add: TcpConnection_new_def Let_def EpollFdEvent_init_def EpollFdEvent_new_def upd_ev_def)

lemma user_run_netv:
  "user_run c x (n\<lparr>connections := m, loop_tasks := ts\<rparr>) =
     r_map (\<lambda>n. n\<lparr>connections := m, loop_tasks := ts\<rparr>) (user_run c x n)"
proof -
  have wb: "upd_conn c f (p\<lparr>connections := m, loop_tasks := ts\<rparr>) = (upd_conn c f p)\<lparr>connections := m, loop_tasks := ts\<rparr>"
    for f and p :: "'a net_scheme" by (simp add: upd_conn_def)
  have ev: "ev_at e (p\<lparr>connections := m\<rparr>) = ev_at e p" for e and p :: "'a net_scheme" by (simp add: ev_at_def)
  show ?thesis
    by (cases x) (simp_all add: tc_send_def tc_send_with_def tc_disconnect_def wb ev set_state_netv netv.view_interest
        netv.view_remove r_map_bind r_bind_map)
qed

text \<open>So the connection that a client makes is the one that a server would make with the same socket.\<close>

lemma made_like_server:
  fixes n :: "'a net_scheme"
  assumes q: "server_newConnection (\<lambda>_. nm) s (n\<lparr>connections := m', loop_tasks := ts'\<rparr>) = Inr n'"
  shows "tc_connectFinished (length (conns n)) (TcpConnection_new s nm n) =
     Inr (n'\<lparr>connections := connections n, loop_tasks := loop_tasks n\<rparr>)"
proof -
  define x where "x = TcpConnection_new s nm (n\<lparr>connections := m', loop_tasks := ts'\<rparr>)"
  have x: "x = (TcpConnection_new s nm n)\<lparr>connections := m', loop_tasks := ts'\<rparr>" by (simp add: x_def new_netv)
  have same: "TcpConnection_new s nm n = (x\<lparr>connections := y\<rparr>)\<lparr>connections := connections n, loop_tasks := loop_tasks n\<rparr>" for y
    unfolding x using new_netv [where s = s and nm = nm and n = n and m = "connections n" and ts = "loop_tasks n"] by simp
  from q obtain y where y: "tc_connectFinished (length (conns n)) (x\<lparr>connections := y\<rparr>) = Inr n'"
    unfolding server_newConnection_def Let_def x_def by simp
  show ?thesis unfolding same [of y] connectFinished_netv y by simp
qed

section \<open>The connection that the connector makes\<close>

lemma client_made:
  fixes c :: "'a tcp_client_scheme"
  assumes inv: "poller_inv c" and none: "conns c = []" "sent_log c = []" "user_log c = []"
    and free: "fdEventMaps c (getFd s) = None" and s: "isConnected s"
  shows "\<exists>k. client_newConnection name s c = Inr k \<and> srv_inv (k\<lparr>loop_tasks := []\<rparr>) \<and> length (conns k) = 1 \<and>
     answered [] 0 k \<and> received 0 k = [] \<and> tc_state (conn_at 0 k) = CsConnected \<and> tc_event (conn_at 0 k) = length (objs c) \<and>
     \<not> ev_oneshot (ev_at (length (objs c)) k) \<and> length (objs k) = Suc (length (objs c)) \<and>
     (\<forall>e < length (objs c). ev_at e k = ev_at e c) \<and> buf_size k = buf_size c \<and> loop_tasks k = loop_tasks c \<and>
     connection k = Some 0 \<and> cn_event k = cn_event c \<and> deleted k = deleted c \<and> recon_enable k = recon_enable c"
proof -
  let ?nm = "name (cl_connId c)"
  define n where "n = c\<lparr>cn_sock := None, connection := Some 0\<rparr>"
  define n0 where "n0 = n\<lparr>connections := connections n, loop_tasks := []\<rparr>"
  have n0: "conns n0 = []" "sent_log n0 = []" "user_log n0 = []" "objs n0 = objs c" "fdEventMaps n0 = fdEventMaps c"
    "ctl_log n0 = ctl_log c" "loop_tasks n0 = []" "buf_size n0 = buf_size c"
    using none by (simp_all add: n0_def n_def)
  have n: "conns n = []" "loop_tasks n = loop_tasks c" using none by (simp_all add: n_def)
  have "poller_inv n0" using inv poller_inv_more [of n0 c] n0(4-6) by simp
  then have inv0: "srv_inv n0" using n0(1,7) by (simp add: srv_inv_def)
  have free0: "fdEventMaps n0 (getFd s) = None" using free n0(5) by simp
  from srv_accept [OF inv0 free0, of "\<lambda>_. ?nm"] obtain n' where
    n': "server_newConnection (\<lambda>_. ?nm) s n0 = Inr n'" "srv_inv n'" by blast
  have "answers (\<lambda>_ _. []) n0"
    using n0(1-3) by (simp add: answers_def handed_def received_def)
  from answers_accept [OF this inv0 free0 s n'(1)] have "answers (\<lambda>_ _. []) n'" .
  moreover note one = accept_one_more [OF n'(1)] and new = new_connection(1) [OF n'(1) free0]
    and logs = new_connection_logs [OF n'(1)]
  ultimately have ans: "answered [] 0 n'" and rec: "received 0 n' = []"
    using n0(1,3) by (auto simp: answers_def one_more_def replies_def acts_bytes_def received_def)
  define k where "k = n'\<lparr>connections := connections n, loop_tasks := loop_tasks n, cl_state := ClConnected\<rparr>"
  have k: "conns k = conns n'" "objs k = objs n'" "fdEventMaps k = fdEventMaps n'" "ctl_log k = ctl_log n'" "sent_log k = sent_log n'"
    "user_log k = user_log n'" "loop_tasks k = loop_tasks c" "buf_size k = buf_size n'"
    using n(2) by (simp_all add: k_def)
  have at: "conn_at d k = conn_at d n'" "ev_at e k = ev_at e n'" for d e using k by (simp_all add: conn_at_def ev_at_def)
  have "tc_connectFinished 0 (TcpConnection_new s ?nm n) = Inr (n'\<lparr>connections := connections n, loop_tasks := loop_tasks n\<rparr>)"
    using made_like_server [where n = n and m' = "connections n" and ts' = "[]" and n' = n' and nm = ?nm and s = s] n'(1) n(1) unfolding n0_def by simp
  then have "client_newConnection name s c = Inr k"
    using none(1) by (simp add: client_newConnection_def Let_def TcpConnection_new_client n_def k_def)
  moreover have "srv_inv (k\<lparr>loop_tasks := []\<rparr>)"
    by (rule srv_inv_cong [OF n'(2)]) (use k at new_connection(3) [OF n'(1) free0] n0(7) in \<open>simp_all add: ev_at_def\<close>)
  moreover have "answered [] 0 k"
    using ans at same_logs [OF k(5,6)] by (simp add: answered_def pending_def)
  moreover have "received 0 k = []" using rec same_logs [OF k(5,6)] by simp
  moreover have "connection k = Some 0" "cn_event k = cn_event c" "deleted k = deleted c" "recon_enable k = recon_enable c"
  proof -
    have "net.more n' = net.more n" using one by (simp add: one_more_def n0_def)
    note more_connector_net [OF this] more_client [OF more_connector_net(7) [OF this]]
    then show "connection k = Some 0" "cn_event k = cn_event c" "deleted k = deleted c" "recon_enable k = recon_enable c"
      by (simp_all add: k_def n_def)
  qed
  ultimately show ?thesis
    using one new n0 k(1,2,7,8) at by (intro exI [of _ k]) (simp add: one_more_def ev_at_def)
qed

end
