(* ===== verification/ClientRun.thy ===== *)
theory ClientRun
  imports ClientLoop
begin

text \<open>
  A client from its \<open>start\<close> on, turn by turn: the states it goes through, that every turn and every call of
  the user succeeds, and that what the user asks to send is handed to the socket, in order and without loss
  or repetition.
\<close>

section \<open>Runs\<close>

text \<open>The bytes that a step asks to send: those of the user's call, if there is a connection, and the
  reactions to what was received in a turn.\<close>

fun client_asked :: "client_op \<Rightarrow> 'a tcp_client_scheme \<Rightarrow> 'a tcp_client_scheme \<Rightarrow> bytes" where
  "client_asked (CTurn env sock_errno i) c c' =
     concat (map (\<lambda>b. acts_bytes (t_react i 0 b)) (drop (length (received 0 c)) (received 0 c')))"
| "client_asked (CUser x) c c' = (if connection c = None then [] else act_bytes x)"

text \<open>What can happen: the kernel reports events of the interest list, at most as many as were asked for,
  and no error for the connecting socket; the buffers have room; and the user calls \<open>disconnect\<close> only on a
  connection that is connected (a second call fails an assertion of the poller).\<close>

definition client_report :: "(nat \<times> 32 word) list \<Rightarrow> 'a tcp_client_scheme \<Rightarrow> bool" where
  "client_report r c \<longleftrightarrow> distinct (map fst r) \<and> length r \<le> buf_size c \<and>
     (\<forall>(e, re) \<in> set r. e < length (objs c) \<and> ev_index (ev_at e c) = kAdded \<and> report_ok re)"

fun client_can :: "client_op \<Rightarrow> 'a tcp_client_scheme \<Rightarrow> bool" where
  "client_can (CTurn env sock_errno i) c \<longleftrightarrow> sock_errno = 0 \<and> (conns c \<noteq> [] \<longrightarrow> room i 0 c) \<and>
     client_report (case t_ready i of None \<Rightarrow> [] | Some r \<Rightarrow> r) c"
| "client_can (CUser (USend m)) c \<longleftrightarrow>
     (case connection c of None \<Rightarrow> True | Some d \<Rightarrow> used d c + length m < 2 ^ 31)"
| "client_can (CUser UDisconnect) c \<longleftrightarrow>
     (case connection c of None \<Rightarrow> True | Some d \<Rightarrow> tc_state (conn_at d c) = CsConnected)"

inductive client_reach :: "(int \<Rightarrow> string) \<Rightarrow> connect_env \<Rightarrow> tcp_client \<Rightarrow> bytes \<Rightarrow> tcp_client \<Rightarrow> bool"
  for name env c0 where
  client_begin: "client_start env c0 = Inr (True, k) \<Longrightarrow> client_reach name env c0 [] k"
| client_next: "client_reach name env c0 rs k \<Longrightarrow> client_can x k \<Longrightarrow> client_step name x k = Inr k' \<Longrightarrow>
    client_reach name env c0 (rs @ client_asked x k k') k'"

section \<open>The states of a client\<close>

text \<open>Before: the client was constructed on a loop that has no events yet.\<close>

definition client_fresh :: "connect_env \<Rightarrow> tcp_client \<Rightarrow> bool" where
  "client_fresh env c \<longleftrightarrow> poller_inv c \<and> objs c = [] \<and> 0 < buf_size c \<and> conns c = [] \<and> loop_tasks c = [] \<and>
     sent_log c = [] \<and> user_log c = [] \<and> cn_event c = None \<and> cn_state c = CnDisconnected \<and> connection c = None \<and>
     deleted c = [] \<and> \<not> recon_enable c \<and> connectable env c \<and>
     (\<exists>la. env_local env = Some la \<and> other_end la (cn_addr c))"

text \<open>Waiting for the socket to be writable.\<close>

definition cl_wait :: "connect_env \<Rightarrow> tcp_client \<Rightarrow> bool" where
  "cl_wait env k \<longleftrightarrow> awaiting env k \<and> length (objs k) = 1 \<and> cn_event k = Some 0 \<and> fdEventMaps k = [env_fd env \<mapsto> 0] \<and>
     0 < buf_size k \<and> conns k = [] \<and> loop_tasks k = [] \<and> sent_log k = [] \<and> user_log k = [] \<and> connection k = None \<and>
     deleted k = [] \<and> \<not> recon_enable k \<and> (\<exists>la. env_local env = Some la \<and> other_end la (cn_addr k)) \<and>
     \<not> ev_oneshot (ev_at 0 k) \<and> \<not> ev_reader (ev_at 0 k) \<and> \<not> ev_closer (ev_at 0 k) \<and> \<not> ev_catcher (ev_at 0 k)"

text \<open>With a connection, that is connected, was disconnected or is being taken down. In the turn after it
  was made the task that destroys the connector's event is queued.\<close>

definition cl_conn :: "bytes \<Rightarrow> tcp_client \<Rightarrow> bool" where
  "cl_conn rs k \<longleftrightarrow> length (objs k) = 2 \<and> length (conns k) = 1 \<and> tc_event (conn_at 0 k) = 1 \<and> answered rs 0 k \<and>
     0 < buf_size k \<and> \<not> ev_oneshot (ev_at 1 k) \<and> ev_index (ev_at 0 k) = kNew \<and> \<not> recon_enable k \<and>
     (connection k = None \<or> connection k = Some 0) \<and> (tc_state (conn_at 0 k) = CsConnected \<longrightarrow> connection k = Some 0)"

definition cl_made :: "bytes \<Rightarrow> tcp_client \<Rightarrow> bool" where
  "cl_made rs k \<longleftrightarrow> cl_conn rs k \<and> srv_inv (k\<lparr>loop_tasks := []\<rparr>) \<and> loop_tasks k = [TResetEvent] \<and>
     cn_event k = Some 0 \<and> deleted k = []"

definition cl_up :: "bytes \<Rightarrow> tcp_client \<Rightarrow> bool" where
  "cl_up rs k \<longleftrightarrow> cl_conn rs k \<and> srv_inv k \<and> cn_event k = None \<and> deleted k = [0]"

definition cl_inv :: "connect_env \<Rightarrow> bytes \<Rightarrow> tcp_client \<Rightarrow> bool" where
  "cl_inv env rs k \<longleftrightarrow> cl_wait env k \<and> rs = [] \<or> cl_made rs k \<or> cl_up rs k"

section \<open>The start\<close>

lemma start_waits:
  assumes f: "client_fresh env c" and q: "client_start env c = Inr (True, k)"
  shows "cl_wait env k"
proof -
  define c0 where "c0 = c\<lparr>cl_state := ClConnecting\<rparr>"
  have c0: "poller_inv c0" "cn_state c0 = CnDisconnected" "connectable env c0"
    using f poller_inv_more [of c0 c] by (simp_all add: client_fresh_def c0_def connectable_def)
  have k: "Connector_start env c0 = Inr (True, k)" using q by (simp add: client_start_def c0_def)
  from Connector_start_ok [OF c0] k f have w: "awaiting env k" "cn_event k = Some 0" "conns k = []" "loop_tasks k = []"
    "user_log k = []" "connector.more k = connector.more c0" "deleted k = []" "cn_addr k = cn_addr c"
    by (auto simp: c0_def client_fresh_def)
  have maps: "fdEventMaps c = (\<lambda>_. None)"
    using f poller_invD(1) [of c] by (auto simp: client_fresh_def fun_eq_iff) (metis not_None_eq)
  from Connector_start_ok [OF c0] k maps f have m: "fdEventMaps k = [env_fd env \<mapsto> 0]"
    by (auto simp: c0_def client_fresh_def)
  have "\<exists>s c1. enableWriting 0 (upd_ev 0 (\<lambda>ev. ev\<lparr>ev_writer := True\<rparr>) (EpollFdEvent_init 0 (env_fd env) KPersist
      (EpollFdEvent_new 0 ((delete_event c0)\<lparr>cn_sock := Some s, cn_event := Some 0\<rparr>)))) = Inr c1 \<and> k = c1\<lparr>cn_state := CnConnecting\<rparr>"
    using k f
    by (auto simp: Connector_start_def Let_def c0_def client_fresh_def r_bind_eq_Inr Socket_connect_def CreateTcpSocket_def
        newSocket_def Socket_new_def getPeerAddress_def getLocalAddress_def getFd_def split: if_splits option.splits prod.splits)
  then have "length (objs k) = 1 \<and> sent_log k = [] \<and> connection k = None \<and> \<not> recon_enable k \<and> 0 < buf_size k \<and>
      \<not> ev_oneshot (ev_at 0 k) \<and> \<not> ev_reader (ev_at 0 k) \<and> \<not> ev_closer (ev_at 0 k) \<and> \<not> ev_catcher (ev_at 0 k)"
    using f maps by (auto simp: poll_run delete_event_def c0_def client_fresh_def split: if_splits)
  with w m f show ?thesis by (auto simp: cl_wait_def client_fresh_def)
qed

section \<open>The socket is writable\<close>

lemma removeAndReset_frame:
  assumes inv: "poller_inv c" and e: "cn_event c = Some e" "e < length (objs c)" and q: "removeAndResetChannel c = Inr c1"
  shows "buf_size c1 = buf_size c" "ev_flags (ev_at e c1) = ev_flags (ev_at e c)"
proof -
  from q e(1) obtain q1 q2 where q1: "EpollFdEvent_update e (with_events e (\<lambda>w. kNoneEvent) c) = Inr q1"
    and q2: "EpollFdEvent_remove e q1 = Inr q2" and c1: "c1 = q2\<lparr>loop_tasks := loop_tasks q2 @ [TResetEvent]\<rparr>"
    by (auto simp: removeAndResetChannel_def disableAll_def r_bind_eq_Inr)
  have "e < length (objs q1)"
    using event_update_inv [OF inv e(2) q1] q1 e(2)
    by (auto simp: EpollFdEvent_update_def with_events_def Poller_updateEvent_def Let_def r_bind_eq_Inr setIndex_ev_def
        Poller_update_def upd_ev_def split: if_splits)
  from event_remove_flags [OF this q2] event_update_index(2) [OF inv e(2) q1] event_buf_size(1) [OF q1] event_buf_size(2) [OF q2]
  show "buf_size c1 = buf_size c" "ev_flags (ev_at e c1) = ev_flags (ev_at e c)"
    by (simp_all add: c1 ev_at_def)
qed

lemma wait_writable:
  assumes w: "cl_wait env k"
  shows "\<exists>k'. Connector_handleWrite env2 0 loc peer (Some (client_newConnection name)) k = Inr k' \<and> cl_made [] k' \<and>
     received 0 k' = [] \<and> \<not> ev_oneshot (ev_at 0 k')"
proof -
  have aw: "awaiting env k" and k: "cn_event k = Some 0" "fdEventMaps k = [env_fd env \<mapsto> 0]" "length (objs k) = 1"
    "conns k = []" "loop_tasks k = []" "sent_log k = []" "user_log k = []" "connection k = None" "deleted k = []"
    "\<not> recon_enable k" "0 < buf_size k" "\<not> ev_oneshot (ev_at 0 k)" using w by (simp_all add: cl_wait_def)
  obtain la where la: "env_local env = Some la" "other_end la (cn_addr k)" using w by (auto simp: cl_wait_def)
  have st: "cn_state k = CnConnecting" "poller_inv k" using aw by (simp_all add: awaiting_def)
  from handleWrite_remove [OF aw] k(1) obtain r s where
    r: "removeAndResetChannel k = Inr r" "poller_inv r" "fdEventMaps r = (fdEventMaps k)(env_fd env := None)"
      "cn_sock r = Some s" "getFd s = env_fd env" "isConnected s" "remoteAddress s = Some (cn_addr k)"
      "localAddress s = env_local env" "length (objs r) = length (objs k)"
      "poller.more r = poller.more (k\<lparr>loop_tasks := loop_tasks k @ [TResetEvent]\<rparr>)" by auto
  note frame = removeAndReset_frame [OF st(2) k(1) _ r(1)]
  have self: "isSelfConnect loc peer s = Inr (False, s)"
    by (rule isSelfConnect_other) (use r(7,8) la in auto)
  define r' where "r' = r\<lparr>cn_sock := Some s, cn_state := CnConnected\<rparr>"
  note more = more_net [OF r(10)] more_connector [OF r(10)]
  have r': "poller_inv r'" "fdEventMaps r' (getFd s) = None" "conns r' = []" "sent_log r' = []" "user_log r' = []"
    "loop_tasks r' = [TResetEvent]" "objs r' = objs r" "deleted r' = []" "cn_event r' = Some 0" "buf_size r' = buf_size k"
    "recon_enable r' = recon_enable k" "fdEventMaps r' = (\<lambda>_. None)"
    using r(3,5) more more_client(4) [OF more(13)] k frame(1) poller_inv_more [of r' r] r(2)
    by (auto simp: r'_def)
  have idx: "ev_index (ev_at 0 r') = kNew"
    using poller_invD(3) [OF r'(1), of 0] r'(7,12) r(9) k(3) by fastforce
  from client_made [OF r'(1,3,4,5,2) r(6), of name] obtain k' where k': "client_newConnection name s r' = Inr k'"
    "srv_inv (k'\<lparr>loop_tasks := []\<rparr>)" "length (conns k') = 1" "answered [] 0 k'" "received 0 k' = []"
    "tc_state (conn_at 0 k') = CsConnected" "tc_event (conn_at 0 k') = length (objs r')"
    "\<not> ev_oneshot (ev_at (length (objs r')) k')" "length (objs k') = Suc (length (objs r'))"
    "\<forall>e < length (objs r'). ev_at e k' = ev_at e r'" "buf_size k' = buf_size r'" "loop_tasks k' = loop_tasks r'"
    "connection k' = Some 0" "cn_event k' = cn_event r'" "deleted k' = deleted r'" "recon_enable k' = recon_enable r'" by blast
  have "Connector_handleWrite env2 0 loc peer (Some (client_newConnection name)) k = Inr k'"
    using st(1) r(1,4) self k'(1) by (simp add: Connector_handleWrite_def Let_def r'_def)
  moreover have len: "length (objs r') = 1" using r'(7) r(9) k(3) by simp
  moreover have "ev_at 0 r' = ev_at 0 r" by (simp add: r'_def ev_at_def)
  then have "\<not> ev_oneshot (ev_at 0 k')" using frame(2) k(3,12) k'(10) len by (simp add: ev_flags_def)
  moreover have "cl_made [] k'"
    using k' r' len idx k(10,11) by (simp add: cl_made_def cl_conn_def)
  ultimately show ?thesis using k'(5) by blast
qed


section \<open>The calls of the user\<close>

lemma cl_conn_frame:
  assumes c: "cl_conn rs k" and only: "conn_only 0 k k'" and ans: "answered rs' 0 k'"
  shows "cl_conn rs' k'" "cn_event k' = cn_event k" "deleted k' = deleted k"
proof -
  have more: "net.more k' = net.more k" using only by (simp add: conn_only_def)
  note fields = more_connector_net [OF more] more_client [OF more_connector_net(7) [OF more]]
  have "tc_state (conn_at 0 k') = CsConnected \<longrightarrow> tc_state (conn_at 0 k) = CsConnected"
    using only by (auto simp: conn_only_def)
  then show "cl_conn rs' k'"
    using c only ans fields by (auto simp: cl_conn_def conn_only_def ev_flags_def)
  show "cn_event k' = cn_event k" "deleted k' = deleted k" by (simp_all add: fields)
qed

lemma tasks_simps [simp]:
  "conn_at d (k\<lparr>loop_tasks := ts\<rparr>) = conn_at d k" "cl_conn rs (c\<lparr>loop_tasks := ts\<rparr>) = cl_conn rs c"
  "answered rs d (k\<lparr>loop_tasks := ts\<rparr>) = answered rs d k" "used d (k\<lparr>loop_tasks := ts\<rparr>) = used d k"
  by (simp_all add: cl_conn_def answered_def handed_def pending_def conn_at_def ev_at_def used_def)

lemma user_call:
  assumes c: "cl_conn rs k" and inv: "srv_inv (k\<lparr>loop_tasks := ts\<rparr>)"
    and can: "client_can (CUser x) k" "connection k = Some 0"
  shows "\<exists>k'. user_run 0 x k = Inr k' \<and> cl_conn (rs @ act_bytes x) k' \<and> srv_inv (k'\<lparr>loop_tasks := ts\<rparr>) \<and>
     loop_tasks k' = loop_tasks k \<and> cn_event k' = cn_event k \<and> deleted k' = deleted k"
proof -
  define n where "n = k\<lparr>connections := connections k, loop_tasks := ts\<rparr>"
  have n: "srv_inv n" "cl_conn rs n" "conn_at 0 n = conn_at 0 k" "length (conns n) = 1" "answered rs 0 n"
    using inv c by (simp_all add: n_def cl_conn_def)
  have "tc_state (conn_at 0 n) = CsConnected \<Longrightarrow> used 0 n < 2 ^ 31"
    using conn_okD(3) [OF n(1), of 0] n(4) by (simp add: used_def bb_open_def bb_wf_def)
  then have room: "used 0 n + sends [x] < 2 ^ 31"
    "disconnects [x] \<le> (if tc_state (conn_at 0 n) = CsConnected then 1 else 0)"
    using can by (cases x; simp add: n_def sends_def disconnects_def)+
  from user_acts_safe [OF n(1) _ room] n(4) obtain n1 where n1: "r_fold (user_run 0) [x] n = Inr n1" "srv_inv n1" "conn_only 0 n n1"
    by auto
  with acts_answered [OF n(1) _ room n(5) n1(1)] n(4) have ans: "answered (rs @ act_bytes x) 0 n1" by (simp add: acts_bytes_def)
  have q: "user_run 0 x n = Inr n1" using n1(1) by (simp add: r_bind_eq_Inr)
  have "user_run 0 x n = r_map (\<lambda>m. m\<lparr>connections := connections k, loop_tasks := ts\<rparr>) (user_run 0 x k)"
    unfolding n_def by (rule user_run_netv)
  with q obtain k1 where k1: "user_run 0 x k = Inr k1" "n1 = k1\<lparr>connections := connections k, loop_tasks := ts\<rparr>"
    by (cases "user_run 0 x k") auto
  have "user_run 0 x k = r_map (\<lambda>m. m\<lparr>connections := connections k, loop_tasks := loop_tasks k\<rparr>) (user_run 0 x k)"
    using user_run_netv [where c = 0 and x = x and n = k and m = "connections k" and ts = "loop_tasks k"] by simp
  with k1(1) have "k1 = k1\<lparr>connections := connections k, loop_tasks := loop_tasks k\<rparr>" by simp
  then have same: "connections k1 = connections k" "loop_tasks k1 = loop_tasks k"
    by (metis net.select_convs(5) net.surjective net.update_convs(5) net.update_convs(2) net.select_convs(2))+
  have n1': "n1 = k1\<lparr>loop_tasks := ts\<rparr>" unfolding k1(2) same(1) [symmetric] by simp
  note frame = cl_conn_frame [OF n(2) n1(3) ans, unfolded n1']
  show ?thesis
    using k1(1) frame n1(2) same(2) unfolding n1' by (intro exI [of _ k1]) (simp add: n_def)
qed


section \<open>The callbacks of the connection\<close>

text \<open>What each of them keeps.\<close>

definition cl_step :: "bytes list \<Rightarrow> tcp_client \<Rightarrow> tcp_client \<Rightarrow> bool" where
  "cl_step bs k k' \<longleftrightarrow> received 0 k' = received 0 k @ bs \<and> ev_flags (ev_at 1 k') = ev_flags (ev_at 1 k)"

lemma cl_step_trans: "cl_step as k k1 \<Longrightarrow> cl_step bs k1 k' \<Longrightarrow> cl_step (as @ bs) k k'"
  by (simp add: cl_step_def)

lemma cl_up_frame:
  assumes "cl_up rs k" "srv_inv k'" "conn_only 0 k k'" "answered rs' 0 k'" "received 0 k' = received 0 k @ bs"
  shows "cl_up rs' k' \<and> cl_step bs k k'"
proof -
  have k: "cl_conn rs k" using assms(1) by (simp add: cl_up_def)
  then have "tc_event (conn_at 0 k) = 1" by (simp add: cl_conn_def)
  with cl_conn_frame [OF k assms(3,4)] assms show ?thesis by (simp add: cl_up_def cl_step_def conn_only_def)
qed

lemma cl_upD:
  assumes "cl_up rs k"
  shows "srv_inv k" "0 < length (conns k)" "answered rs 0 k" "tc_event (conn_at 0 k) = 1" "conn_of 1 k = Some 0" "cn_event k = None"
    "\<not> ev_oneshot (ev_at 1 k)"
  using assms conn_of_event [of k 0] by (simp_all add: cl_up_def cl_conn_def)

lemma client_close:
  assumes up: "cl_up rs k" and st: "tc_state (conn_at 0 k) = CsConnected"
  shows "\<exists>k'. tc_handleClose (client_removeConnection env) 0 k = Inr k' \<and> cl_up rs k' \<and> cl_step [] k k' \<and>
     tc_state (conn_at 0 k') \<noteq> CsConnected"
proof -
  note k = cl_upD [OF up]
  from srv_close [OF k(1,2) st] obtain n' where n': "tc_handleClose server_removeConnection 0 k = Inr n'" "srv_inv n'" by blast
  then obtain q where q: "r_bind (disableAll (tc_event (conn_at 0 k)) (set_state 0 CsDisconnected k)) Inr = Inr q"
    and n'_def: "server_removeConnection 0 q = Inr n'"
    by (auto simp: tc_handleClose_def r_bind_eq_Inr split: if_splits)
  note only = close_only [OF k(1,2) st n'(1)] and logs = close_logs [OF n'(1)]
  have "recon_enable q = recon_enable k"
  proof -
    have "net.more n' = net.more k" using only(1) by (simp add: conn_only_def)
    moreover have "net.more n' = net.more q" using n'_def by (auto simp: server_removeConnection_def)
    ultimately have "net.more q = net.more k" by simp
    from more_client(4) [OF more_connector_net(7) [OF this]] show ?thesis .
  qed
  then have recon: "\<not> recon_enable q" using up by (simp add: cl_up_def cl_conn_def)
  define k' where "k' = q\<lparr>connection := None, loop_tasks := loop_tasks q @ [TDisconnect 0], user_log := user_log q @ [UClosed None]\<rparr>"
  have close: "tc_handleClose (client_removeConnection env) 0 k = Inr k'"
    using st q recon by (auto simp: tc_handleClose_def client_removeConnection_def Let_def k'_def r_bind_eq_Inr)
  have same: "objs k' = objs n'" "fdEventMaps k' = fdEventMaps n'" "ctl_log k' = ctl_log n'" "conns k' = conns n'"
    "loop_tasks k' = loop_tasks n'" "sent_log k' = sent_log n'" "buf_size k' = buf_size n'" "received 0 k' = received 0 n'"
    "cn_event k' = cn_event n'" "deleted k' = deleted n'" "recon_enable k' = recon_enable n'" "connection k' = None"
    using n'_def by (auto simp: k'_def server_removeConnection_def received_def)
  have at: "conn_at 0 k' = conn_at 0 n'" "ev_at e k' = ev_at e n'" for e using same by (simp_all add: conn_at_def ev_at_def)
  have "srv_inv k'" by (rule srv_inv_cong [OF n'(2)]) (use same at in simp_all)
  moreover have "answered rs 0 k'"
    by (rule answered_gone [OF k(3)]) (use only(2) at logs(1) same(6) in \<open>simp_all add: handed_def\<close>)
  moreover have "cl_conn rs k" using up by (simp add: cl_up_def)
  note cl_conn_frame [OF this only(1) close_answered(1) [OF k(1,2) st k(3) n'(1)]]
  ultimately have "cl_up rs k'" using up same at only(2) by (simp add: cl_up_def cl_conn_def)
  moreover have "cl_step [] k k'" using logs(2) [of 0] same at only(1) k(4) by (simp add: cl_step_def conn_only_def)
  ultimately show ?thesis using close at only(2) by auto
qed

lemma client_read:
  assumes up: "cl_up rs k" and st: "tc_state (conn_at 0 k) = CsConnected" and room: "room i 0 k"
  shows "\<exists>k' bs. client_conn_cb env i CbRead 0 k = Inr k' \<and>
     cl_up (rs @ concat (map (\<lambda>b. acts_bytes (t_react i 0 b)) bs)) k' \<and> cl_step bs k k'"
proof (cases "t_recv i 0 = EndOfStream")
  case True
  from client_close [OF up st, of env] True show ?thesis
    by (fastforce simp: client_conn_cb_def tc_handleRead_with_def intro: exI [of _ "[]"])
next
  case False
  note k = cl_upD [OF up]
  from conn_read_safe [OF k(1,2) st room] obtain k' where k': "conn_cb i CbRead 0 k = Inr k'" "srv_inv k'" "conn_only 0 k k'" by blast
  from read_reacts [OF k(1,2) st room k(3) k'(1)] obtain bs where
    bs: "received 0 k' = received 0 k @ bs" "answered (rs @ concat (map (\<lambda>b. acts_bytes (t_react i 0 b)) bs)) 0 k'" by blast
  have "client_conn_cb env i CbRead 0 k = conn_cb i CbRead 0 k"
    using False by (cases "t_recv i 0") (simp_all add: client_conn_cb_def conn_cb_def tc_handleRead_with_def)
  with cl_up_frame [OF up k'(2,3) bs(2,1)] k'(1) show ?thesis by auto
qed

lemma client_write:
  assumes up: "cl_up rs k"
  shows "\<exists>k'. client_conn_cb env i CbWrite 0 k = Inr k' \<and> cl_up rs k' \<and> cl_step [] k k'"
proof -
  note k = cl_upD [OF up]
  from srv_writable [OF k(1,2), of "t_sent i 0"] obtain k' where k': "tc_handleWrite (t_sent i 0) 0 k = Inr k'" "srv_inv k'" by blast
  from cl_up_frame [OF up k'(2) write_only(1) [OF k(1,2) k'(1)] write_answered [OF k(1,2,3) k'(1)], of "[]"]
    write_logs(2) [OF k'(1), of 0] k'(1)
  show ?thesis by (auto simp: client_conn_cb_def)
qed


section \<open>The report\<close>

lemma cl_poll_frame:
  fixes k k1 :: tcp_client
  assumes same: "length (objs k1) = length (objs k)" "fdEventMaps k1 = fdEventMaps k" "ctl_log k1 = ctl_log k"
      "poller.more k1 = poller.more k" "0 < buf_size k1"
    and ev: "\<And>e. \<exists>x. ev_at e k1 = (ev_at e k)\<lparr>ev_revents := x\<rparr>"
  shows "cl_wait env k \<Longrightarrow> cl_wait env k1" "cl_made rs k \<Longrightarrow> cl_made rs k1" "cl_up rs k \<Longrightarrow> cl_up rs k1"
    "received 0 k1 = received 0 k" "conn_at 0 k1 = conn_at 0 k"
proof -
  note more = more_net [OF same(4)] more_connector [OF same(4)]
  note client = more_client [OF more(13)]
  have e: "ev_fd (ev_at d k1) = ev_fd (ev_at d k)" "ev_index (ev_at d k1) = ev_index (ev_at d k)"
    "ev_events (ev_at d k1) = ev_events (ev_at d k)" "ev_oneshot (ev_at d k1) = ev_oneshot (ev_at d k)"
    "ev_reader (ev_at d k1) = ev_reader (ev_at d k)" "ev_closer (ev_at d k1) = ev_closer (ev_at d k)"
    "ev_catcher (ev_at d k1) = ev_catcher (ev_at d k)" "ev_writer (ev_at d k1) = ev_writer (ev_at d k)"
    "ev_locked (ev_at d k1) = ev_locked (ev_at d k)" "isWriting (ev_at d k1) = isWriting (ev_at d k)" for d
    using ev [of d] by (auto simp: isWriting_def)
  have c: "conn_at d k1 = conn_at d k" for d using more(1) by (simp add: conn_at_def)
  show "received 0 k1 = received 0 k" "conn_at 0 k1 = conn_at 0 k" using more(4) c by (simp_all add: received_def)
  have p: "poller_inv k1" if "poller_inv k"
    by (rule poller_inv_cong [OF that same(1-3)]) (simp add: e)
  show "cl_wait env k1" if "cl_wait env k"
    using that p same more client(1-4) e by (auto simp: cl_wait_def awaiting_def)
  have "answered rs 0 k1 = answered rs 0 k" using more e c by (simp add: answered_def handed_def pending_def)
  then have conn: "cl_conn rs k1" if "cl_conn rs k"
    using that same(1,5) more client e c by (simp add: cl_conn_def)
  have "srv_inv (k1\<lparr>loop_tasks := ts\<rparr>)" if "srv_inv (k\<lparr>loop_tasks := ts\<rparr>)" for ts
    by (rule srv_inv_cong [OF that]) (use same more e in \<open>simp_all add: ev_at_def\<close>)
  then show "cl_made rs k1" if "cl_made rs k" using that conn more by (simp add: cl_made_def)
  have "srv_inv k1" if "srv_inv k" by (rule srv_inv_cong [OF that]) (use same more e in \<open>simp_all add: ev_at_def\<close>)
  then show "cl_up rs k1" if "cl_up rs k" using that conn more by (simp add: cl_up_def)
qed

text \<open>Only the event of the connector is reported before there is a connection, only that of the connection
  afterwards, and that only while it is connected.\<close>

definition cl_due :: "tcp_client \<Rightarrow> bool" where
  "cl_due k \<longleftrightarrow> activeEvents k = [] \<or> activeEvents k = [0] \<and> conns k = [] \<or>
     activeEvents k = [1] \<and> conns k \<noteq> [] \<and> tc_state (conn_at 0 k) = CsConnected \<and> report_ok (ev_revents (ev_at 1 k))"

lemma one_report:
  assumes "distinct (map fst r)" "\<forall>(e, re) \<in> set r. e = d \<and> P re"
  shows "r = [] \<or> (\<exists>re. r = [(d, re)] \<and> P re)"
proof (cases r)
  case (Cons x xs)
  with assms have "xs = []" by (cases xs) auto
  with Cons assms show ?thesis by auto
qed simp

lemma client_polls:
  assumes inv: "cl_inv env rs k" and r: "client_report (case w of None \<Rightarrow> [] | Some r \<Rightarrow> r) k"
  shows "\<exists>k1. Poller_poll w (k\<lparr>activeEvents := []\<rparr>) = Inr k1 \<and> cl_inv env rs k1 \<and> received 0 k1 = received 0 k \<and>
     conn_at 0 k1 = conn_at 0 k \<and> conns k1 = conns k \<and> cl_due k1"
proof -
  let ?r = "case w of None \<Rightarrow> [] | Some r \<Rightarrow> r" and ?k = "k\<lparr>activeEvents := []\<rparr>"
  have size: "0 < buf_size k" using inv by (auto simp: cl_inv_def cl_wait_def cl_made_def cl_up_def cl_conn_def)
  have "\<forall>(e, re) \<in> set ?r. e < length (objs ?k)" "distinct (map fst ?r)" "length ?r \<le> buf_size ?k" "0 < buf_size ?k"
    using r size by (auto simp: client_report_def)
  from poll_result [OF this] obtain k1 where k1: "Poller_poll w ?k = Inr k1" "length (objs k1) = length (objs k)"
    "activeEvents k1 = map fst ?r" "fdEventMaps k1 = fdEventMaps k" "ctl_log k1 = ctl_log k" "0 < buf_size k1"
    "poller.more k1 = poller.more k" "\<forall>e re. (e, re) \<in> set ?r \<longrightarrow> ev_at e k1 = (ev_at e ?k)\<lparr>ev_revents := re\<rparr>"
    "\<forall>e. e \<notin> fst ` set ?r \<longrightarrow> ev_at e k1 = ev_at e ?k" by auto
  have at: "ev_at e ?k = ev_at e k" for e by (simp add: ev_at_def)
  have ev: "\<exists>x. ev_at e k1 = (ev_at e k)\<lparr>ev_revents := x\<rparr>" for e
  proof (cases "e \<in> fst ` set ?r")
    case True
    with k1(8) at show ?thesis by auto
  next
    case False
    with k1(9) at show ?thesis by (intro exI [of _ "ev_revents (ev_at e k)"]) simp
  qed
  note frame = cl_poll_frame [OF k1(2,4,5,7,6) ev]
  have conns: "conns k1 = conns k" using more_net(1) [OF k1(7)] .
  have "cl_due k1"
  proof (cases "cl_wait env k")
    case True
    with r have "\<forall>(e, re) \<in> set ?r. e = 0 \<and> True" by (auto simp: client_report_def cl_wait_def)
    with one_report [of ?r 0 "\<lambda>_. True"] r k1(3) True conns show ?thesis
      by (auto simp: cl_due_def client_report_def cl_wait_def)
  next
    case False
    with inv obtain ts where c: "cl_conn rs k" "srv_inv (k\<lparr>loop_tasks := ts\<rparr>)"
      unfolding cl_inv_def cl_made_def cl_up_def by (metis net.surjective net.update_convs(2))
    have "e = 1 \<and> (report_ok re \<and> ev_index (ev_at 1 k) = kAdded)" if "(e, re) \<in> set ?r" for e re
    proof -
      from that r have e: "e < 2" "ev_index (ev_at e k) = kAdded" "report_ok re"
        using c(1) by (auto simp: client_report_def cl_conn_def)
      moreover have "ev_index (ev_at 0 k) = kNew" using c(1) by (simp add: cl_conn_def)
      ultimately show ?thesis by (cases "e = 0") (auto simp: less_2_cases_iff)
    qed
    then have all: "\<forall>(e, re) \<in> set ?r. e = 1 \<and> (report_ok re \<and> ev_index (ev_at 1 k) = kAdded)" by auto
    have dist: "distinct (map fst ?r)" using r by (simp add: client_report_def)
    from one_report [OF dist all] show ?thesis
    proof
      assume "\<exists>re. ?r = [(1, re)] \<and> report_ok re \<and> ev_index (ev_at 1 k) = kAdded"
      then obtain re where re: "?r = [(1, re)]" "report_ok re" "ev_index (ev_at 1 k) = kAdded" by blast
      have "watched 0 (k\<lparr>loop_tasks := ts\<rparr>)"
        using c(1) re(3) by (simp add: watched_def cl_conn_def ev_at_def)
      from watched_connected [OF c(2) this] have "tc_state (conn_at 0 k) = CsConnected" by simp
      moreover have "ev_revents (ev_at 1 k1) = re" using k1(8) re(1) by simp
      ultimately show ?thesis using re k1(3) conns frame(5) c(1) by (auto simp: cl_due_def cl_conn_def)
    qed (use k1(3) in \<open>simp add: cl_due_def\<close>)
  qed
  moreover have "cl_inv env rs k1" using inv frame(1-3) by (auto simp: cl_inv_def)
  ultimately show ?thesis using k1(1) frame(4,5) conns by blast
qed


section \<open>The task\<close>

lemma client_tasks:
  assumes inv: "cl_inv env rs k" and due: "cl_due k"
  shows "\<exists>k2. client_task k = Inr k2 \<and> (cl_wait env k2 \<and> rs = [] \<or> cl_up rs k2) \<and> cl_due k2 \<and> received 0 k2 = received 0 k \<and>
     (activeEvents k2 = [1] \<longrightarrow> conn_at 0 k2 = conn_at 0 k \<and> conns k \<noteq> [])"
proof -
  consider (wait) "cl_wait env k" "rs = []" | (made) "cl_made rs k" | (up) "cl_up rs k"
    using inv by (auto simp: cl_inv_def)
  then show ?thesis
  proof cases
    case wait
    then have "client_task k = Inr k" "conns k = []" by (simp_all add: cl_wait_def client_task_def run_loop_task_def)
    with wait due show ?thesis by (auto simp: cl_due_def)
  next
    case made
    let ?k = "resetEvent (k\<lparr>loop_tasks := []\<rparr>)"
    have k: "cl_conn rs k" "srv_inv (k\<lparr>loop_tasks := []\<rparr>)" "loop_tasks k = [TResetEvent]" "cn_event k = Some 0" "deleted k = []"
      using made by (simp_all add: cl_made_def)
    have same: "ev_at e ?k = ev_at e k" "conn_at d ?k = conn_at d k" "activeEvents ?k = activeEvents k" "received 0 ?k = received 0 k"
      "conns ?k = conns k" for e d
      by (simp_all add: resetEvent_def delete_event_def ev_at_def conn_at_def received_def)
    have "srv_inv ?k"
      by (rule srv_inv_cong [OF k(2)]) (simp_all add: resetEvent_def delete_event_def ev_at_def)
    moreover have "answered rs 0 ?k = answered rs 0 k"
      by (simp add: answered_def same pending_def) (simp add: handed_def resetEvent_def delete_event_def)
    with k(1) have "cl_conn rs ?k" by (simp add: cl_conn_def same) (simp add: resetEvent_def delete_event_def)
    ultimately have "cl_up rs ?k" using k(4,5) by (simp add: cl_up_def) (simp add: resetEvent_def delete_event_def)
    moreover have "client_task k = Inr ?k" using k(3) by (simp add: client_task_def run_loop_task_def)
    moreover have "cl_due ?k" using due by (simp add: cl_due_def same)
    ultimately show ?thesis using due same by (auto simp: cl_due_def)
  next
    case up
    note k = cl_upD [OF up]
    have "TResetEvent \<notin> set (loop_tasks k)" using k(1) by (auto simp: srv_inv_def)
    then have eq: "client_task k = run_loop_task Inr k"
      by (cases "loop_tasks k") (auto simp: client_task_def run_loop_task_def split: loop_task.split)
    from srv_task [OF k(1)] obtain k2 where k2: "run_loop_task Inr k = Inr k2" "srv_inv k2" by blast
    from task_only [OF k(1) k2(1)] show ?thesis
    proof
      assume "k2 = k"
      with eq k2(1) up due show ?thesis by (auto simp: cl_due_def)
    next
      assume "activeEvents k2 = activeEvents k \<and> (\<exists>c < length (conns k). tc_state (conn_at c k) = CsDisconnected \<and>
        tc_state (conn_at c k2) = CsDisconnected \<and> conn_only c k k2)"
      then have only: "activeEvents k2 = activeEvents k" "tc_state (conn_at 0 k) = CsDisconnected"
        "tc_state (conn_at 0 k2) = CsDisconnected" "conn_only 0 k k2"
        using up by (auto simp: cl_up_def cl_conn_def)
      have logs: "sent_log k2 = sent_log k" "user_log k2 = user_log k" using task_logs [OF k2(1)] by simp_all
      have "answered rs 0 k2"
        by (rule answered_gone [OF k(3)]) (use only logs in \<open>simp_all add: handed_def\<close>)
      from cl_up_frame [OF up k2(2) only(4) this, of "[]"] logs have "cl_up rs k2" by (simp add: received_def)
      moreover have "conns k \<noteq> []" using k(2) by auto
      then have "activeEvents k = []" using due only(2) by (auto simp: cl_due_def)
      ultimately show ?thesis using eq k2(1) only(1) logs by (auto simp: cl_due_def received_def)
    qed
  qed
qed

section \<open>The dispatch\<close>

lemma dispatch_connector:
  assumes w: "cl_wait env k"
  shows "\<exists>k'. handleEvent (client_cb name env2 0 i) 0 k = Inr k' \<and> cl_inv env [] k' \<and> received 0 k' = received 0 k"
proof (cases "\<not> ev_locked (ev_at 0 k) \<and> cb_due CbWrite (ev_at 0 k)")
  case True
  have k: "cn_event k = Some 0" "\<not> ev_reader (ev_at 0 k)" "\<not> ev_closer (ev_at 0 k)" "\<not> ev_catcher (ev_at 0 k)" "received 0 k = []"
    using w by (simp_all add: cl_wait_def received_def)
  from wait_writable [OF w, of env2 "t_local i" "t_peer i" name] obtain k' where
    k': "client_cb name env2 0 i CbWrite 0 k = Inr k'" "cl_made [] k'" "received 0 k' = []" "\<not> ev_oneshot (ev_at 0 k')"
    using k(1) by (auto simp: client_cb_def)
  have "\<not> cb_due CbClose (ev_at 0 k)" "\<not> cb_due CbError (ev_at 0 k)" "\<not> cb_due CbRead (ev_at 0 k)"
    using k by (simp_all add: cb_due_def)
  with True k'(1,4) have "handleEvent (client_cb name env2 0 i) 0 k = Inr k'"
    by (simp add: handleEvent_def handleLockEvent_def)
  with k'(2,3) k(5) show ?thesis by (auto simp: cl_inv_def)
next
  case False
  have k: "\<not> ev_reader (ev_at 0 k)" "\<not> ev_closer (ev_at 0 k)" "\<not> ev_catcher (ev_at 0 k)" "\<not> ev_oneshot (ev_at 0 k)"
    using w by (simp_all add: cl_wait_def)
  then have "\<not> cb_due CbClose (ev_at 0 k)" "\<not> cb_due CbError (ev_at 0 k)" "\<not> cb_due CbRead (ev_at 0 k)"
    by (simp_all add: cb_due_def)
  with False k(4) have "handleEvent (client_cb name env2 0 i) 0 k = Inr k"
    by (auto simp: handleEvent_def handleLockEvent_def)
  with w show ?thesis by (auto simp: cl_inv_def)
qed

lemma dispatch_connection:
  assumes up: "cl_up rs k" and st: "tc_state (conn_at 0 k) = CsConnected" and room: "room i 0 k"
    and re: "report_ok (ev_revents (ev_at 1 k))"
  shows "\<exists>k' bs. handleEvent (client_cb name env2 err i) 1 k = Inr k' \<and>
     cl_up (rs @ concat (map (\<lambda>b. acts_bytes (t_react i 0 b)) bs)) k' \<and> received 0 k' = received 0 k @ bs"
proof (cases "ev_locked (ev_at 1 k)")
  case True
  with up show ?thesis by (intro exI [of _ k] exI [of _ "[]"]) (simp add: handleEvent_def)
next
  case False
  let ?ev = "ev_at 1 k" and ?asked = "\<lambda>bs. concat (map (\<lambda>b. acts_bytes (t_react i 0 b)) bs)"
  have cb: "client_cb name env2 err i x 1 n = client_conn_cb env2 i x 0 n" if "cl_up rs' n" for x n rs'
    using cl_upD(5,6) [OF that] by (simp add: client_cb_def)
  have due: "cb_due x (ev_at 1 n) = cb_due x ?ev" if "cl_step bs k n" for x n bs
    using that by (cases x) (simp_all add: cl_step_def ev_flags_def cb_due_def)
  obtain k1 where k1: "(if cb_due CbClose ?ev then client_cb name env2 err i CbClose 1 k else Inr k) = Inr k1" "cl_up rs k1"
    "cl_step [] k k1" "\<not> cb_due CbClose ?ev \<longrightarrow> k1 = k"
  proof (cases "cb_due CbClose ?ev")
    case True
    from client_close [OF up st, of env2] True that cb [OF up] show ?thesis by (auto simp: client_conn_cb_def)
  qed (use that up in \<open>simp add: cl_step_def\<close>)
  have error: "client_cb name env2 err i CbError 1 k1 = Inr k1" using cb [OF k1(2)] by (simp add: client_conn_cb_def)
  obtain k2 bs where k2: "(if cb_due CbRead ?ev then client_cb name env2 err i CbRead 1 k1 else Inr k1) = Inr k2"
    "cl_up (rs @ ?asked bs) k2" "cl_step bs k k2"
  proof (cases "cb_due CbRead ?ev")
    case True
    with re have "\<not> cb_due CbClose ?ev" by (auto simp: cb_due_def report_ok_def)
    with k1(4) have "k1 = k" by simp
    with client_read [OF up st room, of env2] True cb [OF up] that show ?thesis by auto
  next
    case False
    with that [of k1 "[]"] k1(2,3) show ?thesis by simp
  qed
  obtain k3 where k3: "(if cb_due CbWrite ?ev then client_cb name env2 err i CbWrite 1 k2 else Inr k2) = Inr k3"
    "cl_up (rs @ ?asked bs) k3" "cl_step bs k k3"
  proof (cases "cb_due CbWrite ?ev")
    case True
    from client_write [OF k2(2), of env2 i] obtain k3 where k3: "client_conn_cb env2 i CbWrite 0 k2 = Inr k3"
      "cl_up (rs @ ?asked bs) k3" "cl_step [] k2 k3" by blast
    with True cb [OF k2(2)] cl_step_trans [OF k2(3) k3(3)] that show ?thesis by simp
  qed (use that k2 in simp)
  have "handleEvent (client_cb name env2 err i) 1 k = Inr k3"
    using k1(1) k2(1) k3(1) error False due [OF k1(3)] due [OF k2(3)] cl_upD(7) [OF k3(2)]
    by (simp add: handleEvent_def handleLockEvent_def del: One_nat_def)
  with k3(2,3) show ?thesis by (auto simp: cl_step_def)
qed

lemma client_turns:
  assumes inv: "cl_inv env rs k" and can: "client_can (CTurn env2 err i) k"
  shows "\<exists>k'. client_turn name env2 err i k = Inr k' \<and> cl_inv env (rs @ client_asked (CTurn env2 err i) k k') k'"
proof -
  from can have c: "err = 0" "conns k \<noteq> [] \<longrightarrow> room i 0 k" "client_report (case t_ready i of None \<Rightarrow> [] | Some r \<Rightarrow> r) k"
    by simp_all
  from client_polls [OF inv c(3)] obtain k1 where k1: "Poller_poll (t_ready i) (k\<lparr>activeEvents := []\<rparr>) = Inr k1" "cl_inv env rs k1"
    "received 0 k1 = received 0 k" "conn_at 0 k1 = conn_at 0 k" "conns k1 = conns k" "cl_due k1" by blast
  from client_tasks [OF k1(2,6)] obtain k2 where k2: "client_task k1 = Inr k2" "cl_wait env k2 \<and> rs = [] \<or> cl_up rs k2" "cl_due k2"
    "received 0 k2 = received 0 k1" "activeEvents k2 = [1] \<longrightarrow> conn_at 0 k2 = conn_at 0 k1 \<and> conns k1 \<noteq> []" by blast
  have turn: "client_turn name env2 err i k = r_fold (handleEvent (client_cb name env2 err i)) (activeEvents k2) k2"
    using k1(1) k2(1) by (simp add: client_turn_def)
  have "\<exists>k' bs. client_turn name env2 err i k = Inr k' \<and> received 0 k' = received 0 k2 @ bs \<and>
      cl_inv env (rs @ concat (map (\<lambda>b. acts_bytes (t_react i 0 b)) bs)) k'"
    using k2(3) unfolding cl_due_def
  proof (elim disjE conjE)
    assume "activeEvents k2 = []"
    with turn k2(2) show ?thesis by (intro exI [of _ k2] exI [of _ "[]"]) (auto simp: cl_inv_def)
  next
    assume a: "activeEvents k2 = [0]" "conns k2 = []"
    with k2(2) have w: "cl_wait env k2" "rs = []" by (auto simp: cl_up_def cl_conn_def)
    from dispatch_connector [OF w(1), of name env2 i] a(1) turn c(1) w(2) show ?thesis
      by (fastforce intro: exI [of _ "[]"])
  next
    assume a: "activeEvents k2 = [1]" "conns k2 \<noteq> []" "tc_state (conn_at 0 k2) = CsConnected"
      "report_ok (ev_revents (ev_at 1 k2))"
    with k2(2) have up: "cl_up rs k2" by (auto simp: cl_wait_def)
    have "room i 0 k2" using c(2) k2(5) a(1) k1(4,5) room_cong [of 0 k2 k i] by simp
    from dispatch_connection [OF up a(3) this a(4), of name env2 err] a(1) turn show ?thesis by (auto simp: cl_inv_def)
  qed
  with k1(3) k2(4) show ?thesis by auto
qed


section \<open>The whole life\<close>

lemma client_calls:
  assumes inv: "cl_inv env rs k" and can: "client_can (CUser x) k"
  shows "\<exists>k'. client_step name (CUser x) k = Inr k' \<and> cl_inv env (rs @ client_asked (CUser x) k k') k'"
proof (cases "connection k")
  case None
  with inv show ?thesis by (intro exI [of _ k]) simp
next
  case (Some d)
  with inv have d: "connection k = Some 0" by (auto simp: cl_inv_def cl_wait_def cl_made_def cl_up_def cl_conn_def)
  from inv d consider (made) "cl_made rs k" | (up) "cl_up rs k" by (auto simp: cl_inv_def cl_wait_def)
  then show ?thesis
  proof cases
    case made
    then have "cl_conn rs k" "srv_inv (k\<lparr>loop_tasks := []\<rparr>)" by (simp_all add: cl_made_def)
    from user_call [OF this can d] made d show ?thesis by (fastforce simp: cl_inv_def cl_made_def)
  next
    case up
    then have "cl_conn rs k" "srv_inv (k\<lparr>loop_tasks := loop_tasks k\<rparr>)" by (simp_all add: cl_up_def)
    from user_call [OF this can d] obtain k' where k': "user_run 0 x k = Inr k'" "cl_conn (rs @ act_bytes x) k'"
      "srv_inv (k'\<lparr>loop_tasks := loop_tasks k\<rparr>)" "loop_tasks k' = loop_tasks k" "cn_event k' = cn_event k" "deleted k' = deleted k"
      by blast
    have "k'\<lparr>loop_tasks := loop_tasks k\<rparr> = k'" unfolding k'(4) [symmetric] by simp
    with k'(2,3,5,6) up have "cl_up (rs @ act_bytes x) k'" by (simp add: cl_up_def)
    with k'(1) d show ?thesis by (auto simp: cl_inv_def)
  qed
qed

lemma client_steps:
  assumes "cl_inv env rs k" "client_can x k"
  shows "\<exists>k'. client_step name x k = Inr k' \<and> cl_inv env (rs @ client_asked x k k') k'"
proof (cases x)
  case (CTurn env2 err i)
  with client_turns [OF assms(1), of env2 err i name] assms(2) show ?thesis by simp
next
  case (CUser u)
  with client_calls [OF assms(1), of u name] assms(2) show ?thesis by simp
qed

lemma client_reach_inv: "client_reach name env c rs k \<Longrightarrow> client_fresh env c \<Longrightarrow> cl_inv env rs k"
proof (induction rule: client_reach.induct)
  case (client_begin k)
  with start_waits show ?case by (simp add: cl_inv_def)
next
  case (client_next rs k x k')
  with client_steps [of env rs k x name] show ?case by auto
qed

lemma cl_inv_facts:
  assumes "cl_inv env rs k"
  shows "\<exists>rest. rs = handed 0 k @ rest"
    and "conns k \<noteq> [] \<Longrightarrow> tc_state (conn_at 0 k) = CsConnected \<Longrightarrow> handed 0 k @ pending 0 k = rs"
    and "poller_inv k" "no_dangling k" "length (conns k) \<le> 1"
proof -
  from assms consider (wait) "cl_wait env k" "rs = []" | (conn) "cl_conn rs k" "poller_inv k" "set (deleted k) \<subseteq> {0}"
    by (auto simp: cl_inv_def cl_made_def cl_up_def srv_inv_def poller_inv_def ev_at_def)
  note cases = this
  from cases show "\<exists>rest. rs = handed 0 k @ rest"
    by cases (auto simp: cl_wait_def handed_def cl_conn_def answered_def)
  from cases show "handed 0 k @ pending 0 k = rs" if "conns k \<noteq> []" "tc_state (conn_at 0 k) = CsConnected"
    by cases (use that in \<open>auto simp: cl_wait_def cl_conn_def answered_def\<close>)
  from cases show "poller_inv k" by cases (simp_all add: cl_wait_def awaiting_def)
  from cases show "length (conns k) \<le> 1" by cases (simp_all add: cl_wait_def cl_conn_def)
  from cases show "no_dangling k"
  proof cases
    case conn
    then have "0 < length (objs k)" "ev_index (ev_at 0 k) = kNew" by (auto simp: cl_conn_def)
    with conn(3) poller_invD(1) [OF conn(2)] show ?thesis by (fastforce simp: no_dangling_def)
  qed (simp add: cl_wait_def no_dangling_def)
qed

section \<open>Properties\<close>

text \<open>C10: A client without auto-reconnect on a new loop, whose \<open>start\<close> succeeded, with a local address and port
  that are not those of the server. In every state that turns of the loop and the user's calls of \<open>send\<close>
  and \<open>disconnect\<close> lead to, the next turn and the next such call succeed, there is at most one connection,
  no destroyed event is registered with the poller, and the calls of \<open>epoll_ctl\<close> are legal. The bytes passed
  to \<open>::send\<close> are a beginning of what the user asked to send, in order; while connected, the rest waits in
  the write buffer. Assumed (\<open>client_fresh\<close>, \<open>client_can\<close>): the connect was accepted on a descriptor unknown to the
  poller and its pending error is 0; the kernel reports only events of the interest list, each once, a
  hang-up with readable data or without \<open>EPOLLPRI\<close> and \<open>EPOLLRDHUP\<close>; buffers stay below \<open>2 ^ 31\<close> bytes; the user
  calls \<open>disconnect\<close> only while connected, at most once in a receive callback, and never \<open>stop\<close>.\<close>
theorem client_delivers:
  assumes "client_fresh env c" "client_reach name env c rs k"
  shows "(\<forall>x. client_can x k \<longrightarrow> (\<exists>k'. client_step name x k = Inr k')) \<and>
     (\<exists>rest. rs = handed 0 k @ rest) \<and>
     (conns k \<noteq> [] \<and> tc_state (conn_at 0 k) = CsConnected \<longrightarrow> handed 0 k @ pending 0 k = rs) \<and>
     length (conns k) \<le> 1 \<and> no_dangling k \<and> ctl_legal (ctl_log k) {}"
proof -
  have inv: "cl_inv env rs k" by (rule client_reach_inv [OF assms(2,1)])
  note facts = cl_inv_facts [OF inv]
  show ?thesis using client_steps [OF inv, of _ name] facts poller_invD(5) [OF facts(3)] by blast
qed


lemma sample_fresh: "client_fresh (sample_env 9) sample_client"
  by (simp add: client_fresh_def sample_client_ok) (simp add: sample_client_def TcpClient_new_def Connector_new_def net.defs
      connector.defs tcp_client.defs net_new_def sample_env_def sample_address_def Address_make_def zero_storage_def swap16_def Let_def other_end_def)

lemma sample_wrote:
  "\<exists>k k1. client_start (sample_env 9) sample_client = Inr (True, k) \<and> buf_size k = 256 \<and> ev_index (ev_at 0 k) = kAdded \<and>
     client_turn (\<lambda>i. ''c'') (sample_env 10) 0 (sample_in [(0, EPOLLOUT)] (- 1) Failed) k = Inr k1 \<and>
     tc_state (conn_at 0 k1) = CsConnected \<and> conns k1 \<noteq> [] \<and> connection k1 = Some 0 \<and> used 0 k1 = 0 \<and> received 0 k1 = received 0 k"
  by (simp add: client_start_def Connector_start_def sample_client_def TcpClient_new_def Connector_new_def net.defs
      connector.defs tcp_client.defs net_new_def sample_env_def sample_address_def Address_make_def zero_storage_def swap16_def
      CreateTcpSocket_def newSocket_def Socket_new_def isInvalid_def getFd_def Socket_connect_def getPeerAddress_def
      getLocalAddress_def delete_event_def poll_run client_turn_def sample_in_def Poller_poll_def fillActiveEvents_def
      client_task_def run_loop_task_def handleEvent_def handleLockEvent_def cb_due_def EPOLLOUT_def EPOLLHUP_def EPOLLIN_def EPOLLERR_def
      client_cb_def Connector_handleWrite_def removeAndResetChannel_def isSelfConnect_def client_newConnection_def TcpConnection_new_def
      tc_connectFinished_def conn_at_def set_state_def upd_conn_def used_def received_def ByteBuf_new_def ByteBufData_new_def)

lemma send_state:
  fixes n n' :: "'a net_scheme"
  assumes "tc_send m len c n = Inr n'" "c < length (conns n)"
  shows "tc_state (conn_at c n') = tc_state (conn_at c n)" "length (conns n') = length (conns n)"
proof -
  have "n' = n \<or> (\<exists>n1 b. poller.more n1 = poller.more n \<and> n' = upd_conn c (\<lambda>t. t\<lparr>write_buffer := b\<rparr>) n1)"
    using assms(1) interest_more [of "tc_event (conn_at c n)" "\<lambda>w. w OR kWriteEvent" n]
    by (auto simp: tc_send_def tc_send_with_def r_bind_eq_Inr enableWriting_def split: if_splits)
  then have "n' = n \<or> (\<exists>n1 b. conns n1 = conns n \<and> n' = upd_conn c (\<lambda>t. t\<lparr>write_buffer := b\<rparr>) n1)"
    using more_net(1) by metis
  then show "tc_state (conn_at c n') = tc_state (conn_at c n)" "length (conns n') = length (conns n)"
    using assms(2) by (auto simp: upd_conn_def conn_at_def)
qed

text \<open>A client that connects and sends two bytes.\<close>
theorem client_delivers_witness:
  "\<exists>k1 k2. client_reach (\<lambda>i. ''c'') (sample_env 9) sample_client [] k1 \<and>
     client_step (\<lambda>i. ''c'') (CUser (USend [1, 2])) k1 = Inr k2 \<and> handed 0 k2 @ pending 0 k2 = [1, 2] \<and> no_dangling k2"
proof -
  let ?nm = "\<lambda>i :: int. ''c''" and ?t = "CTurn (sample_env 10) 0 (sample_in [(0, EPOLLOUT)] (- 1) Failed)"
    and ?s = "CUser (USend [1, 2])"
  from sample_wrote obtain k k1 where k: "client_start (sample_env 9) sample_client = Inr (True, k)"
    "buf_size k = 256" "ev_index (ev_at 0 k) = kAdded" "client_step ?nm ?t k = Inr k1" "tc_state (conn_at 0 k1) = CsConnected"
    "conns k1 \<noteq> []" "connection k1 = Some 0" "used 0 k1 = 0" "received 0 k1 = received 0 k" by auto
  have "cl_wait (sample_env 9) k" by (rule start_waits [OF sample_fresh k(1)])
  then have "client_can ?t k"
    using k(2,3) by (simp add: client_report_def cl_wait_def sample_in_def report_ok_def EPOLLOUT_def EPOLLHUP_def)
  with client_next [OF client_begin [OF k(1)] _ k(4)] have r1: "client_reach ?nm (sample_env 9) sample_client [] k1"
    by (simp add: k(9))
  have can: "client_can ?s k1" using k(7,8) by simp
  with client_delivers [OF sample_fresh r1] obtain k2 where k2: "client_step ?nm ?s k1 = Inr k2" by blast
  with client_next [OF r1 can] k(7) have r2: "client_reach ?nm (sample_env 9) sample_client [1, 2] k2" by auto
  have "tc_send [1, 2] 2 0 k1 = Inr k2" using k2 k(7) by simp
  from send_state [OF this] k(5,6) have "conns k2 \<noteq> []" "tc_state (conn_at 0 k2) = CsConnected" by auto
  with client_delivers [OF sample_fresh r2] r1 k2 show ?thesis by blast
qed

end
