(* ===== verification/Utils.thy ===== *)
theory Utils
  imports StdString "HOL-Library.Signed_Division"
begin

text \<open>
  The class \<open>Utils\<close> of \<open>gwcpp/base/Utils.h\<close> and \<open>Utils.cpp\<close>: integers to text, splitting and
  stripping of strings. The loops of \<open>Split\<close>, \<open>SplitBySpace\<close> and \<open>SplitCmdline\<close> have no bound in
  the code and are \<open>partial_function (option)\<close>: the value \<open>None\<close> is a call that does not return.
  The output vector, which each of them clears first, is part of the result.
\<close>

section \<open>Integers to text\<close>

definition digits :: string where "digits = ''9876543210123456789''"

definition digitsHex :: string where "digitsHex = ''0123456789ABCDEF''"

text \<open>\<open>zero[lsd]\<close> with \<open>zero = digits + 9\<close>: the remainder of a negative number is negative.\<close>

definition digit_at :: "int \<Rightarrow> char" where
  "digit_at lsd = digits ! nat (9 + lsd)"

text \<open>The loop of \<open>convert\<close>: the characters written through \<open>p\<close>, lowest digit first. \<open>i\<close> is a value
  of any integer type, with the division of C++, which truncates.\<close>

function convert_loop :: "int \<Rightarrow> string" where
  "convert_loop i =
     digit_at (i smod 10) # (if i sdiv 10 \<noteq> 0 then convert_loop (i sdiv 10) else [])"
  by pat_completeness auto
termination
  by (relation "measure (\<lambda>i. nat \<bar>i\<bar>)") (auto simp: signed_divide_int_def abs_if sgn_if split: if_splits)

declare convert_loop.simps [simp del]

text \<open>The text that \<open>convert\<close> leaves in the buffer; a NUL follows it, and its length is returned.\<close>

definition convert :: "int \<Rightarrow> string" where
  "convert value = rev (convert_loop value @ (if value < 0 then ''-'' else []))"

function convertHex_loop :: "nat \<Rightarrow> string" where
  "convertHex_loop i =
     digitsHex ! (i mod 16) # (if i div 16 \<noteq> 0 then convertHex_loop (i div 16) else [])"
  by pat_completeness auto
termination by (relation "measure id") auto

declare convertHex_loop.simps [simp del]

definition convertHex :: "nat \<Rightarrow> string" where
  "convertHex value = rev (convertHex_loop value)"

section \<open>Memory and time\<close>

definition memZero :: "nat \<Rightarrow> string \<Rightarrow> string" where
  "memZero n p = replicate n (CHR 0x00) @ drop n p"

text \<open>The milliseconds between two readings of the clock in nanoseconds, rounded towards zero, before
  their conversion to \<open>double\<close>.\<close>

definition calculateExecutionTime :: "int \<Rightarrow> int \<Rightarrow> int" where
  "calculateExecutionTime start finish = (finish - start) sdiv 1000000"

section \<open>Splitting\<close>

type_synonym 'a run = "'a result option"

definition size_of_vec :: "string list \<Rightarrow> nat \<times> string list" where
  "size_of_vec str_vec = (length str_vec, str_vec)"

partial_function (option) Split_loop ::
    "string \<Rightarrow> string \<Rightarrow> nat \<Rightarrow> string list \<Rightarrow> (nat \<times> string list) run" where
  "Split_loop src_str sep start_pos str_vec =
     (let end_pos = str_find src_str sep start_pos
      in case str_substr src_str start_pos (size_sub end_pos start_pos) of
           Inl e \<Rightarrow> Some (Inl e)
         | Inr str_chip \<Rightarrow>
             if end_pos = npos then Some (Inr (size_of_vec (str_vec @ [str_chip])))
             else Split_loop src_str sep (size_add end_pos (length sep)) (str_vec @ [str_chip]))"

definition Split :: "string \<Rightarrow> string \<Rightarrow> (nat \<times> string list) run" where
  "Split src_str sep = Split_loop src_str sep 0 []"

definition blanks :: string where "blanks = [CHR '' '', CHR 0x09]"

partial_function (option) SplitBySpace_loop ::
    "string \<Rightarrow> nat \<Rightarrow> string list \<Rightarrow> (nat \<times> string list) run" where
  "SplitBySpace_loop src_str end_pos str_vec =
     (let start_pos = find_first_not_of src_str blanks end_pos
      in if start_pos = npos then Some (Inr (size_of_vec str_vec))
         else let end_pos' = find_first_of src_str blanks start_pos
              in case str_substr src_str start_pos (size_sub end_pos' start_pos) of
                   Inl e \<Rightarrow> Some (Inl e)
                 | Inr str_chip \<Rightarrow>
                     if end_pos' = npos then Some (Inr (size_of_vec (str_vec @ [str_chip])))
                     else SplitBySpace_loop src_str end_pos' (str_vec @ [str_chip]))"

definition SplitBySpace :: "string \<Rightarrow> (nat \<times> string list) run" where
  "SplitBySpace src_str = SplitBySpace_loop src_str 0 []"

section \<open>Command lines\<close>

definition quotes :: string where "quotes = [CHR 0x27, CHR 0x22]"

text \<open>The inner loop over the quotations inside an argument; it yields the final \<open>end_pos\<close>. An
  unclosed quotation makes \<open>quot_end_pos + 1\<close> wrap to 0.\<close>

partial_function (option) cmd_quot_loop :: "string \<Rightarrow> nat \<Rightarrow> nat \<Rightarrow> nat run" where
  "cmd_quot_loop cmd quot_start_pos end_pos =
     (if quot_start_pos \<noteq> npos \<and> (quot_start_pos < end_pos \<or> end_pos = npos) then
        case str_at cmd quot_start_pos of
          Inl e \<Rightarrow> Some (Inl e)
        | Inr quot_char \<Rightarrow>
            let quot_end_pos = find_first_of cmd [quot_char] (size_add quot_start_pos 1)
            in cmd_quot_loop cmd (find_first_of cmd quotes (size_add quot_end_pos 1))
                 (find_first_of cmd blanks (size_add quot_end_pos 1))
      else Some (Inr end_pos))"

partial_function (option) cmd_loop :: "string \<Rightarrow> nat \<Rightarrow> string list \<Rightarrow> (bool \<times> string list) run" where
  "cmd_loop cmd end_pos args =
     (let start_pos = find_first_not_of cmd blanks end_pos
      in if start_pos = npos then Some (Inr (True, args))
         else case str_at cmd start_pos of
           Inl e \<Rightarrow> Some (Inl e)
         | Inr start_char \<Rightarrow>
           if start_char \<in> set quotes then
             let end_pos1 = find_first_of cmd [start_char] (size_add start_pos 1)
             in if end_pos1 = npos then Some (Inr (False, args))
                else case str_substr cmd (size_add start_pos 1) (size_sub (size_sub end_pos1 start_pos) 1) of
                  Inl e \<Rightarrow> Some (Inl e)
                | Inr arg \<Rightarrow> cmd_loop cmd (size_add end_pos1 1) (args @ [arg])
           else
             case cmd_quot_loop cmd (find_first_of cmd quotes start_pos)
                 (find_first_of cmd blanks start_pos) of
               None \<Rightarrow> None
             | Some (Inl e) \<Rightarrow> Some (Inl e)
             | Some (Inr end_pos2) \<Rightarrow>
               (case str_substr cmd start_pos (size_sub end_pos2 start_pos) of
                  Inl e \<Rightarrow> Some (Inl e)
                | Inr arg \<Rightarrow>
                    if end_pos2 = npos then Some (Inr (True, args @ [arg]))
                    else cmd_loop cmd end_pos2 (args @ [arg])))"

definition SplitCmdline :: "string \<Rightarrow> (bool \<times> string list) run" where
  "SplitCmdline cmd = cmd_loop cmd 0 []"

section \<open>Stripping\<close>

definition StripLeft :: "string \<Rightarrow> string result" where
  "StripLeft orig_str =
     (let start_pos = find_first_not_of orig_str '' '' 0
      in if start_pos = npos then Inr [] else str_substr orig_str start_pos npos)"

definition StripRight :: "string \<Rightarrow> string result" where
  "StripRight orig_str =
     (let end_pos = find_last_not_of orig_str '' '' (size_sub (length orig_str) 1)
      in if end_pos = npos then Inr [] else str_substr orig_str 0 (size_add end_pos 1))"

definition Strip :: "string \<Rightarrow> string result" where
  "Strip orig_str =
     (let start_pos = find_first_not_of orig_str '' '' 0
      in if start_pos = npos then Inr []
         else let end_pos = find_last_not_of orig_str '' '' npos
              in if end_pos = npos then Inr []
                 else str_substr orig_str start_pos (size_add (size_sub end_pos start_pos) 1))"

text \<open>\<open>front()\<close> and \<open>back()\<close> of an empty string are undefined.\<close>

definition StripQuot :: "string \<Rightarrow> string result" where
  "StripQuot orig_str =
     (if orig_str = [] then Inl Undefined
      else if hd orig_str = last orig_str \<and> hd orig_str \<in> set quotes
      then str_substr orig_str 1 (size_sub (length orig_str) 2)
      else Inr orig_str)"

end
