(* ===== verification/UtilsText.thy ===== *)
theory UtilsText
  imports Utils
begin

text \<open>
  What the functions of \<open>Utils\<close> compute: the text of an integer determines it and fits the
  buffers of the callers, the splitting functions agree with their usual specifications, and the
  inputs on which \<open>Split\<close> and \<open>SplitCmdline\<close> do not return.
\<close>

section \<open>Integers\<close>

fun digits_value :: "int \<Rightarrow> (char \<Rightarrow> int) \<Rightarrow> string \<Rightarrow> int" where
  "digits_value b val [] = 0"
| "digits_value b val (c # cs) = val c + b * digits_value b val cs"

definition dec_val :: "char \<Rightarrow> int" where "dec_val c = int (of_char c) - 48"

definition hex_val :: "char \<Rightarrow> int" where
  "hex_val c = (if c \<in> set ''ABCDEF'' then int (of_char c) - 55 else int (of_char c) - 48)"

text \<open>The usual reading of a decimal and of a hexadecimal numeral, most significant digit first.\<close>

definition parse_int :: "string \<Rightarrow> int" where
  "parse_int s = (if s \<noteq> [] \<and> hd s = CHR ''-'' then - digits_value 10 dec_val (rev (tl s))
                  else digits_value 10 dec_val (rev s))"

definition parse_hex :: "string \<Rightarrow> int" where
  "parse_hex s = digits_value 16 hex_val (rev s)"

lemma range_19: "- 10 < l \<Longrightarrow> l < 10 \<Longrightarrow> l \<in> set [-9, -8, -7, -6, -5, -4, -3, -2, -1, 0, 1, 2, 3, 4, 5, 6, 7, 8, 9 :: int]"
  by (simp only: set_simps insert_iff empty_iff) arith

lemma digit_at_val: "- 10 < l \<Longrightarrow> l < 10 \<Longrightarrow> dec_val (digit_at l) = \<bar>l\<bar> \<and> digit_at l \<noteq> CHR ''-''"
  by (drule (1) range_19) (auto simp: digit_at_def digits_def dec_val_def)

lemma smod_10: "\<bar>i smod 10\<bar> = \<bar>i\<bar> mod 10" "- 10 < i smod 10" "i smod 10 < (10 :: int)"
  by (auto simp: signed_modulo_int_def abs_if sgn_if)

lemma sdiv_10: "\<bar>i sdiv 10\<bar> = \<bar>i\<bar> div (10 :: int)"
  by (auto simp: signed_divide_int_def abs_if sgn_if pos_imp_zdiv_nonneg_iff)

lemma convert_loop_value: "digits_value 10 dec_val (convert_loop i) = \<bar>i\<bar>"
proof (induction i rule: convert_loop.induct)
  case (1 i)
  have d: "dec_val (digit_at (i smod 10)) = \<bar>i\<bar> mod 10"
    using digit_at_val [of "i smod 10"] smod_10 [of i] by simp
  show ?case
  proof (cases "i sdiv 10 = 0")
    case True
    then have "\<bar>i\<bar> div 10 = 0" using sdiv_10 [of i] by simp
    with d True show ?thesis
      using div_mult_mod_eq [of "\<bar>i\<bar>" 10] by (subst convert_loop.simps) simp
  next
    case False
    with d 1 show ?thesis
      using div_mult_mod_eq [of "\<bar>i\<bar>" 10] by (subst convert_loop.simps) (simp add: sdiv_10)
  qed
qed

lemma convert_loop_chars: "CHR ''-'' \<notin> set (convert_loop i) \<and> convert_loop i \<noteq> []"
proof (induction i rule: convert_loop.induct)
  case (1 i)
  then show ?case
    using digit_at_val [of "i smod 10"] smod_10 [of i] by (subst (1 2) convert_loop.simps) auto
qed

lemma convert_loop_length: "\<bar>i\<bar> < 10 ^ n \<Longrightarrow> 0 < n \<Longrightarrow> length (convert_loop i) \<le> n"
proof (induction i arbitrary: n rule: convert_loop.induct)
  case (1 i)
  show ?case
  proof (cases "i sdiv 10 = 0")
    case True
    with 1 show ?thesis by (subst convert_loop.simps) auto
  next
    case False
    have "\<bar>i sdiv 10\<bar> < 10 ^ (n - 1)" "0 < n - 1"
    proof -
      show lt: "\<bar>i sdiv 10\<bar> < 10 ^ (n - 1)"
        using 1 div_mult_mod_eq [of "\<bar>i\<bar>" 10] pos_mod_sign [of 10 "\<bar>i\<bar>"]
        by (cases n) (simp_all add: sdiv_10 del: pos_mod_sign)
      show "0 < n - 1" using lt False by (cases "n - 1 = 0") (simp_all add: abs_le_zero_iff)
    qed
    with 1 False have "length (convert_loop (i sdiv 10)) \<le> n - 1" by blast
    with False 1 show ?thesis by (subst convert_loop.simps) simp
  qed
qed

text \<open>\<open>convert\<close> writes the decimal numeral of its argument: reading it gives the argument back,
  for every integer, the most negative one of a type included.\<close>
theorem convert_round_trip: "parse_int (convert v) = v"
proof (cases "v < 0")
  case True
  then show ?thesis by (simp add: parse_int_def convert_def convert_loop_value)
next
  case False
  obtain c cs where c: "rev (convert_loop v) = c # cs" "c \<noteq> CHR ''-''"
    using convert_loop_chars [of v] by (cases "rev (convert_loop v)") (auto dest: arg_cong [where f = set])
  then have "digits_value 10 dec_val (rev (c # cs)) = v"
    using convert_loop_value [of v] False by (metis abs_of_nonneg not_less rev_rev_ident)
  with c False show ?thesis by (simp add: parse_int_def convert_def)
qed

lemma convert_length:
  assumes "- (2 ^ 63) \<le> v" "v < 2 ^ 64"
  shows "1 \<le> length (convert v) \<and> length (convert v) \<le> 20"
proof (cases "v < 0")
  case True
  with assms convert_loop_length [of v 19] show ?thesis by (simp add: convert_def)
next
  case False
  with assms convert_loop_length [of v 20] convert_loop_chars [of v] show ?thesis
    by (simp add: convert_def Suc_le_eq)
qed

lemma below_16_hex: "k < 16 \<Longrightarrow> hex_val (digitsHex ! k) = int k"
proof -
  have "\<forall>k \<in> set [0..<16]. hex_val (digitsHex ! k) = int k"
    by (simp add: upt_rec hex_val_def digitsHex_def)
  then show "k < 16 \<Longrightarrow> hex_val (digitsHex ! k) = int k" by simp
qed

lemma convertHex_loop_value: "digits_value 16 hex_val (convertHex_loop i) = int i"
proof (induction i rule: convertHex_loop.induct)
  case (1 i)
  have "int i = int (i mod 16) + 16 * int (i div 16)"
    using mult_div_mod_eq [of 16 i] by linarith
  with 1 below_16_hex [of "i mod 16"] show ?case
    by (subst convertHex_loop.simps) auto
qed

lemma convertHex_loop_length: "i < 16 ^ n \<Longrightarrow> 0 < n \<Longrightarrow> length (convertHex_loop i) \<le> n"
proof (induction i arbitrary: n rule: convertHex_loop.induct)
  case (1 i)
  show ?case
  proof (cases "i div 16 = 0")
    case True
    with 1 show ?thesis by (subst convertHex_loop.simps) auto
  next
    case False
    have lt: "i div 16 < 16 ^ (n - 1)"
      using 1 by (cases n) (auto simp: less_mult_imp_div_less mult.commute)
    moreover have "0 < n - 1" using lt False by (cases "n - 1 = 0") simp_all
    ultimately have "length (convertHex_loop (i div 16)) \<le> n - 1" using 1 False by blast
    with False 1 show ?thesis by (subst convertHex_loop.simps) simp
  qed
qed

lemma convertHex_round_trip: "parse_hex (convertHex v) = int v"
  by (simp add: parse_hex_def convertHex_def convertHex_loop_value)

lemma convertHex_length:
  "v < 2 ^ 64 \<Longrightarrow> 1 \<le> length (convertHex v) \<and> length (convertHex v) \<le> 16"
  using convertHex_loop_length [of v 16]
  by (simp add: convertHex_def) (subst convertHex_loop.simps, simp)

section \<open>Positions as suffixes\<close>

text \<open>A search that starts at \<open>length pre\<close> in \<open>pre @ rest\<close> is a search of \<open>rest\<close>.\<close>

definition in_size :: "'a list \<Rightarrow> bool" where
  "in_size s \<longleftrightarrow> length s \<le> max_size"

lemma in_size_npos: "in_size s \<Longrightarrow> i \<le> length s \<Longrightarrow> i \<noteq> npos \<and> i < 2 ^ 63"
  by (simp add: in_size_def max_size_def npos_def)

lemma find_if_from_suffix:
  "find_if_from P (pre @ rest) (length pre) =
     (if \<exists>c \<in> set rest. P c then length pre + length (takeWhile (\<lambda>c. \<not> P c) rest) else npos)"
proof (cases "\<exists>c \<in> set rest. P c")
  case True
  then have "length (takeWhile (\<lambda>c. \<not> P c) rest) \<noteq> length rest"
    by (metis (mono_tags, lifting) takeWhile_eq_all_conv takeWhile_eq_take take_all_iff order_refl)
  moreover have "length (takeWhile (\<lambda>c. \<not> P c) rest) \<le> length rest" by (rule length_takeWhile_le)
  ultimately show ?thesis using True by (simp add: find_if_from_def Let_def)
next
  case False
  then have "length (takeWhile (\<lambda>c. \<not> P c) rest) = length rest" by (simp add: takeWhile_eq_all_conv [THEN iffD2])
  with False show ?thesis by (simp add: find_if_from_def Let_def)
qed

lemma chunk:
  assumes "in_size (pre @ rest)"
  shows "str_substr (pre @ rest) (length pre)
      (size_sub (find_if_from P (pre @ rest) (length pre)) (length pre)) = Inr (takeWhile (\<lambda>c. \<not> P c) rest)"
proof (cases "\<exists>c \<in> set rest. P c")
  case True
  have "length (takeWhile (\<lambda>c. \<not> P c) rest) \<le> length rest" by (rule length_takeWhile_le)
  with assms have "size_sub (length pre + length (takeWhile (\<lambda>c. \<not> P c) rest)) (length pre) =
      length (takeWhile (\<lambda>c. \<not> P c) rest)"
    by (subst size_sub_le) (auto simp: in_size_def max_size_def)
  moreover have "take (length (takeWhile (\<lambda>c. \<not> P c) rest)) rest = takeWhile (\<lambda>c. \<not> P c) rest"
    by (metis takeWhile_eq_take)
  ultimately show ?thesis using True by (simp add: find_if_from_suffix)
next
  case False
  then have all: "takeWhile (\<lambda>c. \<not> P c) rest = rest" by (simp add: takeWhile_eq_all_conv)
  have "length rest \<le> size_sub npos (length pre)"
    using assms by (subst size_sub_le) (auto simp: in_size_def max_size_def npos_def)
  with False show ?thesis by (subst all) (simp add: find_if_from_suffix)
qed

section \<open>Splitting at blanks\<close>

definition is_blank :: "char \<Rightarrow> bool" where "is_blank c \<longleftrightarrow> c \<in> set blanks"

lemma word_shorter:
  "t \<noteq> [] \<Longrightarrow> \<not> is_blank (hd t) \<Longrightarrow> length (dropWhile (\<lambda>c. \<not> is_blank c) t) < length t"
  by (cases t) (simp_all add: length_dropWhile_le le_imp_less_Suc)

text \<open>The usual specification: the maximal runs of characters that are neither space nor tab.\<close>

function blank_words :: "string \<Rightarrow> string list" where
  "blank_words s =
     (let t = dropWhile is_blank s
      in if t = [] then []
         else takeWhile (\<lambda>c. \<not> is_blank c) t # blank_words (dropWhile (\<lambda>c. \<not> is_blank c) t))"
  by pat_completeness auto
termination
proof (relation "measure length")
  fix s t assume "t = dropWhile is_blank s" "t \<noteq> []"
  moreover from this have "\<not> is_blank (hd t)" by (metis hd_dropWhile)
  ultimately have "length (dropWhile (\<lambda>c. \<not> is_blank c) t) < length t"
    by (simp add: word_shorter)
  also have "\<dots> \<le> length s" by (simp add: \<open>t = dropWhile is_blank s\<close> length_dropWhile_le)
  finally show "(dropWhile (\<lambda>c. \<not> is_blank c) t, s) \<in> measure length" by simp
qed simp

declare blank_words.simps [simp del]

lemma is_blank_fun: "(\<lambda>c. c \<in> set blanks) = is_blank" "(\<lambda>c. c \<notin> set blanks) = (\<lambda>c. \<not> is_blank c)"
  by (simp_all add: is_blank_def fun_eq_iff)

lemma first_word_start:
  "find_first_not_of (pre @ rest) blanks (length pre) =
     (if dropWhile is_blank rest = [] then npos else length (pre @ takeWhile is_blank rest))"
  by (auto simp: find_first_not_of_def is_blank_fun find_if_from_suffix dropWhile_eq_Nil_conv)

lemma SplitBySpace_step:
  assumes "in_size (pre @ rest)" "p = pre @ takeWhile is_blank rest" "t = dropWhile is_blank rest" "t \<noteq> []"
    "w = takeWhile (\<lambda>c. \<not> is_blank c) t"
  shows "SplitBySpace_loop (pre @ rest) (length pre) vec =
    (if \<exists>c \<in> set t. is_blank c then SplitBySpace_loop (pre @ rest) (length (p @ w)) (vec @ [w])
     else Some (Inr (size_of_vec (vec @ [w]))))"
proof -
  have whole: "pre @ rest = p @ t" by (simp add: assms)
  have len: "length (p @ w) \<le> length (pre @ rest)"
    using whole length_takeWhile_le [of "\<lambda>c. \<not> is_blank c" t] assms(5) by simp
  have npos: "length p \<noteq> npos" "length (p @ w) \<noteq> npos"
    using len in_size_npos [OF assms(1)] by simp_all
  have start: "find_first_not_of (p @ t) blanks (length pre) = length p"
    using first_word_start [of pre rest] assms(4)
    by (simp only: assms(2,3) [symmetric] whole if_False)
  have stop: "find_first_of (p @ t) blanks (length p) =
      (if \<exists>c \<in> set t. is_blank c then length (p @ w) else npos)"
    by (simp add: find_first_of_def is_blank_fun find_if_from_suffix assms(5))
  have sub: "str_substr (p @ t) (length p)
      (size_sub (find_first_of (p @ t) blanks (length p)) (length p)) = Inr w"
    using chunk [of p t is_blank] assms(1) whole
    by (simp add: find_first_of_def is_blank_fun assms(5))
  have "SplitBySpace_loop (p @ t) (length pre) vec =
    (if find_first_of (p @ t) blanks (length p) = npos then Some (Inr (size_of_vec (vec @ [w])))
     else SplitBySpace_loop (p @ t) (find_first_of (p @ t) blanks (length p)) (vec @ [w]))"
    by (subst SplitBySpace_loop.simps) (simp only: Let_def start sub npos(1) if_False sum.case)
  then show ?thesis using stop npos by (simp add: whole)
qed

lemma blank_words_step:
  "t = dropWhile is_blank s \<Longrightarrow> t \<noteq> [] \<Longrightarrow>
   blank_words s = takeWhile (\<lambda>c. \<not> is_blank c) t # blank_words (dropWhile (\<lambda>c. \<not> is_blank c) t)"
  by (subst blank_words.simps) (simp add: Let_def)

lemma SplitBySpace_loop_spec:
  "in_size (pre @ rest) \<Longrightarrow>
   SplitBySpace_loop (pre @ rest) (length pre) vec = Some (Inr (size_of_vec (vec @ blank_words rest)))"
proof (induction "length rest" arbitrary: pre rest vec rule: less_induct)
  case less
  define t where "t = dropWhile is_blank rest"
  define p where "p = pre @ takeWhile is_blank rest"
  define w where "w = takeWhile (\<lambda>c. \<not> is_blank c) t"
  define u where "u = dropWhile (\<lambda>c. \<not> is_blank c) t"
  have whole: "pre @ rest = (p @ w) @ u" by (simp add: p_def w_def u_def t_def)
  show ?case
  proof (cases "t = []")
    case True
    then have "blank_words rest = []" by (subst blank_words.simps) (simp add: t_def)
    moreover have "find_first_not_of (pre @ rest) blanks (length pre) = npos"
      using first_word_start [of pre rest] True by (simp only: t_def [symmetric] simp_thms if_True)
    ultimately show ?thesis
      by (subst SplitBySpace_loop.simps) (simp add: Let_def)
  next
    case False
    note step = SplitBySpace_step [OF less.prems p_def t_def False w_def, of vec]
    note words = blank_words_step [OF t_def False, folded w_def u_def]
    show ?thesis
    proof (cases "\<exists>c \<in> set t. is_blank c")
      case True
      have "\<not> is_blank (hd t)" using False hd_dropWhile [of is_blank rest] by (simp add: t_def)
      with False have "length u < length t" by (simp add: u_def word_shorter)
      also have "\<dots> \<le> length rest" by (simp add: t_def length_dropWhile_le)
      finally show ?thesis
        using less.hyps [of u "p @ w" "vec @ [w]"] less.prems step words True by (simp only: whole) simp
    next
      case no_blank: False
      then have "u = []" by (simp add: u_def)
      then have "blank_words u = []" by (simp add: blank_words.simps)
      with step words no_blank show ?thesis by simp
    qed
  qed
qed

text \<open>C29: \<open>SplitBySpace\<close> returns, for every string, the maximal runs of characters other than space
  and tab, in order, and their number.\<close>
theorem SplitBySpace_spec:
  assumes "length s \<le> max_size"
  shows "SplitBySpace s = Some (Inr (length (blank_words s), blank_words s))"
  using SplitBySpace_loop_spec [of "[]" s "[]"] assms
  by (simp add: SplitBySpace_def in_size_def size_of_vec_def)

theorem SplitBySpace_spec_witness:
  "SplitBySpace '' ab  c '' = Some (Inr (2, [''ab'', ''c'']))"
  using SplitBySpace_spec [of "'' ab  c ''"]
  by (simp add: max_size_def blank_words.simps is_blank_def blanks_def)

section \<open>Splitting at a separator\<close>

fun join_with :: "string \<Rightarrow> string list \<Rightarrow> string" where
  "join_with sep [] = []"
| "join_with sep [x] = x"
| "join_with sep (x # y # ys) = x @ sep @ join_with sep (y # ys)"

lemma join_with_cons: "v \<noteq> [] \<Longrightarrow> join_with sep (x # v) = x @ sep @ join_with sep v"
  by (cases v) simp_all

lemma find_sub_take: "find_sub pat s = Some k \<Longrightarrow> pat \<noteq> [] \<Longrightarrow> find_sub pat (take k s) = None"
proof (induction s arbitrary: k)
  case (Cons x xs)
  show ?case
  proof (cases k)
    case (Suc j)
    with Cons.prems have no: "take (length pat) (x # xs) \<noteq> pat" and j: "find_sub pat xs = Some j"
      by (auto simp del: take_Cons' split: if_splits)
    have "take (length pat) (take k (x # xs)) \<noteq> pat"
      using no by (metis length_take min.absorb_iff1 min_def take_take)
    with Cons.IH [OF j Cons.prems(2)] Suc show ?thesis by (simp del: take_Cons')
  qed (use Cons.prems in simp)
qed simp

lemma find_sub_split:
  "find_sub pat s = Some k \<Longrightarrow> s = take k s @ pat @ drop (k + length pat) s \<and> k + length pat \<le> length s"
  using find_sub_Some [of pat s k]
  by (metis add.commute append_take_drop_id drop_drop)

lemma str_find_suffix:
  "str_find (pre @ rest) pat (length pre) =
     (case find_sub pat rest of None \<Rightarrow> npos | Some k \<Rightarrow> length pre + k)"
  by (simp add: str_find_def)

lemma str_substr_chunk:
  "k \<le> length rest \<Longrightarrow> in_size (pre @ rest) \<Longrightarrow>
   str_substr (pre @ rest) (length pre) (size_sub (length pre + k) (length pre)) = Inr (take k rest)"
  by (subst size_sub_le) (auto simp: in_size_def max_size_def)

lemma str_substr_rest:
  "in_size (pre @ rest) \<Longrightarrow>
   str_substr (pre @ rest) (length pre) (size_sub npos (length pre)) = Inr rest"
  by (subst size_sub_le) (auto simp: in_size_def max_size_def npos_def)

lemma Split_loop_spec:
  assumes "sep \<noteq> []"
  shows "in_size (pre @ rest) \<Longrightarrow>
   \<exists>v. Split_loop (pre @ rest) sep (length pre) vec = Some (Inr (size_of_vec (vec @ v))) \<and>
       v \<noteq> [] \<and> join_with sep v = rest \<and> (\<forall>x \<in> set v. find_sub sep x = None)"
proof (induction "length rest" arbitrary: pre rest vec rule: less_induct)
  case less
  show ?case
  proof (cases "find_sub sep rest")
    case None
    then have "Split_loop (pre @ rest) sep (length pre) vec = Some (Inr (size_of_vec (vec @ [rest])))"
      using str_substr_rest [OF less.prems]
      by (subst Split_loop.simps) (simp add: Let_def str_find_suffix del: str_substr_ok)
    with None show ?thesis by (intro exI [of _ "[rest]"]) simp
  next
    case (Some k)
    define a u where "a = take k rest" and "u = drop (k + length sep) rest"
    from Some have rest: "rest = a @ sep @ u" and k: "length a = k" "k + length sep \<le> length rest"
      using find_sub_split [OF Some] by (auto simp: a_def u_def)
    have sizes: "length pre + k \<noteq> npos" "size_add (length pre + k) (length sep) = length (pre @ a @ sep)"
      using less.prems k by (auto simp: in_size_def max_size_def npos_def size_add_less)
    have "Split_loop (pre @ rest) sep (length pre) vec =
        Split_loop (pre @ rest) sep (length (pre @ a @ sep)) (vec @ [a])"
      using sizes Some k less.prems
      by (subst Split_loop.simps) (simp only: Let_def str_find_suffix option.case str_substr_chunk
          add_leD1 sum.case if_False a_def)
    moreover have shorter: "length u < length rest" using assms by (simp add: rest)
    moreover have whole: "pre @ rest = (pre @ a @ sep) @ u" by (simp add: rest)
    moreover have size: "in_size ((pre @ a @ sep) @ u)" using less.prems whole by simp
    moreover from less.hyps [OF shorter size, of "vec @ [a]"] obtain v where
      v: "Split_loop ((pre @ a @ sep) @ u) sep (length (pre @ a @ sep)) (vec @ [a]) =
         Some (Inr (size_of_vec ((vec @ [a]) @ v)))" "v \<noteq> []" "join_with sep v = u"
      "\<forall>x \<in> set v. find_sub sep x = None" by blast
    ultimately have "Split_loop (pre @ rest) sep (length pre) vec = Some (Inr (size_of_vec (vec @ a # v)))"
      by simp
    moreover have "join_with sep (a # v) = rest" using v(2,3) rest by (simp add: join_with_cons)
    moreover have "\<forall>x \<in> set (a # v). find_sub sep x = None"
      using v(4) find_sub_take [OF Some assms] by (simp add: a_def)
    ultimately show ?thesis by blast
  qed
qed

text \<open>With a non-empty separator \<open>Split\<close> returns: the pieces joined by the separator are the
  string again, no piece contains the separator, and the value returned is their number.\<close>
theorem Split_spec:
  assumes "sep \<noteq> []" "length s \<le> max_size"
  shows "\<exists>v. Split s sep = Some (Inr (length v, v)) \<and> v \<noteq> [] \<and> join_with sep v = s \<and>
     (\<forall>x \<in> set v. find_sub sep x = None)"
  using Split_loop_spec [OF assms(1), of "[]" s "[]"] assms(2)
  by (simp add: Split_def in_size_def size_of_vec_def)

theorem Split_spec_witness:
  "\<exists>v. Split ''a,,b'' '','' = Some (Inr (length v, v)) \<and> join_with '','' v = ''a,,b''"
  using Split_spec [of "'',''" "''a,,b''"] by (auto simp: max_size_def)

lemma Split_loop_empty:
  assumes "Split_loop s sep start vec = Some y"
  shows "\<not> (sep = [] \<and> start \<le> length s \<and> in_size s)"
proof (rule Split_loop.raw_induct
    [where P = "\<lambda>s sep start vec y. \<not> (sep = [] \<and> start \<le> length s \<and> in_size s)", OF _ assms])
  fix loop :: "string \<Rightarrow> string \<Rightarrow> nat \<Rightarrow> string list \<Rightarrow> (nat \<times> string list) run" and s sep start vec y
  assume hyp: "\<And>s sep start vec y. loop s sep start vec = Some y \<Longrightarrow> \<not> (sep = [] \<and> start \<le> length s \<and> in_size s)"
    and body: "(let end_pos = str_find s sep start
      in case str_substr s start (size_sub end_pos start) of Inl e \<Rightarrow> Some (Inl e)
         | Inr str_chip \<Rightarrow>
             if end_pos = npos then Some (Inr (size_of_vec (vec @ [str_chip])))
             else loop s sep (size_add end_pos (length sep)) (vec @ [str_chip])) = Some y"
  show "\<not> (sep = [] \<and> start \<le> length s \<and> in_size s)"
  proof
    assume "sep = [] \<and> start \<le> length s \<and> in_size s"
    moreover have "find_sub [] (drop start s) = Some 0" by (cases "drop start s") simp_all
    ultimately have "str_find s sep start = start" "start \<noteq> npos" "size_add start (length sep) = start"
      "start \<le> length s" "sep = [] \<and> start \<le> length s \<and> in_size s"
      by (auto simp: str_find_def in_size_def max_size_def npos_def size_add_less)
    with body hyp [of s sep start] show False by (simp add: Let_def)
  qed
qed

text \<open>With an empty separator \<open>Split\<close> does not return, for any string.\<close>
theorem Split_empty_separator:
  assumes "length s \<le> max_size"
  shows "Split s [] = None"
  using Split_loop_empty [of s "[]" 0 "[]"] assms
  by (cases "Split s []") (auto simp: Split_def in_size_def)

theorem Split_empty_separator_witness: "Split ''ab'' [] = None"
  using Split_empty_separator [of "''ab''"] by (simp add: max_size_def)

section \<open>Command lines\<close>

definition is_quote :: "char \<Rightarrow> bool" where "is_quote c \<longleftrightarrow> c \<in> set quotes"

lemma find_if_from_none: "\<forall>c \<in> set s. \<not> P c \<Longrightarrow> find_if_from P s pos = npos"
  using find_if_from_npos_or [of P s pos] by (metis nth_mem)

lemma cmd_quot_loop_npos [simp]: "cmd_quot_loop cmd npos e = Some (Inr e)"
  by (subst cmd_quot_loop.simps) simp

text \<open>Without quotation marks a command line is split as \<open>SplitBySpace\<close> splits it.\<close>

lemma cmd_loop_unquoted:
  assumes "SplitBySpace_loop s e v = Some y"
  shows "(\<forall>c \<in> set s. \<not> is_quote c) \<longrightarrow>
    cmd_loop s e v = Some (map_sum id (\<lambda>(n, v). (True, v)) y)"
proof (rule SplitBySpace_loop.raw_induct
    [where P = "\<lambda>s e v y. (\<forall>c \<in> set s. \<not> is_quote c) \<longrightarrow>
       cmd_loop s e v = Some (map_sum id (\<lambda>(n, v). (True, v)) y)", OF _ assms], rule impI)
  fix loop :: "string \<Rightarrow> nat \<Rightarrow> string list \<Rightarrow> (nat \<times> string list) run" and s e v y
  assume hyp: "\<And>s e v y. loop s e v = Some y \<Longrightarrow>
      (\<forall>c \<in> set s. \<not> is_quote c) \<longrightarrow> cmd_loop s e v = Some (map_sum id (\<lambda>(n, v). (True, v)) y)"
    and body: "(let start_pos = find_first_not_of s blanks e
      in if start_pos = npos then Some (Inr (size_of_vec v))
         else let end_pos' = find_first_of s blanks start_pos
              in case str_substr s start_pos (size_sub end_pos' start_pos) of
                   Inl e \<Rightarrow> Some (Inl e)
                 | Inr str_chip \<Rightarrow>
                     if end_pos' = npos then Some (Inr (size_of_vec (v @ [str_chip])))
                     else loop s end_pos' (v @ [str_chip])) = Some y"
    and no_quote: "\<forall>c \<in> set s. \<not> is_quote c"
  define start where "start = find_first_not_of s blanks e"
  show "cmd_loop s e v = Some (map_sum id (\<lambda>(n, v). (True, v)) y)"
  proof (cases "start = npos")
    case True
    with body show ?thesis by (subst cmd_loop.simps) (auto simp: start_def size_of_vec_def)
  next
    case False
    then have "start < length s"
      using find_if_from_npos_or [of _ s e] by (simp add: start_def find_first_not_of_def)
    then have "s ! start \<notin> set quotes" "start < length s"
      using no_quote by (simp_all add: is_quote_def)
    moreover have "find_first_of s quotes start = npos"
      using no_quote by (simp add: find_first_of_def is_quote_def find_if_from_none)
    ultimately have "cmd_loop s e v =
        (case str_substr s start (size_sub (find_first_of s blanks start) start) of
           Inl e \<Rightarrow> Some (Inl e)
         | Inr arg \<Rightarrow> if find_first_of s blanks start = npos then Some (Inr (True, v @ [arg]))
             else cmd_loop s (find_first_of s blanks start) (v @ [arg]))"
      using False by (subst cmd_loop.simps) (simp add: start_def [symmetric] Let_def split: sum.splits)
    then show ?thesis
      using body False hyp no_quote
      by (auto simp: start_def [symmetric] Let_def size_of_vec_def split: sum.splits if_splits)
  qed
qed

text \<open>On a line without quotation marks, \<open>SplitCmdline\<close> succeeds with exactly the blank-separated
  words.\<close>
theorem SplitCmdline_unquoted:
  assumes "length s \<le> max_size" "\<forall>c \<in> set s. c \<notin> set quotes"
  shows "SplitCmdline s = Some (Inr (True, blank_words s))"
  using SplitBySpace_loop_spec [of "[]" s "[]"] cmd_loop_unquoted [of s 0 "[]"] assms
  by (simp add: SplitCmdline_def in_size_def size_of_vec_def is_quote_def)

theorem SplitCmdline_unquoted_witness:
  "SplitCmdline ''ls -l'' = Some (Inr (True, [''ls'', ''-l'']))"
  using SplitCmdline_unquoted [of "''ls -l''"]
  by (simp add: max_size_def blank_words.simps is_blank_def blanks_def quotes_def)

text \<open>A list of arguments in single quotes, as a shell would want them.\<close>

definition quote_arg :: "string \<Rightarrow> string" where
  "quote_arg a = CHR '' '' # CHR 0x27 # a @ [CHR 0x27]"

definition quote_args :: "string list \<Rightarrow> string" where
  "quote_args args = concat (map quote_arg args)"

lemma cmd_loop_quoted_arg:
  assumes "in_size (pre @ quote_arg a @ rest)" "CHR 0x27 \<notin> set a"
  shows "cmd_loop (pre @ quote_arg a @ rest) (length pre) args =
    cmd_loop (pre @ quote_arg a @ rest) (length (pre @ quote_arg a)) (args @ [a])"
proof -
  let ?q = "CHR 0x27"
  define p where "p = pre @ [CHR '' '', ?q]"
  define t where "t = a @ ?q # rest"
  have whole: "pre @ quote_arg a @ rest = p @ t" by (simp add: quote_arg_def p_def t_def)
  have t: "takeWhile (\<lambda>c. c \<noteq> ?q) t = a" "?q \<in> set t"
    using assms(2) by (auto simp: t_def takeWhile_tail)
  have sizes: "length p + length a < 2 ^ 63" "length pre + 1 < 2 ^ 63"
    using assms(1) by (auto simp: whole in_size_def max_size_def t_def p_def)
  have start: "find_first_not_of (p @ t) blanks (length pre) = length pre + 1"
    using first_word_start [of pre "quote_arg a @ rest"]
    by (simp add: whole) (simp add: quote_arg_def is_blank_def blanks_def)
  have char: "str_at (p @ t) (length pre + 1) = Inr ?q" by (simp add: str_at_def p_def nth_append)
  have one: "size_add (length pre + 1) 1 = length p"
    using sizes by (simp add: size_add_less p_def)
  have stop: "find_first_of (p @ t) [?q] (length p) = length p + length a"
    using t find_if_from_suffix [of "\<lambda>c. c = ?q" p t] by (simp add: find_first_of_def)
  have no_npos: "length pre + 1 \<noteq> npos" "length p + length a \<noteq> npos"
    using sizes by (simp_all add: npos_def)
  have sub: "size_sub (size_sub (length p + length a) (length pre + 1)) 1 = length a"
    using sizes by (simp add: size_sub_le p_def)
  have arg: "str_substr (p @ t) (length p) (length a) = Inr a" by (simp add: t_def)
  have after: "size_add (length p + length a) 1 = length (pre @ quote_arg a)"
    using sizes by (simp add: size_add_less p_def quote_arg_def)
  have "cmd_loop (p @ t) (length pre) args = cmd_loop (p @ t) (length (pre @ quote_arg a)) (args @ [a])"
    by (subst cmd_loop.simps)
      (simp only: Let_def start char one stop no_npos sub arg after if_False sum.case, simp add: quotes_def)
  then show ?thesis by (simp only: whole)
qed

lemma cmd_loop_quoted:
  "in_size (pre @ quote_args as) \<Longrightarrow> \<forall>a \<in> set as. CHR 0x27 \<notin> set a \<Longrightarrow>
   cmd_loop (pre @ quote_args as) (length pre) args = Some (Inr (True, args @ as))"
proof (induction as arbitrary: pre args)
  case Nil
  then show ?case
    using first_word_start [of pre "[]"]
    by (subst cmd_loop.simps) (simp add: quote_args_def Let_def)
next
  case (Cons a as)
  have "pre @ quote_args (a # as) = pre @ quote_arg a @ quote_args as"
    "pre @ quote_args (a # as) = (pre @ quote_arg a) @ quote_args as" by (simp_all add: quote_args_def)
  with Cons cmd_loop_quoted_arg [of pre a "quote_args as" args] Cons.IH [of "pre @ quote_arg a" "args @ [a]"]
  show ?case by simp
qed

text \<open>C30: Any list of arguments, empty ones and ones with blanks and double quotes included, is
  recovered by \<open>SplitCmdline\<close> from the line that has them in single quotes, if no argument contains
  a single quote.\<close>
theorem SplitCmdline_quoted:
  assumes "\<forall>a \<in> set as. CHR 0x27 \<notin> set a" "length (quote_args as) \<le> max_size"
  shows "SplitCmdline (quote_args as) = Some (Inr (True, as))"
  using cmd_loop_quoted [of "[]" as "[]"] assms by (simp add: SplitCmdline_def in_size_def)

theorem SplitCmdline_quoted_witness:
  "SplitCmdline (quote_args [''I am'', [], ''x'']) = Some (Inr (True, [''I am'', [], ''x'']))"
  using SplitCmdline_quoted [of "[''I am'', [], ''x'']"]
  by (simp add: max_size_def quote_args_def quote_arg_def)

lemma find_if_from_at:
  assumes "\<forall>c \<in> set w. \<not> P c" "P q"
  shows "find_if_from P (w @ q # u) 0 = length w"
  using find_if_from_suffix [of P "[]" "w @ q # u"] assms by (simp add: takeWhile_tail)

lemma cmd_quot_loop_open:
  assumes "cmd_quot_loop s i e = Some y"
  shows "\<not> (\<exists>w q u. s = w @ q # u \<and> i = length w \<and> e = npos \<and> in_size s \<and> is_quote q \<and>
    (\<forall>c \<in> set (w @ u). \<not> is_quote c \<and> \<not> is_blank c))"
proof (rule cmd_quot_loop.raw_induct [where P = "\<lambda>s i e y. \<not> (\<exists>w q u. s = w @ q # u \<and> i = length w \<and>
    e = npos \<and> in_size s \<and> is_quote q \<and> (\<forall>c \<in> set (w @ u). \<not> is_quote c \<and> \<not> is_blank c))", OF _ assms],
    rule notI, elim exE conjE)
  fix loop :: "string \<Rightarrow> nat \<Rightarrow> nat \<Rightarrow> nat run" and s i e y w q u
  assume hyp: "\<And>s i e y. loop s i e = Some y \<Longrightarrow> \<not> (\<exists>w q u. s = w @ q # u \<and> i = length w \<and>
      e = npos \<and> in_size s \<and> is_quote q \<and> (\<forall>c \<in> set (w @ u). \<not> is_quote c \<and> \<not> is_blank c))"
    and body: "(if i \<noteq> npos \<and> (i < e \<or> e = npos) then
        case str_at s i of Inl e \<Rightarrow> Some (Inl e)
        | Inr quot_char \<Rightarrow>
            let quot_end_pos = find_first_of s [quot_char] (size_add i 1)
            in loop s (find_first_of s quotes (size_add quot_end_pos 1))
                 (find_first_of s blanks (size_add quot_end_pos 1))
      else Some (Inr e)) = Some y"
    and s: "s = w @ q # u" "i = length w" "e = npos" "in_size s" "is_quote q"
      "\<forall>c \<in> set (w @ u). \<not> is_quote c \<and> \<not> is_blank c"
  have i: "i \<noteq> npos" "size_add i 1 = length (w @ [q])"
    using s by (auto simp: in_size_def max_size_def npos_def size_add_less)
  have "q \<notin> set u" using s by auto
  then have close: "find_first_of s [q] (length (w @ [q])) = npos"
    using find_if_from_suffix [of "\<lambda>c. c = q" "w @ [q]" u] s by (auto simp: find_first_of_def)
  have "\<not> is_blank q" using s(5) by (auto simp: is_quote_def is_blank_def quotes_def blanks_def)
  then have blank: "find_first_of s blanks 0 = npos"
    using s by (simp add: find_first_of_def is_blank_fun find_if_from_none)
  have quot: "find_first_of s quotes 0 = i"
    using s find_if_from_at [of w is_quote q u] by (simp add: find_first_of_def is_quote_def [abs_def])
  have "loop s i npos = Some y"
    using body i close blank quot s(1-3) size_add_npos by (simp add: str_at_def)
  with hyp [of s i npos y] s show False by blast
qed

text \<open>\<open>SplitCmdline\<close> does not return when an argument that does not start with a quotation mark
  contains an unclosed one: the search restarts at position 0 and finds the same mark again.\<close>
theorem SplitCmdline_open_quote:
  assumes "w \<noteq> []" "q \<in> set quotes" "\<forall>c \<in> set (w @ u). c \<notin> set quotes \<and> c \<notin> set blanks"
    "length (w @ q # u) \<le> max_size"
  shows "SplitCmdline (w @ q # u) = None"
proof -
  let ?s = "w @ q # u"
  obtain c w' where w: "w = c # w'" using assms(1) by (cases w) auto
  have start: "find_first_not_of ?s blanks 0 = 0"
    using first_word_start [of "[]" ?s] assms(3) by (simp add: w is_blank_def)
  have quot: "find_first_of ?s quotes 0 = length w"
    using find_if_from_at [of w "\<lambda>c. c \<in> set quotes" q u] assms by (simp add: find_first_of_def)
  have "q \<notin> set blanks" using assms(2) by (auto simp: quotes_def blanks_def)
  then have blank: "find_first_of ?s blanks 0 = npos"
    using assms(3) by (auto simp: find_first_of_def find_if_from_none)
  have "cmd_quot_loop ?s (length w) npos = None"
    using cmd_quot_loop_open [of ?s "length w" npos] assms
    by (cases "cmd_quot_loop ?s (length w) npos") (auto simp: in_size_def is_quote_def is_blank_def)
  moreover have "c \<notin> set quotes" using assms(3) w by simp
  moreover have "0 \<noteq> npos" by (simp add: npos_def)
  moreover have "str_at ?s 0 = Inr c" by (simp add: w)
  ultimately show ?thesis
    using start quot blank by (subst SplitCmdline_def, subst cmd_loop.simps) (simp add: Let_def)
qed

theorem SplitCmdline_open_quote_witness: "SplitCmdline [CHR ''a'', CHR 0x27, CHR ''b''] = None"
  using SplitCmdline_open_quote [of "''a''" "CHR 0x27" "''b''"]
  by (simp add: quotes_def blanks_def max_size_def)

end
