(* ===== verification/LogStream.thy ===== *)
theory LogStream
  imports UtilsText Contracts
begin

text \<open>
  The fixed buffer \<open>StreamBuffer<SIZE>\<close> and the insertion operators of \<open>LogStream\<close>
  (\<open>gwcpp/base/LogStream.h\<close>, \<open>LogStream.cpp\<close>). \<open>SIZE\<close> is the length of \<open>sb_data\<close>; the pointer
  \<open>cur_\<close> is its distance from \<open>data_\<close>, \<open>sb_cur\<close>. A write that leaves \<open>data_\<close> is \<open>Undefined\<close>. A
  \<open>LogStream\<close> has no member but its buffer.

  An invariant keeps every operator in bounds (\<open>log_ops\<close>, an interpretation of \<open>total_ops\<close>), and
  an operator appends the whole text of its argument or nothing.
\<close>

section \<open>The buffer\<close>

record streambuf =
  sb_data :: string
  sb_cur :: nat

text \<open>The constructor leaves \<open>data_\<close> uninitialised: its contents are an argument.\<close>

definition StreamBuffer_new :: "string \<Rightarrow> streambuf" where
  "StreamBuffer_new uninit = \<lparr>sb_data = uninit, sb_cur = 0\<rparr>"

definition sb_avail :: "streambuf \<Rightarrow> int" where
  "sb_avail b = int (length (sb_data b)) - int (sb_cur b)"

definition mem_write :: "nat \<Rightarrow> string \<Rightarrow> string \<Rightarrow> string result" where
  "mem_write pos src mem =
     (if pos + length src \<le> length mem
      then Inr (take pos mem @ src @ drop (pos + length src) mem) else Inl Undefined)"

definition mem_read :: "nat \<Rightarrow> string \<Rightarrow> string result" where
  "mem_read n src = (if n \<le> length src then Inr (take n src) else Inl Undefined)"

text \<open>\<open>append\<close> of \<open>len\<close> characters behind \<open>buf\<close>: nothing unless they and one more fit.\<close>

definition sb_append :: "string \<Rightarrow> nat \<Rightarrow> streambuf \<Rightarrow> streambuf result" where
  "sb_append buf len b =
     (if size_of_i32 (sb_avail b) > len then
        r_bind (mem_read len buf) (\<lambda>src.
        r_bind (mem_write (sb_cur b) src (sb_data b)) (\<lambda>m.
        Inr (b\<lparr>sb_data := m, sb_cur := sb_cur b + len\<rparr>)))
      else Inr b)"

definition sb_length :: "streambuf \<Rightarrow> nat" where "sb_length b = sb_cur b"

definition sb_add :: "nat \<Rightarrow> streambuf \<Rightarrow> streambuf" where
  "sb_add len b = b\<lparr>sb_cur := sb_cur b + len\<rparr>"

definition sb_reset :: "streambuf \<Rightarrow> streambuf" where "sb_reset b = b\<lparr>sb_cur := 0\<rparr>"

definition sb_bzero :: "streambuf \<Rightarrow> streambuf" where
  "sb_bzero b = b\<lparr>sb_data := replicate (length (sb_data b)) (CHR 0x00)\<rparr>"

definition sb_toString :: "streambuf \<Rightarrow> string" where
  "sb_toString b = take (sb_length b) (sb_data b)"

section \<open>The operators\<close>

definition kMaxNumericSize :: int where "kMaxNumericSize = 48"

definition formatInteger :: "int \<Rightarrow> streambuf \<Rightarrow> streambuf result" where
  "formatInteger v b =
     (if sb_avail b \<ge> kMaxNumericSize then
        r_bind (mem_write (sb_cur b) (convert v @ [CHR 0x00]) (sb_data b)) (\<lambda>m.
        Inr (sb_add (length (convert v)) (b\<lparr>sb_data := m\<rparr>)))
      else Inr b)"

definition log_bool :: "bool \<Rightarrow> streambuf \<Rightarrow> streambuf result" where
  "log_bool v b = sb_append (if v then ''1'' else ''0'') 1 b"

definition log_int :: "int \<Rightarrow> streambuf \<Rightarrow> streambuf result" where
  "log_int v b = formatInteger v b"

definition log_unsigned_int :: "int \<Rightarrow> streambuf \<Rightarrow> streambuf result" where
  "log_unsigned_int v b = formatInteger v b"

definition log_short :: "int \<Rightarrow> streambuf \<Rightarrow> streambuf result" where
  "log_short v b = log_int v b"

definition log_unsigned_short :: "int \<Rightarrow> streambuf \<Rightarrow> streambuf result" where
  "log_unsigned_short v b = log_unsigned_int v b"

definition log_long :: "int \<Rightarrow> streambuf \<Rightarrow> streambuf result" where
  "log_long v b = formatInteger v b"

definition log_unsigned_long :: "int \<Rightarrow> streambuf \<Rightarrow> streambuf result" where
  "log_unsigned_long v b = formatInteger v b"

definition log_long_long :: "int \<Rightarrow> streambuf \<Rightarrow> streambuf result" where
  "log_long_long v b = formatInteger v b"

definition log_unsigned_long_long :: "int \<Rightarrow> streambuf \<Rightarrow> streambuf result" where
  "log_unsigned_long_long v b = formatInteger v b"

definition log_pointer :: "nat \<Rightarrow> streambuf \<Rightarrow> streambuf result" where
  "log_pointer v b =
     (if sb_avail b \<ge> kMaxNumericSize then
        r_bind (mem_write (sb_cur b) ''0x'' (sb_data b)) (\<lambda>m.
        r_bind (mem_write (sb_cur b + 2) (convertHex v @ [CHR 0x00]) m) (\<lambda>m'.
        Inr (sb_add (length (convertHex v) + 2) (b\<lparr>sb_data := m'\<rparr>))))
      else Inr b)"

text \<open>\<open>operator<<(const char *)\<close>: \<open>None\<close> is a null pointer, \<open>Some mem\<close> the memory behind the
  pointer; \<open>strlen\<close> of a memory without a NUL is undefined.\<close>

definition c_strlen :: "string \<Rightarrow> nat result" where
  "c_strlen mem = (if CHR 0x00 \<in> set mem then Inr (length (takeWhile (\<lambda>c. c \<noteq> CHR 0x00) mem))
                   else Inl Undefined)"

definition log_cstr :: "string option \<Rightarrow> streambuf \<Rightarrow> streambuf result" where
  "log_cstr str b =
     (case str of
        Some mem \<Rightarrow> r_bind (c_strlen mem) (\<lambda>n. sb_append mem n b)
      | None \<Rightarrow> sb_append ''(null)'' 6 b)"

definition log_unsigned_cstr :: "string option \<Rightarrow> streambuf \<Rightarrow> streambuf result" where
  "log_unsigned_cstr str b = log_cstr str b"

definition log_char :: "char \<Rightarrow> streambuf \<Rightarrow> streambuf result" where
  "log_char v b = sb_append [v] 1 b"

text \<open>\<open>text\<close> stands for what \<open>"%.12g"\<close> formats the number as; \<open>snprintf\<close> stores at most 47 characters
  of it and a NUL, and returns its whole length.\<close>

definition log_double :: "string \<Rightarrow> streambuf \<Rightarrow> streambuf result" where
  "log_double text b =
     (if sb_avail b \<ge> kMaxNumericSize then
        r_bind (mem_write (sb_cur b) (take (nat kMaxNumericSize - 1) text @ [CHR 0x00]) (sb_data b)) (\<lambda>m.
        Inr (sb_add (length text) (b\<lparr>sb_data := m\<rparr>)))
      else Inr b)"

definition log_float :: "string \<Rightarrow> streambuf \<Rightarrow> streambuf result" where
  "log_float text b = log_double text b"

definition log_string :: "string \<Rightarrow> streambuf \<Rightarrow> streambuf result" where
  "log_string v b = sb_append (v @ [CHR 0x00]) (length v) b"

definition log_append :: "string \<Rightarrow> int \<Rightarrow> streambuf \<Rightarrow> streambuf result" where
  "log_append mem len b = sb_append mem (size_of_i32 len) b"

definition zeroBuffer :: "streambuf \<Rightarrow> streambuf" where "zeroBuffer b = sb_bzero b"

definition resetBuffer :: "streambuf \<Rightarrow> streambuf" where "resetBuffer b = sb_reset b"

text \<open>One insertion, with the text it stands for.\<close>

datatype log_item =
    LBool bool | LShort int | LUShort int | LInt int | LUInt int | LLong int | LULong int
  | LLongLong int | LULongLong int | LPointer nat | LCstr "string option" | LUCstr "string option"
  | LChar char | LFloat string | LDouble string | LString string

fun log_step :: "log_item \<Rightarrow> streambuf \<Rightarrow> streambuf result" where
  "log_step (LBool v) b = log_bool v b"
| "log_step (LShort v) b = log_short v b"
| "log_step (LUShort v) b = log_unsigned_short v b"
| "log_step (LInt v) b = log_int v b"
| "log_step (LUInt v) b = log_unsigned_int v b"
| "log_step (LLong v) b = log_long v b"
| "log_step (LULong v) b = log_unsigned_long v b"
| "log_step (LLongLong v) b = log_long_long v b"
| "log_step (LULongLong v) b = log_unsigned_long_long v b"
| "log_step (LPointer v) b = log_pointer v b"
| "log_step (LCstr s) b = log_cstr s b"
| "log_step (LUCstr s) b = log_unsigned_cstr s b"
| "log_step (LChar c) b = log_char c b"
| "log_step (LFloat t) b = log_float t b"
| "log_step (LDouble t) b = log_double t b"
| "log_step (LString s) b = log_string s b"

definition cstr_text :: "string option \<Rightarrow> string" where
  "cstr_text s = (case s of None \<Rightarrow> ''(null)'' | Some mem \<Rightarrow> takeWhile (\<lambda>c. c \<noteq> CHR 0x00) mem)"

fun item_text :: "log_item \<Rightarrow> string" where
  "item_text (LBool v) = (if v then ''1'' else ''0'')"
| "item_text (LShort v) = convert v" | "item_text (LUShort v) = convert v"
| "item_text (LInt v) = convert v" | "item_text (LUInt v) = convert v"
| "item_text (LLong v) = convert v" | "item_text (LULong v) = convert v"
| "item_text (LLongLong v) = convert v" | "item_text (LULongLong v) = convert v"
| "item_text (LPointer v) = ''0x'' @ convertHex v"
| "item_text (LCstr s) = cstr_text s" | "item_text (LUCstr s) = cstr_text s"
| "item_text (LChar c) = [c]"
| "item_text (LFloat t) = t" | "item_text (LDouble t) = t"
| "item_text (LString s) = s"

text \<open>The arguments: integers of at most 64 bits, terminated C strings,
  and a formatted number of fewer than 48 characters (\<open>"%.12g"\<close> needs at most 19).\<close>

definition int_64 :: "int \<Rightarrow> bool" where "int_64 v \<longleftrightarrow> - (2 ^ 63) \<le> v \<and> v < 2 ^ 64"

definition cstr_ok :: "string option \<Rightarrow> bool" where
  "cstr_ok s = (case s of None \<Rightarrow> True | Some mem \<Rightarrow> CHR 0x00 \<in> set mem)"

fun item_ok :: "log_item \<Rightarrow> bool" where
  "item_ok (LShort v) = int_64 v" | "item_ok (LUShort v) = int_64 v"
| "item_ok (LInt v) = int_64 v" | "item_ok (LUInt v) = int_64 v"
| "item_ok (LLong v) = int_64 v" | "item_ok (LULong v) = int_64 v"
| "item_ok (LLongLong v) = int_64 v" | "item_ok (LULongLong v) = int_64 v"
| "item_ok (LPointer v) = (v < 2 ^ 64)"
| "item_ok (LCstr s) = cstr_ok s" | "item_ok (LUCstr s) = cstr_ok s"
| "item_ok (LFloat t) = (length t < 48)" | "item_ok (LDouble t) = (length t < 48)"
| "item_ok _ = True"

section \<open>Every operator stays in the buffer\<close>

definition sb_inv :: "streambuf \<Rightarrow> bool" where
  "sb_inv b \<longleftrightarrow> length (sb_data b) < 2 ^ 31 \<and> sb_cur b < length (sb_data b)"

text \<open>The result of an operator: the text is appended whole, or (only when fewer than 48 bytes or
  too few for the text are left) the buffer is as it was.\<close>

definition sb_room :: "nat \<Rightarrow> streambuf \<Rightarrow> bool" where
  "sb_room n b \<longleftrightarrow> sb_cur b + n < length (sb_data b)"

definition sb_accepts :: "string \<Rightarrow> streambuf \<Rightarrow> streambuf result \<Rightarrow> bool" where
  "sb_accepts t b r \<longleftrightarrow> (\<exists>b'. r = Inr b' \<and> sb_inv b' \<and> length (sb_data b') = length (sb_data b) \<and>
     sb_toString b' = sb_toString b @ t \<and> sb_cur b' = sb_cur b + length t)"

lemma mem_write_ok:
  "pos + length src \<le> length mem \<Longrightarrow>
   mem_write pos src mem = Inr (take pos mem @ src @ drop (pos + length src) mem)"
  by (simp add: mem_write_def)

lemma sb_accepts_write:
  assumes "sb_inv b" "sb_cur b + length t + length z \<le> length (sb_data b)" "sb_room (length t) b"
  shows "sb_accepts t b
    (r_bind (mem_write (sb_cur b) (t @ z) (sb_data b)) (\<lambda>m. Inr (sb_add (length t) (b\<lparr>sb_data := m\<rparr>))))"
  using assms
  by (auto simp: sb_accepts_def sb_inv_def sb_room_def mem_write_ok sb_add_def sb_toString_def sb_length_def)

lemma sb_append_cases:
  assumes "sb_inv b" "len \<le> length mem"
  shows "if sb_room len b then sb_accepts (take len mem) b (sb_append mem len b) else sb_append mem len b = Inr b"
proof -
  have "size_of_i32 (sb_avail b) = length (sb_data b) - sb_cur b"
    using assms(1) by (auto simp: sb_inv_def sb_avail_def size_of_i32_nonneg nat_diff_distrib)
  moreover have "(len < length (sb_data b) - sb_cur b) = sb_room len b" by (auto simp: sb_room_def)
  ultimately show ?thesis
    using assms sb_accepts_write [OF assms(1), of "take len mem" "[]"]
    by (auto simp: sb_append_def mem_read_def sb_room_def sb_add_def min_absorb2)
qed

lemma formatInteger_cases:
  assumes "sb_inv b" "int_64 v"
  shows "if 48 \<le> sb_avail b then sb_accepts (convert v) b (formatInteger v b) else formatInteger v b = Inr b"
  using assms convert_length [of v] sb_accepts_write [of b "convert v" "[CHR 0x00]"]
  by (auto simp: formatInteger_def kMaxNumericSize_def int_64_def sb_avail_def sb_room_def)

lemma log_pointer_cases:
  assumes "sb_inv b" "v < 2 ^ 64"
  shows "if 48 \<le> sb_avail b then sb_accepts (''0x'' @ convertHex v) b (log_pointer v b)
     else log_pointer v b = Inr b"
proof (cases "48 \<le> sb_avail b")
  case True
  let ?t = "''0x'' @ convertHex v"
  have len: "sb_cur b + length ?t + 1 \<le> length (sb_data b)" "sb_room (length ?t) b"
    using True convertHex_length [OF assms(2)] by (auto simp: sb_avail_def sb_room_def)
  then have "log_pointer v b = r_bind (mem_write (sb_cur b) (?t @ [CHR 0x00]) (sb_data b))
      (\<lambda>m. Inr (sb_add (length ?t) (b\<lparr>sb_data := m\<rparr>)))"
    using True by (simp add: log_pointer_def kMaxNumericSize_def mem_write_ok numeral_3_eq_3 add.commute)
  with True len assms(1) sb_accepts_write [of b ?t "[CHR 0x00]"] show ?thesis by simp
qed (simp add: log_pointer_def kMaxNumericSize_def)

lemma log_double_cases:
  assumes "sb_inv b" "length t < 48"
  shows "if 48 \<le> sb_avail b then sb_accepts t b (log_double t b) else log_double t b = Inr b"
  using assms sb_accepts_write [of b t "[CHR 0x00]"]
  by (auto simp: log_double_def kMaxNumericSize_def sb_avail_def sb_room_def)

lemma log_cstr_cases:
  assumes "sb_inv b" "cstr_ok s"
  shows "if sb_room (length (cstr_text s)) b then sb_accepts (cstr_text s) b (log_cstr s b)
     else log_cstr s b = Inr b"
proof (cases s)
  case (Some mem)
  define t where "t = cstr_text s"
  have "take (length t) mem = t"
    using Some by (simp add: t_def cstr_text_def takeWhile_eq_take [symmetric])
  moreover have "length t \<le> length mem"
    using Some by (simp add: t_def cstr_text_def length_takeWhile_le)
  moreover have "log_cstr s b = sb_append mem (length t) b"
    using assms(2) Some by (simp add: log_cstr_def c_strlen_def cstr_ok_def t_def cstr_text_def)
  ultimately show ?thesis
    using sb_append_cases [OF assms(1), of "length t" mem] by (auto simp: t_def [symmetric] split: if_splits)
qed (use sb_append_cases [OF assms(1), of 6 "''(null)''"] in
    \<open>auto simp: log_cstr_def cstr_text_def numeral_eq_Suc split: if_splits\<close>)

lemma log_step_cases:
  assumes "sb_inv b" "item_ok x"
  shows "sb_accepts (item_text x) b (log_step x b) \<or>
    log_step x b = Inr b \<and> sb_avail b \<le> int (max 47 (length (item_text x)))"
proof -
  note defs = log_int_def log_unsigned_int_def log_short_def log_unsigned_short_def log_long_def
    log_unsigned_long_def log_long_long_def log_unsigned_long_long_def log_unsigned_cstr_def
    log_float_def log_bool_def log_char_def log_string_def
  have room: "\<not> sb_room n b \<Longrightarrow> sb_avail b \<le> int n" for n
    by (auto simp: sb_room_def sb_avail_def)
  have int: "sb_accepts (convert v) b (formatInteger v b) \<or>
      formatInteger v b = Inr b \<and> sb_avail b \<le> int (max 47 (length (convert v)))" if "int_64 v" for v
    using formatInteger_cases [OF assms(1) that] by (auto split: if_splits)
  show ?thesis
  proof (cases x)
    case (LBool v)
    then show ?thesis
      using room [of 1] sb_append_cases [OF assms(1), of 1 "if v then ''1'' else ''0''"]
      by (auto simp: defs max_def split: if_splits)
  next
    case (LPointer v)
    then show ?thesis using log_pointer_cases [OF assms(1), of v] assms(2) by (auto split: if_splits)
  next
    case (LCstr s)
    then show ?thesis using room log_cstr_cases [OF assms(1), of s] assms(2)
      by (force simp: max_def split: if_splits)
  next
    case (LUCstr s)
    then show ?thesis using room log_cstr_cases [OF assms(1), of s] assms(2)
      by (force simp: defs max_def split: if_splits)
  next
    case (LChar c)
    then show ?thesis using room [of 1] sb_append_cases [OF assms(1), of 1 "[c]"]
      by (auto simp: defs max_def split: if_splits)
  next
    case (LFloat t)
    then show ?thesis using log_double_cases [OF assms(1), of t] assms(2)
      by (auto simp: defs split: if_splits)
  next
    case (LDouble t)
    then show ?thesis using log_double_cases [OF assms(1), of t] assms(2) by (auto split: if_splits)
  next
    case (LString s)
    then show ?thesis using room [of "length s"] sb_append_cases [OF assms(1), of "length s" "s @ [CHR 0x00]"]
      by (auto simp: defs max_def split: if_splits)
  qed (use assms(2) int in \<open>simp_all add: defs\<close>)
qed

interpretation log_ops: total_ops log_step item_ok sb_inv
proof unfold_locales
  fix s :: streambuf and x s'
  assume "sb_inv s" "item_ok x" "log_step x s = Inr s'"
  with log_step_cases [of s x] show "sb_inv s'" by (auto simp: sb_accepts_def)
next
  fix s :: streambuf and x
  assume "sb_inv s" "item_ok x"
  with log_step_cases [of s x] show "\<exists>s'. log_step x s = Inr s'" by (auto simp: sb_accepts_def)
qed

lemma log_run_contents:
  assumes "sb_inv b" "\<forall>x \<in> set xs. item_ok x"
    "sb_cur b + length (concat (map item_text xs)) + 48 \<le> length (sb_data b)"
  shows "\<exists>b'. r_fold log_step xs b = Inr b' \<and> sb_inv b' \<and> sb_toString b' = sb_toString b @ concat (map item_text xs)"
  using assms
proof (induction xs arbitrary: b)
  case (Cons x xs)
  then have "int (max 47 (length (item_text x))) < sb_avail b" by (simp add: sb_avail_def)
  with Cons.prems log_step_cases [of b x] obtain c where c: "log_step x b = Inr c" "sb_inv c"
    "length (sb_data c) = length (sb_data b)" "sb_toString c = sb_toString b @ item_text x"
    "sb_cur c = sb_cur b + length (item_text x)" by (auto simp: sb_accepts_def)
  with Cons.IH [of c] Cons.prems show ?case by auto
qed simp

section \<open>Properties\<close>

text \<open>C31: No sequence of insertions into a \<open>LogStream\<close> writes outside its buffer, whatever the
  values, and each returns: the run ends in a state whose cursor is still inside the buffer.\<close>
theorem log_never_overflows:
  assumes "sb_inv b" "\<forall>x \<in> set xs. item_ok x"
  shows "\<exists>b'. r_fold log_step xs b = Inr b' \<and> sb_cur b' < length (sb_data b')"
  using log_ops.run_total [OF assms] by (auto simp: sb_inv_def)

theorem log_never_overflows_witness:
  "\<exists>b'. r_fold log_step (replicate 99 (LInt (- 2147483648))) (StreamBuffer_new (replicate 4000 CHR ''?'')) = Inr b' \<and>
     sb_cur b' < length (sb_data b')"
  using log_never_overflows [of "StreamBuffer_new (replicate 4000 CHR ''?'')" "replicate 99 (LInt (- 2147483648))"]
  by (simp add: sb_inv_def StreamBuffer_new_def int_64_def)

text \<open>While at least 48 bytes are left after them, the insertions append exactly the texts of
  their arguments, in order.\<close>
theorem log_contents:
  assumes "sb_inv b" "\<forall>x \<in> set xs. item_ok x"
    "sb_cur b + length (concat (map item_text xs)) + 48 \<le> length (sb_data b)"
  shows "\<exists>b'. r_fold log_step xs b = Inr b' \<and> sb_toString b' = sb_toString b @ concat (map item_text xs)"
  using log_run_contents [OF assms] by blast

theorem log_contents_witness:
  "\<exists>b'. r_fold log_step [LString ''n = '', LInt (- 2147483648)] (StreamBuffer_new (replicate 4000 CHR ''?'')) = Inr b' \<and>
     sb_toString b' = ''n = '' @ convert (- 2147483648)"
  using log_contents [of "StreamBuffer_new (replicate 4000 CHR ''?'')" "[LString ''n = '', LInt (- 2147483648)]"]
    convert_length [of "- 2147483648"]
  by (auto simp: sb_inv_def StreamBuffer_new_def int_64_def sb_toString_def sb_length_def)

end
