(* ===== verification/FileHelper.thy ===== *)
theory FileHelper
  imports StdString
begin

text \<open>
  The class \<open>FileHelper\<close> of \<open>gwcpp/base/FileHelper.h\<close> and \<open>FileHelper.cpp\<close>. The file system is not
  part of the program: the record \<open>fs\<close> of the calls the code makes is a parameter, each a function of
  a state \<open>'w\<close> of the world. \<open>readdir\<close> is modelled as the list of the entries that the directory had
  when it was opened. Paths are text; \<open>c_str\<close> is what a system call sees of one.
\<close>

section \<open>System calls\<close>

datatype mkdir_ret = MkOk | MkExist | MkFail

text \<open>\<open>fs_stat\<close> follows symbolic links and \<open>fs_lstat\<close> does not; both give \<open>st_mode\<close>. An entry of a
  directory is its name with its \<open>d_type\<close>. \<open>fs_read\<close> is the contents of a file that can be opened for
  reading, \<open>fs_write\<close> whether a file could be opened for writing (its contents are then replaced),
  \<open>fs_system\<close> the answer of \<open>std::system\<close>, the other flags whether a call returned 0.\<close>

record 'w fs =
  fs_stat :: "string \<Rightarrow> 'w \<Rightarrow> 32 word option"
  fs_lstat :: "string \<Rightarrow> 'w \<Rightarrow> 32 word option"
  fs_mkdir :: "string \<Rightarrow> 'w \<Rightarrow> mkdir_ret \<times> 'w"
  fs_unlink :: "string \<Rightarrow> 'w \<Rightarrow> bool \<times> 'w"
  fs_remove :: "string \<Rightarrow> 'w \<Rightarrow> bool \<times> 'w"
  fs_opendir :: "string \<Rightarrow> 'w \<Rightarrow> (string \<times> 8 word) list option"
  fs_read :: "string \<Rightarrow> 'w \<Rightarrow> string option"
  fs_write :: "string \<Rightarrow> string \<Rightarrow> 'w \<Rightarrow> bool \<times> 'w"
  fs_system :: "string \<Rightarrow> 'w \<Rightarrow> int \<times> 'w"

definition c_str :: "string \<Rightarrow> string" where "c_str s = takeWhile (\<lambda>c. c \<noteq> CHR 0x00) s"

definition S_IFMT :: "32 word" where "S_IFMT = 0xF000"
definition S_IFSOCK :: "32 word" where "S_IFSOCK = 0xC000"
definition S_IFLNK :: "32 word" where "S_IFLNK = 0xA000"
definition S_IFREG :: "32 word" where "S_IFREG = 0x8000"
definition S_IFBLK :: "32 word" where "S_IFBLK = 0x6000"
definition S_IFDIR :: "32 word" where "S_IFDIR = 0x4000"
definition S_IFCHR :: "32 word" where "S_IFCHR = 0x2000"
definition S_IFIFO :: "32 word" where "S_IFIFO = 0x1000"

definition DT_DIR :: "8 word" where "DT_DIR = 4"

definition S_ISDIR :: "32 word \<Rightarrow> bool" where "S_ISDIR m \<longleftrightarrow> m AND S_IFMT = S_IFDIR"
definition S_ISREG :: "32 word \<Rightarrow> bool" where "S_ISREG m \<longleftrightarrow> m AND S_IFMT = S_IFREG"

definition dot_entry :: "string \<Rightarrow> bool" where "dot_entry n \<longleftrightarrow> n = ''.'' \<or> n = ''..''"

definition sub_path :: "string \<Rightarrow> string \<Rightarrow> string" where "sub_path d n = d @ ''/'' @ n"

section \<open>Paths\<close>

definition getAbsolutePath :: "string \<Rightarrow> string \<Rightarrow> string" where
  "getAbsolutePath prefix relative_path =
     (if relative_path = [] then prefix
      else if prefix = [] \<or> hd relative_path = CHR ''/'' then relative_path
      else if last prefix = CHR ''/'' then prefix @ relative_path
      else prefix @ ''/'' @ relative_path)"

definition getFileName :: "string \<Rightarrow> bool \<Rightarrow> string result" where
  "getFileName path remove_extension =
     (let r = str_rfind path (CHR ''/'');
          start = (if r = npos then 0 else size_add r 1);
          e0 = (if remove_extension then str_rfind path (CHR ''.'') else npos);
          e = (if e0 \<noteq> npos \<and> e0 < start then npos else e0);
          len = (if e \<noteq> npos then size_sub e start else e)
      in str_substr path start len)"

section \<open>Queries\<close>

definition isFileExists :: "'w fs \<Rightarrow> string \<Rightarrow> 'w \<Rightarrow> bool" where
  "isFileExists fs fileName w \<longleftrightarrow> fs_read fs (c_str fileName) w \<noteq> None"

definition getContent :: "'w fs \<Rightarrow> string \<Rightarrow> 'w \<Rightarrow> string option" where
  "getContent fs file_name w = fs_read fs (c_str file_name) w"

definition pathExists :: "'w fs \<Rightarrow> string \<Rightarrow> 'w \<Rightarrow> bool" where
  "pathExists fs path w \<longleftrightarrow> fs_stat fs (c_str path) w \<noteq> None"

definition directoryExists :: "'w fs \<Rightarrow> string \<Rightarrow> 'w \<Rightarrow> bool" where
  "directoryExists fs directory_path w =
     (case fs_stat fs (c_str directory_path) w of None \<Rightarrow> False | Some m \<Rightarrow> m AND S_IFDIR \<noteq> 0)"

datatype file_type = TYPE_FILE | TYPE_DIR

definition getType :: "'w fs \<Rightarrow> string \<Rightarrow> 'w \<Rightarrow> file_type option" where
  "getType fs filename w =
     (case fs_lstat fs (c_str filename) w of
        None \<Rightarrow> None
      | Some m \<Rightarrow> if S_ISDIR m then Some TYPE_DIR else if S_ISREG m then Some TYPE_FILE else None)"

definition listSubPaths :: "'w fs \<Rightarrow> string \<Rightarrow> 8 word \<Rightarrow> 'w \<Rightarrow> string list" where
  "listSubPaths fs directory_path d_type w =
     (case fs_opendir fs (c_str directory_path) w of
        None \<Rightarrow> []
      | Some es \<Rightarrow> map fst (filter (\<lambda>(n, t). t = d_type \<and> n \<noteq> ''.'' \<and> n \<noteq> ''..'') es))"

section \<open>Directories\<close>

text \<open>The loop of \<open>ensureDirectory\<close> at index \<open>i\<close>; \<open>path\<close> is the copy in which a \<open>/\<close> is overwritten by a
  NUL for the duration of the call.\<close>

function ensure_loop :: "'w fs \<Rightarrow> string \<Rightarrow> nat \<Rightarrow> string \<Rightarrow> 'w \<Rightarrow> bool \<times> string \<times> 'w" where
  "ensure_loop fs dp i path w =
     (if length dp \<le> i then (True, path, w)
      else if dp ! i = CHR ''/'' then
        (let path1 = path[i := CHR 0x00]
         in case fs_mkdir fs (c_str path1) w of
              (MkFail, w1) \<Rightarrow> (False, path1, w1)
            | (_, w1) \<Rightarrow> ensure_loop fs dp (Suc i) (path1[i := CHR ''/'']) w1)
      else ensure_loop fs dp (Suc i) path w)"
  by pat_completeness auto
termination by (relation "measure (\<lambda>(fs, dp, i, path, w). length dp - i)") auto

declare ensure_loop.simps [simp del]

definition ensureDirectory :: "'w fs \<Rightarrow> string \<Rightarrow> 'w \<Rightarrow> bool \<times> 'w" where
  "ensureDirectory fs directory_path w =
     (case ensure_loop fs directory_path 1 directory_path w of
        (False, path, w1) \<Rightarrow> (False, w1)
      | (True, path, w1) \<Rightarrow>
          (case fs_mkdir fs (c_str path) w1 of (MkFail, w2) \<Rightarrow> (False, w2) | (_, w2) \<Rightarrow> (True, w2)))"

text \<open>\<open>globs\<close> with the paths that \<open>glob\<close> found, \<open>None\<close> when it failed; \<open>getCurrentPath\<close> with the answer of
  \<open>getcwd\<close>.\<close>

definition globs :: "(string \<Rightarrow> string list option) \<Rightarrow> string \<Rightarrow> string list" where
  "globs glob pattern = (case glob (c_str pattern) of None \<Rightarrow> [] | Some paths \<Rightarrow> paths)"

definition getCurrentPath :: "string option \<Rightarrow> string" where
  "getCurrentPath cwd = (case cwd of None \<Rightarrow> [] | Some path \<Rightarrow> path)"

definition createDir :: "'w fs \<Rightarrow> string \<Rightarrow> 'w \<Rightarrow> bool \<times> 'w" where
  "createDir fs dir w = (case fs_mkdir fs (c_str dir) w of (r, w1) \<Rightarrow> (r = MkOk, w1))"

fun remove_loop :: "'w fs \<Rightarrow> string \<Rightarrow> (string \<times> 8 word) list \<Rightarrow> 'w \<Rightarrow> bool \<times> 'w" where
  "remove_loop fs d [] w = (True, w)"
| "remove_loop fs d ((n, t) # es) w =
     (if dot_entry n then remove_loop fs d es w
      else case fs_unlink fs (c_str (sub_path d n)) w of
        (False, w1) \<Rightarrow> (False, w1)
      | (True, w1) \<Rightarrow> remove_loop fs d es w1)"

definition removeAllFiles :: "'w fs \<Rightarrow> string \<Rightarrow> 'w \<Rightarrow> bool \<times> 'w" where
  "removeAllFiles fs directory_path w =
     (case fs_opendir fs (c_str directory_path) w of
        None \<Rightarrow> (False, w)
      | Some es \<Rightarrow> remove_loop fs directory_path es w)"

section \<open>Deleting a tree\<close>

text \<open>\<open>deleteFile\<close> and its loop over the entries of a directory, as one function: \<open>Inl\<close> a call,
  \<open>Inr\<close> the loop with the entries still to come. Not returning is \<open>None\<close>. The loop tests the type of
  the directory, which is \<open>TYPE_DIR\<close> there, not the type of the entry.\<close>

partial_function (option) delete_run ::
    "'w fs \<Rightarrow> string + string \<times> (string \<times> 8 word) list \<Rightarrow> 'w \<Rightarrow> (bool \<times> 'w) option" where
  "delete_run fs c w =
     (case c of
        Inl filename \<Rightarrow>
          if \<not> pathExists fs filename w then Some (True, w)
          else (case getType fs filename w of
             None \<Rightarrow> Some (False, w)
           | Some TYPE_FILE \<Rightarrow> Some (fs_remove fs (c_str filename) w)
           | Some TYPE_DIR \<Rightarrow>
               (case fs_opendir fs (c_str filename) w of
                  None \<Rightarrow> Some (False, w)
                | Some es \<Rightarrow>
                    Option.bind (delete_run fs (Inr (filename, es)) w) (\<lambda>(ok, w1).
                      if ok then Some (True, snd (fs_remove fs (c_str filename) w1)) else Some (False, w1))))
      | Inr (filename, []) \<Rightarrow> Some (True, w)
      | Inr (filename, (n, t) # es) \<Rightarrow>
          if dot_entry n then delete_run fs (Inr (filename, es)) w
          else (case getType fs (sub_path filename n) w of
             None \<Rightarrow> Some (False, w)
           | Some ty \<Rightarrow>
               Option.bind (delete_run fs (Inl (sub_path filename n)) w) (\<lambda>(ok, w1).
                 delete_run fs (Inr (filename, es)) (snd (fs_remove fs (c_str (sub_path filename n)) w1)))))"

definition deleteFile :: "'w fs \<Rightarrow> string \<Rightarrow> 'w \<Rightarrow> (bool \<times> 'w) option" where
  "deleteFile fs filename w = delete_run fs (Inl filename) w"

section \<open>Copying\<close>

text \<open>A source that cannot be opened is handed to \<open>cp -r\<close> by a shell.\<close>

definition copyFile :: "'w fs \<Rightarrow> string \<Rightarrow> string \<Rightarrow> 'w \<Rightarrow> bool \<times> 'w" where
  "copyFile fs src dst w =
     (case fs_read fs (c_str src) w of
        None \<Rightarrow> (case fs_system fs (c_str (''cp -r '' @ src @ '' '' @ dst)) w of (ret, w1) \<Rightarrow> (ret = 0, w1))
      | Some content \<Rightarrow> fs_write fs (c_str dst) content w)"

partial_function (option) copy_run ::
    "'w fs \<Rightarrow> string \<times> string + string \<times> string \<times> (string \<times> 8 word) list \<times> bool \<Rightarrow> 'w \<Rightarrow> (bool \<times> 'w) option" where
  "copy_run fs c w =
     (case c of
        Inl (src, dst) \<Rightarrow>
          (case fs_opendir fs (c_str src) w of
             None \<Rightarrow> Some (False, w)
           | Some es \<Rightarrow>
               (case ensureDirectory fs dst w of (ok, w1) \<Rightarrow>
                  if ok then copy_run fs (Inr (src, dst, es, True)) w1 else Some (False, w1)))
      | Inr (src, dst, [], ret) \<Rightarrow> Some (ret, w)
      | Inr (src, dst, (n, t) # es, ret) \<Rightarrow>
          if dot_entry n then copy_run fs (Inr (src, dst, es, ret)) w
          else if t = DT_DIR then
            Option.bind (copy_run fs (Inl (sub_path src n, sub_path dst n)) w) (\<lambda>(ok, w1).
              copy_run fs (Inr (src, dst, es, ret \<and> ok)) w1)
          else
            (case copyFile fs (sub_path src n) (sub_path dst n) w of (ok, w1) \<Rightarrow>
              copy_run fs (Inr (src, dst, es, ret \<and> ok)) w1))"

definition copyDir :: "'w fs \<Rightarrow> string \<Rightarrow> string \<Rightarrow> 'w \<Rightarrow> (bool \<times> 'w) option" where
  "copyDir fs src dst w = copy_run fs (Inl (src, dst)) w"

definition copy :: "'w fs \<Rightarrow> string \<Rightarrow> string \<Rightarrow> 'w \<Rightarrow> (bool \<times> 'w) option" where
  "copy fs src dst w =
     (if directoryExists fs src w then copyDir fs src dst w else Some (copyFile fs src dst w))"

end
