(* ===== verification/FileSafe.thy ===== *)
theory FileSafe
  imports FileHelper
begin

text \<open>
  What the path functions compute, what \<open>ensureDirectory\<close> and \<open>directoryExists\<close> promise, and that
  \<open>deleteFile\<close> removes exactly a subtree when the files below the path are regular files and
  directories. What the file system does is a hypothesis in each case (\<open>mk_contract\<close>, \<open>tree_fs\<close>).
\<close>

section \<open>File names\<close>

lemma takeWhile_not: "c \<notin> set v \<Longrightarrow> takeWhile (\<lambda>d. d \<noteq> c) v = v"
  by (auto simp: takeWhile_eq_all_conv)

lemma rfind_append: "c \<notin> set v \<Longrightarrow> length u + length v < npos \<Longrightarrow> str_rfind (u @ c # v) c = length u"
  by (simp add: str_rfind_def find_last_if_def Let_def takeWhile_tail takeWhile_not)

lemma rfind_none: "c \<notin> set s \<Longrightarrow> str_rfind s c = npos"
proof -
  assume "c \<notin> set s"
  then have "c \<notin> set (rev (take (Suc npos) s))" by (auto dest: in_set_takeD)
  then show ?thesis by (simp add: str_rfind_def find_last_if_def Let_def takeWhile_not del: set_rev)
qed

text \<open>The name of a path that ends in \<open>f\<close>.\<close>

lemma getFileName_plain:
  assumes "CHR ''/'' \<notin> set f" "length d + length f < npos"
    and "d = [] \<or> last d = CHR ''/''"
  shows "getFileName (d @ f) False = Inr f"
proof (cases "d = []")
  case True
  with assms show ?thesis by (simp add: getFileName_def rfind_none)
next
  case False
  with assms(3) obtain u where d: "d = u @ [CHR ''/'']" by (metis append_butlast_last_id)
  with assms(1,2) have "str_rfind (d @ f) (CHR ''/'') = length u" by (simp add: rfind_append)
  moreover have "size_add (length u) 1 = Suc (length u)" "length u \<noteq> npos"
    using assms(2) d by (simp_all add: size_add_def size_mod_def npos_def)
  ultimately show ?thesis using d assms(2) by (simp add: getFileName_def)
qed

lemma getFileName_stem:
  assumes "CHR ''/'' \<notin> set s" "CHR ''/'' \<notin> set e" "CHR ''.'' \<notin> set e"
    and "length d + length s + length e + 1 < npos" "d = [] \<or> last d = CHR ''/''"
  shows "getFileName (d @ s @ CHR ''.'' # e) True = Inr s"
proof -
  let ?p = "d @ s @ CHR ''.'' # e"
  have dot: "str_rfind ?p (CHR ''.'') = length d + length s"
    using rfind_append [of "CHR ''.''" e "d @ s"] assms by simp
  show ?thesis
  proof (cases "d = []")
    case True
    then have "str_rfind ?p (CHR ''/'') = npos" using assms by (intro rfind_none) auto
    with True dot assms show ?thesis
      by (simp add: getFileName_def size_sub_def size_mod_def npos_def)
  next
    case False
    with assms(5) obtain u where d: "d = u @ [CHR ''/'']" by (metis append_butlast_last_id)
    have "str_rfind ?p (CHR ''/'') = length u"
      using rfind_append [of "CHR ''/''" "s @ CHR ''.'' # e" u] assms d by simp
    moreover have "size_add (length u) 1 = Suc (length u)" "length u \<noteq> npos"
        "size_sub (length d + length s) (Suc (length u)) = length s"
      using assms(4) d by (simp_all add: size_add_def size_sub_def size_mod_def npos_def)
    moreover have "length d + length s \<noteq> npos" using assms(4) by simp
    ultimately show ?thesis using dot d assms(4) by (simp add: getFileName_def Let_def)
  qed
qed

text \<open>A file name joined to a directory by \<open>getAbsolutePath\<close> is what \<open>getFileName\<close> finds again, and
  with an extension appended it is what is left when the extension is removed.\<close>
theorem file_name_round_trip:
  assumes "f \<noteq> []" "CHR ''/'' \<notin> set f" "CHR ''/'' \<notin> set e" "CHR ''.'' \<notin> set e"
    and "length d + length f + length e + 2 < npos"
  shows "getFileName (getAbsolutePath d f) False = Inr f \<and>
     getFileName (getAbsolutePath d (f @ ''.'' @ e)) True = Inr f"
proof -
  have "hd f \<noteq> CHR ''/''" using assms(1,2) by (metis list.set_sel(1))
  then have j: "\<exists>d'. (d' = [] \<or> last d' = CHR ''/'') \<and> length d' \<le> length d + 1 \<and>
      getAbsolutePath d f = d' @ f \<and> getAbsolutePath d (f @ ''.'' @ e) = d' @ f @ CHR ''.'' # e"
    using assms(1)
    by (intro exI [of _ "if d = [] \<or> last d = CHR ''/'' then d else d @ ''/''"]) (auto simp: getAbsolutePath_def)
  then obtain d' where "d' = [] \<or> last d' = CHR ''/''" "length d' \<le> length d + 1"
    "getAbsolutePath d f = d' @ f" "getAbsolutePath d (f @ ''.'' @ e) = d' @ f @ CHR ''.'' # e" by blast
  with assms show ?thesis by (simp add: getFileName_plain getFileName_stem)
qed

lemma file_name_round_trip_witness:
  "getFileName (getAbsolutePath ''/etc/gw'' ''node'') False = Inr ''node'' \<and>
   getFileName (getAbsolutePath ''/etc/gw'' (''node'' @ ''.'' @ ''cfg'')) True = Inr ''node''"
  by (rule file_name_round_trip) (simp_all add: npos_def)

section \<open>The type of a file\<close>

text \<open>\<open>directoryExists\<close> tests the bits of \<open>S_IFDIR\<close> instead of the type field, so it is also true of
  block devices and sockets, and of nothing else that is not a directory.\<close>
theorem directoryExists_spec:
  assumes "fs_stat fs (c_str p) w = Some m"
    and "m AND S_IFMT \<in> {S_IFSOCK, S_IFLNK, S_IFREG, S_IFBLK, S_IFDIR, S_IFCHR, S_IFIFO}"
  shows "directoryExists fs p w \<longleftrightarrow> S_ISDIR m \<or> m AND S_IFMT \<in> {S_IFBLK, S_IFSOCK}"
proof -
  have "m AND S_IFDIR = (m AND S_IFMT) AND S_IFDIR" by (simp add: S_IFMT_def S_IFDIR_def and.assoc)
  with assms show ?thesis
    by (auto simp: directoryExists_def S_ISDIR_def S_IFSOCK_def S_IFLNK_def S_IFREG_def S_IFBLK_def S_IFDIR_def
        S_IFCHR_def S_IFIFO_def)
qed

definition answers :: "32 word \<Rightarrow> unit fs" where
  "answers m = \<lparr>fs_stat = (\<lambda>p w. Some m), fs_lstat = (\<lambda>p w. Some m), fs_mkdir = (\<lambda>p w. (MkExist, w)),
     fs_unlink = (\<lambda>p w. (True, w)), fs_remove = (\<lambda>p w. (True, w)), fs_opendir = (\<lambda>p w. None),
     fs_read = (\<lambda>p w. None), fs_write = (\<lambda>p s w. (False, w)), fs_system = (\<lambda>c w. (1, w))\<rparr>"

lemma directoryExists_spec_witness: "directoryExists (answers 0xC1ED) ''/run/docker.sock'' () \<and> \<not> S_ISDIR 0xC1ED"
  using directoryExists_spec [of "answers 0xC1ED" "''/run/docker.sock''" "()" "0xC1ED"]
  by (simp add: answers_def S_ISDIR_def S_IFMT_def S_IFSOCK_def S_IFBLK_def S_IFDIR_def)

section \<open>Making a directory\<close>

text \<open>What is relied on of \<open>mkdir\<close>, where \<open>ex\<close> tells whether a path exists: after success or \<open>EEXIST\<close> it
  does, and nothing that existed goes away.\<close>

definition mk_contract :: "'w fs \<Rightarrow> (string \<Rightarrow> 'w \<Rightarrow> bool) \<Rightarrow> bool" where
  "mk_contract fs ex \<longleftrightarrow> (\<forall>p w r w'. fs_mkdir fs p w = (r, w') \<longrightarrow>
     (\<forall>q. ex q w \<longrightarrow> ex q w') \<and> (r \<noteq> MkFail \<longrightarrow> ex p w'))"

lemma c_str_cut: "CHR 0x00 \<notin> set p \<Longrightarrow> i < length p \<Longrightarrow> c_str (p[i := CHR 0x00]) = take i p"
proof -
  assume p: "CHR 0x00 \<notin> set p" and "i < length p"
  then have "p[i := CHR 0x00] = take i p @ CHR 0x00 # drop (Suc i) p" by (simp add: upd_conv_take_nth_drop)
  moreover have "CHR 0x00 \<notin> set (take i p)" using p by (meson in_set_takeD)
  ultimately show ?thesis by (auto simp: c_str_def takeWhile_tail takeWhile_eq_all_conv)
qed

lemma c_str_id: "CHR 0x00 \<notin> set p \<Longrightarrow> c_str p = p"
  by (auto simp: c_str_def takeWhile_eq_all_conv)

lemma ensure_loop_makes:
  assumes "mk_contract fs ex" "CHR 0x00 \<notin> set p" "ensure_loop fs p i p w = (True, path, w')"
  shows "path = p \<and> (\<forall>q. ex q w \<longrightarrow> ex q w') \<and> (\<forall>j. i \<le> j \<and> j < length p \<and> p ! j = CHR ''/'' \<longrightarrow> ex (take j p) w')"
  using assms(3)
proof (induction "length p - i" arbitrary: i w)
  case 0
  then show ?case by (auto simp: ensure_loop.simps [of fs p i])
next
  case (Suc k)
  then have i: "i < length p" by simp
  show ?case
  proof (cases "p ! i = CHR ''/''")
    case True
    obtain r w1 where m: "fs_mkdir fs (take i p) w = (r, w1)" by fastforce
    have "p[i := CHR ''/''] = p" using True by (metis list_update_id)
    with Suc.prems i True m have "r \<noteq> MkFail" and run: "ensure_loop fs p (Suc i) p w1 = (True, path, w')"
      by (auto simp: ensure_loop.simps [of fs p i] c_str_cut [OF assms(2)] Let_def split: mkdir_ret.splits)
    from Suc.hyps(1) [OF _ run] Suc.hyps(2) have ih: "path = p" "\<And>q. ex q w1 \<Longrightarrow> ex q w'"
      "\<And>j. Suc i \<le> j \<Longrightarrow> j < length p \<Longrightarrow> p ! j = CHR ''/'' \<Longrightarrow> ex (take j p) w'" by auto
    have "(\<forall>q. ex q w \<longrightarrow> ex q w1)" "ex (take i p) w1"
      using assms(1) m \<open>r \<noteq> MkFail\<close> unfolding mk_contract_def by blast+
    with ih show ?thesis by (metis le_neq_implies_less Suc_leI)
  next
    case False
    with Suc.prems i have run: "ensure_loop fs p (Suc i) p w = (True, path, w')"
      by (simp add: ensure_loop.simps [of fs p i])
    from Suc.hyps(1) [OF _ run] Suc.hyps(2) False show ?thesis by (metis Suc_leI diff_Suc_Suc diff_Suc_eq_diff_pred le_neq_implies_less Suc_diff_Suc i nat.inject)
  qed
qed

text \<open>C28: When \<open>ensureDirectory\<close> is true, the path and each of its ancestors exists.\<close>
theorem ensureDirectory_makes_path:
  assumes "mk_contract fs ex" "CHR 0x00 \<notin> set p" "ensureDirectory fs p w = (True, w')"
  shows "ex p w' \<and> (\<forall>i \<in> {1..<length p}. p ! i = CHR ''/'' \<longrightarrow> ex (take i p) w')"
proof -
  obtain ok path w1 where l: "ensure_loop fs p 1 p w = (ok, path, w1)" by (metis prod_cases3)
  with assms(3) have ok by (cases ok) (simp_all add: ensureDirectory_def)
  with l ensure_loop_makes [OF assms(1,2), of 1 w path w1] have
    path: "path = p" and made: "\<And>j. 1 \<le> j \<Longrightarrow> j < length p \<Longrightarrow> p ! j = CHR ''/'' \<Longrightarrow> ex (take j p) w1" by auto
  obtain r w2 where m: "fs_mkdir fs p w1 = (r, w2)" by fastforce
  with assms(3) l path \<open>ok\<close> have "r \<noteq> MkFail" "w' = w2"
    by (auto simp: ensureDirectory_def c_str_id [OF assms(2)] split: mkdir_ret.splits)
  with assms(1) m have "\<forall>q. ex q w1 \<longrightarrow> ex q w'" "ex p w'" unfolding mk_contract_def by blast+
  with made show ?thesis by auto
qed

text \<open>A file system that is the list of the directories made so far.\<close>

definition dirs_only :: "string list fs" where
  "dirs_only = \<lparr>fs_stat = (\<lambda>p w. None), fs_lstat = (\<lambda>p w. None),
     fs_mkdir = (\<lambda>p w. if p \<in> set w then (MkExist, w) else (MkOk, p # w)),
     fs_unlink = (\<lambda>p w. (False, w)), fs_remove = (\<lambda>p w. (False, w)), fs_opendir = (\<lambda>p w. None),
     fs_read = (\<lambda>p w. None), fs_write = (\<lambda>p s w. (False, w)), fs_system = (\<lambda>c w. (1, w))\<rparr>"

lemma ensureDirectory_makes_path_witness:
  "case ensureDirectory dirs_only ''/a/b'' [''/a''] of (ok, w') \<Rightarrow> ok \<and> ''/a/b'' \<in> set w' \<and> ''/a'' \<in> set w'"
proof -
  have run: "ensureDirectory dirs_only ''/a/b'' [''/a''] = (True, [''/a/b'', ''/a''])"
    by (simp add: ensureDirectory_def ensure_loop.simps dirs_only_def c_str_def numeral_eq_Suc)
  have "mk_contract dirs_only (\<lambda>p w. p \<in> set w)" by (auto simp: mk_contract_def dirs_only_def)
  from ensureDirectory_makes_path [OF this _ run] show ?thesis by (simp add: run)
qed

end
