(* ===== verification/CLog.thy ===== *)
theory CLog
  imports LogStream FileSafe
begin

text \<open>
  The log of \<open>gwcpp/base/CLog.h\<close> and \<open>CLog.cpp\<close>: the lines that a \<open>LogMsg\<close> composes on its stream and
  prints when it is destroyed, and those of \<open>CLOGPrint\<close>. The time, the text that \<open>vsnprintf\<close> formats and
  whether the log file could be opened are arguments; what is printed is a value. A pointer to a C
  string is the memory behind it, \<open>None\<close> a null pointer.
\<close>

datatype CLOG_LEVEL = CLOG_LEVEL_DEBUG | CLOG_LEVEL_INFO | CLOG_LEVEL_WARN | CLOG_LEVEL_ERROR

fun LogLevelName :: "CLOG_LEVEL \<Rightarrow> string" where
  "LogLevelName CLOG_LEVEL_DEBUG = '' DEBUG''"
| "LogLevelName CLOG_LEVEL_INFO = '' INFO ''"
| "LogLevelName CLOG_LEVEL_WARN = '' WARN ''"
| "LogLevelName CLOG_LEVEL_ERROR = '' ERROR''"

fun LogLevelColor :: "CLOG_LEVEL \<Rightarrow> int" where
  "LogLevelColor CLOG_LEVEL_DEBUG = 34"
| "LogLevelColor CLOG_LEVEL_INFO = 32"
| "LogLevelColor CLOG_LEVEL_WARN = 33"
| "LogLevelColor CLOG_LEVEL_ERROR = 31"

fun writeLogLevel :: "CLOG_LEVEL \<Rightarrow> string" where
  "writeLogLevel CLOG_LEVEL_INFO = '' INFO ''"
| "writeLogLevel CLOG_LEVEL_WARN = '' WARN ''"
| "writeLogLevel CLOG_LEVEL_ERROR = '' ERROR''"
| "writeLogLevel _ = ''UNKNOW''"

record clog =
  ToFile :: bool
  ToTerminal :: bool
  MxLogBufferSize :: nat

definition CLOG_new :: clog where
  "CLOG_new = \<lparr>ToFile = True, ToTerminal = True, MxLogBufferSize = 256\<rparr>"

definition isToFile :: "clog \<Rightarrow> bool" where "isToFile c = ToFile c"

definition setToFile :: "bool \<Rightarrow> clog \<Rightarrow> clog" where "setToFile b c = c\<lparr>ToFile := b\<rparr>"

section \<open>File names\<close>

text \<open>The loop of \<open>baseFileName\<close> at \<open>p\<close>.\<close>

fun base_loop :: "string \<Rightarrow> string \<Rightarrow> string result" where
  "base_loop p_last [] = Inl Undefined"
| "base_loop p_last (c # p) =
     (if c = CHR 0x00 then Inr p_last
      else if c = CHR ''/'' then base_loop p p else base_loop p_last p)"

definition baseFileName :: "string option \<Rightarrow> string option result" where
  "baseFileName full_path =
     (case full_path of
        None \<Rightarrow> Inr None
      | Some p \<Rightarrow> r_bind (base_loop p p) (\<lambda>p_last. Inr (Some p_last)))"

section \<open>Messages\<close>

definition c_lit :: "string \<Rightarrow> log_item" where "c_lit s = LCstr (Some (s @ [CHR 0x00]))"

definition LogMsg_debug :: "string \<Rightarrow> string \<Rightarrow> CLOG_LEVEL \<Rightarrow> string option \<Rightarrow> int \<Rightarrow> streambuf result" where
  "LogMsg_debug uninit now nLevel pcFunc line =
     r_fold log_step
       [c_lit ''['', LString now, c_lit '']'', c_lit ''['', c_lit (LogLevelName nLevel), c_lit '']'',
        c_lit ''['', LCstr pcFunc, c_lit '']'', c_lit ''['', LInt line, c_lit '']'']
       (zeroBuffer (StreamBuffer_new uninit))"

definition LogMsg_file ::
    "string \<Rightarrow> string \<Rightarrow> CLOG_LEVEL \<Rightarrow> string option \<Rightarrow> string option \<Rightarrow> int \<Rightarrow> streambuf result" where
  "LogMsg_file uninit now nLevel pcFunc file_name line =
     r_bind (baseFileName file_name) (\<lambda>base.
     r_fold log_step
       [c_lit ''['', LString now, c_lit '']'', c_lit ''['', c_lit (LogLevelName nLevel), c_lit '']'',
        c_lit ''['', LCstr pcFunc, c_lit '']'', c_lit ''['', LCstr base, c_lit '']'',
        c_lit ''['', LInt line, c_lit '']'']
       (zeroBuffer (StreamBuffer_new uninit)))"

text \<open>The destructor: what goes to the file and what to the terminal.\<close>

record log_output =
  to_file :: string
  to_terminal :: string

definition LogMsg_destroy :: "clog \<Rightarrow> bool \<Rightarrow> CLOG_LEVEL \<Rightarrow> streambuf \<Rightarrow> log_output result" where
  "LogMsg_destroy c opened nLevel b =
     r_bind (c_strlen (sb_data b)) (\<lambda>n.
     let line = take n (sb_data b)
     in Inr \<lparr>to_file = (if isToFile c \<and> opened then line @ [CHR 0x0A] else []),
             to_terminal = [CHR 0x1B, CHR ''[''] @ convert (LogLevelColor nLevel) @ ''m'' @ line @
                [CHR 0x1B] @ ''[0m'' @ [CHR 0x0A]\<rparr>)"

text \<open>\<open>CLOGPrint\<close>: \<open>text\<close> is what the format and its arguments give. \<open>sprintf\<close> stores the header and a
  NUL, \<open>vsnprintf\<close> what fits behind it.\<close>

definition CLOGPrint ::
    "clog \<Rightarrow> string \<Rightarrow> bool \<Rightarrow> CLOG_LEVEL \<Rightarrow> string \<Rightarrow> int \<Rightarrow> string \<Rightarrow> log_output result" where
  "CLOGPrint c now opened nLevel pcFunc line text =
     (let buffer = replicate (MxLogBufferSize c) (CHR 0x00);
          header = ''['' @ now @ '']['' @ writeLogLevel nLevel @ '']['' @ pcFunc @ '']['' @ convert line @ '']'';
          n = length header
      in r_bind (mem_write 0 (header @ [CHR 0x00]) buffer) (\<lambda>b1.
         r_bind (mem_write n (take (MxLogBufferSize c - n - 1) text @ [CHR 0x00]) b1) (\<lambda>b2.
         r_bind (c_strlen b2) (\<lambda>k.
         let s = take k b2
         in if ToFile c then Inr \<lparr>to_file = (if opened then s @ [CHR 0x0A] else []), to_terminal = s @ [CHR 0x0A]\<rparr>
            else Inr \<lparr>to_file = [], to_terminal = []\<rparr>))))"

section \<open>The tail of the buffer\<close>

text \<open>A message starts with a buffer of NULs and no operator leaves anything else behind the cursor.\<close>

definition zero_tail :: "streambuf \<Rightarrow> bool" where
  "zero_tail b \<longleftrightarrow> (\<forall>i. sb_cur b \<le> i \<and> i < length (sb_data b) \<longrightarrow> sb_data b ! i = CHR 0x00)"

lemma zero_tail_new: "zero_tail (zeroBuffer (StreamBuffer_new u))"
  by (simp add: zero_tail_def zeroBuffer_def sb_bzero_def StreamBuffer_new_def)

lemma zero_tail_write:
  assumes "zero_tail b" "mem_write (sb_cur b) (t @ z) (sb_data b) = Inr m" "set z \<subseteq> {CHR 0x00}"
  shows "zero_tail (sb_add (length t) (b\<lparr>sb_data := m\<rparr>))"
proof -
  from assms(2) have m: "m = take (sb_cur b) (sb_data b) @ (t @ z) @ drop (sb_cur b + length (t @ z)) (sb_data b)"
    and len: "sb_cur b + length (t @ z) \<le> length (sb_data b)" by (auto simp: mem_write_def split: if_splits)
  have z: "z ! i = CHR 0x00" if "i < length z" for i using assms(3) that nth_mem by blast
  show ?thesis using assms(1) len
    by (auto simp: zero_tail_def sb_add_def m nth_append min_def z)
qed

lemma sb_append_zero_tail:
  assumes "zero_tail b" "sb_append buf len b = Inr b'"
  shows "zero_tail b'"
proof (cases "size_of_i32 (sb_avail b) > len")
  case True
  with assms(2) obtain m where m: "len \<le> length buf" "mem_write (sb_cur b) (take len buf) (sb_data b) = Inr m"
    "b' = b\<lparr>sb_data := m, sb_cur := sb_cur b + len\<rparr>"
    by (auto simp: sb_append_def mem_read_def r_bind_eq_Inr split: if_splits)
  with zero_tail_write [OF assms(1), of "take len buf" "[]" m] show ?thesis
    by (simp add: sb_add_def min_absorb2)
qed (use assms in \<open>simp add: sb_append_def\<close>)

lemma formatInteger_zero_tail: "zero_tail b \<Longrightarrow> formatInteger v b = Inr b' \<Longrightarrow> zero_tail b'"
  using zero_tail_write [of b "convert v" "[CHR 0x00]"]
  by (auto simp: formatInteger_def r_bind_eq_Inr split: if_splits)

lemma log_double_zero_tail: "zero_tail b \<Longrightarrow> length t < 48 \<Longrightarrow> log_double t b = Inr b' \<Longrightarrow> zero_tail b'"
  using zero_tail_write [of b t "[CHR 0x00]"]
  by (auto simp: log_double_def kMaxNumericSize_def r_bind_eq_Inr split: if_splits)

lemma log_pointer_zero_tail:
  assumes "zero_tail b" "log_pointer v b = Inr b'"
  shows "zero_tail b'"
proof (cases "kMaxNumericSize \<le> sb_avail b")
  case True
  with assms(2) obtain m1 m2 where m: "mem_write (sb_cur b) ''0x'' (sb_data b) = Inr m1"
    "mem_write (sb_cur b + 2) (convertHex v @ [CHR 0x00]) m1 = Inr m2"
    "b' = sb_add (length (convertHex v) + 2) (b\<lparr>sb_data := m2\<rparr>)"
    by (auto simp: log_pointer_def r_bind_eq_Inr)
  have "zero_tail (sb_add 2 (b\<lparr>sb_data := m1\<rparr>))"
    using zero_tail_write [OF assms(1), of "''0x''" "[]" m1] m(1) by (simp add: numeral_2_eq_2)
  then show ?thesis
    using zero_tail_write [of "sb_add 2 (b\<lparr>sb_data := m1\<rparr>)" "convertHex v" "[CHR 0x00]" m2] m(2,3)
    by (simp add: sb_add_def add.commute add.left_commute)
qed (use assms in \<open>simp add: log_pointer_def\<close>)

lemma log_cstr_zero_tail: "zero_tail b \<Longrightarrow> log_cstr s b = Inr b' \<Longrightarrow> zero_tail b'"
  by (auto simp: log_cstr_def r_bind_eq_Inr split: option.splits intro: sb_append_zero_tail)

lemma log_step_zero_tail:
  assumes "zero_tail b" "item_ok x" "log_step x b = Inr b'"
  shows "zero_tail b'"
  using assms
  by (cases x)
    (auto simp: log_bool_def log_short_def log_unsigned_short_def log_int_def log_unsigned_int_def log_long_def
      log_unsigned_long_def log_long_long_def log_unsigned_long_long_def log_unsigned_cstr_def log_char_def
      log_float_def log_string_def
      intro: sb_append_zero_tail formatInteger_zero_tail log_double_zero_tail log_pointer_zero_tail log_cstr_zero_tail)

lemma log_run_zero_tail:
  "zero_tail b \<Longrightarrow> \<forall>x \<in> set xs. item_ok x \<Longrightarrow> r_fold log_step xs b = Inr b' \<Longrightarrow> zero_tail b'"
  by (induction xs arbitrary: b) (auto simp: r_bind_eq_Inr intro: log_step_zero_tail)

end
