(* ===== verification/CLogSafe.thy ===== *)
theory CLogSafe
  imports CLog
begin

text \<open>
  What reaches the log: \<open>baseFileName\<close> agrees with \<open>FileHelper::getFileName\<close>, a message is printed
  whole with its header, and \<open>CLOGPrint\<close> truncates the message but writes past its buffer when the
  header is too long.
\<close>

section \<open>File names\<close>

lemma base_loop_name:
  "CHR ''/'' \<notin> set n \<Longrightarrow> CHR 0x00 \<notin> set n \<Longrightarrow> base_loop l (n @ [CHR 0x00]) = Inr l"
  by (induction n) auto

lemma base_loop_path:
  "CHR ''/'' \<notin> set n \<Longrightarrow> CHR 0x00 \<notin> set n \<Longrightarrow> CHR 0x00 \<notin> set u \<Longrightarrow>
   base_loop l (u @ CHR ''/'' # n @ [CHR 0x00]) = Inr (n @ [CHR 0x00])"
  by (induction u arbitrary: l) (auto simp: base_loop_name)

lemma baseFileName_name:
  assumes "CHR 0x00 \<notin> set path" "length path < npos"
  shows "\<exists>n. getFileName path False = Inr n \<and> CHR 0x00 \<notin> set n \<and> length n \<le> length path \<and>
     baseFileName (Some (path @ [CHR 0x00])) = Inr (Some (n @ [CHR 0x00]))"
proof (cases "CHR ''/'' \<in> set path")
  case True
  then obtain u n where p: "path = u @ CHR ''/'' # n" "CHR ''/'' \<notin> set n" by (meson split_list_last)
  with assms getFileName_plain [of n "u @ ''/''"] show ?thesis
    by (simp add: baseFileName_def base_loop_path)
next
  case False
  with assms getFileName_plain [of path "[]"] show ?thesis
    by (simp add: baseFileName_def base_loop_name)
qed

text \<open>C35: The file name in a log line is the one \<open>FileHelper::getFileName\<close> finds in the path.\<close>
theorem baseFileName_getFileName:
  assumes "CHR 0x00 \<notin> set path" "length path < npos"
  shows "\<exists>n. getFileName path False = Inr n \<and> baseFileName (Some (path @ [CHR 0x00])) = Inr (Some (n @ [CHR 0x00]))"
  using baseFileName_name [OF assms] by blast

lemma baseFileName_getFileName_witness:
  "\<exists>n. getFileName ''src/gwcpp/Poller.cpp'' False = Inr n \<and>
     baseFileName (Some (''src/gwcpp/Poller.cpp'' @ [CHR 0x00])) = Inr (Some (n @ [CHR 0x00]))"
  by (rule baseFileName_getFileName) (simp_all add: npos_def)

section \<open>Messages\<close>

definition no_nul :: "string \<Rightarrow> bool" where "no_nul s \<longleftrightarrow> CHR 0x00 \<notin> set s"

lemma cstr_text_lit [simp]: "no_nul s \<Longrightarrow> cstr_text (Some (s @ [CHR 0x00])) = s"
  by (auto simp: cstr_text_def no_nul_def takeWhile_tail takeWhile_eq_all_conv)

lemma item_text_lit: "no_nul s \<Longrightarrow> item_text (c_lit s) = s"
  by (simp add: c_lit_def)

text \<open>The header of a message with a file name.\<close>

definition msg_header :: "string \<Rightarrow> CLOG_LEVEL \<Rightarrow> string \<Rightarrow> string \<Rightarrow> int \<Rightarrow> string" where
  "msg_header now nLevel func file line =
     ''['' @ now @ '']['' @ LogLevelName nLevel @ '']['' @ func @ '']['' @ file @ '']['' @ convert line @ '']''"

lemma LogMsg_line:
  assumes b: "b = zeroBuffer (StreamBuffer_new uninit)" "length uninit < 2 ^ 31"
    and ok: "\<forall>x \<in> set xs. item_ok x" and t: "t = concat (map item_text xs)" "no_nul t"
    and len: "length t + 48 \<le> length uninit" and run: "r_fold log_step xs b = Inr b'"
  shows "LogMsg_destroy c opened nLevel b' =
     Inr \<lparr>to_file = (if ToFile c \<and> opened then t @ [CHR 0x0A] else []),
          to_terminal = [CHR 0x1B, CHR ''[''] @ convert (LogLevelColor nLevel) @ ''m'' @ t @ [CHR 0x1B] @ ''[0m'' @ [CHR 0x0A]\<rparr>"
proof -
  have inv: "sb_inv b" "sb_toString b = []" "sb_cur b = 0" "length (sb_data b) = length uninit"
    using b len by (auto simp: sb_inv_def zeroBuffer_def sb_bzero_def StreamBuffer_new_def sb_toString_def sb_length_def)
  have b': "sb_inv b'" "sb_toString b' = t"
    using log_run_contents [OF inv(1) ok] run inv len t by auto
  have tail: "zero_tail b'" using log_run_zero_tail [OF _ ok run] zero_tail_new b(1) by simp
  define n where "n = sb_cur b'"
  have n: "n < length (sb_data b')" "take n (sb_data b') = t"
    using b' by (auto simp: n_def sb_inv_def sb_toString_def sb_length_def)
  then have d: "sb_data b' = t @ CHR 0x00 # drop (Suc n) (sb_data b')"
    using tail id_take_nth_drop [OF n(1)] by (simp add: zero_tail_def n_def)
  have "c_strlen (sb_data b') = Inr (length t)"
    using t(2) by (subst d) (simp add: c_strlen_def no_nul_def takeWhile_tail takeWhile_not)
  moreover have "take (length t) (sb_data b') = t" by (subst d) simp
  ultimately show ?thesis by (simp add: LogMsg_destroy_def isToFile_def Let_def)
qed

lemma no_nul_append [simp]: "no_nul (s @ t) \<longleftrightarrow> no_nul s \<and> no_nul t"
  by (auto simp: no_nul_def)

lemma no_nul_Cons [simp]: "no_nul (c # t) \<longleftrightarrow> c \<noteq> CHR 0x00 \<and> no_nul t" "no_nul []"
  by (auto simp: no_nul_def)

lemma digit_at_not_nul: "- 10 < l \<Longrightarrow> l < 10 \<Longrightarrow> digit_at l \<noteq> CHR 0x00"
  by (drule (1) range_19) (auto simp: digit_at_def digits_def)

lemma no_nul_convert [simp]: "no_nul (convert v)"
proof -
  have "no_nul (convert_loop i)" for i
  proof (induction i rule: convert_loop.induct)
    case (1 i)
    then show ?case using digit_at_not_nul [of "i smod 10"] smod_10 [of i] by (subst convert_loop.simps) auto
  qed
  then show ?thesis by (auto simp: convert_def no_nul_def)
qed

lemma no_nul_level [simp]: "no_nul (LogLevelName l)" "no_nul (writeLogLevel l)"
  by (cases l; simp)+

text \<open>C26: A message with a time, a function name and a path, without NUL characters and of at most 3900
  characters in all (the stream has 4000 and drops a text that does not fit), is printed whole: its line
  is the header with the file name of the path, then the texts that were inserted, in the file and, in the
  colour of the level, on the terminal. This is the constructor with a file name, which the macros for
  INFO, WARN and ERROR use; INFO is documented without one.\<close>
theorem log_message_printed:
  assumes uninit: "length uninit = 4000" and xs: "\<forall>x \<in> set xs. item_ok x"
    and nul: "no_nul now" "no_nul func" "no_nul path" "no_nul (concat (map item_text xs))"
    and line: "- (2 ^ 31) \<le> line" "line < 2 ^ 31"
    and len: "length now + length func + length path + length (concat (map item_text xs)) \<le> 3900"
  shows "\<exists>name b t. getFileName path False = Inr name \<and>
     t = msg_header now nLevel func name line @ concat (map item_text xs) \<and>
     r_bind (LogMsg_file uninit now nLevel (Some (func @ [CHR 0x00])) (Some (path @ [CHR 0x00])) line) (r_fold log_step xs) = Inr b \<and>
     LogMsg_destroy c opened nLevel b =
       Inr \<lparr>to_file = (if ToFile c \<and> opened then t @ [CHR 0x0A] else []),
          to_terminal = [CHR 0x1B, CHR ''[''] @ convert (LogLevelColor nLevel) @ ''m'' @ t @ [CHR 0x1B] @ ''[0m'' @ [CHR 0x0A]\<rparr>"
proof -
  obtain name where n: "getFileName path False = Inr name" "no_nul name" "length name \<le> length path"
    "baseFileName (Some (path @ [CHR 0x00])) = Inr (Some (name @ [CHR 0x00]))"
    using baseFileName_name [of path] nul(3) len by (auto simp: no_nul_def npos_def)
  define hs where "hs = [c_lit ''['', LString now, c_lit '']'', c_lit ''['', c_lit (LogLevelName nLevel), c_lit '']'',
        c_lit ''['', LCstr (Some (func @ [CHR 0x00])), c_lit '']'', c_lit ''['', LCstr (Some (name @ [CHR 0x00])), c_lit '']'',
        c_lit ''['', LInt line, c_lit '']'']"
  let ?t = "concat (map item_text (hs @ xs))"
  let ?b = "zeroBuffer (StreamBuffer_new uninit)"
  have t: "?t = msg_header now nLevel func name line @ concat (map item_text xs)"
    by (simp add: hs_def item_text_lit msg_header_def nul n(2))
  have ok: "\<forall>x \<in> set (hs @ xs). item_ok x"
    using xs line by (auto simp: hs_def c_lit_def cstr_ok_def int_64_def)
  have lv: "length (LogLevelName nLevel) \<le> 6" by (cases nLevel) auto
  have small: "length ?t + 48 \<le> length uninit"
    using len n(3) lv convert_length [of line] line unfolding t by (simp add: msg_header_def uninit)
  have "sb_inv ?b" "sb_cur ?b = 0" "length (sb_data ?b) = length uninit"
    using uninit by (auto simp: sb_inv_def zeroBuffer_def sb_bzero_def StreamBuffer_new_def)
  with log_run_contents [OF _ ok, of ?b] small obtain b where run: "r_fold log_step (hs @ xs) ?b = Inr b" by auto
  have "r_bind (LogMsg_file uninit now nLevel (Some (func @ [CHR 0x00])) (Some (path @ [CHR 0x00])) line) (r_fold log_step xs) = Inr b"
    using run n(4) by (simp add: LogMsg_file_def hs_def [symmetric] r_fold_append del: r_fold.simps)
  moreover have "no_nul ?t" unfolding t by (simp add: msg_header_def nul n(2))
  note LogMsg_line [OF refl _ ok refl this small run, of c opened nLevel]
  ultimately show ?thesis using n(1) uninit unfolding t by auto
qed

lemma log_message_printed_witness:
  "\<exists>name b t. getFileName ''net/Poller.cpp'' False = Inr name \<and>
     t = msg_header ''2023.07.24-10:00:00'' CLOG_LEVEL_WARN ''poll'' name 7 @ concat (map item_text [LString ''fd '', LInt (- 1)]) \<and>
     r_bind (LogMsg_file (replicate 4000 CHR ''?'') ''2023.07.24-10:00:00'' CLOG_LEVEL_WARN (Some (''poll'' @ [CHR 0x00]))
       (Some (''net/Poller.cpp'' @ [CHR 0x00])) 7) (r_fold log_step [LString ''fd '', LInt (- 1)]) = Inr b \<and>
     LogMsg_destroy CLOG_new True CLOG_LEVEL_WARN b =
       Inr \<lparr>to_file = (if ToFile CLOG_new \<and> True then t @ [CHR 0x0A] else []),
          to_terminal = [CHR 0x1B, CHR ''[''] @ convert (LogLevelColor CLOG_LEVEL_WARN) @ ''m'' @ t @ [CHR 0x1B] @ ''[0m'' @ [CHR 0x0A]\<rparr>"
  using convert_length [of "- 1"]
  by (intro log_message_printed) (simp_all add: int_64_def)

section \<open>CLOGPrint\<close>

definition print_header :: "string \<Rightarrow> CLOG_LEVEL \<Rightarrow> string \<Rightarrow> int \<Rightarrow> string" where
  "print_header now nLevel func line =
     ''['' @ now @ '']['' @ writeLogLevel nLevel @ '']['' @ func @ '']['' @ convert line @ '']''"

text \<open>C34: \<open>CLOGPrint\<close> prints the first 255 characters of the header followed by the message, to the file
  and to the terminal, when the header has fewer than 256 characters; with a longer one (a long function
  name is enough) \<open>sprintf\<close> writes past the buffer. With the file switched off nothing is printed at all.\<close>
theorem CLOGPrint_spec:
  assumes "no_nul now" "no_nul func" "no_nul text" "MxLogBufferSize c = 256"
  shows "CLOGPrint c now opened nLevel func line text =
    (let h = print_header now nLevel func line; s = take 255 (h @ text)
     in if 256 \<le> length h then Inl Undefined
        else if ToFile c then Inr \<lparr>to_file = (if opened then s @ [CHR 0x0A] else []), to_terminal = s @ [CHR 0x0A]\<rparr>
        else Inr \<lparr>to_file = [], to_terminal = []\<rparr>)"
proof -
  define h where "h = print_header now nLevel func line"
  define n where "n = length h"
  define tx where "tx = take (256 - n - 1) text"
  let ?z = "CHR 0x00"
  have nul: "no_nul h" "no_nul tx"
    using assms(1-3) by (simp add: h_def print_header_def)
      (use assms(3) in \<open>auto simp: tx_def no_nul_def dest: in_set_takeD\<close>)
  show ?thesis
  proof (cases "n < 256")
    case True
    define b1 where "b1 = h @ ?z # replicate (255 - n) ?z"
    have m1: "mem_write 0 (h @ [?z]) (replicate 256 ?z) = Inr b1"
      using True by (simp add: mem_write_def b1_def n_def)
    have "length tx \<le> 255 - n" by (simp add: tx_def)
    then have m2: "mem_write n (tx @ [?z]) b1 = Inr (h @ tx @ [?z] @ drop (n + length tx + 1) b1)"
      using True by (simp add: mem_write_def b1_def n_def)
    have s: "take 255 (h @ text) = h @ tx" using True by (simp add: tx_def n_def)
    have k: "c_strlen (h @ tx @ [?z] @ drop (n + length tx + 1) b1) = Inr (length (h @ tx))"
      using nul by (auto simp: c_strlen_def no_nul_def takeWhile_tail takeWhile_not takeWhile_append)
    show ?thesis
      unfolding CLOGPrint_def print_header_def [symmetric] Let_def h_def [symmetric] n_def [symmetric] assms(4)
        tx_def [symmetric] m1 r_bind_simps m2 k s using True by simp
  next
    case False
    then have "mem_write 0 (h @ [?z]) (replicate 256 ?z) = Inl Undefined" by (simp add: mem_write_def n_def)
    with False show ?thesis
      unfolding CLOGPrint_def print_header_def [symmetric] Let_def h_def [symmetric] n_def [symmetric] assms(4) by simp
  qed
qed

lemma CLOGPrint_spec_witness:
  "CLOGPrint CLOG_new ''2023.07.24-10:00:00'' True CLOG_LEVEL_INFO (replicate 300 CHR ''f'') 1 ''ready'' = Inl Undefined"
  using CLOGPrint_spec [of "''2023.07.24-10:00:00''" "replicate 300 CHR ''f''" "''ready''" CLOG_new True CLOG_LEVEL_INFO 1]
  by (simp add: CLOG_new_def print_header_def no_nul_def)

end
