(* ===== verification/CLogDate.thy ===== *)
theory CLogDate
  imports CLogSafe UtilsText
begin

text \<open>
  The times and the thread number of \<open>CLog.cpp\<close>: \<open>GetCurrentDateTime\<close>, \<open>GetCurrentTime\<close>, \<open>GetCurrentData\<close> and
  \<open>GetCurrentThreadId\<close>. The broken-down local time is an argument; \<open>std::put_time\<close> and \<open>strftime\<close> are those of
  the C locale, and \<open>strftime\<close> leaves the array indeterminate when the text and its NUL do not fit.
\<close>

section \<open>Formats\<close>

text \<open>A \<open>struct tm\<close>: years since 1900, months since January.\<close>

record tm_time =
  tm_year :: int
  tm_mon :: int
  tm_mday :: int
  tm_hour :: int
  tm_min :: int
  tm_sec :: int

text \<open>The conversions \<open>%m\<close>, \<open>%d\<close>, \<open>%H\<close>, \<open>%M\<close> and \<open>%S\<close> have two digits, \<open>%Y\<close> as many as the year has.\<close>

definition two_digits :: "int \<Rightarrow> string" where
  "two_digits n = (if n < 10 then ''0'' @ convert n else convert n)"

definition strftime_to :: "nat \<Rightarrow> string \<Rightarrow> string result" where
  "strftime_to maxsize text = (if length text + 1 \<le> maxsize then Inr text else Inl Undefined)"

text \<open>The format \<open>%Y.%m.%d-%H:%M:%S\<close>.\<close>

definition time_text :: "tm_time \<Rightarrow> string" where
  "time_text t =
     convert (tm_year t + 1900) @ ''.'' @ two_digits (tm_mon t + 1) @ ''.'' @ two_digits (tm_mday t) @ ''-'' @
     two_digits (tm_hour t) @ '':'' @ two_digits (tm_min t) @ '':'' @ two_digits (tm_sec t)"

definition GetCurrentDateTime :: "tm_time \<Rightarrow> string" where
  "GetCurrentDateTime t = time_text t"

definition GetCurrentTime :: "tm_time \<Rightarrow> string result" where
  "GetCurrentTime t = strftime_to 64 (time_text t)"

text \<open>The name of the log file of the day, in an array of 9 characters.\<close>

definition GetCurrentData :: "tm_time \<Rightarrow> string result" where
  "GetCurrentData t = strftime_to 9 (convert (tm_year t + 1900) @ two_digits (tm_mon t + 1) @ two_digits (tm_mday t))"

definition is_digit :: "char \<Rightarrow> bool" where "is_digit c \<longleftrightarrow> c \<in> set ''0123456789''"

text \<open>\<open>std::stoull\<close> of a text without spaces or sign in front: the digits up to the first other
  character; \<open>None\<close> is one of its exceptions.\<close>

definition stoull :: "string \<Rightarrow> 64 word option" where
  "stoull s =
     (let ds = takeWhile is_digit s; v = digits_value 10 dec_val (rev ds)
      in if ds = [] \<or> v \<ge> 2 ^ 64 then None else Some (word_of_int v))"

text \<open>\<open>tid\<close> is the number of the thread, which \<open>operator<<\<close> prints.\<close>

definition GetCurrentThreadId :: "int \<Rightarrow> 64 word option" where
  "GetCurrentThreadId tid = stoull (convert tid)"

section \<open>Digits\<close>

lemma convert_loop_long: "10 ^ n \<le> \<bar>i\<bar> \<Longrightarrow> n < length (convert_loop i)"
proof (induction n arbitrary: i)
  case 0
  then show ?case using convert_loop_chars [of i] by simp
next
  case (Suc n)
  have long: "10 ^ n \<le> \<bar>i sdiv 10\<bar>" using Suc.prems by (simp add: sdiv_10 zdiv_mono1 [of "10 * 10 ^ n" "\<bar>i\<bar>" 10, simplified])
  have "0 < \<bar>i sdiv 10\<bar>" by (rule less_le_trans [OF _ long]) simp
  then show ?case using long Suc.IH [of "i sdiv 10"] by (subst convert_loop.simps) simp
qed

lemma convert_digits: "0 \<le> i \<Longrightarrow> i < 10 ^ Suc n \<Longrightarrow> n = 0 \<or> 10 ^ n \<le> i \<Longrightarrow> length (convert i) = Suc n"
  using convert_loop_length [of i "Suc n"] convert_loop_long [of n i] convert_loop_chars [of i]
  by (auto simp: convert_def le_antisym Suc_le_eq)

lemma digits_value_snoc: "val c = 0 \<Longrightarrow> digits_value b val (cs @ [c]) = digits_value b val cs"
  by (induction cs) simp_all

lemma two_digits_ok:
  assumes "0 \<le> n" "n < 100"
  shows "length (two_digits n) = 2" "parse_int (two_digits n) = n"
proof -
  show "length (two_digits n) = 2" using convert_digits [of n 0] convert_digits [of n 1] assms by (simp add: two_digits_def)
  show "parse_int (two_digits n) = n"
  proof (cases "n < 10")
    case True
    have "parse_int (''0'' @ convert n) = digits_value 10 dec_val (rev (convert n))"
      by (simp add: parse_int_def digits_value_snoc dec_val_def)
    also have "\<dots> = n" using assms by (simp add: convert_def convert_loop_value)
    finally show ?thesis using True by (simp add: two_digits_def)
  qed (simp add: two_digits_def convert_round_trip)
qed

section \<open>Properties\<close>

definition valid_tm :: "tm_time \<Rightarrow> bool" where
  "valid_tm t \<longleftrightarrow> tm_year t \<in> {- 900..8099} \<and> tm_mon t \<in> {0..11} \<and> tm_mday t \<in> {1..31} \<and> tm_hour t \<in> {0..23} \<and>
     tm_min t \<in> {0..59} \<and> tm_sec t \<in> {0..60}"

definition text_field :: "nat \<Rightarrow> nat \<Rightarrow> string \<Rightarrow> string" where
  "text_field i n s = take n (drop i s)"

definition parse_time :: "string \<Rightarrow> tm_time" where
  "parse_time s = \<lparr>tm_year = parse_int (text_field 0 4 s) - 1900, tm_mon = parse_int (text_field 5 2 s) - 1,
     tm_mday = parse_int (text_field 8 2 s), tm_hour = parse_int (text_field 11 2 s), tm_min = parse_int (text_field 14 2 s),
     tm_sec = parse_int (text_field 17 2 s)\<rparr>"

text \<open>In the years from 1000 to 9999 the time in a line of the log has 19 characters and determines the time to
  the second; the buffer of \<open>GetCurrentTime\<close> holds it, that of \<open>GetCurrentData\<close> the date, and the log file is
  named after the date in the line.\<close>
theorem log_time_round_trip:
  assumes "valid_tm t"
  shows "GetCurrentTime t = Inr (GetCurrentDateTime t) \<and> length (GetCurrentDateTime t) = 19 \<and>
     parse_time (GetCurrentDateTime t) = t \<and>
     GetCurrentData t = Inr (text_field 0 4 (GetCurrentDateTime t) @ text_field 5 2 (GetCurrentDateTime t) @ text_field 8 2 (GetCurrentDateTime t))"
proof -
  have y: "length (convert (tm_year t + 1900)) = 4"
    using convert_digits [of "tm_year t + 1900" 3] assms by (simp add: valid_tm_def)
  have d: "length (two_digits (tm_mon t + 1)) = 2" "length (two_digits (tm_mday t)) = 2" "length (two_digits (tm_hour t)) = 2"
    "length (two_digits (tm_min t)) = 2" "length (two_digits (tm_sec t)) = 2"
    "parse_int (two_digits (tm_mon t + 1)) = tm_mon t + 1" "parse_int (two_digits (tm_mday t)) = tm_mday t"
    "parse_int (two_digits (tm_hour t)) = tm_hour t" "parse_int (two_digits (tm_min t)) = tm_min t"
    "parse_int (two_digits (tm_sec t)) = tm_sec t"
    using assms by (intro two_digits_ok; simp add: valid_tm_def)+
  let ?s = "time_text t"
  have f: "text_field 0 4 ?s = convert (tm_year t + 1900)" "text_field 5 2 ?s = two_digits (tm_mon t + 1)"
    "text_field 8 2 ?s = two_digits (tm_mday t)" "text_field 11 2 ?s = two_digits (tm_hour t)" "text_field 14 2 ?s = two_digits (tm_min t)"
    "text_field 17 2 ?s = two_digits (tm_sec t)"
    using y d(1-5) by (simp_all add: time_text_def text_field_def)
  have "length ?s = 19" using y d(1-5) by (simp add: time_text_def)
  moreover have "parse_time ?s = t"
    using d(6-10) by (simp add: parse_time_def f convert_round_trip)
  ultimately show ?thesis
    using y d(1,2) by (simp add: GetCurrentTime_def GetCurrentDateTime_def GetCurrentData_def strftime_to_def f)
qed

definition sample_time :: tm_time where
  "sample_time = \<lparr>tm_year = 123, tm_mon = 6, tm_mday = 20, tm_hour = 9, tm_min = 5, tm_sec = 0\<rparr>"

theorem log_time_round_trip_witness:
  "parse_time (GetCurrentDateTime sample_time) = sample_time \<and> length (GetCurrentDateTime sample_time) = 19"
  using log_time_round_trip [of sample_time] by (simp add: valid_tm_def sample_time_def)

text \<open>From the year 10000 on the date does not fit its array.\<close>
theorem year_10000_undefined:
  assumes "8100 \<le> tm_year t" "0 \<le> tm_mon t" "tm_mon t < 12" "0 \<le> tm_mday t" "tm_mday t < 32"
  shows "GetCurrentData t = Inl Undefined"
proof -
  have "4 < length (convert (tm_year t + 1900))"
    using convert_loop_long [of 4 "tm_year t + 1900"] assms(1) by (simp add: convert_def)
  moreover have "length (two_digits (tm_mon t + 1)) = 2" "length (two_digits (tm_mday t)) = 2"
    using assms by (intro two_digits_ok; simp)+
  ultimately show ?thesis by (simp add: GetCurrentData_def strftime_to_def)
qed

theorem year_10000_undefined_witness: "GetCurrentData (sample_time\<lparr>tm_year := 8100\<rparr>) = Inl Undefined"
  by (rule year_10000_undefined) (simp_all add: sample_time_def)

text \<open>The number of a thread comes back whole from its text.\<close>
theorem thread_id_round_trip:
  assumes "0 \<le> tid" "tid < 2 ^ 64"
  shows "GetCurrentThreadId tid = Some (word_of_int tid)"
proof -
  have dig: "is_digit (digit_at l)" if "- 10 < l" "l < 10" for l
    using range_19 [OF that] by (auto simp: digit_at_def digits_def is_digit_def)
  have "\<forall>c \<in> set (convert_loop i). is_digit c" for i
  proof (induction i rule: convert_loop.induct)
    case (1 i)
    then show ?case using dig [of "i smod 10"] smod_10 [of i] by (subst convert_loop.simps) auto
  qed
  with assms have all: "\<forall>c \<in> set (convert tid). is_digit c" by (simp add: convert_def)
  have tw: "takeWhile is_digit (convert tid) = convert tid" using all by (intro takeWhile_eq_all_conv [THEN iffD2]) simp
  have "digits_value 10 dec_val (rev (convert tid)) = tid" "convert tid \<noteq> []"
    using assms convert_loop_value [of tid] convert_loop_chars [of tid] by (simp_all add: convert_def)
  then show ?thesis unfolding GetCurrentThreadId_def stoull_def Let_def tw using assms by simp
qed

theorem thread_id_round_trip_witness: "GetCurrentThreadId 140735 = Some 140735"
  using thread_id_round_trip [of 140735] by simp

end
