(* ===== verification/ConnName.thy ===== *)
theory ConnName
  imports TcpClient CLogDate
begin

text \<open>
  The names that \<open>TcpServer::newConnection\<close> and \<open>TcpClient::newConnection\<close> give their connections: an
  instance of the parameter \<open>name\<close> of \<open>server_newConnection\<close> and \<open>client_newConnection\<close>. \<open>ntop\<close> is
  \<open>inet_ntop\<close>, as in \<open>Address\<close>.
\<close>

text \<open>What \<open>snprintf(buf, 64, "%s-%d", s.c_str(), n)\<close> leaves in \<open>buf\<close>, up to the NUL.\<close>

definition buf_name :: "string \<Rightarrow> int \<Rightarrow> string" where
  "buf_name s n = take 63 (c_str s @ ''-'' @ convert n)"

definition server_connName :: "(protocol \<Rightarrow> bytes \<Rightarrow> string) \<Rightarrow> address \<Rightarrow> int \<Rightarrow> string result" where
  "server_connName ntop a id_no =
     r_bind (Address_ip ntop a) (\<lambda>ip. r_bind (Address_port a) (\<lambda>port.
     Inr (buf_name (ip @ ''-'' @ convert (uint port)) id_no)))"

definition client_connName :: "(protocol \<Rightarrow> bytes \<Rightarrow> string) \<Rightarrow> address \<Rightarrow> int \<Rightarrow> string result" where
  "client_connName ntop a id_no =
     r_bind (Address_ip ntop a) (\<lambda>ip. r_bind (Address_port a) (\<lambda>port.
     Inr (buf_name (ip @ convert (uint port)) id_no)))"

lemma convert_le:
  assumes "\<bar>i\<bar> < 10 ^ n" "0 < n"
  shows "length (convert i) \<le> (if i < 0 then Suc n else n)"
  using convert_loop_length [OF assms] by (simp add: convert_def)

lemma port_text: "length (convert (uint (p :: 16 word))) \<le> 5"
  using convert_le [of "uint p" 5] uint_lt2p [of p] by simp

lemma c_str_no_nul: "no_nul s \<Longrightarrow> c_str s = s"
  by (auto simp: c_str_def no_nul_def takeWhile_eq_all_conv)

lemma buf_name_whole:
  assumes "no_nul s" "length s \<le> 51" "- (2 ^ 31) \<le> n" "n < 2 ^ 31"
  shows "buf_name s n = s @ ''-'' @ convert n"
proof -
  have "\<bar>n\<bar> < 10 ^ 10" using assms(3,4) by simp
  from convert_le [OF this] have "length (convert n) \<le> 11" by (simp split: if_splits)
  then show ?thesis using assms(1,2) by (simp add: buf_name_def c_str_no_nul)
qed

text \<open>No name of a connection is cut: the text of an address has at most 45 characters, and the buffer holds
  it with the port and every number that \<open>connId_\<close> can have.\<close>
theorem names_never_cut:
  assumes "Address_ip ntop a = Inr ip" "no_nul ip" "length ip \<le> 45" "Address_port a = Inr port"
    "- (2 ^ 31) \<le> id_no" "id_no < 2 ^ 31"
  shows "server_connName ntop a id_no = Inr (ip @ ''-'' @ convert (uint port) @ ''-'' @ convert id_no) \<and>
     client_connName ntop a id_no = Inr (ip @ convert (uint port) @ ''-'' @ convert id_no)"
proof -
  have p: "no_nul (convert (uint port))" "length (convert (uint port)) \<le> 5" by (simp_all add: port_text)
  have "buf_name (ip @ ''-'' @ convert (uint port)) id_no = (ip @ ''-'' @ convert (uint port)) @ ''-'' @ convert id_no"
    "buf_name (ip @ convert (uint port)) id_no = (ip @ convert (uint port)) @ ''-'' @ convert id_no"
    using p assms(2,3,5,6) by (intro buf_name_whole; simp)+
  then show ?thesis using assms(1,4) by (simp add: server_connName_def client_connName_def)
qed

definition sample_ntop :: "protocol \<Rightarrow> bytes \<Rightarrow> string" where
  "sample_ntop p b = (if b = [10, 0, 0, 1] then ''10.0.0.1'' else ''10.0.0.11'')"

definition sample_addr :: "8 word \<Rightarrow> 16 word \<Rightarrow> address" where
  "sample_addr k port = Address_make (\<lambda>p ip. Some [10, 0, 0, k]) ''10.0.0.1'' port IPv4"

lemma sample_addr_ip:
  "Address_ip sample_ntop (sample_addr k port) = Inr (if k = 1 then ''10.0.0.1'' else ''10.0.0.11'')"
  "Address_port (sample_addr k port) = Inr port"
  by (simp_all add: sample_addr_def Address_make_def Address_ip_def Address_port_def zero_storage_def put_rest_def sample_ntop_def Let_def)

theorem names_never_cut_witness:
  "server_connName sample_ntop (sample_addr 1 180) 1 = Inr (''10.0.0.1-'' @ convert 180 @ ''-'' @ convert 1)"
  using names_never_cut [OF sample_addr_ip(1) _ _ sample_addr_ip(2), of 1 1 180] by (simp add: no_nul_def)

lemma convert_values: "convert 180 = ''180''" "convert 80 = ''80''"
  by (simp_all add: convert_def convert_loop.simps signed_divide_int_def signed_modulo_int_def digit_at_def digits_def)

text \<open>A client puts nothing between the address and the port: 10.0.0.1 with port 180 and 10.0.0.11 with
  port 80 give one name.\<close>
theorem client_names_collide:
  "client_connName sample_ntop (sample_addr 1 180) n = client_connName sample_ntop (sample_addr 11 80) n"
  by (simp add: client_connName_def sample_addr_ip convert_values)

end
