(* ===== verification/Uart.thy ===== *)
theory Uart
  imports Prelude
begin

text \<open>
  The terminal settings of \<open>SerialDevice\<close> (\<open>gwcpp/device/SerialDevice.cpp\<close>): \<open>baudRate2Enum\<close> and
  \<open>uartSet\<close>. The flag words and their constants are those of Linux, where \<open>B345600\<close> does not exist;
  \<open>cfsetispeed\<close> and \<open>cfsetospeed\<close> are those of its C library, which keep the speed in \<open>c_cflag\<close> and
  refuse a value that is no speed. The enumerations are \<open>int\<close>s, as the \<open>default\<close> cases of the code
  expect. What \<open>tcgetattr\<close> and \<open>tcsetattr\<close> answer are arguments.
\<close>

section \<open>The interface of the terminal\<close>

record termios =
  c_iflag :: "32 word"
  c_oflag :: "32 word"
  c_cflag :: "32 word"
  c_lflag :: "32 word"
  c_ispeed :: "32 word"
  c_ospeed :: "32 word"

named_theorems flag_defs \<open>the constants of the terminal interface\<close>

definition PARENB :: "32 word" where [flag_defs]: "PARENB = 0x100"
definition PARODD :: "32 word" where [flag_defs]: "PARODD = 0x200"
definition CSTOPB :: "32 word" where [flag_defs]: "CSTOPB = 0x40"
definition CSIZE :: "32 word" where [flag_defs]: "CSIZE = 0x30"
definition CS5 :: "32 word" where [flag_defs]: "CS5 = 0"
definition CS6 :: "32 word" where [flag_defs]: "CS6 = 0x10"
definition CS7 :: "32 word" where [flag_defs]: "CS7 = 0x20"
definition CS8 :: "32 word" where [flag_defs]: "CS8 = 0x30"
definition CREAD :: "32 word" where [flag_defs]: "CREAD = 0x80"
definition HUPCL :: "32 word" where [flag_defs]: "HUPCL = 0x400"
definition CLOCAL :: "32 word" where [flag_defs]: "CLOCAL = 0x800"
definition CRTSCTS :: "32 word" where [flag_defs]: "CRTSCTS = 0x80000000"
definition CBAUD :: "32 word" where [flag_defs]: "CBAUD = 0x100F"
definition IGNBRK :: "32 word" where [flag_defs]: "IGNBRK = 0x1"
definition IGNPAR :: "32 word" where [flag_defs]: "IGNPAR = 0x4"
definition INPCK :: "32 word" where [flag_defs]: "INPCK = 0x10"
definition ISTRIP :: "32 word" where [flag_defs]: "ISTRIP = 0x20"
definition INLCR :: "32 word" where [flag_defs]: "INLCR = 0x40"
definition IGNCR :: "32 word" where [flag_defs]: "IGNCR = 0x80"
definition ICRNL :: "32 word" where [flag_defs]: "ICRNL = 0x100"
definition IUCLC :: "32 word" where [flag_defs]: "IUCLC = 0x200"
definition IXON :: "32 word" where [flag_defs]: "IXON = 0x400"
definition IXANY :: "32 word" where [flag_defs]: "IXANY = 0x800"
definition IXOFF :: "32 word" where [flag_defs]: "IXOFF = 0x1000"
definition OPOST :: "32 word" where [flag_defs]: "OPOST = 0x1"
definition OLCUC :: "32 word" where [flag_defs]: "OLCUC = 0x2"
definition ONLCR :: "32 word" where [flag_defs]: "ONLCR = 0x4"
definition OCRNL :: "32 word" where [flag_defs]: "OCRNL = 0x8"
definition ONOCR :: "32 word" where [flag_defs]: "ONOCR = 0x10"
definition ONLRET :: "32 word" where [flag_defs]: "ONLRET = 0x20"
definition ISIG :: "32 word" where [flag_defs]: "ISIG = 0x1"
definition ICANON :: "32 word" where [flag_defs]: "ICANON = 0x2"
definition ECHO :: "32 word" where [flag_defs]: "ECHO = 0x8"
definition IEXTEN :: "32 word" where [flag_defs]: "IEXTEN = 0x8000"

text \<open>\<open>IBAUD0\<close>, the mark of an input speed of zero.\<close>

definition IBAUD0 :: "32 word" where [flag_defs]: "IBAUD0 = 0x80000000"

definition is_speed :: "32 word \<Rightarrow> bool" where
  "is_speed speed \<longleftrightarrow> speed AND NOT 0x100F = 0 \<or> 0x1001 \<le> speed \<and> speed \<le> 0x100F"

definition cfsetospeed :: "32 word \<Rightarrow> termios \<Rightarrow> termios" where
  "cfsetospeed speed t =
     (if is_speed speed
      then t\<lparr>c_ospeed := speed, c_cflag := (c_cflag t AND NOT CBAUD) OR speed\<rparr> else t)"

definition cfsetispeed :: "32 word \<Rightarrow> termios \<Rightarrow> termios" where
  "cfsetispeed speed t =
     (if is_speed speed
      then if speed = 0 then t\<lparr>c_ispeed := speed, c_iflag := c_iflag t OR IBAUD0\<rparr>
           else t\<lparr>c_ispeed := speed, c_iflag := c_iflag t AND NOT IBAUD0,
                  c_cflag := (c_cflag t AND NOT CBAUD) OR speed\<rparr>
      else t)"

section \<open>The speed\<close>

definition baud_table :: "(int \<times> int) list" where
  "baud_table =
     [(50, 0x1), (75, 0x2), (110, 0x3), (134, 0x4), (150, 0x5), (200, 0x6), (300, 0x7), (600, 0x8),
      (1200, 0x9), (1800, 0xA), (2400, 0xB), (4800, 0xC), (9600, 0xD), (19200, 0xE), (38400, 0xF),
      (57600, 0x1001), (115200, 0x1002), (230400, 0x1003), (460800, 0x1004), (500000, 0x1005),
      (576000, 0x1006), (921600, 0x1007), (1000000, 0x1008), (1152000, 0x1009), (1500000, 0x100A),
      (2000000, 0x100B), (2500000, 0x100C), (3000000, 0x100D), (3500000, 0x100E), (4000000, 0x100F)]"

definition baudRate2Enum :: "int \<Rightarrow> int" where
  "baudRate2Enum baudrate = (case map_of baud_table baudrate of Some b \<Rightarrow> b | None \<Rightarrow> - 1)"

section \<open>\<open>uartSet\<close>\<close>

definition set_speed :: "int \<Rightarrow> termios \<Rightarrow> termios" where
  "set_speed baudRate options =
     (let baudRateConstant = baudRate2Enum baudRate
      in if baudRateConstant \<noteq> 0
         then cfsetospeed (word_of_int baudRateConstant) (cfsetispeed (word_of_int baudRateConstant) options)
         else options)"

text \<open>The four \<open>switch\<close> statements on \<open>c_cflag\<close>; \<open>None\<close> is the \<open>default\<close> case.\<close>

definition set_parity :: "int \<Rightarrow> 32 word \<Rightarrow> 32 word option" where
  "set_parity parity f =
     (if parity = 0 then Some (f AND NOT PARENB AND NOT INPCK)
      else if parity = 1 then Some (f OR PARENB OR PARODD OR INPCK OR ISTRIP)
      else if parity = 2 then Some ((f OR PARENB) AND NOT PARODD OR INPCK OR ISTRIP)
      else if parity = 4 then Some (f AND NOT PARENB AND NOT CSTOPB)
      else None)"

definition set_dataBits :: "int \<Rightarrow> 32 word \<Rightarrow> 32 word option" where
  "set_dataBits dataBits f =
     (if dataBits = 5 then Some (f AND NOT CSIZE OR CS5)
      else if dataBits = 6 then Some (f AND NOT CSIZE OR CS6)
      else if dataBits = 7 then Some (f AND NOT CSIZE OR CS7)
      else if dataBits = 8 then Some (f AND NOT CSIZE OR CS8)
      else None)"

definition set_stopbits :: "int \<Rightarrow> 32 word \<Rightarrow> 32 word option" where
  "set_stopbits stopbits f =
     (if stopbits = 0 then Some (f AND NOT CSTOPB)
      else if stopbits = 1 then Some (f OR CSTOPB)
      else None)"

definition set_flow :: "int \<Rightarrow> 32 word \<Rightarrow> 32 word option" where
  "set_flow flowControl f =
     (if flowControl = 0 then Some (f AND NOT CRTSCTS)
      else if flowControl = 1 then Some (f OR CRTSCTS)
      else if flowControl = 2 then Some (f OR (IXON OR IXOFF OR IXANY))
      else None)"

definition set_raw :: "termios \<Rightarrow> termios" where
  "set_raw t =
     t\<lparr>c_iflag := c_iflag t AND NOT (INLCR OR IGNCR OR ICRNL OR IUCLC OR IXON OR IXANY OR IXOFF) OR (IGNBRK OR IGNPAR),
       c_oflag := c_oflag t AND NOT (OPOST OR OLCUC OR ONLCR OR OCRNL OR ONOCR OR ONLRET),
       c_cflag := c_cflag t AND NOT CRTSCTS OR (CREAD OR HUPCL OR CLOCAL),
       c_lflag := c_lflag t AND NOT (ISIG OR ICANON OR ECHO OR IEXTEN)\<rparr>"

text \<open>\<open>got\<close> is what \<open>tcgetattr\<close> stored, \<open>None\<close> for an error; \<open>set_ret\<close> is the answer of \<open>tcsetattr\<close>.
  The second component is the structure passed to \<open>tcsetattr\<close>, if it is called.\<close>

definition uartSet ::
    "termios option \<Rightarrow> int \<Rightarrow> int \<Rightarrow> int \<Rightarrow> int \<Rightarrow> int \<Rightarrow> int \<Rightarrow> bool \<times> termios option" where
  "uartSet got set_ret baudRate parity dataBits stopbits flowControl =
     (case got of None \<Rightarrow> (False, None)
      | Some t0 \<Rightarrow>
     (let t1 = set_speed baudRate t0
      in case set_parity parity (c_cflag t1) of None \<Rightarrow> (False, None)
      | Some f1 \<Rightarrow>
     (case set_dataBits dataBits f1 of None \<Rightarrow> (False, None)
      | Some f2 \<Rightarrow>
     (case set_stopbits stopbits f2 of None \<Rightarrow> (False, None)
      | Some f3 \<Rightarrow>
     (case set_flow flowControl f3 of None \<Rightarrow> (False, None)
      | Some f4 \<Rightarrow>
     (let options = set_raw (t1\<lparr>c_cflag := f4\<rparr>)
      in (\<not> set_ret < 0, Some options)))))))"

end
