(* ===== verification/SerialDevice.thy ===== *)
theory SerialDevice
  imports Uart PollerSafe ByteBufText
begin

text \<open>
  The class \<open>SerialDevice\<close> of \<open>gwcpp/device/SerialDevice.h\<close> and \<open>SerialDevice.cpp\<close>, with the state of
  its base class \<open>IODevice\<close>, on top of the poller. \<open>sd_fd\<close> is what \<open>fd_.get()\<close> gives: the closing of
  the replaced descriptor is the business of \<open>Fd\<close>. \<open>sd_deleted\<close> lists the event objects that
  \<open>cleanup\<close> destroyed, \<open>sd_wire\<close> the bytes that the kernel took from \<open>write\<close>, \<open>sd_reads\<close> the memory
  and length passed to the read callback. The answers of the kernel are arguments.
\<close>

datatype io_state = KNone | KInited | KRunning

record serial = poller +
  sd_state :: io_state
  sd_fd :: int
  serialEvent :: "nat option"
  readBuffer :: bytebuf
  writeBuffer :: bytebuf
  readCallBack :: bool
  sd_deleted :: "nat list"
  sd_wire :: bytes
  sd_reads :: "(bytes \<times> int) list"

text \<open>The arguments of \<open>init\<close>, and what the kernel answers to \<open>open\<close>, \<open>tcgetattr\<close> and \<open>tcsetattr\<close>.\<close>

record serial_args =
  arg_baud :: int
  arg_parity :: int
  arg_data :: int
  arg_stop :: int
  arg_flow :: int
  ans_open :: int
  ans_get :: "termios option"
  ans_set :: int

section \<open>Life cycle\<close>

definition SerialDevice_new :: "poller \<Rightarrow> serial" where
  "SerialDevice_new p =
     poller.extend p (serial.fields KNone (- 1) None ByteBuf_new ByteBuf_new False [] [] [])"

definition serial_cleanup :: "'a serial_scheme \<Rightarrow> 'a serial_scheme" where
  "serial_cleanup s =
     (case serialEvent s of None \<Rightarrow> s
      | Some e \<Rightarrow> s\<lparr>serialEvent := None, sd_deleted := sd_deleted s @ [e]\<rparr>)"

definition serial_init :: "serial_args \<Rightarrow> 'a serial_scheme \<Rightarrow> bool \<times> 'a serial_scheme" where
  "serial_init a s0 =
     (let s = serial_cleanup s0
      in if sd_state s \<noteq> KNone then (False, s)
      else let e = length (objs s);
               s1 = (EpollFdEvent_new 0 s)\<lparr>serialEvent := Some e, sd_fd := (if ans_open a < 0 then - 1 else ans_open a)\<rparr>;
               s2 = EpollFdEvent_init e (sd_fd s1) KPersist s1;
               s3 = upd_ev e (\<lambda>ev. ev\<lparr>ev_writer := True\<rparr>) s2
      in if fst (uartSet (ans_get a) (ans_set a) (arg_baud a) (arg_parity a) (arg_data a) (arg_stop a) (arg_flow a))
         then (True, s3\<lparr>sd_state := KInited\<rparr>) else (False, s3))"

definition serial_start :: "'a serial_scheme \<Rightarrow> (bool \<times> 'a serial_scheme) result" where
  "serial_start s =
     (if sd_state s = KInited then
        (case serialEvent s of None \<Rightarrow> Inl Undefined
         | Some e \<Rightarrow> r_bind (enableReading e s) (\<lambda>s1. Inr (True, s1\<lparr>sd_state := KRunning\<rparr>)))
      else Inr (False, s))"

definition serial_stop :: "'a serial_scheme \<Rightarrow> 'a serial_scheme result" where
  "serial_stop s =
     (if sd_state s = KRunning then
        (case serialEvent s of None \<Rightarrow> Inl Undefined | Some e \<Rightarrow> disableAll e s)
      else Inr s)"

definition serial_close :: "'a serial_scheme \<Rightarrow> 'a serial_scheme result" where
  "serial_close s = r_bind (serial_stop s) (\<lambda>s1. Inr ((serial_cleanup s1)\<lparr>sd_state := KNone\<rparr>))"

definition serial_setReadCallback :: "'a serial_scheme \<Rightarrow> 'a serial_scheme" where
  "serial_setReadCallback s =
     (let s1 = s\<lparr>readCallBack := True\<rparr>
      in case serialEvent s1 of None \<Rightarrow> s1 | Some e \<Rightarrow> upd_ev e (\<lambda>ev. ev\<lparr>ev_reader := True\<rparr>) s1)"

section \<open>Reading\<close>

text \<open>\<open>readv\<close> stores into the first buffer and then into the second; what lies behind stays.\<close>

definition fill_buf :: "bytes \<Rightarrow> bytes \<Rightarrow> bytes" where
  "fill_buf b t = take (length t) b @ drop (length b) t"

definition readv_fill :: "bytes \<Rightarrow> bytes \<times> bytes \<Rightarrow> bytes \<times> bytes" where
  "readv_fill b t = (fill_buf (take 1024 b) (fst t), fill_buf (drop 1024 b) (snd t))"

definition store_read :: "int \<Rightarrow> bytes \<times> bytes \<Rightarrow> bytebuf \<Rightarrow> bytebuf result" where
  "store_read rsize t rb =
     (if size_of_i32 rsize > 1024
      then r_bind (writeBytes_mem (fst t) 1024 rb) (writeBytes_mem (snd t) (rsize - 1024))
      else writeBytes_mem (fst t) rsize rb)"

text \<open>The loop of \<open>onReadCallBack\<close>. \<open>reads\<close> are the answers of the \<open>readv\<close> calls to come: \<open>None\<close> is an
  error, as is the end of the list. The condition assigns the truth value of \<open>readv > 0\<close> to \<open>rsize\<close>.\<close>

fun read_loop :: "int \<Rightarrow> bytes \<times> bytes \<Rightarrow> bytes option list \<Rightarrow> bytebuf \<Rightarrow> bytebuf result" where
  "read_loop rsize t [] rb = store_read rsize t rb"
| "read_loop rsize t (None # reads) rb = store_read rsize t rb"
| "read_loop rsize t (Some b # reads) rb =
     r_bind (store_read rsize t rb)
       (\<lambda>rb'. if b = [] then Inr rb' else read_loop 1 (readv_fill b t) reads rb')"

definition serial_onRead :: "bytes option list \<Rightarrow> 'a serial_scheme \<Rightarrow> 'a serial_scheme result" where
  "serial_onRead reads s =
     (case reads of
        Some (x # xs) # rest \<Rightarrow>
          r_bind (read_loop (int (length (x # xs))) (readv_fill (x # xs) (replicate 1024 0, replicate 1024 0)) rest
                    (readBuffer s)) (\<lambda>rb.
          r_bind (if readCallBack s then r_bind (readableBytes rb) (\<lambda>k. Inr [(ByteBuf_data rb, k)]) else Inr []) (\<lambda>c.
          Inr (s\<lparr>readBuffer := ByteBuf_clear rb, sd_reads := sd_reads s @ c\<rparr>)))
      | _ \<Rightarrow> Inr (s\<lparr>readBuffer := ByteBuf_clear (readBuffer s)\<rparr>))"

section \<open>Writing\<close>

definition serial_enableWriting :: "'a serial_scheme \<Rightarrow> 'a serial_scheme result" where
  "serial_enableWriting s = (case serialEvent s of None \<Rightarrow> Inl Undefined | Some e \<Rightarrow> enableWriting e s)"

text \<open>\<open>sizeof(writeBuffer_.readableBytes())\<close> is the size of an \<open>int32_t\<close>. \<open>wsize\<close> is what \<open>write\<close>
  returns.\<close>

definition serial_onWrite :: "int \<Rightarrow> 'a serial_scheme \<Rightarrow> 'a serial_scheme result" where
  "serial_onWrite wsize s =
     r_bind (readableBytes (writeBuffer s)) (\<lambda>k.
     if k = 0 then (case serialEvent s of None \<Rightarrow> Inl Undefined | Some e \<Rightarrow> disableWriting e s)
     else let (r, wb) = readBytes k (writeBuffer s)
     in r_bind r (\<lambda>buf.
        r_bind (str_of_mem (ByteBuf_data buf) 4) (\<lambda>out.
        Inr (s\<lparr>writeBuffer := wb, sd_wire := sd_wire s @ take (nat wsize) out\<rparr>))))"

definition serial_send :: "bytes \<Rightarrow> nat \<Rightarrow> int \<Rightarrow> 'a serial_scheme \<Rightarrow> 'a serial_scheme result" where
  "serial_send data len wsize s =
     (if sd_state s \<noteq> KRunning then Inr s
      else r_bind (readableBytes (writeBuffer s)) (\<lambda>k.
      if k > 0 then
        r_bind (writeBytes_mem data (i32_of_size len) (writeBuffer s)) (\<lambda>wb. Inr (s\<lparr>writeBuffer := wb\<rparr>))
      else if wsize \<ge> 0 then
        let s1 = s\<lparr>sd_wire := sd_wire s @ take (nat wsize) data\<rparr>
        in if nat wsize < len then
             r_bind (writeBytes_mem data (i32_of_size (len - nat wsize)) (writeBuffer s1)) (\<lambda>wb.
             serial_enableWriting (s1\<lparr>writeBuffer := wb\<rparr>))
           else Inr s1
      else
        r_bind (writeBytes_mem data (i32_of_size len) (writeBuffer s)) (\<lambda>wb.
        serial_enableWriting (s\<lparr>writeBuffer := wb\<rparr>))))"

end
