(* ===== verification/UartSafe.thy ===== *)
theory UartSafe
  imports Uart
begin

text \<open>
  What \<open>uartSet\<close> makes of a terminal, whatever its settings were: the framing that was asked for, in
  raw mode, but never a flow control; and which speed.
\<close>

text \<open>The arguments that meet no \<open>default\<close> case.\<close>

definition uart_args :: "int \<Rightarrow> int \<Rightarrow> int \<Rightarrow> int \<Rightarrow> bool" where
  "uart_args parity dataBits stopbits flow \<longleftrightarrow>
     parity \<in> {0, 1, 2, 4} \<and> dataBits \<in> {5, 6, 7, 8} \<and> stopbits \<in> {0, 1} \<and> flow \<in> {0, 1, 2}"

lemma uart_argsE:
  assumes "uart_args parity dataBits stopbits flow"
  obtains "parity \<in> {0, 1, 2, 4}" "dataBits \<in> {5, 6, 7, 8}" "stopbits \<in> {0, 1}" "flow \<in> {0, 1, 2}"
  using assms by (auto simp: uart_args_def)

lemmas uart_run = uartSet_def set_parity_def set_dataBits_def set_stopbits_def set_flow_def set_raw_def flag_defs
  Let_def bit.conj_disj_distrib2 and.assoc

lemma uart_succeeds:
  assumes "uart_args parity dataBits stopbits flow"
  shows "\<exists>t. uartSet (Some t0) set_ret baud parity dataBits stopbits flow = (0 \<le> set_ret, Some t)"
  using assms by (elim uart_argsE insertE emptyE; simp add: uartSet_def set_parity_def set_dataBits_def set_stopbits_def
      set_flow_def Let_def not_less)

section \<open>Framing\<close>

text \<open>C23: With arguments that meet no \<open>default\<close> case, \<open>uartSet\<close> passes to \<open>tcsetattr\<close> settings with the
  requested number of data bits, the parity bit on exactly for odd and even parity and of the right
  kind, the requested stop bits, the receiver on, and canonical mode, echo, signals and output
  processing off, whatever the settings were; it succeeds when \<open>tcsetattr\<close> does.\<close>
theorem uart_framing:
  assumes "uart_args parity dataBits stopbits flow"
  shows "\<exists>t. uartSet (Some t0) set_ret baud parity dataBits stopbits flow = (0 \<le> set_ret, Some t) \<and>
     c_cflag t AND CSIZE = word_of_int (16 * (dataBits - 5)) \<and>
     (c_cflag t AND PARENB \<noteq> 0 \<longleftrightarrow> parity \<in> {1, 2}) \<and>
     (parity \<in> {1, 2} \<longrightarrow> (c_cflag t AND PARODD \<noteq> 0 \<longleftrightarrow> parity = 1)) \<and>
     (c_cflag t AND CSTOPB \<noteq> 0 \<longleftrightarrow> stopbits = 1) \<and> c_cflag t AND CREAD = CREAD \<and>
     c_lflag t AND (ISIG OR ICANON OR ECHO) = 0 \<and> c_oflag t AND OPOST = 0"
  using assms by (elim uart_argsE insertE emptyE; simp add: uart_run not_less)

theorem uart_framing_witness:
  "\<exists>t. uartSet (Some \<lparr>c_iflag = 0x500, c_oflag = 5, c_cflag = 0xCBD, c_lflag = 0x8A3B, c_ispeed = 13, c_ospeed = 13\<rparr>)
       0 9600 2 7 1 0 = (True, Some t) \<and> c_cflag t AND CSIZE = 0x20 \<and> c_cflag t AND PARENB \<noteq> 0"
proof -
  have "uart_args 2 7 1 0" by (simp add: uart_args_def)
  from uart_framing [OF this, of _ 0 9600] show ?thesis by force
qed

section \<open>Speed\<close>

text \<open>The speed bits after \<open>cfsetispeed\<close> and \<open>cfsetospeed\<close>.\<close>

definition speed_bits :: "int \<Rightarrow> termios \<Rightarrow> 32 word" where
  "speed_bits baud t0 = (case map_of baud_table baud of Some b \<Rightarrow> word_of_int b | None \<Rightarrow> c_cflag t0 AND CBAUD)"

definition rate_of :: "32 word \<Rightarrow> int option" where
  "rate_of w = map_of (map (\<lambda>(r, b). (b, r)) baud_table) (uint w)"

lemma table_entry:
  assumes "map_of baud_table baud = Some b"
  shows "is_speed (word_of_int b) \<and> (word_of_int b :: 32 word) AND CBAUD = word_of_int b \<and> b \<noteq> 0 \<and>
     (word_of_int b :: 32 word) \<noteq> 0 \<and> rate_of (word_of_int b) = Some baud"
proof -
  from map_of_SomeD [OF assms] have "(baud, b) \<in> set baud_table" .
  then show ?thesis unfolding baud_table_def set_simps
    by (elim insertE emptyE; simp add: is_speed_def CBAUD_def rate_of_def baud_table_def)
qed

lemma minus_one_no_speed: "\<not> is_speed (word_of_int (- 1))"
  by (simp add: is_speed_def word_le_def unsigned_minus_1_eq_mask mask_eq_exp_minus_1)

lemma set_speed_cflag:
  "c_cflag (set_speed baud t0) AND CBAUD = speed_bits baud t0"
proof (cases "map_of baud_table baud")
  case None
  then show ?thesis
    using minus_one_no_speed
    by (simp add: set_speed_def baudRate2Enum_def speed_bits_def cfsetispeed_def cfsetospeed_def)
next
  case (Some b)
  from table_entry [OF Some] Some show ?thesis
    by (simp add: set_speed_def baudRate2Enum_def speed_bits_def cfsetispeed_def cfsetospeed_def
        bit.conj_disj_distrib2 and.assoc)
qed

lemma uart_speed_bits:
  assumes "uart_args parity dataBits stopbits flow"
  shows "\<exists>t. snd (uartSet (Some t0) set_ret baud parity dataBits stopbits flow) = Some t \<and>
     c_cflag t AND CBAUD = speed_bits baud t0 OR (if flow = 2 then 0x1000 else 0) \<and>
     c_cflag t AND CRTSCTS = 0 \<and> c_iflag t AND (IXON OR IXOFF) = 0"
proof -
  have "c_cflag (set_speed baud t0) AND 0x100F = speed_bits baud t0"
    using set_speed_cflag [of baud t0] by (simp add: CBAUD_def)
  with assms show ?thesis by (elim uart_argsE insertE emptyE; simp add: uart_run)
qed

text \<open>Without software flow control \<open>uartSet\<close> sets the requested speed exactly when it is in the
  table of \<open>baudRate2Enum\<close>; otherwise, as for the enumerators \<open>BaudRate14400\<close> and \<open>BaudRate56000\<close>, it
  keeps the speed the port had and still succeeds.\<close>
theorem uart_speed:
  assumes "uart_args parity dataBits stopbits flow" "flow \<noteq> 2"
  shows "\<exists>t. uartSet (Some t0) set_ret baud parity dataBits stopbits flow = (0 \<le> set_ret, Some t) \<and>
     (baudRate2Enum baud \<noteq> - 1 \<longrightarrow> rate_of (c_cflag t AND CBAUD) = Some baud) \<and>
     (baudRate2Enum baud = - 1 \<longrightarrow> c_cflag t AND CBAUD = c_cflag t0 AND CBAUD)"
proof -
  from uart_succeeds [OF assms(1), of t0 set_ret baud] obtain t where
    t: "uartSet (Some t0) set_ret baud parity dataBits stopbits flow = (0 \<le> set_ret, Some t)" by blast
  with uart_speed_bits [OF assms(1), of t0 set_ret baud] assms(2)
  have "c_cflag t AND CBAUD = speed_bits baud t0" by simp
  moreover have "b \<noteq> - 1" if "map_of baud_table baud = Some b" for b
    using table_entry [OF that] minus_one_no_speed by auto
  ultimately show ?thesis
    using t table_entry [of baud] by (auto simp: baudRate2Enum_def speed_bits_def split: option.splits)
qed

theorem uart_speed_witness:
  "\<exists>t. uartSet (Some \<lparr>c_iflag = 0, c_oflag = 0, c_cflag = 0xD, c_lflag = 0, c_ispeed = 13, c_ospeed = 13\<rparr>)
       0 14400 0 8 0 0 = (True, Some t) \<and> c_cflag t AND CBAUD = 0xD"
proof -
  have "uart_args 0 8 0 0" "(0 :: int) \<noteq> 2" by (simp_all add: uart_args_def)
  from uart_speed [OF this, of "\<lparr>c_iflag = 0, c_oflag = 0, c_cflag = 0xD, c_lflag = 0, c_ispeed = 13, c_ospeed = 13\<rparr>" 0 14400]
  show ?thesis by (auto simp: baudRate2Enum_def baud_table_def CBAUD_def)
qed

text \<open>No flow control is ever switched on: the hardware flag is cleared again at the end, and the
  software flags are set in \<open>c_cflag\<close>, where they mean something else and turn one speed into
  another: 9600 baud becomes 3000000.\<close>
theorem flow_control_never_set:
  assumes "uart_args parity dataBits stopbits flow"
  shows "\<exists>t. snd (uartSet (Some t0) set_ret baud parity dataBits stopbits flow) = Some t \<and>
     c_cflag t AND CRTSCTS = 0 \<and> c_iflag t AND (IXON OR IXOFF) = 0 \<and>
     (flow = 2 \<and> baud = 9600 \<longrightarrow> rate_of (c_cflag t AND CBAUD) = Some 3000000)"
  using uart_speed_bits [OF assms, of t0 set_ret baud]
  by (auto simp: speed_bits_def rate_of_def baud_table_def)

theorem flow_control_never_set_witness:
  "\<exists>t. snd (uartSet (Some \<lparr>c_iflag = 0, c_oflag = 0, c_cflag = 0, c_lflag = 0, c_ispeed = 0, c_ospeed = 0\<rparr>)
       0 9600 0 8 0 2) = Some t \<and> rate_of (c_cflag t AND CBAUD) = Some 3000000"
proof -
  have "uart_args 0 8 0 2" by (simp add: uart_args_def)
  from flow_control_never_set [OF this, of _ 0 9600] show ?thesis by force
qed

section \<open>The enumerations\<close>

text \<open>The enumerations of \<open>SerialDevice.h\<close> and the values of their enumerators.\<close>

datatype BaudRate = BaudRate110 | BaudRate300 | BaudRate600 | BaudRate1200 | BaudRate2400 | BaudRate4800 | BaudRate9600
  | BaudRate14400 | BaudRate19200 | BaudRate38400 | BaudRate56000 | BaudRate57600 | BaudRate115200 | BaudRate921600

datatype DataBits = DataBits5 | DataBits6 | DataBits7 | DataBits8
datatype Parity = ParityNone | ParityOdd | ParityEven | ParityMark | ParitySpace
datatype StopBits = StopOne | StopTwo
datatype FlowControl = FlowNone | FlowHardware | FlowSoftware

fun baud_of :: "BaudRate \<Rightarrow> int" where
  "baud_of BaudRate110 = 110"
| "baud_of BaudRate300 = 300"
| "baud_of BaudRate600 = 600"
| "baud_of BaudRate1200 = 1200"
| "baud_of BaudRate2400 = 2400"
| "baud_of BaudRate4800 = 4800"
| "baud_of BaudRate9600 = 9600"
| "baud_of BaudRate14400 = 14400"
| "baud_of BaudRate19200 = 19200"
| "baud_of BaudRate38400 = 38400"
| "baud_of BaudRate56000 = 56000"
| "baud_of BaudRate57600 = 57600"
| "baud_of BaudRate115200 = 115200"
| "baud_of BaudRate921600 = 921600"

fun data_of :: "DataBits \<Rightarrow> int" where
  "data_of DataBits5 = 5"
| "data_of DataBits6 = 6"
| "data_of DataBits7 = 7"
| "data_of DataBits8 = 8"

fun parity_of :: "Parity \<Rightarrow> int" where
  "parity_of ParityNone = 0"
| "parity_of ParityOdd = 1"
| "parity_of ParityEven = 2"
| "parity_of ParityMark = 3"
| "parity_of ParitySpace = 4"

fun stop_of :: "StopBits \<Rightarrow> int" where
  "stop_of StopOne = 0"
| "stop_of StopTwo = 1"

fun flow_of :: "FlowControl \<Rightarrow> int" where
  "flow_of FlowNone = 0"
| "flow_of FlowHardware = 1"
| "flow_of FlowSoftware = 2"

lemma enum_args: "uart_args (parity_of p) (data_of d) (stop_of s) (flow_of f) \<longleftrightarrow> p \<noteq> ParityMark"
  by (cases p; cases d; cases s; cases f; simp add: uart_args_def)

lemma enum_bauds: "baudRate2Enum (baud_of b) = - 1 \<longleftrightarrow> b \<in> {BaudRate14400, BaudRate56000}"
  by (cases b; simp add: baudRate2Enum_def baud_table_def)

text \<open>What the header offers and the code does not do: \<open>uartSet\<close> refuses \<open>ParityMark\<close>, and accepts 14400 and
  56000 baud but leaves the speed of the port as it was. Every other choice of the enumerators succeeds
  when the system calls do, and, without software flow control, sets the speed that was asked for.\<close>
theorem offered_settings:
  "\<exists>t. uartSet (Some t0) set_ret (baud_of b) (parity_of p) (data_of d) (stop_of s) (flow_of f) =
      (if p = ParityMark then (False, None) else (0 \<le> set_ret, Some t)) \<and>
    (p = ParityMark \<or> f = FlowSoftware \<or>
     (if b = BaudRate14400 \<or> b = BaudRate56000 then c_cflag t AND CBAUD = c_cflag t0 AND CBAUD
      else rate_of (c_cflag t AND CBAUD) = Some (baud_of b)))"
proof (cases "p = ParityMark")
  case True
  then show ?thesis by (simp add: uartSet_def set_parity_def Let_def)
next
  case False
  then have args: "uart_args (parity_of p) (data_of d) (stop_of s) (flow_of f)" by (simp add: enum_args)
  from uart_succeeds [OF args, of t0 set_ret "baud_of b"] obtain t where
    t: "uartSet (Some t0) set_ret (baud_of b) (parity_of p) (data_of d) (stop_of s) (flow_of f) = (0 \<le> set_ret, Some t)" by blast
  have "c_cflag t AND CBAUD = speed_bits (baud_of b) t0" if "f \<noteq> FlowSoftware"
    using uart_speed_bits [OF args, of t0 set_ret "baud_of b"] t that by (cases f) simp_all
  moreover have "speed_bits (baud_of b) t0 = c_cflag t0 AND CBAUD" if "b = BaudRate14400 \<or> b = BaudRate56000"
    using that by (auto simp: speed_bits_def baud_table_def)
  moreover have "rate_of (speed_bits (baud_of b) t0) = Some (baud_of b)" if "\<not> (b = BaudRate14400 \<or> b = BaudRate56000)"
    using that table_entry [of "baud_of b"] enum_bauds [of b] by (auto simp: baudRate2Enum_def speed_bits_def split: option.splits)
  ultimately show ?thesis using t False by (cases "f = FlowSoftware") auto
qed

end
