(* ===== verification/SerialSafe.thy ===== *)
theory SerialSafe
  imports SerialDevice UartSafe ClientLife
begin

text \<open>
  What a \<open>SerialDevice\<close> receives and sends, and its life cycle: a device that is closed leaves its
  event registered with the poller, which a later session on the same descriptor runs into.
\<close>

section \<open>Reading\<close>

lemma fill_buf_short: "length b \<le> length t \<Longrightarrow> fill_buf b t = b @ drop (length b) t"
  by (simp add: fill_buf_def)

lemma length_fill_buf [simp]: "length b \<le> length t \<Longrightarrow> length (fill_buf b t) = length t"
  by (simp add: fill_buf_def)

text \<open>A temporary buffer pair, and a read buffer that only grows at its end.\<close>

definition temps :: "bytes \<times> bytes \<Rightarrow> bool" where
  "temps t \<longleftrightarrow> length (fst t) = 1024 \<and> length (snd t) = 1024"

lemma temps_fill: "temps t \<Longrightarrow> length b \<le> 2048 \<Longrightarrow> temps (readv_fill b t)"
  by (simp add: temps_def readv_fill_def)

definition rb_state :: "bytes \<Rightarrow> bytes \<Rightarrow> bytebuf \<Rightarrow> bool" where
  "rb_state old new rb \<longleftrightarrow> bb_wf rb \<and> readerIndex rb = 0 \<and> writerIndex rb = int (length new) \<and>
     originData rb = new @ old"

lemma rb_write:
  assumes "rb_state old new rb" "length old + length new + length b < 2 ^ 31"
  shows "\<exists>rb'. writeData b rb = Inr rb' \<and> rb_state old (new @ b) rb'"
proof -
  let ?rb' = "rb\<lparr>originData := new @ b @ old, writerIndex := int (length new) + int (length b)\<rparr>"
  have rb: "bb_wf rb" "readerIndex rb = 0" "writerIndex rb = int (length new)" "originData rb = new @ old"
    using assms(1) by (simp_all add: rb_state_def)
  have "writeData b rb = Inr ?rb'" using writeData_wf [OF rb(1), of b] assms(2) rb by simp
  moreover have "rb_state old (new @ b) ?rb'" using rb assms(2) by (auto simp: rb_state_def bb_wf_def)
  ultimately show ?thesis by blast
qed

lemma writeBytes_mem_prefix:
  assumes "n \<le> length mem" "n < 2 ^ 31"
  shows "writeBytes_mem mem (int n) rb = writeData (take n mem) rb"
  using assms by (simp add: writeBytes_mem_def size_of_i32_nonneg max_size_def)

text \<open>The bytes that \<open>store_read\<close> takes from the temporary buffers.\<close>

definition read_bytes :: "nat \<Rightarrow> bytes \<times> bytes \<Rightarrow> bytes" where
  "read_bytes n t = take n (fst t @ snd t)"

lemma store_read_ok:
  assumes "temps t" "n \<le> 2048" "rb_state old new rb" "length old + length new + n < 2 ^ 31"
  shows "\<exists>rb'. store_read (int n) t rb = Inr rb' \<and> rb_state old (new @ read_bytes n t) rb'"
proof (cases "n > 1024")
  case False
  with rb_write [OF assms(3), of "take n (fst t)"] assms show ?thesis
    by (simp add: store_read_def size_of_i32_nonneg writeBytes_mem_prefix temps_def read_bytes_def)
next
  case True
  have t: "length (fst t) = 1024" "length (snd t) = 1024" using assms(1) by (simp_all add: temps_def)
  from rb_write [OF assms(3), of "fst t"] True assms(4) t obtain rb1 where
    rb1: "writeData (fst t) rb = Inr rb1" "rb_state old (new @ fst t) rb1" by auto
  have "length old + length (new @ fst t) + length (take (n - 1024) (snd t)) < 2 ^ 31"
    using True assms(4) t by simp
  from rb_write [OF rb1(2) this] obtain rb2 where
    rb2: "writeData (take (n - 1024) (snd t)) rb1 = Inr rb2" "rb_state old (new @ fst t @ take (n - 1024) (snd t)) rb2"
    unfolding append_assoc by blast
  have "writeBytes_mem (fst t) 1024 rb = Inr rb1" using writeBytes_mem_prefix [of 1024 "fst t" rb] rb1(1) t by simp
  moreover have "writeBytes_mem (snd t) (int n - 1024) rb1 = Inr rb2"
    using writeBytes_mem_prefix [of "n - 1024" "snd t" rb1] rb2(1) t True assms(2) by (simp add: of_nat_diff)
  ultimately show ?thesis
    using True assms(2) rb2(2) t by (simp add: store_read_def size_of_i32_nonneg read_bytes_def)
qed

lemma take_take_drop: "k \<le> n \<Longrightarrow> take k b @ take (n - k) (drop k b) = take n b"
  by (metis le_add_diff_inverse take_add)

lemma read_bytes_fill:
  "temps t \<Longrightarrow> length b \<le> 2048 \<Longrightarrow> n \<le> length b \<Longrightarrow> read_bytes n (readv_fill b t) = take n b"
  by (cases "length b \<le> 1024")
    (auto simp: temps_def readv_fill_def read_bytes_def fill_buf_def min_def take_take_drop)

lemma read_loop_ok:
  assumes "temps t" "n \<le> 2048" "rb_state old new rb" "\<forall>b \<in> set bs. b \<noteq> [] \<and> length b \<le> 2048"
    "length old + length new + n + length bs < 2 ^ 31"
  shows "\<exists>rb'. read_loop (int n) t (map Some bs) rb = Inr rb' \<and>
     rb_state old (new @ read_bytes n t @ concat (map (take 1) bs)) rb'"
  using assms
proof (induction bs arbitrary: n t new rb)
  case Nil
  with store_read_ok [of t n old new rb] show ?case by simp
next
  case (Cons b bs)
  from store_read_ok [OF Cons.prems(1-3)] Cons.prems(5) obtain rb1 where
    rb1: "store_read (int n) t rb = Inr rb1" "rb_state old (new @ read_bytes n t) rb1" by auto
  have len: "length (read_bytes n t) \<le> n" by (simp add: read_bytes_def)
  have one: "read_bytes 1 (readv_fill b t) = take 1 b"
    using Cons.prems(1,4) by (intro read_bytes_fill) (auto simp: Suc_le_eq)
  from Cons.IH [of "readv_fill b t" 1 "new @ read_bytes n t" rb1] Cons.prems rb1(2) len obtain rb' where
    "read_loop 1 (readv_fill b t) (map Some bs) rb1 = Inr rb'"
    "rb_state old ((new @ read_bytes n t) @ read_bytes 1 (readv_fill b t) @ concat (map (take 1) bs)) rb'"
    by (auto simp: temps_fill)
  then show ?case using rb1(1) Cons.prems(4) by (simp only: one) (intro exI [of _ rb'], simp)
qed

text \<open>C25: When bytes arrive, the read callback of a serial device is called once, with all bytes of the
  first \<open>readv\<close> and the first byte of each further one: the other bytes, up to 2047 of each read, are
  lost, because the loop overwrites the count with the truth value of the comparison.\<close>
theorem serial_read_keeps_first_bytes:
  assumes "bb_wf (readBuffer s)" "readerIndex (readBuffer s) = 0" "writerIndex (readBuffer s) = 0" "readCallBack s"
    "\<forall>b \<in> set (b # bs). b \<noteq> [] \<and> length b \<le> 2048"
    "length (originData (readBuffer s)) + length b + length bs < 2 ^ 31"
  shows "\<exists>s' mem k. serial_onRead (map Some (b # bs)) s = Inr s' \<and> sd_reads s' = sd_reads s @ [(mem, k)] \<and>
     take (nat k) mem = b @ concat (map (take 1) bs)"
proof -
  let ?t = "readv_fill b (replicate 1024 0, replicate 1024 0)"
  let ?new = "b @ concat (map (take 1) bs)"
  have t: "temps (replicate 1024 0, replicate 1024 0)" by (simp add: temps_def)
  have b: "b \<noteq> []" "length b \<le> 2048" using assms(5) by simp_all
  have rb0: "rb_state (originData (readBuffer s)) [] (readBuffer s)" using assms(1-3) by (simp add: rb_state_def)
  have first: "read_bytes (length b) ?t = b" using read_bytes_fill [OF t b(2), of "length b"] by simp
  from read_loop_ok [OF temps_fill [OF t b(2)] b(2) rb0, of bs] assms(5,6) obtain rb where
    rb: "read_loop (int (length b)) ?t (map Some bs) (readBuffer s) = Inr rb"
      "rb_state (originData (readBuffer s)) ?new rb" by (auto simp: first)
  have k: "readableBytes rb = Inr (int (length ?new))"
    using rb(2) by (auto simp: rb_state_def readableBytes_def i32_sub_def i32_def bb_wf_def)
  have "take (nat (int (length ?new))) (ByteBuf_data rb) = ?new"
    using rb(2) by (simp add: rb_state_def ByteBuf_data_def str_data_def)
  moreover obtain x xs where "b = x # xs" using b(1) by (cases b) auto
  ultimately show ?thesis
    using rb(1) k assms(4) by (auto simp add: serial_onRead_def simp del: length_append nat_int)
qed

theorem serial_read_keeps_first_bytes_witness:
  "\<exists>s' mem k. serial_onRead [Some [1, 2], Some [3, 4], Some [5]] ((SerialDevice_new Poller_new)\<lparr>readCallBack := True\<rparr>) = Inr s' \<and>
     sd_reads s' = [(mem, k)] \<and> take (nat k) mem = [1, 2, 3, 5]"
proof -
  let ?s = "(SerialDevice_new Poller_new)\<lparr>readCallBack := True\<rparr>"
  have "readBuffer ?s = ByteBuf_new" "sd_reads ?s = []" "readCallBack ?s"
    by (simp_all add: SerialDevice_new_def poller.defs serial.defs)
  moreover have "bb_wf ByteBuf_new" "readerIndex ByteBuf_new = 0" "writerIndex ByteBuf_new = 0" "originData ByteBuf_new = []"
    by (simp_all add: ByteBuf_new_def ByteBufData_new_def bb_wf_def)
  ultimately show ?thesis using serial_read_keeps_first_bytes [of ?s "[1, 2]" "[[3, 4], [5]]"] by simp
qed

section \<open>Sending\<close>

lemma more_serial:
  assumes "poller.more q = poller.more (s :: 'a serial_scheme)"
  shows "sd_state q = sd_state s" "sd_fd q = sd_fd s" "serialEvent q = serialEvent s" "readBuffer q = readBuffer s"
    "writeBuffer q = writeBuffer s" "sd_deleted q = sd_deleted s" "sd_wire q = sd_wire s" "sd_reads q = sd_reads s"
  using assms by (cases q; cases s; simp)+

text \<open>A running device with nothing to write.\<close>

definition serial_idle :: "'a serial_scheme \<Rightarrow> bool" where
  "serial_idle s \<longleftrightarrow> poller_inv s \<and> sd_state s = KRunning \<and> bb_open (writeBuffer s) \<and> bb_content (writeBuffer s) = [] \<and>
     (\<exists>e. serialEvent s = Some e \<and> e < length (objs s) \<and> ev_index (ev_at e s) \<noteq> kNew \<and> ev_fd (ev_at e s) = sd_fd s)"

lemma serial_idle_readable: "serial_idle s \<Longrightarrow> readableBytes (writeBuffer s) = Inr 0"
  using bb_open_readable by (force simp: serial_idle_def)

text \<open>C24: While the port takes every message whole, a running serial device sends exactly the messages,
  in order, and nothing else of its state changes.\<close>
theorem serial_send_exact:
  assumes "serial_idle s"
  shows "r_fold (\<lambda>m. serial_send m (length m) (int (length m))) ms s = Inr (s\<lparr>sd_wire := sd_wire s @ concat ms\<rparr>)"
  using assms
proof (induction ms arbitrary: s)
  case (Cons m ms)
  let ?s1 = "s\<lparr>sd_wire := sd_wire s @ m\<rparr>"
  have "sd_state s = KRunning" using Cons.prems by (simp add: serial_idle_def)
  then have "serial_send m (length m) (int (length m)) s = Inr ?s1"
    using serial_idle_readable [OF Cons.prems] by (simp add: serial_send_def Let_def)
  moreover have "serial_idle ?s1"
    using Cons.prems poller_inv_more [of ?s1 s] by (simp add: serial_idle_def ev_at_def)
  ultimately show ?case using Cons.IH [of ?s1] by simp
qed simp

text \<open>After a short write a serial device does not send the rest of the message: it stores the head
  of the message again, and when the port is writable it hands four bytes of that to the kernel
  and forgets the others.\<close>
theorem short_write_sends_head_again:
  assumes "serial_idle s" "w + 4 \<le> length data" "length (originData (writeBuffer s)) + length data < 2 ^ 31"
  shows "\<exists>s1 s2. serial_send data (length data) (int w) s = Inr s1 \<and>
     bb_content (writeBuffer s1) = take (length data - w) data \<and> serial_onWrite 4 s1 = Inr s2 \<and>
     sd_wire s2 = sd_wire s @ take w data @ take 4 data \<and> bb_content (writeBuffer s2) = []"
proof -
  let ?n = "length data - w"
  from assms(1) obtain e where s: "poller_inv s" "sd_state s = KRunning" "bb_open (writeBuffer s)"
    "bb_content (writeBuffer s) = []" "serialEvent s = Some e" "e < length (objs s)" "ev_index (ev_at e s) \<noteq> kNew"
    by (auto simp: serial_idle_def)
  have "length (originData (writeBuffer s)) + length (take ?n data) < 2 ^ 31" using assms(3) by simp
  from writeData_open [OF s(3) this] s(4) obtain wb where
    wb: "writeData (take ?n data) (writeBuffer s) = Inr wb" "bb_open wb" "bb_content wb = take ?n data" by auto
  have n: "?n < 2 ^ 31" "?n \<le> length data" "4 \<le> ?n" "length (take ?n data) = ?n" using assms(2,3) by simp_all
  have wb': "writeBytes_mem data (i32_of_size ?n) (writeBuffer s) = Inr wb"
    using writeBytes_mem_prefix [OF n(2,1), of "writeBuffer s"] wb(1) n(1) by (simp add: i32_of_size_small)
  define s0 where "s0 = s\<lparr>sd_wire := sd_wire s @ take w data, writeBuffer := wb\<rparr>"
  have s0: "poller_inv s0" "e < length (objs s0)" "ev_index (ev_at e s0) \<noteq> kNew"
    using s(1,6,7) poller_inv_more [of s0 s] by (simp_all add: s0_def ev_at_def)
  from event_update_ok [OF s0(1,2), of "\<lambda>w. w OR kWriteEvent"] s0(3) obtain s1 where
    s1: "EpollFdEvent_update e (with_events e (\<lambda>w. w OR kWriteEvent) s0) = Inr s1" "poller.more s1 = poller.more s0" by blast
  have "serial_send data (length data) (int w) s = Inr s1"
    using s(2,5) serial_idle_readable [OF assms(1)] assms(2) wb' s1(1) n(3)
    by (simp add: serial_send_def Let_def serial_enableWriting_def s0_def enableWriting_def)
  moreover have buf: "writeBuffer s1 = wb" "sd_wire s1 = sd_wire s @ take w data"
    using more_serial [OF s1(2)] by (simp_all add: s0_def)
  moreover
  let ?wb2 = "wb\<lparr>readerIndex := int (length (originData wb))\<rparr>"
  let ?buf = "ByteBufData_new\<lparr>originData := take ?n data, writerIndex := int ?n\<rparr>"
  have "readBytes (int ?n) wb = (Inr ?buf, ?wb2)"
    using readBytes_all [OF wb(2)] wb(3) n(4) by simp
  moreover have "readableBytes wb = Inr (int ?n)" using bb_open_readable [OF wb(2)] wb(3) n(4) by simp
  moreover have "str_of_mem (ByteBuf_data ?buf) 4 = Inr (take 4 data)"
    using n(3) by (simp add: ByteBuf_data_def str_data_def max_size_def)
  ultimately have "serial_onWrite 4 s1 = Inr (s1\<lparr>writeBuffer := ?wb2, sd_wire := sd_wire s1 @ take 4 data\<rparr>)"
    using assms(2) by (simp add: serial_onWrite_def)
  moreover have "bb_content ?wb2 = []"
    by (simp add: bb_content_def)
  ultimately show ?thesis
    using \<open>serial_send data (length data) (int w) s = Inr s1\<close> buf wb(3)
    by (intro exI [of _ s1] exI) (intro conjI, assumption, simp, assumption, simp_all)
qed

section \<open>Life cycle\<close>

text \<open>Arguments and answers with which \<open>init\<close> opens descriptor \<open>f\<close>.\<close>

definition opens :: "serial_args \<Rightarrow> int \<Rightarrow> bool" where
  "opens a f \<longleftrightarrow> ans_open a = f \<and> 0 \<le> f \<and> ans_get a \<noteq> None \<and> 0 \<le> ans_set a \<and>
     uart_args (arg_parity a) (arg_data a) (arg_stop a) (arg_flow a)"

definition with_event :: "int \<Rightarrow> 'a serial_scheme \<Rightarrow> 'a serial_scheme" where
  "with_event f s =
     (let e = length (objs s)
      in upd_ev e (\<lambda>ev. ev\<lparr>ev_writer := True\<rparr>) (EpollFdEvent_init e f KPersist (EpollFdEvent_new 0 s)))"

lemma serial_cleanup_same [simp]:
  "objs (serial_cleanup s) = objs s" "fdEventMaps (serial_cleanup s) = fdEventMaps s"
  "ctl_log (serial_cleanup s) = ctl_log s" "sd_state (serial_cleanup s) = sd_state s"
  "serialEvent (serial_cleanup s) = None" "sd_fd (serial_cleanup s) = sd_fd s" "writeBuffer (serial_cleanup s) = writeBuffer s"
  by (simp_all add: serial_cleanup_def split: option.splits)

lemma serial_init_ok:
  assumes "sd_state s = KNone" "opens a f"
  shows "serial_init a s = (True, with_event f ((serial_cleanup s)
    \<lparr>serialEvent := Some (length (objs s)), sd_fd := f, sd_state := KInited\<rparr>))"
proof -
  obtain t0 where t0: "ans_get a = Some t0" "0 \<le> ans_set a"
    "uart_args (arg_parity a) (arg_data a) (arg_stop a) (arg_flow a)" using assms(2) by (auto simp: opens_def)
  from uart_succeeds [OF t0(3), of t0 "ans_set a" "arg_baud a"] t0(1,2)
  have "fst (uartSet (ans_get a) (ans_set a) (arg_baud a) (arg_parity a) (arg_data a) (arg_stop a) (arg_flow a))"
    by auto
  with assms show ?thesis
    by (simp add: serial_init_def opens_def with_event_def Let_def EpollFdEvent_init_def EpollFdEvent_new_def upd_ev_def)
qed

lemma serial_start_ok:
  assumes "poller_inv s" "fdEventMaps s f = None" "sd_state s = KInited" "serialEvent s = Some (length (objs s))"
    "sd_fd s = f"
  shows "\<exists>s1. serial_start (with_event f s) = Inr (True, s1) \<and> poller_inv s1 \<and> sd_state s1 = KRunning \<and>
     serialEvent s1 = Some (length (objs s)) \<and> fdEventMaps s1 = (fdEventMaps s)(f \<mapsto> length (objs s)) \<and>
     length (objs s1) = Suc (length (objs s)) \<and> ev_fd (ev_at (length (objs s)) s1) = f \<and> sd_fd s1 = f \<and>
     ev_index (ev_at (length (objs s)) s1) \<noteq> kNew \<and> sd_deleted s1 = sd_deleted s \<and> writeBuffer s1 = writeBuffer s"
proof -
  let ?e = "length (objs s)"
  from event_register_ok [OF assms(1,2), of "\<lambda>ev. ev\<lparr>ev_writer := True\<rparr>" "\<lambda>w. w OR kReadEvent" KPersist 0] obtain q where
    q: "EpollFdEvent_update ?e (with_events ?e (\<lambda>w. w OR kReadEvent) (with_event f s)) = Inr q" "poller_inv q"
      "fdEventMaps q = (fdEventMaps s)(f \<mapsto> ?e)" "length (objs q) = Suc ?e" "ev_fd (ev_at ?e q) = f"
      "ev_index (ev_at ?e q) \<noteq> kNew" "poller.more q = poller.more s" by (auto simp: with_event_def Let_def)
  let ?s1 = "q\<lparr>sd_state := KRunning\<rparr>"
  have "poller.more (with_event f s) = poller.more s"
    by (simp add: with_event_def Let_def EpollFdEvent_init_def EpollFdEvent_new_def upd_ev_def)
  from more_serial [OF this] q(1) assms(3,4) have "serial_start (with_event f s) = Inr (True, ?s1)"
    by (simp add: serial_start_def enableReading_def)
  moreover have "poller_inv ?s1" using q(2) by (subst poller_inv_more) simp_all
  ultimately show ?thesis using q(3-6) more_serial [OF q(7)] assms(4,5) by (intro exI [of _ ?s1]) (simp add: ev_at_def)
qed

lemma serial_start_clash:
  assumes "fdEventMaps s f = Some e'" "sd_state s = KInited" "serialEvent s = Some (length (objs s))"
  shows "serial_start (with_event f s) = Inl AssertFailed"
proof -
  have "poller.more (with_event f s) = poller.more s"
    by (simp add: with_event_def Let_def EpollFdEvent_init_def EpollFdEvent_new_def upd_ev_def)
  from more_serial [OF this] assms show ?thesis
    by (simp add: serial_start_def enableReading_def EpollFdEvent_update_def Poller_updateEvent_def Let_def r_assert_def
        with_events_def with_event_def EpollFdEvent_init_def EpollFdEvent_new_def upd_ev_def ev_at_def kNew_def)
qed

lemma serial_close_ok:
  assumes "poller_inv s" "sd_state s = KRunning" "serialEvent s = Some e" "e < length (objs s)"
    "ev_index (ev_at e s) \<noteq> kNew"
  shows "\<exists>s1. serial_close s = Inr s1 \<and> poller_inv s1 \<and> sd_state s1 = KNone \<and>
     fdEventMaps s1 = (fdEventMaps s)(ev_fd (ev_at e s) \<mapsto> e) \<and> sd_deleted s1 = sd_deleted s @ [e]"
proof -
  from event_update_ok [OF assms(1,4), of "\<lambda>w. kNoneEvent"] assms(5) obtain q where
    q: "EpollFdEvent_update e (with_events e (\<lambda>w. kNoneEvent) s) = Inr q" "poller_inv q" "poller.more q = poller.more s" by blast
  let ?s1 = "(serial_cleanup q)\<lparr>sd_state := KNone\<rparr>"
  have "serial_close s = Inr ?s1" using assms(2,3) q(1) by (simp add: serial_close_def serial_stop_def disableAll_def)
  moreover have "poller_inv ?s1" using q(2) by (subst poller_inv_more) simp_all
  ultimately show ?thesis
    using event_update_maps [OF assms(1,4) q(1)] more_serial [OF q(3)] assms(3)
    by (intro exI [of _ ?s1]) (simp add: serial_cleanup_def)
qed

text \<open>A session: \<open>init\<close>, \<open>start\<close>, \<open>close\<close>.\<close>

definition serial_session :: "serial_args \<Rightarrow> 'a serial_scheme \<Rightarrow> 'a serial_scheme result" where
  "serial_session a s = r_bind (serial_start (snd (serial_init a s))) (\<lambda>(started, s1). serial_close s1)"

lemma serial_session_ok:
  assumes "poller_inv s" "sd_state s = KNone" "opens a f" "fdEventMaps s f = None"
  shows "\<exists>s1. serial_session a s = Inr s1 \<and> poller_inv s1 \<and> sd_state s1 = KNone \<and>
     fdEventMaps s1 = (fdEventMaps s)(f \<mapsto> length (objs s)) \<and> length (objs s) \<in> set (sd_deleted s1)"
proof -
  let ?s0 = "(serial_cleanup s)\<lparr>serialEvent := Some (length (objs s)), sd_fd := f, sd_state := KInited\<rparr>"
  have s0: "poller_inv ?s0" using assms(1) by (subst poller_inv_more) simp_all
  from serial_start_ok [OF s0, of f] assms(4) obtain s1 where
    s1: "serial_start (with_event f ?s0) = Inr (True, s1)" "poller_inv s1" "sd_state s1 = KRunning"
      "serialEvent s1 = Some (length (objs s))" "fdEventMaps s1 = (fdEventMaps s)(f \<mapsto> length (objs s))"
      "length (objs s1) = Suc (length (objs s))" "ev_fd (ev_at (length (objs s)) s1) = f"
      "ev_index (ev_at (length (objs s)) s1) \<noteq> kNew" by auto
  from serial_close_ok [OF s1(2-4) _ s1(8)] s1(5-7) obtain s2 where
    "serial_close s1 = Inr s2" "poller_inv s2" "sd_state s2 = KNone" "fdEventMaps s2 = (fdEventMaps s)(f \<mapsto> length (objs s))"
    "sd_deleted s2 = sd_deleted s1 @ [length (objs s)]" by auto
  then show ?thesis using s1(1) serial_init_ok [OF assms(2,3)] by (intro exI [of _ s2]) (simp add: serial_session_def)
qed

text \<open>C40: A session of a serial device leaves its event registered with the poller, after the event is
  destroyed. A later session on another descriptor works, but when the kernel hands out the first
  descriptor again, \<open>init\<close> succeeds and \<open>start\<close> fails an assertion of the poller.\<close>
theorem closed_port_stays_registered:
  assumes "poller_inv s" "sd_state s = KNone" "opens a f" "opens b g" "f \<noteq> g" "fdEventMaps s f = None" "fdEventMaps s g = None"
  shows "\<exists>s1 s2 s3 e. serial_session a s = Inr s1 \<and> fdEventMaps s1 f = Some e \<and> e \<in> set (sd_deleted s1) \<and>
     serial_session b s1 = Inr s2 \<and> serial_init a s2 = (True, s3) \<and> serial_start s3 = Inl AssertFailed"
proof -
  from serial_session_ok [OF assms(1-3,6)] obtain s1 where
    s1: "serial_session a s = Inr s1" "poller_inv s1" "sd_state s1 = KNone"
      "fdEventMaps s1 = (fdEventMaps s)(f \<mapsto> length (objs s))" "length (objs s) \<in> set (sd_deleted s1)" by blast
  then have "fdEventMaps s1 g = None" using assms(5,7) by simp
  from serial_session_ok [OF s1(2,3) assms(4) this] obtain s2 where
    s2: "serial_session b s1 = Inr s2" "sd_state s2 = KNone" "fdEventMaps s2 = (fdEventMaps s1)(g \<mapsto> length (objs s1))" by blast
  let ?s0 = "(serial_cleanup s2)\<lparr>serialEvent := Some (length (objs s2)), sd_fd := f, sd_state := KInited\<rparr>"
  have "fdEventMaps ?s0 f = Some (length (objs s))" using s2(3) s1(4) assms(5) by simp
  from serial_start_clash [OF this] have "serial_start (with_event f ?s0) = Inl AssertFailed" by simp
  with serial_init_ok [OF s2(2) assms(3)] s1 s2(1) show ?thesis by (intro exI [of _ s1] exI [of _ s2] exI conjI) auto
qed

text \<open>\<open>init\<close> of a running device fails, but not without destroying the device's event first, which
  stays registered with the poller; the device can then not even be closed, since that dereferences
  a null pointer.\<close>
theorem init_while_running_destroys_event:
  assumes "serial_idle s"
  shows "\<exists>s1 e. serial_init a s = (False, s1) \<and> fdEventMaps s1 (sd_fd s1) = Some e \<and> e \<in> set (sd_deleted s1) \<and>
     serialEvent s1 = None \<and> serial_close s1 = Inl Undefined"
proof -
  from assms obtain e where s: "poller_inv s" "sd_state s = KRunning" "serialEvent s = Some e" "e < length (objs s)"
    "ev_index (ev_at e s) \<noteq> kNew" "ev_fd (ev_at e s) = sd_fd s" by (auto simp: serial_idle_def)
  have "fdEventMaps s (sd_fd s) = Some e" using poller_invD(3) [OF s(1,4,5)] s(6) by simp
  with s(2,3) show ?thesis
    by (intro exI [of _ "serial_cleanup s"] exI [of _ e])
      (simp add: serial_init_def Let_def serial_close_def serial_stop_def, simp add: serial_cleanup_def)
qed

text \<open>A port with its default settings, opened as descriptor \<open>f\<close>.\<close>

definition sample_args :: "int \<Rightarrow> serial_args" where
  "sample_args f = \<lparr>arg_baud = 9600, arg_parity = 0, arg_data = 8, arg_stop = 0, arg_flow = 0, ans_open = f,
     ans_get = Some \<lparr>c_iflag = 0, c_oflag = 0, c_cflag = 0, c_lflag = 0, c_ispeed = 0, c_ospeed = 0\<rparr>, ans_set = 0\<rparr>"

lemma sample_args_open: "0 \<le> f \<Longrightarrow> opens (sample_args f) f"
  by (simp add: opens_def sample_args_def uart_args_def)

lemma sample_device:
  "poller_inv (SerialDevice_new Poller_new)" "sd_state (SerialDevice_new Poller_new) = KNone"
  "fdEventMaps (SerialDevice_new Poller_new) f = None" "writeBuffer (SerialDevice_new Poller_new) = ByteBuf_new"
  by (simp_all add: SerialDevice_new_def poller.defs serial.defs Poller_new_def poller_inv_def interest_def)

theorem closed_port_stays_registered_witness:
  "\<exists>s1 s2 s3. serial_session (sample_args 5) (SerialDevice_new Poller_new) = Inr s1 \<and>
     serial_session (sample_args 6) s1 = Inr s2 \<and> serial_init (sample_args 5) s2 = (True, s3) \<and>
     serial_start s3 = Inl AssertFailed"
proof -
  have "(5 :: int) \<noteq> 6" by simp
  from closed_port_stays_registered [OF sample_device(1,2) sample_args_open sample_args_open this sample_device(3,3)]
  show ?thesis by auto
qed

lemma sample_idle:
  "\<exists>s. serial_idle (s :: serial) \<and> originData (writeBuffer s) = [] \<and> sd_wire s = []"
proof -
  let ?s = "SerialDevice_new Poller_new"
  let ?s0 = "?s\<lparr>serialEvent := Some (length (objs ?s)), sd_fd := 5, sd_state := KInited\<rparr>"
  have inv: "poller_inv ?s0" using sample_device(1) by (subst poller_inv_more) simp_all
  from serial_start_ok [OF inv, of 5] sample_device(3) obtain s1 :: serial where
    s1: "poller_inv s1" "sd_state s1 = KRunning" "serialEvent s1 = Some (length (objs ?s))"
      "length (objs s1) = Suc (length (objs ?s))" "ev_fd (ev_at (length (objs ?s)) s1) = 5" "sd_fd s1 = 5"
      "ev_index (ev_at (length (objs ?s)) s1) \<noteq> kNew" "writeBuffer s1 = writeBuffer ?s" by auto
  define s2 where "s2 = s1\<lparr>sd_wire := []\<rparr>"
  have "serial_idle s2"
    using s1 sample_device(4) bb_open_new poller_inv_more [of s2 s1] by (simp add: serial_idle_def s2_def ev_at_def)
  moreover have "originData (writeBuffer s2) = []"
    using s1(8) sample_device(4) by (simp add: s2_def ByteBuf_new_def ByteBufData_new_def)
  ultimately show ?thesis by (intro exI [of _ s2]) (simp add: s2_def)
qed

theorem init_while_running_destroys_event_witness:
  "\<exists>(s :: serial) s1. serial_idle s \<and> serial_init (sample_args 7) s = (False, s1) \<and> serial_close s1 = Inl Undefined"
proof -
  from sample_idle obtain s :: serial where s: "serial_idle s" by blast
  from init_while_running_destroys_event [OF s, of "sample_args 7"] s show ?thesis by blast
qed

theorem serial_send_exact_witness:
  "\<exists>s :: serial. sd_wire s = [] \<and>
     r_fold (\<lambda>m. serial_send m (length m) (int (length m))) [[1, 2], [3]] s = Inr (s\<lparr>sd_wire := [1, 2, 3]\<rparr>)"
proof -
  from sample_idle obtain s :: serial where s: "serial_idle s" "sd_wire s = []" by blast
  from serial_send_exact [OF s(1), of "[[1, 2], [3]]"] s(2) show ?thesis by (intro exI [of _ s]) simp
qed

theorem short_write_sends_head_again_witness:
  "\<exists>(s :: serial) s1 s2. serial_send [1, 2, 3, 4, 5, 6] 6 1 s = Inr s1 \<and> serial_onWrite 4 s1 = Inr s2 \<and>
     sd_wire s2 = [1, 1, 2, 3, 4] \<and> bb_content (writeBuffer s2) = []"
proof -
  from sample_idle obtain s :: serial where s: "serial_idle s" "originData (writeBuffer s) = []" "sd_wire s = []" by blast
  have six: "length [1, 2, 3, 4, 5, 6 :: byte] = 6" by simp
  from short_write_sends_head_again [OF s(1), of 1 "[1, 2, 3, 4, 5, 6]", unfolded six] s(2,3) obtain s1 s2 where
    "serial_send [1, 2, 3, 4, 5, 6] 6 1 s = Inr s1" "serial_onWrite 4 s1 = Inr s2"
    "sd_wire s2 = [1, 1, 2, 3, 4]" "bb_content (writeBuffer s2) = []" by auto
  then show ?thesis by blast
qed

end
