(* ===== verification/ADCDevice.thy ===== *)
theory ADCDevice
  imports Prelude
begin

text \<open>
  The class \<open>ADCDevice\<close> of \<open>gwcpp/device/ADCDevice.h\<close> and \<open>ADCDevice.cpp\<close>: the ADS1115 converter
  behind the I2C bus. The bus with the converter is not part of the program: the \<open>ioctl\<close> call that
  transfers a list of messages is a parameter, a function of the descriptor, the messages and a state
  \<open>'b\<close> of the world, which returns the bytes that were read (\<open>None\<close> for an error) and the next state.
  What the \<open>float\<close> arithmetic makes of a full scale in millivolts and a sample is a parameter too.
\<close>

record i2c_msg =
  m_addr :: "8 word"
  m_read :: bool
  m_buf :: bytes
  m_len :: nat

type_synonym 'b bus = "int \<Rightarrow> i2c_msg list \<Rightarrow> 'b \<Rightarrow> bytes option \<times> 'b"

section \<open>Enumerations\<close>

datatype ADDR = ADS1115_ADDR_GND | ADS1115_ADDR_VCC | ADS1115_ADDR_SDA | ADS1115_ADDR_SCL
datatype CHANNEL =
    ADS1115_CHANNEL_AIN0_AIN1 | ADS1115_CHANNEL_AIN0_AIN3 | ADS1115_CHANNEL_AIN1_AIN3 | ADS1115_CHANNEL_AIN2_AIN3
  | ADS1115_CHANNEL_AIN0_GND | ADS1115_CHANNEL_AIN1_GND | ADS1115_CHANNEL_AIN2_GND | ADS1115_CHANNEL_AIN3_GND
datatype RANGE = ADS1115_RANGE_6P144V | ADS1115_RANGE_4P096V | ADS1115_RANGE_2P048V | ADS1115_RANGE_1P024V | ADS1115_RANGE_0P512V | ADS1115_RANGE_0P256V
datatype RATE = ADS1115_RATE_8SPS | ADS1115_RATE_16SPS | ADS1115_RATE_32SPS | ADS1115_RATE_64SPS | ADS1115_RATE_128SPS | ADS1115_RATE_250SPS | ADS1115_RATE_475SPS | ADS1115_RATE_860SPS
datatype COMPARE = ADS1115_BOOL_FALSE | ADS1115_BOOL_TRUE

fun channel_val :: "CHANNEL \<Rightarrow> 16 word" where
  "channel_val ADS1115_CHANNEL_AIN0_AIN1 = 0" | "channel_val ADS1115_CHANNEL_AIN0_AIN3 = 1" | "channel_val ADS1115_CHANNEL_AIN1_AIN3 = 2" | "channel_val ADS1115_CHANNEL_AIN2_AIN3 = 3"
| "channel_val ADS1115_CHANNEL_AIN0_GND = 4" | "channel_val ADS1115_CHANNEL_AIN1_GND = 5" | "channel_val ADS1115_CHANNEL_AIN2_GND = 6" | "channel_val ADS1115_CHANNEL_AIN3_GND = 7"

fun range_val :: "RANGE \<Rightarrow> 16 word" where
  "range_val ADS1115_RANGE_6P144V = 0" | "range_val ADS1115_RANGE_4P096V = 1" | "range_val ADS1115_RANGE_2P048V = 2"
| "range_val ADS1115_RANGE_1P024V = 3" | "range_val ADS1115_RANGE_0P512V = 4" | "range_val ADS1115_RANGE_0P256V = 5"

fun rate_val :: "RATE \<Rightarrow> 16 word" where
  "rate_val ADS1115_RATE_8SPS = 0" | "rate_val ADS1115_RATE_16SPS = 1" | "rate_val ADS1115_RATE_32SPS = 2" | "rate_val ADS1115_RATE_64SPS = 3"
| "rate_val ADS1115_RATE_128SPS = 4" | "rate_val ADS1115_RATE_250SPS = 5" | "rate_val ADS1115_RATE_475SPS = 6" | "rate_val ADS1115_RATE_860SPS = 7"

fun compare_val :: "COMPARE \<Rightarrow> 16 word" where
  "compare_val ADS1115_BOOL_FALSE = 0" | "compare_val ADS1115_BOOL_TRUE = 1"

definition REG_CONVERT :: "8 word" where "REG_CONVERT = 0"
definition REG_CONFIG :: "8 word" where "REG_CONFIG = 1"

fun convAddr :: "ADDR \<Rightarrow> 8 word" where
  "convAddr ADS1115_ADDR_GND = push_bit 1 0x48"
| "convAddr ADS1115_ADDR_VCC = push_bit 1 0x49"
| "convAddr ADS1115_ADDR_SDA = push_bit 1 0x4A"
| "convAddr ADS1115_ADDR_SCL = push_bit 1 0x4B"

section \<open>State\<close>

record adc =
  adc_fd :: int
  adc_addr :: "8 word"
  adc_channel :: CHANNEL
  adc_range :: RANGE
  adc_rate :: RATE
  adc_compare :: COMPARE

section \<open>The bus\<close>

definition iicRead :: "'b bus \<Rightarrow> 8 word \<Rightarrow> nat \<Rightarrow> adc \<Rightarrow> 'b \<Rightarrow> bytes option \<times> 'b" where
  "iicRead ioctl reg len a b =
     ioctl (adc_fd a)
       [\<lparr>m_addr = drop_bit 1 (adc_addr a), m_read = False, m_buf = [reg], m_len = 1\<rparr>,
        \<lparr>m_addr = drop_bit 1 (adc_addr a), m_read = True, m_buf = [], m_len = len\<rparr>] b"

definition iicWrite :: "'b bus \<Rightarrow> 8 word \<Rightarrow> bytes \<Rightarrow> adc \<Rightarrow> 'b \<Rightarrow> bool \<times> 'b" where
  "iicWrite ioctl reg buf a b =
     (case ioctl (adc_fd a)
        [\<lparr>m_addr = drop_bit 1 (adc_addr a), m_read = False, m_buf = reg # buf, m_len = length buf + 1\<rparr>] b of
        (None, b') \<Rightarrow> (False, b')
      | (Some _, b') \<Rightarrow> (True, b'))"

text \<open>The two bytes of the buffer are 0 where the transfer stored nothing.\<close>

definition ads1115Read :: "'b bus \<Rightarrow> 8 word \<Rightarrow> adc \<Rightarrow> 'b \<Rightarrow> 16 word option \<times> 'b" where
  "ads1115Read ioctl reg a b =
     (case iicRead ioctl reg 2 a b of
        (None, b') \<Rightarrow> (None, b')
      | (Some s, b') \<Rightarrow>
          (let buf = take 2 (s @ [0, 0])
           in (Some (push_bit 8 (ucast (buf ! 0)) OR ucast (buf ! 1)), b')))"

definition ads1115Write :: "'b bus \<Rightarrow> 8 word \<Rightarrow> 16 word \<Rightarrow> adc \<Rightarrow> 'b \<Rightarrow> bool \<times> 'b" where
  "ads1115Write ioctl reg data a b = iicWrite ioctl reg [ucast (drop_bit 8 data), ucast data] a b"

section \<open>Settings\<close>

text \<open>Each setter reads the configuration register, replaces a field and writes the register back.\<close>

definition change_config :: "'b bus \<Rightarrow> (16 word \<Rightarrow> 16 word) \<Rightarrow> adc \<Rightarrow> 'b \<Rightarrow> bool \<times> 'b" where
  "change_config ioctl f a b =
     (case ads1115Read ioctl REG_CONFIG a b of
        (None, b1) \<Rightarrow> (False, b1)
      | (Some conf, b1) \<Rightarrow> ads1115Write ioctl REG_CONFIG (f conf) a b1)"

text \<open>\<open>setChannel\<close> returns 0 in the end.\<close>

definition setChannel :: "'b bus \<Rightarrow> CHANNEL \<Rightarrow> adc \<Rightarrow> 'b \<Rightarrow> bool \<times> 'b" where
  "setChannel ioctl channel a b =
     (case change_config ioctl (\<lambda>conf. conf AND NOT (push_bit 12 0x07) OR push_bit 12 (channel_val channel AND 0x07)) a b of
        (False, b') \<Rightarrow> (False, b')
      | (True, b') \<Rightarrow> (False, b'))"

definition setRate :: "'b bus \<Rightarrow> RATE \<Rightarrow> adc \<Rightarrow> 'b \<Rightarrow> bool \<times> 'b" where
  "setRate ioctl rate a b =
     change_config ioctl (\<lambda>conf. conf AND NOT (push_bit 5 0x07) OR push_bit 5 (rate_val rate AND 0x07)) a b"

definition setRange :: "'b bus \<Rightarrow> RANGE \<Rightarrow> adc \<Rightarrow> 'b \<Rightarrow> bool \<times> 'b" where
  "setRange ioctl rng a b =
     change_config ioctl (\<lambda>conf. conf AND NOT (push_bit 9 0x07) OR push_bit 9 (range_val rng AND 0x07)) a b"

definition setCompare :: "'b bus \<Rightarrow> COMPARE \<Rightarrow> adc \<Rightarrow> 'b \<Rightarrow> bool \<times> 'b" where
  "setCompare ioctl compare a b =
     change_config ioctl (\<lambda>conf. conf AND NOT (push_bit 2 0x01) OR push_bit 2 (compare_val compare)) a b"

definition startContinuousRead :: "'b bus \<Rightarrow> adc \<Rightarrow> 'b \<Rightarrow> bool \<times> 'b" where
  "startContinuousRead ioctl a b = change_config ioctl (\<lambda>conf. conf AND NOT (push_bit 8 0x01)) a b"

text \<open>\<open>open_ret\<close> is what \<open>open\<close> returns. The answers of the setters are not looked at.\<close>

definition adc_init ::
    "'b bus \<Rightarrow> int \<Rightarrow> ADDR \<Rightarrow> CHANNEL \<Rightarrow> RANGE \<Rightarrow> RATE \<Rightarrow> COMPARE \<Rightarrow> 'b \<Rightarrow> bool \<times> adc \<times> 'b" where
  "adc_init ioctl open_ret adress channel rng rate compare b =
     (let a = \<lparr>adc_fd = open_ret, adc_addr = convAddr adress, adc_channel = channel, adc_range = rng,
               adc_rate = rate, adc_compare = compare\<rparr>
      in if open_ret < 0 then (False, a, b)
         else let b1 = snd (setChannel ioctl channel a b);
                  b2 = snd (setRate ioctl rate a b1);
                  b3 = snd (setCompare ioctl compare a b2);
                  b4 = snd (setRange ioctl rng a b3)
         in (True, a, b4))"

text \<open>\<open>close\<close> works on a copy of \<open>fd_\<close>: the descriptors it closes, and the unchanged object.\<close>

definition adc_close :: "adc \<Rightarrow> int list \<times> adc" where
  "adc_close a = (if adc_fd a \<noteq> - 1 then [adc_fd a] else [], a)"

section \<open>Sampling\<close>

definition full_scale :: "16 word \<Rightarrow> int option" where
  "full_scale rng =
     (if rng = range_val ADS1115_RANGE_6P144V then Some 6144
      else if rng = range_val ADS1115_RANGE_4P096V then Some 4096
      else if rng = range_val ADS1115_RANGE_2P048V then Some 2048
      else if rng = range_val ADS1115_RANGE_1P024V then Some 1024
      else if rng = range_val ADS1115_RANGE_0P512V then Some 512
      else if rng = range_val ADS1115_RANGE_0P256V then Some 256
      else None)"

text \<open>The sample and the voltage, each \<open>None\<close> where nothing is stored through the pointer.\<close>

definition continuousRead ::
    "'b bus \<Rightarrow> (int \<Rightarrow> int \<Rightarrow> 'f) \<Rightarrow> adc \<Rightarrow> 'b \<Rightarrow> bool \<times> 16 word option \<times> 'f option \<times> 'b" where
  "continuousRead ioctl volts a b =
     (case ads1115Read ioctl REG_CONFIG a b of
        (None, b1) \<Rightarrow> (False, None, None, b1)
      | (Some conf, b1) \<Rightarrow>
          (case ads1115Read ioctl REG_CONVERT a b1 of
             (None, b2) \<Rightarrow> (False, None, None, b2)
           | (Some raw, b2) \<Rightarrow>
               (case full_scale (drop_bit 9 conf AND 0x07) of
                  Some mv \<Rightarrow> (True, Some raw, Some (volts mv (sint raw)), b2)
                | None \<Rightarrow> (False, Some raw, None, b2))))"

definition adc_start :: "'b bus \<Rightarrow> adc \<Rightarrow> 'b \<Rightarrow> bool \<times> 'b" where
  "adc_start ioctl a b = startContinuousRead ioctl a b"

definition adc_sample :: "'b bus \<Rightarrow> (int \<Rightarrow> int \<Rightarrow> 'f) \<Rightarrow> adc \<Rightarrow> 'b \<Rightarrow> bool \<times> 'f option \<times> 'b" where
  "adc_sample ioctl volts a b = (case continuousRead ioctl volts a b of (ok, raw, v, b') \<Rightarrow> (ok, v, b'))"

end
