(* ===== verification/ADCSafe.thy ===== *)
theory ADCSafe
  imports ADCDevice
begin

text \<open>
  \<open>ADCDevice\<close> against a converter that answers: after \<open>init\<close> the fields of the configuration register
  are those that were asked for and its other bits are untouched; a sample is the conversion register
  with the full scale of the configured range.
\<close>

section \<open>A reference for register fields\<close>

text \<open>The field of \<open>n\<close> bits at \<open>k\<close>.\<close>

definition field_at :: "nat \<Rightarrow> nat \<Rightarrow> 16 word \<Rightarrow> 16 word" where
  "field_at k n w = take_bit n (drop_bit k w)"

text \<open>The bits of the configuration register that \<open>init\<close> sets.\<close>

definition config_mask :: "16 word" where
  "config_mask = push_bit 2 (mask 1) OR push_bit 5 (mask 3) OR push_bit 9 (mask 6)"

text \<open>What is documented of the converter at an address: reading register \<open>r\<close> gives its two bytes, the
  higher one first, and writing the configuration register sets it, but for bit 15, which starts a
  conversion when written and tells whether one is running when read.\<close>

definition ads_device :: "'b bus \<Rightarrow> int \<Rightarrow> 8 word \<Rightarrow> ('b \<Rightarrow> 8 word \<Rightarrow> 16 word) \<Rightarrow> bool" where
  "ads_device ioctl fd ad regs \<longleftrightarrow>
     (\<forall>b r. \<exists>b'. ioctl fd [\<lparr>m_addr = ad, m_read = False, m_buf = [r], m_len = 1\<rparr>,
                          \<lparr>m_addr = ad, m_read = True, m_buf = [], m_len = 2\<rparr>] b =
              (Some [ucast (drop_bit 8 (regs b r)), ucast (regs b r)], b') \<and>
            take_bit 15 (regs b' REG_CONFIG) = take_bit 15 (regs b REG_CONFIG)) \<and>
     (\<forall>b hi lo. \<exists>s b'. ioctl fd [\<lparr>m_addr = ad, m_read = False, m_buf = [REG_CONFIG, hi, lo], m_len = 3\<rparr>] b = (Some s, b') \<and>
            take_bit 15 (regs b' REG_CONFIG) = take_bit 15 (push_bit 8 (ucast hi) OR ucast lo))"

lemma bytes_of_word: "push_bit 8 (ucast (ucast (drop_bit 8 w) :: 8 word)) OR ucast (ucast w :: 8 word) = (w :: 16 word)"
  by (rule bit_word_eqI) (auto simp: bit_simps)

lemma ads1115Read_device:
  assumes "ads_device ioctl (adc_fd a) (drop_bit 1 (adc_addr a)) regs"
  shows "\<exists>b'. ads1115Read ioctl r a b = (Some (regs b r), b') \<and>
     take_bit 15 (regs b' REG_CONFIG) = take_bit 15 (regs b REG_CONFIG)"
proof -
  from assms obtain b' where "iicRead ioctl r 2 a b = (Some [ucast (drop_bit 8 (regs b r)), ucast (regs b r)], b')"
    "take_bit 15 (regs b' REG_CONFIG) = take_bit 15 (regs b REG_CONFIG)"
    unfolding ads_device_def iicRead_def by blast
  then show ?thesis by (intro exI [of _ b']) (simp add: ads1115Read_def Let_def bytes_of_word)
qed

lemma ads1115Write_device:
  assumes "ads_device ioctl (adc_fd a) (drop_bit 1 (adc_addr a)) regs"
  shows "\<exists>b'. ads1115Write ioctl REG_CONFIG v a b = (True, b') \<and> take_bit 15 (regs b' REG_CONFIG) = take_bit 15 v"
proof -
  from assms obtain s b' where "ioctl (adc_fd a) [\<lparr>m_addr = drop_bit 1 (adc_addr a), m_read = False,
      m_buf = [REG_CONFIG, ucast (drop_bit 8 v), ucast v], m_len = 3\<rparr>] b = (Some s, b')"
    "take_bit 15 (regs b' REG_CONFIG) = take_bit 15 (push_bit 8 (ucast (ucast (drop_bit 8 v) :: 8 word)) OR ucast (ucast v :: 8 word))"
    unfolding ads_device_def by blast
  then show ?thesis unfolding bytes_of_word
    by (intro exI [of _ b']) (simp add: ads1115Write_def iicWrite_def numeral_3_eq_3)
qed

text \<open>One change of the configuration: bits below 15 are those of the changed value.\<close>

lemma change_config_device:
  assumes "ads_device ioctl (adc_fd a) (drop_bit 1 (adc_addr a)) regs"
    "\<And>v w. take_bit 15 v = take_bit 15 w \<Longrightarrow> take_bit 15 (f v) = take_bit 15 (f w)"
  shows "fst (change_config ioctl f a b) \<and>
     take_bit 15 (regs (snd (change_config ioctl f a b)) REG_CONFIG) = take_bit 15 (f (regs b REG_CONFIG))"
proof -
  from ads1115Read_device [OF assms(1), of REG_CONFIG b] obtain b1 where
    b1: "ads1115Read ioctl REG_CONFIG a b = (Some (regs b REG_CONFIG), b1)" by blast
  from ads1115Write_device [OF assms(1), of "f (regs b REG_CONFIG)" b1] obtain b2 where
    "ads1115Write ioctl REG_CONFIG (f (regs b REG_CONFIG)) a b1 = (True, b2)"
    "take_bit 15 (regs b2 REG_CONFIG) = take_bit 15 (f (regs b REG_CONFIG))" by blast
  with b1 show ?thesis by (simp add: change_config_def)
qed

text \<open>The field of \<open>n\<close> bits at \<open>k\<close> replaced by \<open>v\<close>: what each setter does to the register.\<close>

definition with_field :: "nat \<Rightarrow> nat \<Rightarrow> 16 word \<Rightarrow> 16 word \<Rightarrow> 16 word" where
  "with_field k n v w = w AND NOT (push_bit k (mask n)) OR push_bit k (take_bit n v)"

lemma bit_with_field:
  "bit (with_field k n v w) i \<longleftrightarrow> (if k \<le> i \<and> i < k + n \<and> i < 16 then bit v (i - k) else bit w i)"
  by (auto simp: with_field_def bit_simps dest: bit_imp_le_length)

lemma with_field_cong: "take_bit 15 v = take_bit 15 w \<Longrightarrow> take_bit 15 (with_field k n x v) = take_bit 15 (with_field k n x w)"
  by (auto simp: bit_eq_iff bit_take_bit_iff bit_with_field)

lemma masks: "(7 :: 16 word) = mask 3" "(1 :: 16 word) = mask 1"
  by (simp_all add: mask_eq_exp_minus_1)

lemma and_seven: "v AND 7 = take_bit 3 (v :: 16 word)"
  by (simp add: masks(1) take_bit_eq_mask)

lemma setters:
  "setRate ioctl rt a b = change_config ioctl (with_field 5 3 (rate_val rt)) a b"
  "setRange ioctl rng a b = change_config ioctl (with_field 9 3 (range_val rng)) a b"
  "snd (setChannel ioctl ch a b) = snd (change_config ioctl (with_field 12 3 (channel_val ch)) a b)"
  unfolding setRate_def setRange_def setChannel_def with_field_def and_seven unfolding masks(1)
  by (auto split: prod.split bool.split)

lemma setter_compare: "setCompare ioctl cmp a b = change_config ioctl (with_field 2 1 (compare_val cmp)) a b"
  unfolding setCompare_def with_field_def by (cases cmp) (simp_all add: mask_eq_exp_minus_1)

lemma field_with_field: "k + n \<le> 16 \<Longrightarrow> field_at k n (with_field k n v w) = take_bit n v"
  by (rule bit_word_eqI) (auto simp: field_at_def bit_take_bit_iff bit_drop_bit_eq bit_with_field)

lemma field_other_field: "k + n \<le> k' \<or> k' + n' \<le> k \<Longrightarrow> field_at k n (with_field k' n' v w) = field_at k n w"
  by (rule bit_word_eqI) (auto simp: field_at_def bit_take_bit_iff bit_drop_bit_eq bit_with_field)

lemma field_take_bit: "k + n \<le> 15 \<Longrightarrow> field_at k n (take_bit 15 w) = field_at k n w"
  by (rule bit_word_eqI) (auto simp: field_at_def bit_simps)

section \<open>What the configuration becomes\<close>

definition configured :: "CHANNEL \<Rightarrow> RATE \<Rightarrow> COMPARE \<Rightarrow> RANGE \<Rightarrow> 16 word \<Rightarrow> 16 word" where
  "configured ch rt cmp rng w =
     with_field 9 3 (range_val rng) (with_field 2 1 (compare_val cmp) (with_field 5 3 (rate_val rt)
       (with_field 12 3 (channel_val ch) w)))"

lemma values_fit:
  "take_bit 3 (channel_val ch) = channel_val ch" "take_bit 3 (range_val rng) = range_val rng"
  "take_bit 3 (rate_val rt) = rate_val rt" "compare_val cmp mod 2 = compare_val cmp"
  by (cases ch, simp_all) (cases rng, simp_all, (cases rt, simp_all)?, (cases cmp, simp_all)?)

lemma configured_fields:
  "field_at 12 3 (configured ch rt cmp rng w) = channel_val ch"
  "field_at 9 3 (configured ch rt cmp rng w) = range_val rng"
  "field_at 5 3 (configured ch rt cmp rng w) = rate_val rt"
  "field_at 2 1 (configured ch rt cmp rng w) = compare_val cmp"
  by (simp_all add: configured_def field_with_field field_other_field values_fit del: take_bit_of_1)

lemma configured_others: "configured ch rt cmp rng w AND NOT config_mask = w AND NOT config_mask"
  by (rule bit_word_eqI, unfold configured_def config_mask_def bit_and_iff bit_not_iff bit_or_iff bit_push_bit_iff
      bit_mask_iff bit_with_field) auto

lemma adc_init_device:
  assumes "0 \<le> fd" "ads_device ioctl fd (drop_bit 1 (convAddr ad)) regs"
  shows "\<exists>a b'. adc_init ioctl fd ad ch rng rt cmp b = (True, a, b') \<and>
     adc_fd a = fd \<and> adc_addr a = convAddr ad \<and>
     take_bit 15 (regs b' REG_CONFIG) = take_bit 15 (configured ch rt cmp rng (regs b REG_CONFIG))"
proof -
  define a where "a = \<lparr>adc_fd = fd, adc_addr = convAddr ad, adc_channel = ch, adc_range = rng, adc_rate = rt, adc_compare = cmp\<rparr>"
  have dev: "ads_device ioctl (adc_fd a) (drop_bit 1 (adc_addr a)) regs" using assms(2) by (simp add: a_def)
  define st where "st = (\<lambda>f b. snd (change_config ioctl f a b))"
  have step: "take_bit 15 (regs (st (with_field k n v) b) REG_CONFIG) = take_bit 15 (with_field k n v (regs b REG_CONFIG))" for k n v b
    using change_config_device [OF dev, of "with_field k n v" b] with_field_cong unfolding st_def by blast
  have "adc_init ioctl fd ad ch rng rt cmp b = (True, a, st (with_field 9 3 (range_val rng))
      (st (with_field 2 1 (compare_val cmp)) (st (with_field 5 3 (rate_val rt)) (st (with_field 12 3 (channel_val ch)) b))))"
    using assms(1) unfolding adc_init_def Let_def a_def [symmetric] setters setter_compare st_def by simp
  moreover have "take_bit 15 (regs (st (with_field 9 3 (range_val rng)) (st (with_field 2 1 (compare_val cmp))
      (st (with_field 5 3 (rate_val rt)) (st (with_field 12 3 (channel_val ch)) b)))) REG_CONFIG) =
      take_bit 15 (configured ch rt cmp rng (regs b REG_CONFIG))"
    unfolding configured_def step by (intro trans [OF step] with_field_cong refl)
  ultimately show ?thesis by (simp add: a_def)
qed

section \<open>A converter\<close>

text \<open>A bus whose state is the register file of one converter.\<close>

definition ads_model :: "(8 word \<Rightarrow> 16 word) bus" where
  "ads_model fd msgs r =
     (case msgs of
        [w] \<Rightarrow> (Some [], r (m_buf w ! 0 := push_bit 8 (ucast (m_buf w ! 1)) OR ucast (m_buf w ! 2)))
      | [w, rd] \<Rightarrow> (Some [ucast (drop_bit 8 (r (m_buf w ! 0))), ucast (r (m_buf w ! 0))], r)
      | _ \<Rightarrow> (None, r))"

lemma ads_model_device: "ads_device ads_model fd ad (\<lambda>r. r)"
  by (simp add: ads_device_def ads_model_def numeral_2_eq_2)

section \<open>Properties\<close>

lemma configured_congs:
  assumes "take_bit 15 w = take_bit 15 (configured ch rt cmp rng w0)"
  shows "field_at 12 3 w = channel_val ch" "field_at 9 3 w = range_val rng" "field_at 5 3 w = rate_val rt"
    "field_at 2 1 w = compare_val cmp"
    "take_bit 15 w AND NOT config_mask = take_bit 15 w0 AND NOT config_mask"
proof -
  have f: "k + n \<le> 15 \<Longrightarrow> field_at k n w = field_at k n (configured ch rt cmp rng w0)" for k n
    using assms field_take_bit by metis
  show "field_at 12 3 w = channel_val ch" "field_at 9 3 w = range_val rng" "field_at 5 3 w = rate_val rt"
    "field_at 2 1 w = compare_val cmp"
    by (subst f, simp, rule configured_fields)+
  have "take_bit 15 x AND NOT config_mask = take_bit 15 (x AND NOT config_mask)" for x
    by (rule bit_word_eqI) (auto simp: bit_simps)
  then show "take_bit 15 w AND NOT config_mask = take_bit 15 w0 AND NOT config_mask"
    by (metis assms configured_others)
qed

text \<open>C21: \<open>init\<close> on a converter that answers sets the channel, range, rate and compare fields of the
  configuration register to the values that were asked for and leaves every other bit below the
  conversion bit as it was.\<close>
theorem adc_init_configures:
  assumes "0 \<le> fd" "ads_device ioctl fd (drop_bit 1 (convAddr ad)) regs"
  shows "case adc_init ioctl fd ad ch rng rt cmp b of (ok, a, b') \<Rightarrow>
     ok \<and> field_at 12 3 (regs b' REG_CONFIG) = channel_val ch \<and> field_at 9 3 (regs b' REG_CONFIG) = range_val rng \<and>
     field_at 5 3 (regs b' REG_CONFIG) = rate_val rt \<and> field_at 2 1 (regs b' REG_CONFIG) = compare_val cmp \<and>
     take_bit 15 (regs b' REG_CONFIG) AND NOT config_mask = take_bit 15 (regs b REG_CONFIG) AND NOT config_mask"
proof -
  from adc_init_device [OF assms, of ch rng rt cmp b] obtain a b' where
    "adc_init ioctl fd ad ch rng rt cmp b = (True, a, b')"
    "take_bit 15 (regs b' REG_CONFIG) = take_bit 15 (configured ch rt cmp rng (regs b REG_CONFIG))" by blast
  with configured_congs [OF this(2)] show ?thesis by (simp only: prod.case simp_thms)
qed

lemma adc_init_configures_witness:
  "field_at 12 3 (snd (snd (adc_init ads_model 5 ADS1115_ADDR_VCC ADS1115_CHANNEL_AIN2_GND ADS1115_RANGE_4P096V
      ADS1115_RATE_860SPS ADS1115_BOOL_TRUE (\<lambda>_. 0x8583))) REG_CONFIG) = 6"
  using adc_init_configures [of 5 ads_model ADS1115_ADDR_VCC "\<lambda>r. r" ADS1115_CHANNEL_AIN2_GND ADS1115_RANGE_4P096V
      ADS1115_RATE_860SPS ADS1115_BOOL_TRUE "\<lambda>_. 0x8583", OF _ ads_model_device]
  by (auto split: prod.splits)

text \<open>The full scales of the data sheet, in millivolts.\<close>

fun millivolts :: "RANGE \<Rightarrow> int" where
  "millivolts ADS1115_RANGE_6P144V = 6144"
| "millivolts ADS1115_RANGE_4P096V = 4096"
| "millivolts ADS1115_RANGE_2P048V = 2048"
| "millivolts ADS1115_RANGE_1P024V = 1024"
| "millivolts ADS1115_RANGE_0P512V = 512"
| "millivolts ADS1115_RANGE_0P256V = 256"

lemma full_scale_range: "full_scale (range_val rng) = Some (millivolts rng)"
  by (cases rng) (simp_all add: full_scale_def)

lemma adc_sample_device:
  assumes dev: "ads_device ioctl (adc_fd a) (drop_bit 1 (adc_addr a)) regs"
    and "field_at 9 3 (regs b REG_CONFIG) = range_val rng"
  shows "adc_sample ioctl volts a b = (True, Some (volts (millivolts rng)
      (sint (regs (snd (ads1115Read ioctl REG_CONFIG a b)) REG_CONVERT))),
      snd (ads1115Read ioctl REG_CONVERT a (snd (ads1115Read ioctl REG_CONFIG a b))))"
proof -
  from ads1115Read_device [OF dev, of REG_CONFIG b] obtain b1
    where b1: "ads1115Read ioctl REG_CONFIG a b = (Some (regs b REG_CONFIG), b1)" by blast
  from ads1115Read_device [OF dev, of REG_CONVERT b1] obtain b2
    where "ads1115Read ioctl REG_CONVERT a b1 = (Some (regs b1 REG_CONVERT), b2)" by blast
  with b1 assms(2) show ?thesis
    by (simp add: adc_sample_def continuousRead_def field_at_def and_seven full_scale_range)
qed

text \<open>C27: after \<open>init\<close> and \<open>start\<close> the converter runs continuously (bit 8 is clear), and the voltage a
  sample stores is computed from the conversion register, read as a signed number, with the full scale
  of the range given to \<open>init\<close>.\<close>
theorem adc_sample_uses_range:
  assumes "0 \<le> fd" "ads_device ioctl fd (drop_bit 1 (convAddr ad)) regs"
  shows "case adc_init ioctl fd ad ch rng rt cmp b of (ok, a, b1) \<Rightarrow>
     (case adc_start ioctl a b1 of (ok', b2) \<Rightarrow>
        ok \<and> ok' \<and> \<not> bit (regs b2 REG_CONFIG) 8 \<and>
        fst (snd (adc_sample ioctl volts a b2)) =
          Some (volts (millivolts rng) (sint (regs (snd (ads1115Read ioctl REG_CONFIG a b2)) REG_CONVERT))))"
proof -
  from adc_init_device [OF assms, of ch rng rt cmp b] obtain a b1 where
    i: "adc_init ioctl fd ad ch rng rt cmp b = (True, a, b1)" "adc_fd a = fd" "adc_addr a = convAddr ad" and
    t: "take_bit 15 (regs b1 REG_CONFIG) = take_bit 15 (configured ch rt cmp rng (regs b REG_CONFIG))" by blast
  have dev: "ads_device ioctl (adc_fd a) (drop_bit 1 (adc_addr a)) regs" using i assms(2) by simp
  obtain ok b2 where s: "adc_start ioctl a b1 = (ok, b2)" by fastforce
  have st: "adc_start ioctl a b1 = change_config ioctl (with_field 8 1 0) a b1"
    unfolding adc_start_def startContinuousRead_def with_field_def masks(2) by (simp del: mask_Suc_0)
  have r: "ok" "take_bit 15 (regs b2 REG_CONFIG) = take_bit 15 (with_field 8 1 0 (regs b1 REG_CONFIG))"
    using change_config_device [OF dev, of "with_field 8 1 0" b1, OF with_field_cong] s st by auto
  have "field_at 9 3 (regs b2 REG_CONFIG) = field_at 9 3 (take_bit 15 (regs b2 REG_CONFIG))"
    by (rule field_take_bit [symmetric]) simp
  also have "\<dots> = field_at 9 3 (with_field 8 1 0 (regs b1 REG_CONFIG))"
    unfolding r(2) by (rule field_take_bit) simp
  also have "\<dots> = field_at 9 3 (regs b1 REG_CONFIG)" by (rule field_other_field) simp
  finally have "field_at 9 3 (regs b2 REG_CONFIG) = field_at 9 3 (regs b1 REG_CONFIG)" .
  then have f: "field_at 9 3 (regs b2 REG_CONFIG) = range_val rng" using configured_congs(2) [OF t] by simp
  have "\<not> bit (take_bit 15 (regs b2 REG_CONFIG)) 8" unfolding r(2) by (simp add: bit_take_bit_iff bit_with_field)
  then have "\<not> bit (regs b2 REG_CONFIG) 8" by (simp add: bit_take_bit_iff)
  with i s r(1) show ?thesis by (simp add: adc_sample_device [OF dev f])
qed

lemma adc_sample_uses_range_witness:
  "case adc_init ads_model 5 ADS1115_ADDR_GND ADS1115_CHANNEL_AIN0_GND ADS1115_RANGE_0P256V
      ADS1115_RATE_8SPS ADS1115_BOOL_FALSE (\<lambda>_. 0xFFFF) of (ok, a, b1) \<Rightarrow>
     \<not> bit (snd (adc_start ads_model a b1) REG_CONFIG) 8"
  using adc_sample_uses_range [where fd = 5 and ad = ADS1115_ADDR_GND and ch = ADS1115_CHANNEL_AIN0_GND
      and rng = ADS1115_RANGE_0P256V and rt = ADS1115_RATE_8SPS and cmp = ADS1115_BOOL_FALSE and b = "\<lambda>_. 0xFFFF"
      and volts = "\<lambda>mv x. mv * x", OF _ ads_model_device]
  by (auto split: prod.splits)

text \<open>no transfer error reaches the caller of \<open>init\<close>: whatever the bus answers, \<open>init\<close> is true
  once the device file is open; and \<open>setChannel\<close> is false whatever the bus answers.\<close>
theorem adc_transfer_errors_hidden:
  assumes "0 \<le> fd"
  shows "fst (adc_init ioctl fd ad ch rng rt cmp b) \<and> \<not> fst (setChannel ioctl ch' a b')"
  using assms by (auto simp: adc_init_def Let_def setChannel_def split: prod.split bool.split)

lemma adc_transfer_errors_hidden_witness:
  "fst (adc_init (\<lambda>_ _ u. (None, u)) 3 ADS1115_ADDR_GND ADS1115_CHANNEL_AIN0_GND ADS1115_RANGE_0P256V
      ADS1115_RATE_8SPS ADS1115_BOOL_FALSE ())"
  using adc_transfer_errors_hidden [of 3] by (rule conjunct1) simp

end
