(* ===== verification/IOControl.thy ===== *)
theory IOControl
  imports Prelude
begin

text \<open>
  The class \<open>IOControl\<close> of \<open>gwcpp/device/IOControl.h\<close>. \<open>open_ret\<close> is what \<open>open\<close> of the device file
  returns; \<open>io\<close> stands for \<open>ioctl\<close> with \<open>GPIOC_OPS\<close>: whether it succeeds on a descriptor and a value,
  and the value it leaves in the variable. The operations return the calls they make on the descriptor.
\<close>

datatype GPIO_FUNC =
    Relay1 | Relay2 | Relay3 | Relay4 | Relay5 | Relay6 | Relay7 | Relay8
  | Input1 | Input2 | Input3 | Input4 | Input5 | Input6 | Input7 | Input8
  | Rs4851Ctrl | Rs4852Ctrl

fun gpio_val :: "GPIO_FUNC \<Rightarrow> int" where
  "gpio_val Relay1 = 0" | "gpio_val Relay2 = 1" | "gpio_val Relay3 = 2" | "gpio_val Relay4 = 3"
| "gpio_val Relay5 = 4" | "gpio_val Relay6 = 5" | "gpio_val Relay7 = 6" | "gpio_val Relay8 = 7"
| "gpio_val Input1 = 8" | "gpio_val Input2 = 9" | "gpio_val Input3 = 10" | "gpio_val Input4 = 11"
| "gpio_val Input5 = 12" | "gpio_val Input6 = 13" | "gpio_val Input7 = 14" | "gpio_val Input8 = 15"
| "gpio_val Rs4851Ctrl = 16" | "gpio_val Rs4852Ctrl = 17"

datatype PinState = GPIO_RESET | GPIO_SET

datatype gpio_call = GIoctl int "64 word" | GClose int

definition openFd :: "int \<Rightarrow> int" where
  "openFd open_ret = (if open_ret < 0 then 0 else open_ret)"

definition setValue ::
    "(int \<Rightarrow> 64 word \<Rightarrow> bool \<times> 64 word) \<Rightarrow> int \<Rightarrow> GPIO_FUNC \<Rightarrow> PinState \<Rightarrow> gpio_call list" where
  "setValue io open_ret gpio_no state =
     (let fd = openFd open_ret
      in if fd \<noteq> 0 then
           (let val = word_of_int (push_bit 8 (of_bool (state \<noteq> GPIO_RESET)) OR gpio_val gpio_no)
            in [GIoctl fd val, GClose fd])
         else [])"

text \<open>The value is returned as an \<open>int\<close>.\<close>

definition getValue ::
    "(int \<Rightarrow> 64 word \<Rightarrow> bool \<times> 64 word) \<Rightarrow> int \<Rightarrow> GPIO_FUNC \<Rightarrow> int \<times> gpio_call list" where
  "getValue io open_ret gpio_no =
     (let fd = openFd open_ret; val = word_of_int (gpio_val gpio_no)
      in if fd \<noteq> 0 then
           (case io fd val of
              (False, val') \<Rightarrow> (- 1, [GIoctl fd val])
            | (True, val') \<Rightarrow> (signed_take_bit 31 (uint val'), [GIoctl fd val, GClose fd]))
         else (- 1, []))"

section \<open>Properties\<close>

lemma gpio_word:
  "uint (word_of_int (push_bit 8 (of_bool (st \<noteq> GPIO_RESET)) OR gpio_val g) :: 64 word) =
     (if st = GPIO_SET then 256 else 0) + gpio_val g"
  by (cases st; cases g; simp)

text \<open>\<open>setValue\<close> hands the driver the pin number with the level in bit 8 and closes the descriptor;
  \<open>getValue\<close> closes the descriptor when \<open>ioctl\<close> succeeded and leaks it when \<open>ioctl\<close> failed.\<close>
theorem gpio_calls:
  assumes "0 < open_ret"
  shows "(\<exists>val. setValue io open_ret g st = [GIoctl open_ret val, GClose open_ret] \<and>
            uint val = (if st = GPIO_SET then 256 else 0) + gpio_val g) \<and>
     (GClose open_ret \<in> set (snd (getValue io open_ret g)) \<longleftrightarrow> fst (io open_ret (word_of_int (gpio_val g))))"
proof
  let ?val = "word_of_int (push_bit 8 (of_bool (st \<noteq> GPIO_RESET)) OR gpio_val g)"
  have "setValue io open_ret g st = [GIoctl open_ret ?val, GClose open_ret]"
    using assms by (simp add: setValue_def openFd_def Let_def)
  then show "\<exists>val. setValue io open_ret g st = [GIoctl open_ret val, GClose open_ret] \<and>
      uint val = (if st = GPIO_SET then 256 else 0) + gpio_val g"
    using gpio_word by blast
  show "GClose open_ret \<in> set (snd (getValue io open_ret g)) \<longleftrightarrow> fst (io open_ret (word_of_int (gpio_val g)))"
    using assms by (auto simp: getValue_def openFd_def Let_def split: prod.split bool.split)
qed

lemma gpio_calls_witness: "snd (getValue (\<lambda>_ v. (False, v)) 5 Input3) = [GIoctl 5 10] \<and>
    GClose 5 \<notin> set (snd (getValue (\<lambda>_ v. (False, v)) 5 Input3))"
  using gpio_calls [of 5 "\<lambda>_ v. (False, v)" Input3 GPIO_SET] by (simp add: getValue_def openFd_def)

end
