(* ===== verification/FileTree.thy ===== *)
theory FileTree
  imports FileSafe
begin

text \<open>
  \<open>deleteFile\<close> on a tree of regular files and directories. \<open>below p q\<close> says that the path \<open>q\<close> is \<open>p\<close>
  or is made from it by appending names: no dot entries and no repeated slashes, so that below a root two
  paths are two files. \<open>tree_fs root\<close> says what the calls that \<open>deleteFile\<close> makes do on such paths, where
  \<open>opendir\<close> and \<open>remove\<close> may fail, and \<open>permitted\<close> that they do not fail for want of a permission.
\<close>

section \<open>Paths below a path\<close>

definition file_name :: "string \<Rightarrow> bool" where
  "file_name n \<longleftrightarrow> n \<noteq> [] \<and> CHR ''/'' \<notin> set n \<and> CHR 0x00 \<notin> set n \<and> \<not> dot_entry n"

inductive below :: "string \<Rightarrow> string \<Rightarrow> bool" for p where
  below_refl: "below p p"
| below_step: "below p d \<Longrightarrow> file_name n \<Longrightarrow> below p (sub_path d n)"

lemma below_prefix: "below p q \<Longrightarrow> \<exists>r. q = p @ r \<and> (r = [] \<or> hd r = CHR ''/'')"
proof (induction rule: below.induct)
  case (below_step d n)
  then obtain r where "d = p @ r" "r = [] \<or> hd r = CHR ''/''" by blast
  then show ?case by (intro exI [of _ "r @ ''/'' @ n"]) (auto simp: sub_path_def hd_append)
qed simp

lemma below_front: "below p q \<Longrightarrow> q = p \<or> (\<exists>n. file_name n \<and> below (sub_path p n) q)"
  by (induction rule: below.induct) (auto intro: below.intros)

lemma below_child: "file_name n \<Longrightarrow> below (sub_path p n) q \<Longrightarrow> below p q"
  by (rotate_tac, induction rule: below.induct) (auto intro: below.intros)

lemma not_below_child [simp]: "\<not> below (sub_path p n) p"
  by (auto simp: sub_path_def dest!: below_prefix)

lemma below_trans: "below q r \<Longrightarrow> below p q \<Longrightarrow> below p r"
  by (induction rule: below.induct) (auto intro: below.intros)

lemma below_other_child:
  "below (sub_path p n) (sub_path p n') \<Longrightarrow> CHR ''/'' \<notin> set n' \<Longrightarrow> n' = n"
  by (auto simp: sub_path_def dest!: below_prefix)
     (metis UnCI hd_in_set set_append)

section \<open>Trees\<close>

type_synonym tree = "string \<Rightarrow> 32 word option"

definition is_dir :: "tree \<Rightarrow> string \<Rightarrow> bool" where
  "is_dir v p \<longleftrightarrow> (\<exists>m. v p = Some m \<and> S_ISDIR m)"

text \<open>Finitely many paths below the root, and each but the root lies in a directory.\<close>

definition tree_ok :: "string \<Rightarrow> tree \<Rightarrow> bool" where
  "tree_ok root v \<longleftrightarrow> finite (dom v) \<and>
     (\<forall>d n. below root d \<longrightarrow> file_name n \<longrightarrow> v (sub_path d n) \<noteq> None \<longrightarrow> is_dir v d)"

definition cut :: "string \<Rightarrow> tree \<Rightarrow> tree" where
  "cut p v = (\<lambda>q. if below p q then None else v q)"

definition children :: "tree \<Rightarrow> string \<Rightarrow> string set" where
  "children v p = {n. file_name n \<and> v (sub_path p n) \<noteq> None}"

text \<open>What can be removed: a file or an empty directory.\<close>

definition removable :: "tree \<Rightarrow> string \<Rightarrow> bool" where
  "removable v p \<longleftrightarrow> v p \<noteq> None \<and> (is_dir v p \<longrightarrow> children v p = {})"

text \<open>The calls on the paths below a root, where the tree has regular files and directories only, which the
  process may search: \<open>stat\<close> and \<open>lstat\<close> see it; \<open>opendir\<close> and \<open>readdir\<close> fail or list each child once
  besides the dot entries; \<open>remove\<close> removes the file or the empty directory that it is given, or fails and
  changes nothing.\<close>

definition tree_fs :: "string \<Rightarrow> 'w fs \<Rightarrow> ('w \<Rightarrow> tree) \<Rightarrow> bool" where
  "tree_fs root fs view \<longleftrightarrow>
     (\<forall>w q. view w q \<noteq> None \<longrightarrow> below root q) \<and>
     (\<forall>p w. below root p \<longrightarrow> fs_stat fs p w = view w p \<and> fs_lstat fs p w = view w p) \<and>
     (\<forall>p w m. view w p = Some m \<longrightarrow> S_ISDIR m \<or> S_ISREG m) \<and>
     (\<forall>p w es. below root p \<longrightarrow> is_dir (view w) p \<longrightarrow> fs_opendir fs p w = Some es \<longrightarrow>
        distinct (map fst es) \<and> {n \<in> fst ` set es. \<not> dot_entry n} = children (view w) p) \<and>
     (\<forall>p w. below root p \<longrightarrow>
        (if fst (fs_remove fs p w) then removable (view w) p \<and> view (snd (fs_remove fs p w)) = (view w)(p := None)
         else view (snd (fs_remove fs p w)) = view w))"

definition permitted :: "string \<Rightarrow> 'w fs \<Rightarrow> ('w \<Rightarrow> tree) \<Rightarrow> bool" where
  "permitted p fs view \<longleftrightarrow> (\<forall>q w. below p q \<longrightarrow>
     (is_dir (view w) q \<longrightarrow> fs_opendir fs q w \<noteq> None) \<and> (removable (view w) q \<longrightarrow> fst (fs_remove fs q w)))"

lemma permitted_below: "permitted p fs view \<Longrightarrow> below p q \<Longrightarrow> permitted q fs view"
  unfolding permitted_def using below_trans by blast

lemma tree_okD: "tree_ok root v \<Longrightarrow> below root d \<Longrightarrow> file_name n \<Longrightarrow> v (sub_path d n) \<noteq> None \<Longrightarrow> is_dir v d"
  by (auto simp: tree_ok_def)

lemma parent_dir:
  "below p q \<Longrightarrow> tree_ok root v \<Longrightarrow> below root p \<Longrightarrow> v q \<noteq> None \<Longrightarrow> q \<noteq> p \<Longrightarrow> is_dir v p"
proof (induction rule: below.induct)
  case (below_step d n)
  have "is_dir v d" by (rule tree_okD [OF below_step.prems(1) below_trans [OF below_step(1)]]) (use below_step in auto)
  with below_step show ?case by (cases "d = p") (auto simp: is_dir_def)
qed simp

lemma below_exists: "tree_ok root v \<Longrightarrow> below root p \<Longrightarrow> below p q \<Longrightarrow> v q \<noteq> None \<Longrightarrow> v p \<noteq> None"
  using parent_dir [of p q root v] by (cases "q = p") (auto simp: is_dir_def)

lemma file_cut:
  assumes "tree_ok root v" "below root p" "\<not> is_dir v p"
  shows "cut p v = v(p := None)"
  using parent_dir [OF _ assms(1,2)] assms(3) below_refl by (fastforce simp: cut_def fun_eq_iff)

lemma remove_ok:
  assumes "tree_ok root v" "removable v p"
  shows "tree_ok root (v(p := None))"
proof -
  have "is_dir (v(p := None)) d" if "below root d" "file_name n" "(v(p := None)) (sub_path d n) \<noteq> None" for d n
  proof -
    from that(3) have some: "v (sub_path d n) \<noteq> None" by (auto split: if_splits)
    from tree_okD [OF assms(1) that(1,2) some] have "is_dir v d" .
    moreover have "d \<noteq> p" using assms(2) calculation some that(2) by (auto simp: removable_def children_def)
    ultimately show ?thesis by (simp add: is_dir_def)
  qed
  with assms(1) show ?thesis by (simp add: tree_ok_def)
qed

text \<open>A tree from which paths below \<open>p\<close> were removed.\<close>

definition pruned :: "string \<Rightarrow> string \<Rightarrow> tree \<Rightarrow> tree \<Rightarrow> bool" where
  "pruned root p v u \<longleftrightarrow> tree_ok root u \<and> (\<forall>q. u q = v q \<or> below p q \<and> u q = None)"

lemma pruned_refl: "tree_ok root v \<Longrightarrow> pruned root p v v"
  by (simp add: pruned_def)

lemma pruned_trans: "pruned root p v u \<Longrightarrow> pruned root p u t \<Longrightarrow> pruned root p v t"
  unfolding pruned_def by metis

lemma pruned_below: "pruned root q v u \<Longrightarrow> below p q \<Longrightarrow> pruned root p v u"
  unfolding pruned_def using below_trans by blast

lemma prunedD:
  assumes "pruned root p v u"
  shows "tree_ok root u" "u q \<noteq> None \<Longrightarrow> v q \<noteq> None" "\<not> below p q \<Longrightarrow> u q = v q"
  using assms unfolding pruned_def by metis+

definition tree_size :: "tree \<Rightarrow> string \<Rightarrow> nat" where
  "tree_size v p = card {q. below p q \<and> v q \<noteq> None}"

lemma tree_size_finite: "tree_ok root v \<Longrightarrow> finite {q. below p q \<and> v q \<noteq> None}"
  by (rule finite_subset [of _ "dom v"]) (auto simp: tree_ok_def)

lemma tree_size_child:
  assumes "tree_ok root v" "file_name n" "v p \<noteq> None"
  shows "tree_size v (sub_path p n) < tree_size v p"
  unfolding tree_size_def
proof (rule psubset_card_mono [OF tree_size_finite [OF assms(1)]])
  have "p \<in> {q. below p q \<and> v q \<noteq> None} - {q. below (sub_path p n) q \<and> v q \<noteq> None}"
    using assms(3) below_refl by auto
  then show "{q. below (sub_path p n) q \<and> v q \<noteq> None} \<subset> {q. below p q \<and> v q \<noteq> None}"
    using assms(2) below_child by blast
qed

lemma tree_size_pruned: "tree_ok root v \<Longrightarrow> pruned root p v u \<Longrightarrow> tree_size u q \<le> tree_size v q"
  unfolding tree_size_def by (intro card_mono tree_size_finite) (auto dest: prunedD(2))

section \<open>The loop and the call\<close>

lemma tree_fsD:
  assumes "tree_fs root fs view" "below root p"
  shows "fs_stat fs p w = view w p" "fs_lstat fs p w = view w p"
    "view w p = Some m \<Longrightarrow> S_ISDIR m \<or> S_ISREG m"
    "is_dir (view w) p \<Longrightarrow> fs_opendir fs p w = Some es \<Longrightarrow> distinct (map fst es) \<and>
        {n \<in> fst ` set es. \<not> dot_entry n} = children (view w) p"
    "fst (fs_remove fs p w) \<Longrightarrow> removable (view w) p \<and> view (snd (fs_remove fs p w)) = (view w)(p := None)"
    "\<not> fst (fs_remove fs p w) \<Longrightarrow> view (snd (fs_remove fs p w)) = view w"
proof -
  note c = assms(1) [unfolded tree_fs_def, THEN conjunct2]
  show "fs_stat fs p w = view w p" "fs_lstat fs p w = view w p"
    using c [THEN conjunct1, rule_format, OF assms(2)] by simp_all
  show "view w p = Some m \<Longrightarrow> S_ISDIR m \<or> S_ISREG m" by (rule c [THEN conjunct2, THEN conjunct1, rule_format])
  show "is_dir (view w) p \<Longrightarrow> fs_opendir fs p w = Some es \<Longrightarrow> distinct (map fst es) \<and>
        {n \<in> fst ` set es. \<not> dot_entry n} = children (view w) p"
    by (rule c [THEN conjunct2, THEN conjunct2, THEN conjunct1, rule_format, OF assms(2)])
  note r = c [THEN conjunct2, THEN conjunct2, THEN conjunct2, rule_format, OF assms(2), of w]
  show "fst (fs_remove fs p w) \<Longrightarrow> removable (view w) p \<and> view (snd (fs_remove fs p w)) = (view w)(p := None)"
    "\<not> fst (fs_remove fs p w) \<Longrightarrow> view (snd (fs_remove fs p w)) = view w"
    using r by simp_all
qed

lemma remove_pruned:
  assumes "tree_fs root fs view" "below root p" "tree_ok root (view w)"
  shows "pruned root p (view w) (view (snd (fs_remove fs p w)))"
proof (cases "fst (fs_remove fs p w)")
  case True
  with tree_fsD(5) [OF assms(1,2)] remove_ok [OF assms(3)] below_refl show ?thesis by (simp add: pruned_def)
next
  case False
  with tree_fsD(6) [OF assms(1,2)] pruned_refl [OF assms(3)] show ?thesis by simp
qed

lemma getType_tree:
  assumes "tree_fs root fs view" "below root p" "CHR 0x00 \<notin> set p"
  shows "getType fs p w = (case view w p of None \<Rightarrow> None | Some m \<Rightarrow> Some (if S_ISDIR m then TYPE_DIR else TYPE_FILE))"
  using tree_fsD(2,3) [OF assms(1,2), of w]
  by (auto simp: getType_def c_str_id [OF assms(3)] split: option.split)

lemma sub_path_nul: "CHR 0x00 \<notin> set p \<Longrightarrow> file_name n \<Longrightarrow> CHR 0x00 \<notin> set (sub_path p n)"
  by (simp add: sub_path_def file_name_def)

text \<open>What a call of \<open>deleteFile\<close> does, and what it does when nothing is forbidden.\<close>

definition deletes :: "string \<Rightarrow> 'w fs \<Rightarrow> ('w \<Rightarrow> tree) \<Rightarrow> string \<Rightarrow> 'w \<Rightarrow> bool" where
  "deletes root fs view p w \<longleftrightarrow> (\<exists>b w'. delete_run fs (Inl p) w = Some (b, w') \<and> pruned root p (view w) (view w') \<and>
     (permitted p fs view \<longrightarrow> b \<and> view w' = cut p (view w)))"

lemma delete_loop:
  assumes fs: "tree_fs root fs view" and p: "below root p" and nul: "CHR 0x00 \<notin> set p"
    and call: "\<And>n w. file_name n \<Longrightarrow> tree_ok root (view w) \<Longrightarrow> tree_size (view w) (sub_path p n) < N \<Longrightarrow>
      deletes root fs view (sub_path p n) w"
  shows "tree_ok root (view w) \<Longrightarrow> view w p \<noteq> None \<Longrightarrow> tree_size (view w) p \<le> N \<Longrightarrow> distinct (map fst es) \<Longrightarrow>
    \<forall>n \<in> fst ` set es. \<not> dot_entry n \<longrightarrow> n \<in> children (view w) p \<Longrightarrow>
    \<exists>w'. delete_run fs (Inr (p, es)) w = Some (True, w') \<and> pruned root p (view w) (view w') \<and>
      (permitted p fs view \<longrightarrow>
        view w' = (\<lambda>q. if \<exists>n \<in> fst ` set es. \<not> dot_entry n \<and> below (sub_path p n) q then None else view w q))"
proof (induction es arbitrary: w)
  case Nil
  then show ?case by (simp add: delete_run.simps [of fs "Inr (p, [])"] pruned_refl)
next
  case (Cons e es)
  obtain n t where e: "e = (n, t)" by fastforce
  show ?case
  proof (cases "dot_entry n")
    case True
    then have "delete_run fs (Inr (p, e # es)) w = delete_run fs (Inr (p, es)) w"
      by (simp add: e delete_run.simps [of fs "Inr (p, (n, t) # es)"])
    with Cons True show ?thesis by (auto simp: e)
  next
    case False
    let ?c = "sub_path p n"
    from Cons.prems(5) False have n: "file_name n" "view w ?c \<noteq> None" by (auto simp: e children_def)
    have c: "below p ?c" "below root ?c" using n(1) p by (auto intro: below.intros)
    from tree_size_child [OF Cons.prems(1) n(1) Cons.prems(2)] Cons.prems(3)
    have "tree_size (view w) ?c < N" by simp
    from call [OF n(1) Cons.prems(1) this] obtain b w1
      where w1: "delete_run fs (Inl ?c) w = Some (b, w1)" "pruned root ?c (view w) (view w1)"
        "permitted ?c fs view \<longrightarrow> view w1 = cut ?c (view w)" by (auto simp: deletes_def)
    define w2 where "w2 = snd (fs_remove fs ?c w1)"
    have p2: "pruned root ?c (view w) (view w2)"
      using pruned_trans [OF w1(2) remove_pruned [OF fs c(2) prunedD(1) [OF w1(2)]]] by (simp add: w2_def)
    have cut2: "view w2 = cut ?c (view w)" if perm: "permitted p fs view"
    proof -
      from w1(3) permitted_below [OF perm c(1)] have v1: "view w1 = cut ?c (view w)" by simp
      then have "\<not> removable (view w1) ?c" by (simp add: removable_def cut_def below_refl)
      with tree_fsD(5,6) [OF fs c(2), of w1] v1 show ?thesis by (auto simp: w2_def)
    qed
    obtain ty where "getType fs ?c w = Some ty"
      using n(2) getType_tree [OF fs c(2) sub_path_nul [OF nul n(1)]] by auto
    then have run: "delete_run fs (Inr (p, e # es)) w = delete_run fs (Inr (p, es)) w2"
      using False w1(1) sub_path_nul [OF nul n(1)]
      by (simp add: e delete_run.simps [of fs "Inr (p, (n, t) # es)"] w2_def c_str_id)
    have other: "view w2 (sub_path p k) = view w (sub_path p k)" if "file_name k" "k \<noteq> n" for k
      using prunedD(3) [OF p2] below_other_child [of p n k] that by (auto simp: file_name_def)
    have ch: "\<forall>k \<in> fst ` set es. \<not> dot_entry k \<longrightarrow> k \<in> children (view w2) p"
    proof (intro ballI impI)
      fix k assume k: "k \<in> fst ` set es" "\<not> dot_entry k"
      with Cons.prems(5) have "k \<in> children (view w) p" by auto
      moreover have "k \<noteq> n" using Cons.prems(4) k(1) by (auto simp: e)
      ultimately show "k \<in> children (view w2) p" using other by (simp add: children_def)
    qed
    have sz: "tree_size (view w2) p \<le> N" using tree_size_pruned [OF Cons.prems(1) p2, of p] Cons.prems(3) by simp
    have "view w2 p \<noteq> None" using prunedD(3) [OF p2, of p] Cons.prems(2) by simp
    from Cons.IH [OF prunedD(1) [OF p2] this sz _ ch] Cons.prems(4)
    obtain w' where w': "delete_run fs (Inr (p, es)) w2 = Some (True, w')" "pruned root p (view w2) (view w')"
      "permitted p fs view \<longrightarrow>
        view w' = (\<lambda>q. if \<exists>n \<in> fst ` set es. \<not> dot_entry n \<and> below (sub_path p n) q then None else view w2 q)" by auto
    have "pruned root p (view w) (view w')" by (rule pruned_trans [OF pruned_below [OF p2 c(1)] w'(2)])
    moreover have "view w' = (\<lambda>q. if \<exists>n \<in> fst ` set (e # es). \<not> dot_entry n \<and> below (sub_path p n) q then None else view w q)"
      if "permitted p fs view"
      using w'(3) that cut2 [OF that] False by (auto simp: e cut_def fun_eq_iff)
    ultimately show ?thesis using run w'(1) by auto
  qed
qed

lemma delete_directory:
  assumes fs: "tree_fs root fs view" and p: "below root p" and ok: "tree_ok root (view w)"
    and perm: "permitted p fs view" and es: "{n \<in> fst ` set es. \<not> dot_entry n} = children (view w) p"
    and w1: "view w1 = (\<lambda>q. if \<exists>n \<in> fst ` set es. \<not> dot_entry n \<and> below (sub_path p n) q then None else view w q)"
    and dir: "is_dir (view w) p"
  shows "view (snd (fs_remove fs p w1)) = cut p (view w)"
proof -
  have v1: "view w1 = (\<lambda>q. if \<exists>n \<in> children (view w) p. below (sub_path p n) q then None else view w q)"
  proof -
    have "(\<exists>n \<in> fst ` set es. \<not> dot_entry n \<and> below (sub_path p n) q) \<longleftrightarrow> (\<exists>n \<in> children (view w) p. below (sub_path p n) q)" for q
      using es by blast
    then show ?thesis by (simp add: w1)
  qed
  have "view w1 p \<noteq> None" using dir by (auto simp: v1 is_dir_def)
  moreover have "children (view w1) p = {}"
    by (auto simp: children_def v1 split: if_splits) (auto intro: below_refl)
  ultimately have "removable (view w1) p" by (simp add: removable_def)
  then have "fst (fs_remove fs p w1)" using perm below_refl unfolding permitted_def by blast
  then have "view (snd (fs_remove fs p w1)) = (view w1)(p := None)" using tree_fsD(5) [OF fs p] by blast
  also have "\<dots> = cut p (view w)"
  proof
    fix q
    have "n \<in> children (view w) p" if "file_name n" "below (sub_path p n) q" "view w q \<noteq> None" for n
      using that below_exists [OF ok below_step [OF p that(1)] that(2,3)] by (simp add: children_def)
    then show "((view w1)(p := None)) q = cut p (view w) q"
      using below_front [of p q] below_child [of _ p q]
      by (cases "view w q = None", auto simp: v1 cut_def children_def below_refl) (metis option.distinct(1))
  qed
  finally show ?thesis .
qed

lemma delete_call:
  assumes fs: "tree_fs root fs view"
  shows "below root p \<Longrightarrow> CHR 0x00 \<notin> set p \<Longrightarrow> tree_ok root (view w) \<Longrightarrow> deletes root fs view p w"
proof (induction "tree_size (view w) p" arbitrary: p w rule: less_induct)
  case less
  note p = less.prems(1) and nul = less.prems(2) and ok = less.prems(3)
  have here: "pathExists fs p w = (view w p \<noteq> None)"
    by (simp add: pathExists_def c_str_id [OF nul] tree_fsD(1) [OF fs p])
  consider (no_path) "view w p = None" | (regular) "view w p \<noteq> None" "\<not> is_dir (view w) p" | (directory) "is_dir (view w) p"
    by blast
  then show ?case
  proof cases
    case no_path
    then have "cut p (view w) = view w"
      using below_exists [OF ok p] by (fastforce simp: cut_def fun_eq_iff)
    with no_path here pruned_refl [OF ok] show ?thesis
      unfolding deletes_def by (intro exI [of _ True] exI [of _ w]) (simp add: delete_run.simps [of fs "Inl p"])
  next
    case regular
    then have "getType fs p w = Some TYPE_FILE" by (auto simp: getType_tree [OF fs p nul] is_dir_def)
    with regular here have run: "delete_run fs (Inl p) w = Some (fs_remove fs p w)"
      by (simp add: delete_run.simps [of fs "Inl p"] c_str_id [OF nul])
    have "fst (fs_remove fs p w)" if "permitted p fs view"
      using that below_refl regular unfolding permitted_def removable_def by blast
    with tree_fsD(5) [OF fs p, of w] file_cut [OF ok p regular(2)]
    have "fst (fs_remove fs p w) \<and> view (snd (fs_remove fs p w)) = cut p (view w)" if "permitted p fs view" using that by simp
    with run remove_pruned [OF fs p ok] show ?thesis
      unfolding deletes_def by (intro exI [of _ "fst (fs_remove fs p w)"] exI [of _ "snd (fs_remove fs p w)"]) simp
  next
    case directory
    then have type: "getType fs p w = Some TYPE_DIR" and ex: "view w p \<noteq> None"
      by (auto simp: getType_tree [OF fs p nul] is_dir_def)
    show ?thesis
    proof (cases "fs_opendir fs p w")
      case None
      then have "\<not> permitted p fs view" using directory below_refl unfolding permitted_def by blast
      with None type ex here pruned_refl [OF ok] show ?thesis
        unfolding deletes_def by (intro exI [of _ False] exI [of _ w]) (simp add: delete_run.simps [of fs "Inl p"] c_str_id [OF nul])
    next
      case (Some es)
      note es = tree_fsD(4) [OF fs p directory Some]
      have call: "deletes root fs view (sub_path p n) u"
        if "file_name n" "tree_ok root (view u)" "tree_size (view u) (sub_path p n) < tree_size (view w) p" for n u
        using less.hyps [OF that(3) below_step [OF p that(1)] sub_path_nul [OF nul that(1)] that(2)] .
      have "\<forall>n \<in> fst ` set es. \<not> dot_entry n \<longrightarrow> n \<in> children (view w) p" using es by blast
      from delete_loop [OF fs p nul call ok ex order_refl conjunct1 [OF es] this]
      obtain w1 where w1: "delete_run fs (Inr (p, es)) w = Some (True, w1)" "pruned root p (view w) (view w1)"
        "permitted p fs view \<longrightarrow>
          view w1 = (\<lambda>q. if \<exists>n \<in> fst ` set es. \<not> dot_entry n \<and> below (sub_path p n) q then None else view w q)" by blast
      have "delete_run fs (Inl p) w = Some (True, snd (fs_remove fs p w1))"
        using ex here type Some w1(1) by (simp add: delete_run.simps [of fs "Inl p"] c_str_id [OF nul])
      moreover have "pruned root p (view w) (view (snd (fs_remove fs p w1)))"
        by (rule pruned_trans [OF w1(2) remove_pruned [OF fs p prunedD(1) [OF w1(2)]]])
      moreover have "view (snd (fs_remove fs p w1)) = cut p (view w)" if "permitted p fs view"
        using delete_directory [OF fs p ok that conjunct2 [OF es] _ directory] w1(3) that by blast
      ultimately show ?thesis unfolding deletes_def by blast
    qed
  qed
qed

section \<open>A tree\<close>

text \<open>The file system as the list of its paths, each with whether it is a directory, in which a call of
  \<open>opendir\<close> or \<open>remove\<close> is allowed or not.\<close>

definition list_view :: "string \<Rightarrow> (string \<times> bool) list \<Rightarrow> tree" where
  "list_view root w p = (if below root p then map_option (\<lambda>b. if b then 0x41ED else 0x81A4) (map_of w p) else None)"

definition child_names :: "string \<Rightarrow> (string \<times> bool) list \<Rightarrow> string list" where
  "child_names p w = [drop (Suc (length p)) q. (q, b) \<leftarrow> w, take (Suc (length p)) q = p @ ''/'', file_name (drop (Suc (length p)) q)]"

definition list_fs :: "(string \<Rightarrow> bool) \<Rightarrow> (string \<times> bool) list fs" where
  "list_fs allowed = \<lparr>fs_stat = (\<lambda>p w. map_option (\<lambda>b. if b then 0x41ED else 0x81A4) (map_of w p)),
     fs_lstat = (\<lambda>p w. map_option (\<lambda>b. if b then 0x41ED else 0x81A4) (map_of w p)), fs_mkdir = (\<lambda>p w. (MkFail, w)),
     fs_unlink = (\<lambda>p w. (False, w)),
     fs_remove = (\<lambda>p w. if \<not> allowed p \<or> map_of w p = None \<or> map_of w p = Some True \<and> child_names p w \<noteq> [] then (False, w)
       else (True, filter (\<lambda>(q, b). q \<noteq> p) w)),
     fs_opendir = (\<lambda>p w. if allowed p \<and> map_of w p = Some True
       then Some (map (\<lambda>n. (n, 0)) (''.'' # ''..'' # remdups (child_names p w))) else None),
     fs_read = (\<lambda>p w. None), fs_write = (\<lambda>p s w. (False, w)), fs_system = (\<lambda>c w. (1, w))\<rparr>"

lemma child_names_children: "below root p \<Longrightarrow> set (child_names p w) = children (list_view root w) p"
proof (rule set_eqI)
  fix n
  assume p: "below root p"
  have sub: "(take (Suc (length p)) q = p @ ''/'' \<and> drop (Suc (length p)) q = n) = (q = sub_path p n)" for q
    by (auto simp: sub_path_def) (metis append.assoc append_Cons append_Nil append_take_drop_id)
  have "n \<in> set (child_names p w) \<longleftrightarrow> (\<exists>(q, b) \<in> set w. (take (Suc (length p)) q = p @ ''/'' \<and>
      drop (Suc (length p)) q = n) \<and> file_name n)"
    by (auto simp: child_names_def split: if_splits)
  also have "\<dots> \<longleftrightarrow> file_name n \<and> sub_path p n \<in> fst ` set w" unfolding sub by force
  also have "\<dots> \<longleftrightarrow> n \<in> children (list_view root w) p"
    using below_step [OF p, of n] map_of_eq_None_iff [of w "sub_path p n"] by (auto simp: children_def list_view_def)
  finally show "n \<in> set (child_names p w) \<longleftrightarrow> n \<in> children (list_view root w) p" .
qed

lemma is_dir_list: "is_dir (list_view root w) p \<longleftrightarrow> below root p \<and> map_of w p = Some True"
  by (auto simp: is_dir_def list_view_def S_ISDIR_def S_IFMT_def S_IFDIR_def split: if_splits)

lemma map_of_filter_other: "map_of (filter (\<lambda>(q, b). q \<noteq> p) w) = (map_of w)(p := None)"
  by (induction w) (auto simp: fun_eq_iff)

lemma list_view_removable:
  "below root p \<Longrightarrow> removable (list_view root w) p \<longleftrightarrow>
    map_of w p \<noteq> None \<and> \<not> (map_of w p = Some True \<and> child_names p w \<noteq> [])"
  by (auto simp: removable_def is_dir_list child_names_children [symmetric]) (auto simp: list_view_def)

lemma list_opendir:
  assumes p: "below root p" and es: "fs_opendir (list_fs allowed) p w = Some es"
  shows "distinct (map fst es) \<and> {n \<in> fst ` set es. \<not> dot_entry n} = children (list_view root w) p"
proof -
  have names: "\<not> dot_entry n" if "n \<in> set (child_names p w)" for n
    using that by (auto simp: child_names_def file_name_def split: if_splits)
  have dots: "dot_entry ''.''" "dot_entry ''..''" by (simp_all add: dot_entry_def)
  have es: "map fst es = ''.'' # ''..'' # remdups (child_names p w)"
    using es by (auto simp: list_fs_def comp_def split: if_splits)
  then have "fst ` set es = insert ''.'' (insert ''..'' (set (child_names p w)))"
    unfolding set_map [symmetric] by simp
  moreover have "''.'' \<notin> set (child_names p w)" "''..'' \<notin> set (child_names p w)" using names dots by blast+
  ultimately show ?thesis using names dots es child_names_children [OF p, of w] by auto
qed

lemma list_remove:
  assumes p: "below root p"
  shows "if fst (fs_remove (list_fs allowed) p w)
    then removable (list_view root w) p \<and> list_view root (snd (fs_remove (list_fs allowed) p w)) = (list_view root w)(p := None)
    else list_view root (snd (fs_remove (list_fs allowed) p w)) = list_view root w"
proof -
  have "list_view root (filter (\<lambda>(q, b). q \<noteq> p) w) = (list_view root w)(p := None)"
    by (simp add: list_view_def fun_eq_iff map_of_filter_other)
  then show ?thesis using list_view_removable [OF p, of w] by (simp add: list_fs_def)
qed

lemma list_tree_fs: "tree_fs root (list_fs allowed) (list_view root)"
proof -
  have "below root q" if "list_view root w q \<noteq> None" for w q using that by (simp add: list_view_def split: if_splits)
  moreover have "fs_stat (list_fs allowed) p w = list_view root w p \<and> fs_lstat (list_fs allowed) p w = list_view root w p"
    if "below root p" for p w using that by (simp add: list_fs_def list_view_def)
  moreover have "S_ISDIR m \<or> S_ISREG m" if "list_view root w p = Some m" for p w m
    using that by (auto simp: list_view_def S_ISDIR_def S_ISREG_def S_IFMT_def S_IFDIR_def S_IFREG_def split: if_splits)
  ultimately show ?thesis
    unfolding tree_fs_def using list_opendir [of root _ allowed] list_remove [of root _ allowed] by (intro conjI allI impI) simp_all
qed

lemma list_tree_ok: "\<forall>(q, b) \<in> set w. \<forall>d n. q = sub_path d n \<longrightarrow> file_name n \<longrightarrow> below root d \<longrightarrow> map_of w d = Some True \<Longrightarrow>
  tree_ok root (list_view root w)"
proof -
  assume w: "\<forall>(q, b) \<in> set w. \<forall>d n. q = sub_path d n \<longrightarrow> file_name n \<longrightarrow> below root d \<longrightarrow> map_of w d = Some True"
  have "finite (dom (list_view root w))"
    by (rule finite_subset [of _ "fst ` set w"]) (force simp: list_view_def dest: map_of_SomeD split: if_splits)+
  moreover have "is_dir (list_view root w) d" if "below root d" "file_name n" "list_view root w (sub_path d n) \<noteq> None" for d n
    using that w by (auto simp: is_dir_list list_view_def dest!: map_of_SomeD split: if_splits)
  ultimately show ?thesis by (simp add: tree_ok_def)
qed

section \<open>Deleting\<close>

text \<open>C22: \<open>deleteFile\<close> on a tree of regular files and directories, no links, devices or sockets, that the
  process may search and nobody else changes, with a path written with single slashes and without dot
  entries: the call always returns, whichever \<open>opendir\<close> and \<open>remove\<close> fail; it changes nothing of the
  tree but the path and what is below it, where it only removes; and if no call fails for want of a
  permission it returns true and the path and everything below it are gone.\<close>
theorem deleteFile_removes_tree:
  assumes "tree_fs root fs view" "tree_ok root (view w)" "below root p" "CHR 0x00 \<notin> set p"
  shows "\<exists>b w'. deleteFile fs p w = Some (b, w') \<and> tree_ok root (view w') \<and>
    (\<forall>q. view w' q = view w q \<or> below p q \<and> view w' q = None) \<and>
    (permitted p fs view \<longrightarrow> b \<and> (\<forall>q. view w' q = (if below p q then None else view w q)))"
  using delete_call [OF assms(1,3,4,2)] by (simp add: deleteFile_def deletes_def pruned_def cut_def fun_eq_iff)

definition sample_tree :: "(string \<times> bool) list" where
  "sample_tree = [(''/t'', True), (''/t/d'', True), (''/t/d/e'', True), (''/t/d/e/f'', False), (''/t/g'', False)]"

lemma sample_paths:
  "below ''/t'' ''/t''" "below ''/t'' ''/t/d''" "below ''/t'' ''/t/d/e''" "below ''/t'' ''/t/d/e/f''" "below ''/t'' ''/t/g''"
  "below ''/t/d'' ''/t/d/e/f''" "\<not> below ''/t/d'' ''/t/g''"
proof -
  have name: "file_name ''d''" "file_name ''e''" "file_name ''f''" "file_name ''g''" by (simp_all add: file_name_def dot_entry_def)
  have paths: "''/t/d'' = sub_path ''/t'' ''d''" "''/t/d/e'' = sub_path ''/t/d'' ''e''" "''/t/d/e/f'' = sub_path ''/t/d/e'' ''f''"
    "''/t/g'' = sub_path ''/t'' ''g''" by (simp_all add: sub_path_def)
  show t: "below ''/t'' ''/t''" by (rule below_refl)
  then show d: "below ''/t'' ''/t/d''" and "below ''/t'' ''/t/g''" using name unfolding paths(1,4) by (blast intro: below_step)+
  from d show e: "below ''/t'' ''/t/d/e''" using name unfolding paths(2) by (blast intro: below_step)
  then show "below ''/t'' ''/t/d/e/f''" using name unfolding paths(3) by (blast intro: below_step)
  have "below ''/t/d'' ''/t/d/e''" using name below_refl unfolding paths(2) by (blast intro: below_step)
  then show "below ''/t/d'' ''/t/d/e/f''" using name unfolding paths(3) by (blast intro: below_step)
  show "\<not> below ''/t/d'' ''/t/g''" by (auto dest: below_prefix)
qed

lemma sample_tree_ok: "tree_ok ''/t'' (list_view ''/t'' sample_tree)"
proof (rule list_tree_ok)
  have "\<not> below ''/t'' []" by (auto dest: below_prefix)
  then show "\<forall>(q, b) \<in> set sample_tree. \<forall>d n. q = sub_path d n \<longrightarrow> file_name n \<longrightarrow> below ''/t'' d \<longrightarrow>
      map_of sample_tree d = Some True"
    by (auto simp: sample_tree_def sub_path_def file_name_def append_eq_Cons_conv Cons_eq_append_conv)
qed

theorem deleteFile_removes_tree_witness:
  "\<exists>w'. deleteFile (list_fs (\<lambda>_. True)) ''/t/d'' sample_tree = Some (True, w') \<and>
     list_view ''/t'' w' ''/t/d/e/f'' = None \<and> list_view ''/t'' w' ''/t/g'' \<noteq> None"
proof -
  have "permitted ''/t/d'' (list_fs (\<lambda>_. True)) (list_view ''/t'')"
    using sample_paths(2) by (simp add: permitted_def below_trans list_view_removable) (simp add: list_fs_def is_dir_list)
  with deleteFile_removes_tree [OF list_tree_fs sample_tree_ok sample_paths(2), of "\<lambda>_. True"]
  obtain w' where w': "deleteFile (list_fs (\<lambda>_. True)) ''/t/d'' sample_tree = Some (True, w')"
    "\<forall>q. list_view ''/t'' w' q = (if below ''/t/d'' q then None else list_view ''/t'' sample_tree q)" by auto
  have "list_view ''/t'' sample_tree ''/t/g'' \<noteq> None" using sample_paths(5) by (simp add: list_view_def sample_tree_def)
  with w' sample_paths(6,7) show ?thesis by auto
qed

text \<open>The results of \<open>remove\<close> and of the recursive calls are ignored: when the process may list a directory but
  not remove its entries, \<open>deleteFile\<close> returns true and everything is still there.\<close>
theorem deleteFile_true_but_intact:
  "deleteFile ((list_fs (\<lambda>_. True))\<lparr>fs_remove := \<lambda>p w. (False, w)\<rparr>) ''/t/d/e'' sample_tree = Some (True, sample_tree)"
proof -
  let ?fs = "(list_fs (\<lambda>_. True))\<lparr>fs_remove := \<lambda>p w. (False, w)\<rparr>"
  note run = list_fs_def sample_tree_def pathExists_def getType_def c_str_id S_ISDIR_def S_ISREG_def S_IFMT_def S_IFDIR_def S_IFREG_def
    child_names_def file_name_def dot_entry_def sub_path_def
  have f: "delete_run ?fs (Inl ''/t/d/e/f'') sample_tree = Some (False, sample_tree)"
    by (simp add: delete_run.simps [of _ "Inl ''/t/d/e/f''"] run)
  have "delete_run ?fs (Inr (''/t/d/e'', [(''.'', 0), (''..'', 0), (''f'', 0)])) sample_tree = Some (True, sample_tree)"
    using f by (simp add: delete_run.simps [of _ "Inr (_, _ # _)"] delete_run.simps [of _ "Inr (_, [])"] run)
  then show ?thesis by (simp add: deleteFile_def delete_run.simps [of _ "Inl ''/t/d/e''"] run)
qed

end
