(* ===== verification/Spec2Isabelle.thy ===== *)
theory Spec2Isabelle
  imports Loop FdSafe MacroDef Module TimerRun ClientRun ConnName SerialSafe ADCSafe IOControl CLogSafe FileTree
begin

text \<open>
  A model of the C++ library \<open>gwcpp\<close> (directory \<open>src/gwcpp\<close>): byte buffers, text utilities and logging
  (\<open>base\<close>), descriptors, an epoll loop with timers and a thread pool (\<open>event\<close>), TCP clients and
  servers on that loop (\<open>net\<close>), and a serial port, an I2C converter and GPIO pins (\<open>device\<close>).

  \<^bold>\<open>Conventions.\<close> A class is a record, an operation a function from the state to a result:
  \<open>'a result\<close> is \<open>failure + 'a\<close>, where the failures are the exceptions of \<open>std::string\<close>, a failed
  \<open>assert\<close>, \<open>std::terminate\<close> and undefined behaviour (\<open>Prelude\<close>). An \<open>int32_t\<close> is an \<open>int\<close> whose range
  is checked where it may overflow, a \<open>size_t\<close> a \<open>nat\<close> with the wrap-around written out, bits are
  \<open>w word\<close>s. What the kernel or a library answers is an argument of the operation that asks; what is
  relied on of such an answer is a hypothesis of the theorem, as a named predicate (\<open>ads_device\<close>,
  \<open>mk_contract\<close>, \<open>tree_fs\<close>). Pointers to objects that are shared are indices into a list of the state.
  Output (bytes handed to the kernel, calls of user callbacks, \<open>epoll_ctl\<close> calls) is recorded in lists.

  \<^bold>\<open>Theories and code.\<close>

  \<^item> \<open>Prelude\<close>, \<open>StdString\<close>, \<open>Contracts\<close>: results, conversions, \<open>std::string\<close>, and the interfaces as
    locales: operations that keep an invariant, byte channels, codecs, queues. Each is interpreted on
    the definitions of the component that provides it.
  \<^item> \<open>ByteBufData\<close>, \<open>ByteBuf\<close> (\<open>base/ByteBuf.h\<close>, \<open>ByteBuf.cpp\<close>): the templates of \<open>ByteBufData\<close> and
    the public operations. \<open>ByteCodec\<close>, \<open>ByteBufRead\<close>, \<open>ByteBufWrite\<close> and \<open>ByteBufText\<close> hold what they
    do: the values that are read against a reference for each byte order, messages that come back as
    they were written, the indices, searching and hexadecimal text.
  \<^item> \<open>Utils\<close>, \<open>UtilsText\<close> (\<open>base/Utils.h\<close>, \<open>Utils.cpp\<close>): number formatting and the splitting functions,
    with reference definitions and the arguments on which they do not return.
  \<^item> \<open>LogStream\<close> (\<open>base/LogStream.h\<close>, \<open>.cpp\<close>), \<open>CLog\<close>, \<open>CLogSafe\<close>, \<open>CLogDate\<close> (\<open>base/CLog.h\<close>, \<open>CLog.cpp\<close>):
    the fixed buffer, the operators that never leave it, the lines that are logged and their times.
  \<^item> \<open>FileHelper\<close>, \<open>FileSafe\<close>, \<open>FileTree\<close> (\<open>base/FileHelper.h\<close>, \<open>.cpp\<close>): path functions, directories,
    and the removal of a tree when calls may fail.
  \<^item> \<open>MacroDef\<close> (\<open>base/MacroDef.h\<close>) and \<open>Module\<close> (\<open>base/Module.h\<close>): the macros that release a resource, the
    singleton, and the base class of modules.
  \<^item> \<open>SafeQueue\<close>, \<open>ThreadPool\<close>, \<open>ThreadPoolSafe\<close> (\<open>base/SafeQueue.h\<close>, \<open>event/ThreadPool.h\<close>): a
    transition system whose steps are the lock and condition variable operations of workers, their calls of
    the tasks, \<open>submit\<close> and \<open>shutdown\<close>; mutual exclusion, the order in which tasks are taken and that none is
    lost or run twice, lost wake-ups.
  \<^item> \<open>Fd\<close>, \<open>FdSafe\<close> (\<open>event/Fd.h\<close>, \<open>Fd.cpp\<close>, the move macro of \<open>base/MacroDef.h\<close>): shared records in an
    explicit store with their reference counts; which descriptors are closed, each exactly once.
  \<^item> \<open>Poller\<close>, \<open>PollerSafe\<close> (\<open>event/EpollFdEvent.h\<close>, \<open>.cpp\<close>, \<open>Poller.h\<close>, \<open>.cpp\<close>, \<open>Event.h\<close>): event
    objects, the poller's map and the interest list of the kernel. \<open>poller_inv\<close> ties them together; the
    states of \<open>net\<close>, \<open>connector\<close>, \<open>tcp_client\<close>, \<open>acceptor\<close> and \<open>serial\<close> extend the record \<open>poller\<close>, so
    that its lemmas hold for all of them. \<open>PollerView\<close> carries the operations over to a state that has a
    poller in another place.
  \<^item> \<open>Loop\<close> (\<open>event/Loop.h\<close>, \<open>.cpp\<close>) and \<open>Timer\<close>, \<open>TimerRun\<close> (\<open>event/Timer.h\<close>, \<open>.cpp\<close>): the task queue and
    the turns of the loop; the timer's state, the arithmetic of its times, and a timer on its loop: how
    often the callback runs.
  \<^item> \<open>Address\<close>, \<open>Socket\<close> (\<open>net/Address.h\<close>, \<open>.cpp\<close>, \<open>net/Socket.h\<close>, \<open>.cpp\<close>).
  \<^item> \<open>TcpConnection\<close> (\<open>net/TcpConnection.h\<close>, \<open>.cpp\<close>, \<open>TcpServer.h\<close>, \<open>.cpp\<close>), \<open>TcpStream\<close>, \<open>TcpLife\<close>,
    \<open>ServerRun\<close>: a connection as a byte stream, its end, and the invariant of a server under every
    interleaving of accepts, reads, writes, closes and queued tasks, where connections are never destroyed.
  \<^item> \<open>ServerLoop\<close>, \<open>ServerFrame\<close>, \<open>ServerLoopSafe\<close>: a \<open>TcpServer\<close> on its \<open>Loop\<close>, turn by turn: what a callback
    changes, the invariant between two turns, and two races that end the program. \<open>ServerLife\<close>: the lifetimes of
    connections; with one client at a time and the reports that a TCP socket makes, every turn succeeds,
    uses no destroyed object, and \<open>runLoop\<close> serves for ever; a second client ends the program.
    \<open>ServerAnswers\<close>: the bytes that such a server passes to \<open>::send\<close> for a client are the answers to what it
    received, in order; what \<open>::send\<close> does not accept is lost, and is not covered.
  \<^item> \<open>Connector\<close>, \<open>TcpClient\<close>, \<open>ClientLife\<close> and \<open>Acceptor\<close>, \<open>AcceptorLife\<close> (\<open>net/\<close>, the classes of those
    names and \<open>TcpServer::start\<close>): connecting, reconnecting, listening, and where events are lost.
    \<open>ClientLoop\<close>, \<open>ClientRun\<close>: a \<open>TcpClient\<close> on its \<open>Loop\<close>, from \<open>start\<close> to the end of its connection: the
    states it goes through, that turns with the reports of a TCP socket succeed, and that what the user sends
    is passed to \<open>::send\<close> in order. Its connection
    keeps the invariant of a server's, so the lemmas of the server's operations are used again.
    \<open>ConnName\<close>: the names that both give their connections.
  \<^item> \<open>Uart\<close>, \<open>UartSafe\<close>, \<open>SerialDevice\<close>, \<open>SerialSafe\<close> (\<open>device/SerialDevice.h\<close>, \<open>.cpp\<close>, \<open>IODevice.h\<close>):
    the terminal flags, and a serial port over a poller and two buffers.
  \<^item> \<open>ADCDevice\<close>, \<open>ADCSafe\<close> (\<open>device/ADCDevice.h\<close>, \<open>.cpp\<close>) and \<open>IOControl\<close> (\<open>device/IOControl.h\<close>).

  \<^bold>\<open>How the parts interact.\<close> A \<open>TcpServer\<close> gets its sockets from an \<open>Acceptor\<close>, a \<open>TcpClient\<close> from a
  \<open>Connector\<close>; both make a \<open>TcpConnection\<close> over two \<open>ByteBuf\<close>s, whose event the \<open>Poller\<close> dispatches, and
  leave work for the loop in its task queue. The callbacks are the function arguments of the dispatching
  operations. \<open>server_turn\<close> is the composition for a server (and \<open>client_turn\<close> that for a client): one turn of \<open>runLoop\<close> polls, runs the first
  queued task and dispatches the reported events to the handlers of the acceptor and of the connections,
  whose own callbacks are \<open>newConnection\<close>, \<open>removeConnection\<close> and a receive callback of the user that may
  send and disconnect (\<open>turn_in\<close>: everything that comes from outside in a turn). The other callbacks of the
  user are recorded. The log composes its lines on a \<open>LogStream\<close>.

  \<^bold>\<open>Bounds and termination.\<close> No definition has fuel. Loops are structural or have a measure; those that
  may not end (\<open>runLoop\<close>, the splitting functions, \<open>deleteFile\<close> and \<open>copyDir\<close>) are partial functions into
  \<open>option\<close>, and theorems say when they return. A loop over what the kernel delivers takes the list of its
  answers. Theorems on buffers bound the bytes by \<open>2 ^ 31\<close>, the range of the indices; those on text bound
  lengths by the range of \<open>size_t\<close>.

  \<^bold>\<open>Not modelled.\<close> Threads other than those of the pool: the classes of \<open>net\<close> and \<open>device\<close> run on the thread
  of their loop. A user who keeps a \<open>shared_ptr\<close> to a connection (\<open>ServerLife\<close> destroys a connection with
  its last reference in the library; the connector, the client and the serial port record the events they
  destroy). Callbacks of the user other than the receive callback do nothing. Floating point
  arithmetic: a \<open>float\<close> or \<open>double\<close> is its bytes, its text or a parameter. The casts of
  \<open>base/Utils.h\<close> and the type traits of \<open>base/MacroDef.h\<close> only forward to the language or a library; setters that store a callback, and
  getters, appear as the fields of the records.
\<close>

end
